(* ===== verification/Prelude.thy ===== *)
theory Prelude
  imports Main "HOL-Library.Monad_Syntax" "HOL-Library.Multiset" "HOL-Library.Word"
begin

text \<open>
  Shared vocabulary of the development: how Go's built-in types are written in HOL, the
  loop combinator that counting \<^verbatim>\<open>for\<close> loops translate to, and the generic lemmas on
  lists, association lists and loops that the component theories use.

  \<^item> A Go \<^verbatim>\<open>int\<close> is an \<^typ>\<open>int\<close> kept in the 64-bit range by \<open>wrap64\<close> wherever the code
    adds to it; lengths and loop counters are \<^typ>\<open>nat\<close>.
  \<^item> A slice that the code compares with \<^verbatim>\<open>nil\<close> is a value of the type \<open>slice\<close>, which
    keeps \<^verbatim>\<open>nil\<close> apart from an empty slice.
  \<^item> A \<^verbatim>\<open>map[K]V\<close> is an association list with distinct keys. Go iterates over a map in an
    unspecified order, so every function with a \<^verbatim>\<open>range\<close> over a map takes the order as part
    of the run-time environment \<open>go_env\<close>, which also holds the clock.
  \<^item> A run-time panic of pure code (an index out of range) is \<^const>\<open>None\<close>.
\<close>

named_theorems go_simps \<open>unfolding rules for the small Go helpers\<close>
named_theorems inv_intros \<open>preservation lemmas of the component invariants\<close>

section \<open>Built-in types\<close>

text \<open>Two's complement wrap-around of Go's 64-bit \<^verbatim>\<open>int\<close>.\<close>

definition wrap64 :: "int \<Rightarrow> int" where
  "wrap64 x = (x + 2 ^ 63) mod 2 ^ 64 - 2 ^ 63"

definition in_int64 :: "int \<Rightarrow> bool" where
  "in_int64 x \<longleftrightarrow> - (2 ^ 63) \<le> x \<and> x < 2 ^ 63"

text \<open>Times are nanoseconds since the Unix epoch; the zero \<^verbatim>\<open>time.Time\<close> is the start of the year 1.\<close>

definition zero_time :: int where
  "zero_time = - 62135596800000000000"

text \<open>A slice: \<^verbatim>\<open>nil\<close>, or a backing list.\<close>

datatype 'a slice = SNil | SList "'a list"

fun elems :: "'a slice \<Rightarrow> 'a list" where
  "elems SNil = []"
| "elems (SList xs) = xs"

text \<open>Maps with the operations of Go: lookup, assignment, \<^verbatim>\<open>delete\<close>, \<^verbatim>\<open>len\<close>.\<close>

type_synonym ('k, 'v) gomap = "('k \<times> 'v) list"

fun mput :: "'k \<Rightarrow> 'v \<Rightarrow> ('k, 'v) gomap \<Rightarrow> ('k, 'v) gomap" where
  "mput k v [] = [(k, v)]"
| "mput k v ((k', v') # m) = (if k = k' then (k, v) # m else (k', v') # mput k v m)"

fun mdelete :: "'k \<Rightarrow> ('k, 'v) gomap \<Rightarrow> ('k, 'v) gomap" where
  "mdelete k [] = []"
| "mdelete k ((k', v') # m) = (if k = k' then mdelete k m else (k', v') # mdelete k m)"

abbreviation mget :: "('k, 'v) gomap \<Rightarrow> 'k \<Rightarrow> 'v option" where
  "mget \<equiv> map_of"

abbreviation keys :: "('k, 'v) gomap \<Rightarrow> 'k list" where
  "keys \<equiv> map fst"

definition gomap_inv :: "('k, 'v) gomap \<Rightarrow> bool" where
  "gomap_inv m \<longleftrightarrow> distinct (keys m)"

text \<open>
  The run-time environment of one handler call: the clock reading, and the order in which
  a \<^verbatim>\<open>range\<close> over a map with string keys visits the keys.
\<close>

record go_env =
  now :: int
  iter :: "string list \<Rightarrow> string list"

definition env_ok :: "go_env \<Rightarrow> bool" where
  "env_ok e \<longleftrightarrow> (\<forall>ks. mset (iter e ks) = mset ks)"

section \<open>Loops\<close>

text \<open>
  \<open>for_upto n f s\<close> is \<^verbatim>\<open>for i := 0; i < n; i++ { s = f(i, s) }\<close>; a panic of the body ends it.
\<close>

primrec for_upto :: "nat \<Rightarrow> (nat \<Rightarrow> 's \<Rightarrow> 's option) \<Rightarrow> 's \<Rightarrow> 's option" where
  "for_upto 0 f s = Some s"
| "for_upto (Suc n) f s = Option.bind (for_upto n f s) (f n)"

text \<open>Indexing \<^verbatim>\<open>xs[i]\<close> and the assignment \<^verbatim>\<open>xs[i] = v\<close>, both of which panic out of range.\<close>

definition idx :: "'a list \<Rightarrow> nat \<Rightarrow> 'a option" where
  "idx xs i = (if i < length xs then Some (xs ! i) else None)"

definition upd :: "'a list \<Rightarrow> nat \<Rightarrow> 'a \<Rightarrow> 'a list option" where
  "upd xs i v = (if i < length xs then Some (xs[i := v]) else None)"

section \<open>Runs of a labelled step relation\<close>

inductive lrun :: "('q \<Rightarrow> 'e \<Rightarrow> 'q \<Rightarrow> bool) \<Rightarrow> 'q \<Rightarrow> 'e list \<Rightarrow> 'q \<Rightarrow> bool" for stp where
  lrun_nil: "lrun stp q [] q"
| lrun_snoc: "lrun stp q es q' \<Longrightarrow> stp q' e q'' \<Longrightarrow> lrun stp q (es @ [e]) q''"

section \<open>Lemmas\<close>

lemma lrun_inv:
  assumes "lrun stp q es q'" "I q" "\<And>q e q'. stp q e q' \<Longrightarrow> I q \<Longrightarrow> I q'"
  shows "I q'"
  using assms by (induction rule: lrun.induct) blast+

lemma lrun_one: "stp q e q' \<Longrightarrow> lrun stp q [e] q'"
  using lrun_snoc [OF lrun_nil] by fastforce

lemma lrun_append: "lrun stp q' es' q'' \<Longrightarrow> lrun stp q es q' \<Longrightarrow> lrun stp q (es @ es') q''"
proof (induction rule: lrun.induct)
  case (lrun_nil q)
  then show ?case by simp
next
  case (lrun_snoc q1 es' q2 e q3)
  then have "lrun stp q ((es @ es') @ [e]) q3" by (blast intro: lrun.lrun_snoc)
  then show ?case by simp
qed

lemma lrun_Cons: "stp q e q' \<Longrightarrow> lrun stp q' es q'' \<Longrightarrow> lrun stp q (e # es) q''"
  using lrun_append [OF _ lrun_one] by fastforce

lemma wrap64_id [simp]: "in_int64 x \<Longrightarrow> wrap64 x = x"
  by (simp add: wrap64_def in_int64_def)

lemma in_int64_wrap64 [simp]: "in_int64 (wrap64 x)"
  using pos_mod_bound [of "2 ^ 64 :: int" "x + 2 ^ 63"]
    pos_mod_sign [of "2 ^ 64 :: int" "x + 2 ^ 63"]
  by (simp add: in_int64_def wrap64_def)

lemma idx_Some [go_simps]: "i < length xs \<Longrightarrow> idx xs i = Some (xs ! i)"
  by (simp add: idx_def)

lemma idx_None [go_simps]: "length xs \<le> i \<Longrightarrow> idx xs i = None"
  by (simp add: idx_def)

lemma upd_Some [go_simps]: "i < length xs \<Longrightarrow> upd xs i v = Some (xs[i := v])"
  by (simp add: upd_def)

subsection \<open>Maps\<close>

lemma mget_mput [simp]: "mget (mput k v m) = (mget m)(k \<mapsto> v)"
  by (induction m) (auto simp: fun_eq_iff)

lemma keys_mput [simp]: "fst ` set (mput k v m) = insert k (fst ` set m)"
  by (induction k v m rule: mput.induct) auto

lemma mget_mdelete [simp]: "mget (mdelete k m) = (mget m)(k := None)"
  by (induction m) (auto simp: fun_eq_iff)

lemma keys_mdelete [simp]: "fst ` set (mdelete k m) = fst ` set m - {k}"
  by (induction k m rule: mdelete.induct) auto

lemma distinct_keys_mput: "distinct (keys m) \<Longrightarrow> distinct (keys (mput k v m))"
  by (induction k v m rule: mput.induct) auto

lemma distinct_keys_mdelete: "distinct (keys m) \<Longrightarrow> distinct (keys (mdelete k m))"
  by (induction k m rule: mdelete.induct) auto

lemma gomap_inv_Nil [simp, inv_intros]: "gomap_inv []"
  by (simp add: gomap_inv_def)

lemma gomap_inv_mput [simp, inv_intros]: "gomap_inv m \<Longrightarrow> gomap_inv (mput k v m)"
  by (simp add: gomap_inv_def distinct_keys_mput del: distinct_map)

lemma gomap_inv_mdelete [simp, inv_intros]: "gomap_inv m \<Longrightarrow> gomap_inv (mdelete k m)"
  by (simp add: gomap_inv_def distinct_keys_mdelete)

lemma length_mput:
  "length (mput k v m) = (if k \<in> fst ` set m then length m else Suc (length m))"
  by (induction k v m rule: mput.induct) auto

lemma mget_eq_None_iff: "mget m k = None \<longleftrightarrow> k \<notin> fst ` set m"
  by (induction m) auto

lemma env_ok_set [simp]: "env_ok e \<Longrightarrow> set (iter e ks) = set ks"
  by (metis env_ok_def set_mset_mset)

lemma env_ok_length [simp]: "env_ok e \<Longrightarrow> length (iter e ks) = length ks"
  by (metis env_ok_def size_mset)

lemma env_ok_distinct [simp]: "env_ok e \<Longrightarrow> distinct (iter e ks) = distinct ks"
  by (metis env_ok_def mset_eq_imp_distinct_iff)

subsection \<open>Loops\<close>

text \<open>The loop rule: an invariant that each iteration keeps holds of the result, and the
  loop returns.\<close>

lemma for_upto_rule:
  assumes "I 0 s"
    and "\<And>i s. i < n \<Longrightarrow> I i s \<Longrightarrow> \<exists>s'. f i s = Some s' \<and> I (Suc i) s'"
  shows "\<exists>s'. for_upto n f s = Some s' \<and> I n s'"
  using assms
proof (induction n)
  case 0
  then show ?case by simp
next
  case (Suc n)
  then obtain s' where "for_upto n f s = Some s'" "I n s'"
    by (metis less_Suc_eq)
  moreover from this Suc.prems(2) [of n s'] obtain s'' where "f n s' = Some s''" "I (Suc n) s''"
    by auto
  ultimately show ?case by simp
qed

lemma for_upto_cong [fundef_cong]:
  assumes "n = n'" "s = s'" "\<And>i s. i < n' \<Longrightarrow> f i s = f' i s"
  shows "for_upto n f s = for_upto n' f' s'"
  using assms
proof (induction n arbitrary: n')
  case 0
  then show ?case by auto
next
  case (Suc n)
  then show ?case by (cases n') (auto split: bind_split)
qed

text \<open>A loop whose body adds to an accumulator computes a left-to-right fold.\<close>

lemma for_upto_total:
  assumes "\<And>i s. i < n \<Longrightarrow> f i s = Some (g i s)"
  shows "for_upto n f s = Some (fold g [0..<n] s)"
  using assms by (induction n) auto

lemma for_upto_None:
  assumes "i < n" "\<And>s. f i s = None"
  shows "for_upto n f s = None"
  using assms
proof (induction n)
  case 0
  then show ?case by simp
next
  case (Suc n)
  then show ?case by (cases "i = n") (auto simp: less_Suc_eq split: bind_split)
qed

text \<open>
  A loop that rewrites each element of an array in turn, possibly reading the old value of
  that element, is a map over the array.
\<close>

lemma fold_list_update:
  "m \<le> length a \<Longrightarrow> fold (\<lambda>i a. a[i := f i (a ! i)]) [0..<m] a
     = map (\<lambda>i. f i (a ! i)) [0..<m] @ drop m a"
proof (induction m)
  case 0
  then show ?case by simp
next
  case (Suc m)
  then show ?case
    by (simp add: nth_append list_update_append Cons_nth_drop_Suc [symmetric])
qed

lemma for_upto_pointwise:
  assumes "\<And>i b. i < n \<Longrightarrow> length b = n \<Longrightarrow> body i b = Some (b[i := f i (b ! i)])"
    and "length a = n"
  shows "for_upto n body a = Some (map (\<lambda>i. f i (a ! i)) [0..<n])"
proof -
  have "\<exists>s'. for_upto n body a = Some s' \<and> s' = fold (\<lambda>i a. a[i := f i (a ! i)]) [0..<n] a"
  proof (rule for_upto_rule)
    fix i s assume i: "i < n" and s: "s = fold (\<lambda>i a. a[i := f i (a ! i)]) [0..<i] a"
    have "length s = n" using s i assms(2) by (simp add: fold_list_update)
    with i s assms(1) show "\<exists>s'. body i s = Some s'
        \<and> s' = fold (\<lambda>i a. a[i := f i (a ! i)]) [0..<Suc i] a" by simp
  qed simp
  with assms(2) show ?thesis by (simp add: fold_list_update)
qed

text \<open>The same for an array that holds \<open>r\<close> rows of \<open>c\<close> elements, rewritten by nested loops.\<close>

lemma row_index: "i < r \<Longrightarrow> j < c \<Longrightarrow> i * c + j < r * (c::nat)"
  by (metis add.commute less_mult_imp_div_less mult.commute nat_mult_less_cancel_disj add_less_cancel_left
      Suc_leI mult_Suc mult_le_mono1 order_less_le_trans)

lemma for_upto_rows:
  assumes body: "\<And>i j b. i < r \<Longrightarrow> j < c \<Longrightarrow> length b = r * c \<Longrightarrow>
      body i j b = Some (b[i * c + j := f i j (b ! (i * c + j))])"
    and len: "length a = r * c"
  shows "for_upto r (\<lambda>i. for_upto c (body i)) a
    = Some (map (\<lambda>k. f (k div c) (k mod c) (a ! k)) [0..<r * c])"
proof -
  define upto where "upto p s \<longleftrightarrow> length s = r * c \<and>
    (\<forall>k<r * c. s ! k = (if k < p then f (k div c) (k mod c) (a ! k) else a ! k))" for p s
  have cell: "\<exists>s'. body i j s = Some s' \<and> upto (i * c + Suc j) s'"
    if "i < r" "j < c" "upto (i * c + j) s" for i j s
    using that body [of i j s] row_index [of i r j c] by (auto simp: upto_def nth_list_update)
  have row: "\<exists>s'. for_upto c (body i) s = Some s' \<and> upto (Suc i * c) s'"
    if "i < r" "upto (i * c) s" for i s
    using for_upto_rule [where I = "\<lambda>j. upto (i * c + j)" and f = "body i" and n = c and s = s]
      that cell by (simp add: add.commute)
  have "\<exists>s'. for_upto r (\<lambda>i. for_upto c (body i)) a = Some s' \<and> upto (r * c) s'"
    using for_upto_rule [where I = "\<lambda>i. upto (i * c)" and s = a and n = r] row len
    by (simp add: upto_def)
  then show ?thesis by (auto simp: upto_def intro!: nth_equalityI)
qed

end
