(* ===== verification/GoFloat.thy ===== *)
theory GoFloat
  imports Prelude Complex_Main
begin

text \<open>
  Go's \<^verbatim>\<open>float64\<close>: IEEE 754 binary64 values with round-to-nearest-even arithmetic.

  A value is a NaN, a signed infinity, a signed zero or a non-zero rational. Each
  operation computes the exact rational result and rounds it with \<open>rnd\<close>, which is what the
  standard prescribes for \<open>+\<close>, \<open>-\<close>, \<open>*\<close>, \<open>/\<close> and the square root; NaN payloads are not
  distinguished. The operators are the HOL operators through instances of the syntactic
  type classes (which carry no laws), so numerical code is written once, polymorphically,
  and read both at \<^verbatim>\<open>f64\<close> (what the program runs) and at an ordered field (the
  mathematical function it approximates). Literals enter through \<open>lit\<close>.

  The lemmas show that rounding is monotone and fixes the sign, which is what the bounds
  on features, metrics and targets need.
\<close>

datatype f64 = FNaN | FInf bool | FZero bool | FNum rat

section \<open>Rounding\<close>

text \<open>The bit length of an integer, and the binary exponent of a positive rational.\<close>

function blen :: "int \<Rightarrow> int" where
  "blen n = (if n \<le> 0 then 0 else blen (n div 2) + 1)"
  by pat_completeness auto
termination
  by (relation "measure nat") auto

declare blen.simps [simp del]

definition flog2 :: "rat \<Rightarrow> int" where
  "flog2 a = (if 1 \<le> a then blen \<lfloor>a\<rfloor> - 1 else - blen (\<lceil>1 / a\<rceil> - 1))"

text \<open>Nearest integer, ties to even.\<close>

definition rhe :: "rat \<Rightarrow> int" where
  "rhe x = (let f = \<lfloor>x\<rfloor>; d = x - of_int f
    in if d < 1 / 2 then f else if d > 1 / 2 then f + 1 else if even f then f else f + 1)"

text \<open>The exponent of the last place: 53 significant bits, subnormals below 2 to the -1022.\<close>

definition ulp_exp :: "rat \<Rightarrow> int" where
  "ulp_exp a = max (flog2 a) (- 1022) - 52"

definition rnd_abs :: "rat \<Rightarrow> rat" where
  "rnd_abs a = of_int (rhe (a / 2 powi ulp_exp a)) * 2 powi ulp_exp a"

text \<open>\<open>rnd s q\<close> rounds \<open>q\<close>; an exact zero gets the sign \<open>s\<close>.\<close>

definition rnd :: "bool \<Rightarrow> rat \<Rightarrow> f64" where
  "rnd s q = (if q = 0 then FZero s
    else let v = rnd_abs \<bar>q\<bar>
      in if v = 0 then FZero (q < 0)
        else if 2 ^ 1024 \<le> v then FInf (q < 0)
        else FNum (if q < 0 then - v else v))"

definition lit :: "rat \<Rightarrow> f64" where
  "lit q = rnd False q"

section \<open>Arithmetic and comparison\<close>

fun neg :: "f64 \<Rightarrow> bool" where
  "neg FNaN = False"
| "neg (FInf s) = s"
| "neg (FZero s) = s"
| "neg (FNum q) = (q < 0)"

fun val :: "f64 \<Rightarrow> rat" where
  "val (FNum q) = q"
| "val _ = 0"

fun fadd :: "f64 \<Rightarrow> f64 \<Rightarrow> f64" where
  "fadd FNaN y = FNaN"
| "fadd x FNaN = FNaN"
| "fadd (FInf a) (FInf b) = (if a = b then FInf a else FNaN)"
| "fadd (FInf a) y = FInf a"
| "fadd x (FInf b) = FInf b"
| "fadd x y = rnd (neg x \<and> neg y) (val x + val y)"

fun fneg :: "f64 \<Rightarrow> f64" where
  "fneg FNaN = FNaN"
| "fneg (FInf a) = FInf (\<not> a)"
| "fneg (FZero a) = FZero (\<not> a)"
| "fneg (FNum q) = FNum (- q)"

fun fmul :: "f64 \<Rightarrow> f64 \<Rightarrow> f64" where
  "fmul FNaN y = FNaN"
| "fmul x FNaN = FNaN"
| "fmul (FInf a) (FZero b) = FNaN"
| "fmul (FZero a) (FInf b) = FNaN"
| "fmul (FInf a) y = FInf (a \<noteq> neg y)"
| "fmul x (FInf b) = FInf (neg x \<noteq> b)"
| "fmul x y = rnd (neg x \<noteq> neg y) (val x * val y)"

fun fdiv :: "f64 \<Rightarrow> f64 \<Rightarrow> f64" where
  "fdiv FNaN y = FNaN"
| "fdiv x FNaN = FNaN"
| "fdiv (FInf a) (FInf b) = FNaN"
| "fdiv (FInf a) y = FInf (a \<noteq> neg y)"
| "fdiv x (FInf b) = FZero (neg x \<noteq> b)"
| "fdiv (FZero a) (FZero b) = FNaN"
| "fdiv x (FZero b) = FInf (neg x \<noteq> b)"
| "fdiv x y = rnd (neg x \<noteq> neg y) (val x / val y)"

fun flt :: "f64 \<Rightarrow> f64 \<Rightarrow> bool" where
  "flt FNaN y = False"
| "flt x FNaN = False"
| "flt (FInf a) (FInf b) = (a \<and> \<not> b)"
| "flt (FInf a) y = a"
| "flt x (FInf b) = (\<not> b)"
| "flt x y = (val x < val y)"

fun fle :: "f64 \<Rightarrow> f64 \<Rightarrow> bool" where
  "fle FNaN y = False"
| "fle x FNaN = False"
| "fle (FInf a) (FInf b) = (a \<or> \<not> b)"
| "fle (FInf a) y = a"
| "fle x (FInf b) = (\<not> b)"
| "fle x y = (val x \<le> val y)"

instantiation f64 :: "{zero, one, plus, minus, uminus, times, inverse, ord}"
begin

definition zero_f64 :: f64 where "zero_f64 = FZero False"
definition one_f64 :: f64 where "one_f64 = FNum 1"
definition plus_f64 :: "f64 \<Rightarrow> f64 \<Rightarrow> f64" where "plus_f64 = fadd"
definition uminus_f64 :: "f64 \<Rightarrow> f64" where "uminus_f64 = fneg"
definition minus_f64 :: "f64 \<Rightarrow> f64 \<Rightarrow> f64" where "minus_f64 x y = fadd x (fneg y)"
definition times_f64 :: "f64 \<Rightarrow> f64 \<Rightarrow> f64" where "times_f64 = fmul"
definition divide_f64 :: "f64 \<Rightarrow> f64 \<Rightarrow> f64" where "divide_f64 = fdiv"
definition inverse_f64 :: "f64 \<Rightarrow> f64" where "inverse_f64 x = fdiv (FNum 1) x"
definition less_f64 :: "f64 \<Rightarrow> f64 \<Rightarrow> bool" where "less_f64 = flt"
definition less_eq_f64 :: "f64 \<Rightarrow> f64 \<Rightarrow> bool" where "less_eq_f64 = fle"

instance ..

end

lemmas f64_ops [go_simps] = zero_f64_def one_f64_def plus_f64_def uminus_f64_def
  minus_f64_def times_f64_def divide_f64_def inverse_f64_def less_f64_def less_eq_f64_def

section \<open>Standard library functions\<close>

text \<open>\<^verbatim>\<open>math.IsNaN\<close> and \<^verbatim>\<open>math.IsInf(x, 0)\<close>.\<close>

fun IsNaN :: "f64 \<Rightarrow> bool" where
  "IsNaN FNaN = True"
| "IsNaN _ = False"

fun IsInf :: "f64 \<Rightarrow> bool" where
  "IsInf (FInf s) = True"
| "IsInf _ = False"

definition finite_f64 :: "f64 \<Rightarrow> bool" where
  "finite_f64 x \<longleftrightarrow> \<not> IsNaN x \<and> \<not> IsInf x"

text \<open>The conversion \<^verbatim>\<open>float64(n)\<close> of an integer.\<close>

definition of_goint :: "int \<Rightarrow> f64" where
  "of_goint n = lit (of_int n)"

text \<open>
  The conversion \<^verbatim>\<open>int64(x)\<close>: truncation towards zero. Out of range the language leaves the
  result to the implementation; this is what the amd64 instruction delivers.
\<close>

definition trunc_rat :: "rat \<Rightarrow> int" where
  "trunc_rat q = (if q < 0 then - \<lfloor>- q\<rfloor> else \<lfloor>q\<rfloor>)"

fun to_int64 :: "f64 \<Rightarrow> int" where
  "to_int64 (FZero s) = 0"
| "to_int64 (FNum q) = (if in_int64 (trunc_rat q) then trunc_rat q else - (2 ^ 63))"
| "to_int64 _ = - (2 ^ 63)"

text \<open>\<^verbatim>\<open>math.Abs\<close>; \<^verbatim>\<open>math.Round\<close> rounds half away from zero.\<close>

fun Abs :: "f64 \<Rightarrow> f64" where
  "Abs FNaN = FNaN"
| "Abs (FInf s) = FInf False"
| "Abs (FZero s) = FZero False"
| "Abs (FNum q) = FNum \<bar>q\<bar>"

fun Round :: "f64 \<Rightarrow> f64" where
  "Round (FNum q) = (let n = \<lfloor>\<bar>q\<bar> + 1 / 2\<rfloor>
     in if n = 0 then FZero (q < 0) else FNum (if q < 0 then - of_int n else of_int n))"
| "Round x = x"

text \<open>
  \<^verbatim>\<open>math.Sqrt\<close>: the correctly rounded root. The integer root of the argument scaled to more
  than 110 bits has more than 54 bits, so adding a half when it is inexact puts the value on the
  right side of every rounding boundary.
\<close>

function isqrt :: "int \<Rightarrow> int" where
  "isqrt n = (if n \<le> 0 then 0
     else let r = 2 * isqrt (n div 4) in if (r + 1) * (r + 1) \<le> n then r + 1 else r)"
  by pat_completeness auto
termination
  by (relation "measure nat") auto

declare isqrt.simps [simp del]

fun Sqrt :: "f64 \<Rightarrow> f64" where
  "Sqrt FNaN = FNaN"
| "Sqrt (FZero s) = FZero s"
| "Sqrt (FInf s) = (if s then FNaN else FInf False)"
| "Sqrt (FNum q) = (if q < 0 then FNaN
     else let k = 56 - flog2 q div 2; x = q * 2 powi (2 * k); n = isqrt \<lfloor>x\<rfloor>;
            sticky = (if of_int n * of_int n = x then 0 else 1)
       in rnd False (of_int (2 * n + sticky) / (2 * 2 powi k)))"

text \<open>
  \<^verbatim>\<open>math.Frexp\<close> and \<^verbatim>\<open>math.Ldexp\<close>, and \<^verbatim>\<open>math.Pow(x, y)\<close> at an integral exponent: the special
  cases of the library's documentation, then its loop over the bits of \<open>\<bar>y\<bar>\<close>, which multiplies mantissas
  and adds exponents and gives up once an exponent exceeds 4096 in size.
\<close>

fun Frexp :: "f64 \<Rightarrow> f64 \<times> int" where
  "Frexp (FNum q) = (let e = flog2 \<bar>q\<bar> + 1 in (FNum (q / 2 powi e), e))"
| "Frexp x = (x, 0)"

fun Ldexp :: "f64 \<Rightarrow> int \<Rightarrow> f64" where
  "Ldexp (FNum q) e = rnd (q < 0) (q * 2 powi e)"
| "Ldexp x e = x"

function pow_loop :: "int \<Rightarrow> f64 \<Rightarrow> int \<Rightarrow> f64 \<Rightarrow> int \<Rightarrow> f64 \<times> int" where
  "pow_loop i x1 xe a1 ae =
    (if i \<le> 0 then (a1, ae)
     else if xe < - 4096 \<or> 4096 < xe then (a1, ae + xe)
     else let (a1, ae) = (if i mod 2 = 1 then (a1 * x1, ae + xe) else (a1, ae));
              (x1, xe) = (x1 * x1, 2 * xe);
              (x1, xe) = (if x1 < FNum (1 / 2) then (x1 + x1, xe - 1) else (x1, xe))
       in pow_loop (i div 2) x1 xe a1 ae)"
  by pat_completeness auto
termination
  by (relation "measure (\<lambda>(i, _). nat i)") auto

declare pow_loop.simps [simp del]

definition Pow :: "f64 \<Rightarrow> int \<Rightarrow> f64" where
  "Pow x y =
    (if y = 0 \<or> x = FNum 1 then FNum 1
     else if y = 1 then x
     else case x of
       FNaN \<Rightarrow> FNaN
     | FZero s \<Rightarrow> if y < 0 then FInf (s \<and> odd y) else FZero (s \<and> odd y)
     | FInf s \<Rightarrow> if y < 0 then FZero (s \<and> odd y) else FInf (s \<and> odd y)
     | FNum q \<Rightarrow>
         (let (x1, xe) = Frexp x;
              (a1, ae) = pow_loop \<bar>y\<bar> x1 xe (FNum 1) 0;
              (a1, ae) = (if y < 0 then (FNum 1 / a1, - ae) else (a1, ae))
          in Ldexp a1 ae))"

section \<open>Lemmas\<close>

subsection \<open>Rounding\<close>

lemma blen_numeral [simp]:
  "blen 0 = 0" "blen 1 = 1"
  "blen (numeral (Num.Bit0 n)) = blen (numeral n) + 1"
  "blen (numeral (Num.Bit1 n)) = blen (numeral n) + 1"
  by (simp_all add: blen.simps [of 0] blen.simps [of 1] blen.simps [of "numeral (Num.Bit0 n)"]
      blen.simps [of "numeral (Num.Bit1 n)"])

lemma blen_nonneg: "0 \<le> blen n"
  by (induction n rule: blen.induct) (subst blen.simps, auto)

lemma blen_bounds: "0 < n \<Longrightarrow> 1 \<le> blen n \<and> 2 ^ nat (blen n - 1) \<le> n \<and> n < 2 ^ nat (blen n)"
proof (induction n rule: blen.induct)
  case (1 n)
  show ?case
  proof (cases "n = 1")
    case True
    then show ?thesis by simp
  next
    case False
    with 1 have IH: "1 \<le> blen (n div 2)" "2 ^ nat (blen (n div 2) - 1) \<le> n div 2"
      "n div 2 < 2 ^ nat (blen (n div 2))" by auto
    have b: "blen n = blen (n div 2) + 1" using 1 by (subst blen.simps) simp
    have "nat (blen (n div 2)) = Suc (nat (blen (n div 2) - 1))"
      "nat (blen (n div 2) + 1) = Suc (nat (blen (n div 2)))" using IH(1) by auto
    with IH b show ?thesis by (simp add: pos_imp_zdiv_pos_iff) linarith
  qed
qed

lemma blen_rat_bounds:
  assumes "0 < (n::int)"
  shows "(2::rat) powi (blen n - 1) \<le> of_int n" and "of_int n < (2::rat) powi blen n"
    and "(of_int n :: rat) + 1 \<le> 2 powi blen n"
proof -
  from blen_bounds [OF assms] have b: "1 \<le> blen n" "2 ^ nat (blen n - 1) \<le> n" "n < 2 ^ nat (blen n)"
    by auto
  have "(of_int (2 ^ nat (blen n - 1)) :: rat) \<le> of_int n" using b by (simp only: of_int_le_iff)
  with b(1) show "(2::rat) powi (blen n - 1) \<le> of_int n" by (simp add: power_int_def)
  have "(of_int (n + 1) :: rat) \<le> of_int (2 ^ nat (blen n))" using b by (simp only: of_int_le_iff)
  with b(1) show "(of_int n :: rat) + 1 \<le> 2 powi blen n" by (simp add: power_int_def)
  then show "of_int n < (2::rat) powi blen n" by linarith
qed

lemma flog2_bounds:
  assumes "0 < a"
  shows "2 powi flog2 a \<le> a" and "a < 2 powi (flog2 a + 1)"
proof -
  have "2 powi flog2 a \<le> a \<and> a < 2 powi (flog2 a + 1)"
  proof (cases "1 \<le> a")
    case True
    then have "0 < \<lfloor>a\<rfloor>" by linarith
    note b = blen_rat_bounds [OF this]
    have "of_int \<lfloor>a\<rfloor> \<le> a" "a < of_int \<lfloor>a\<rfloor> + 1" by linarith+
    with b(1,3) have "2 powi (blen \<lfloor>a\<rfloor> - 1) \<le> a" "a < 2 powi blen \<lfloor>a\<rfloor>" by linarith+
    with True show ?thesis by (simp add: flog2_def)
  next
    case False
    define n where "n = \<lceil>1 / a\<rceil> - 1"
    have a1: "1 < 1 / a" using False assms by simp
    then have n: "0 < n" unfolding n_def by linarith
    note b = blen_rat_bounds [OF n]
    have n1: "of_int n < 1 / a" "1 / a \<le> of_int n + 1" unfolding n_def by linarith+
    have k: "flog2 a = - blen n" using False by (simp add: flog2_def n_def)
    have "1 / a \<le> 2 powi blen n" "2 powi (blen n - 1) < 1 / a" using n1 b by linarith+
    then have "inverse (2 powi blen n) \<le> a" "a < inverse (2 powi (blen n - 1))"
      using assms by (simp_all add: field_simps)
    moreover have "(2::rat) powi (- blen n) = inverse (2 powi blen n)"
      "(2::rat) powi (- blen n + 1) = inverse (2 powi (blen n - 1))"
      using power_int_minus [of "2::rat" "blen n"] power_int_minus [of "2::rat" "blen n - 1"]
      by simp_all
    ultimately show ?thesis unfolding k by simp
  qed
  then show "2 powi flog2 a \<le> a" "a < 2 powi (flog2 a + 1)" by auto
qed

lemma flog2_mono: "0 < a \<Longrightarrow> a \<le> b \<Longrightarrow> flog2 a \<le> flog2 b"
proof (rule ccontr)
  assume ab: "0 < a" "a \<le> b" and "\<not> flog2 a \<le> flog2 b"
  then have "(2::rat) powi (flog2 b + 1) \<le> 2 powi flog2 a" by (intro power_int_increasing) auto
  with flog2_bounds [of a] flog2_bounds [of b] ab show False by linarith
qed

lemma rhe_mono: "x \<le> y \<Longrightarrow> rhe x \<le> rhe y"
proof -
  assume "x \<le> y"
  then have "\<lfloor>x\<rfloor> \<le> \<lfloor>y\<rfloor>" by (rule floor_mono)
  then consider "\<lfloor>x\<rfloor> = \<lfloor>y\<rfloor>" | "\<lfloor>x\<rfloor> + 1 \<le> \<lfloor>y\<rfloor>" by linarith
  then show ?thesis
    using \<open>x \<le> y\<close> by cases (auto simp: rhe_def Let_def)
qed

lemma rhe_of_int [simp]: "rhe (of_int n) = n"
  by (simp add: rhe_def)

lemma rnd_abs_nonneg: "0 \<le> a \<Longrightarrow> 0 \<le> rnd_abs a"
  using rhe_mono [of 0 "a / 2 powi ulp_exp a"] rhe_of_int [of 0]
  by (auto simp: rnd_abs_def intro!: mult_nonneg_nonneg)

lemma powi_split: "(2::rat) powi (i + j) = 2 powi i * 2 powi j"
  by (simp add: power_int_add)

lemma rnd_abs_upper: "0 < a \<Longrightarrow> rnd_abs a \<le> 2 powi (max (flog2 a) (- 1022) + 1)"
proof -
  assume a: "0 < a"
  let ?e = "max (flog2 a) (- 1022)"
  have "a < 2 powi (flog2 a + 1)" using a by (rule flog2_bounds)
  also have "\<dots> \<le> 2 powi (?e + 1)" by (intro power_int_increasing) auto
  also have "\<dots> = 2 ^ 53 * 2 powi ulp_exp a"
    using powi_split [of 53 "ulp_exp a"] by (simp add: ulp_exp_def algebra_simps)
  finally have "a / 2 powi ulp_exp a \<le> of_int (2 ^ 53)"
    by (simp add: divide_le_eq)
  then have "rhe (a / 2 powi ulp_exp a) \<le> 2 ^ 53"
    using rhe_mono rhe_of_int by metis
  then have "(of_int (rhe (a / 2 powi ulp_exp a)) :: rat) \<le> of_int (2 ^ 53)"
    by (simp only: of_int_le_iff)
  then have "rnd_abs a \<le> of_int (2 ^ 53) * 2 powi ulp_exp a"
    unfolding rnd_abs_def by (rule mult_right_mono) simp
  also have "\<dots> = 2 powi (?e + 1)"
    using powi_split [of 53 "ulp_exp a"] by (simp add: ulp_exp_def algebra_simps)
  finally show ?thesis .
qed

lemma rnd_abs_lower: "0 < a \<Longrightarrow> - 1022 \<le> flog2 a \<Longrightarrow> 2 powi flog2 a \<le> rnd_abs a"
proof -
  assume a: "0 < a" and n: "- 1022 \<le> flog2 a"
  have e: "(2::rat) powi flog2 a = 2 ^ 52 * 2 powi ulp_exp a"
    using powi_split [of 52 "ulp_exp a"] n by (simp add: ulp_exp_def algebra_simps max_def)
  have "2 powi flog2 a \<le> a" using a by (rule flog2_bounds)
  with e have "of_int (2 ^ 52) \<le> a / 2 powi ulp_exp a"
    by (simp add: le_divide_eq)
  then have "2 ^ 52 \<le> rhe (a / 2 powi ulp_exp a)"
    using rhe_mono rhe_of_int by metis
  then have "of_int (2 ^ 52) \<le> (of_int (rhe (a / 2 powi ulp_exp a)) :: rat)"
    by (simp only: of_int_le_iff)
  then have "of_int (2 ^ 52) * 2 powi ulp_exp a \<le> rnd_abs a"
    unfolding rnd_abs_def by (rule mult_right_mono) simp
  with e show ?thesis by simp
qed

lemma rnd_abs_mono: "0 < a \<Longrightarrow> a \<le> b \<Longrightarrow> rnd_abs a \<le> rnd_abs b"
proof -
  assume a: "0 < a" and ab: "a \<le> b"
  show ?thesis
  proof (cases "ulp_exp a = ulp_exp b")
    case True
    have "rhe (a / 2 powi ulp_exp a) \<le> rhe (b / 2 powi ulp_exp a)"
      using ab by (intro rhe_mono divide_right_mono) auto
    then show ?thesis unfolding rnd_abs_def True
      by (intro mult_right_mono) auto
  next
    case False
    then have e: "max (flog2 a) (- 1022) + 1 \<le> flog2 b" "- 1022 \<le> flog2 b"
      using flog2_mono [OF a ab] by (auto simp: ulp_exp_def)
    have "rnd_abs a \<le> 2 powi (max (flog2 a) (- 1022) + 1)" using a by (rule rnd_abs_upper)
    also have "\<dots> \<le> 2 powi flog2 b" using e by (intro power_int_increasing) auto
    also have "\<dots> \<le> rnd_abs b" using a ab e by (intro rnd_abs_lower) auto
    finally show ?thesis .
  qed
qed

lemma rnd_pos:
  "0 < q \<Longrightarrow> rnd s q = (if rnd_abs q = 0 then FZero False
     else if 2 ^ 1024 \<le> rnd_abs q then FInf False else FNum (rnd_abs q))"
  by (simp add: rnd_def Let_def)

lemma rnd_neg: "q < 0 \<Longrightarrow> rnd s q = fneg (rnd s (- q))"
  by (simp add: rnd_def Let_def)

lemma fle_fneg [simp]: "fle (fneg x) (fneg y) = fle y x"
  by (cases x; cases y) auto

lemma rnd_sign: "0 \<le> q \<Longrightarrow> fle (FZero t) (rnd s q)"
  using rnd_abs_nonneg [of q] by (auto simp: rnd_def Let_def)

lemma fle_FZero_fneg: "fle (FZero t) x \<Longrightarrow> fle (fneg x) (FZero u)"
  by (cases x) auto

lemma fle_FZero_trans: "fle x (FZero t) \<Longrightarrow> fle (FZero u) y \<Longrightarrow> fle x y"
  by (cases x; cases y) auto

lemma rnd_mono_pos: "0 < q \<Longrightarrow> q \<le> r \<Longrightarrow> fle (rnd s q) (rnd t r)"
  using rnd_abs_mono [of q r] rnd_abs_nonneg [of q] by (auto simp: rnd_pos)

lemma rnd_mono: "q \<le> r \<Longrightarrow> fle (rnd s q) (rnd t r)"
proof -
  assume qr: "q \<le> r"
  consider "0 < q" | "r < 0" | "q \<le> 0" "0 \<le> r" by linarith
  then show ?thesis
  proof cases
    case 1
    then show ?thesis using qr by (rule rnd_mono_pos)
  next
    case 2
    then show ?thesis using qr rnd_mono_pos [of "- r" "- q"] by (simp add: rnd_neg)
  next
    case 3
    then have "fle (rnd s q) (FZero False)"
      using rnd_sign [of "- q"] by (cases "q = 0") (auto simp: rnd_def [of _ 0] rnd_neg intro: fle_FZero_fneg)
    then show ?thesis using 3(2) rnd_sign fle_FZero_trans by blast
  qed
qed

text \<open>A number with at most 53 significant bits in the exponent range is represented exactly.\<close>

lemma flog2_unique: "2 powi e \<le> a \<Longrightarrow> a < 2 powi (e + 1) \<Longrightarrow> flog2 a = e"
proof -
  assume b: "2 powi e \<le> a" "a < 2 powi (e + 1)"
  then have "0 < a" by (meson less_le_trans zero_less_numeral zero_less_power_int)
  then have f: "2 powi flog2 a \<le> a" "a < 2 powi (flog2 a + 1)" by (rule flog2_bounds)+
  have "(2::rat) powi e < 2 powi (flog2 a + 1)" "(2::rat) powi flog2 a < 2 powi (e + 1)"
    using b f by linarith+
  then have "e < flog2 a + 1" "flog2 a < e + 1"
    by (metis not_le power_int_increasing one_le_numeral)+
  then show ?thesis by linarith
qed

lemma rnd_abs_exact:
  assumes "0 < m" "m < 2 ^ 53" "- 1074 \<le> k"
  shows "rnd_abs (of_int m * 2 powi k) = of_int m * 2 powi k"
proof -
  let ?a = "of_int m * 2 powi k :: rat" and ?u = "ulp_exp (of_int m * 2 powi k)"
  have a: "0 < ?a" using assms(1) by simp
  have "(of_int m :: rat) < of_int (2 ^ 53)" using assms(2) by (simp only: of_int_less_iff)
  then have "?a < 2 powi 53 * 2 powi k" by simp
  then have lt: "?a < 2 powi (k + 53)" by (simp add: powi_split add.commute)
  have "2 powi flog2 ?a \<le> ?a" using a by (rule flog2_bounds)
  with lt have "(2::rat) powi flog2 ?a < 2 powi (k + 53)" by linarith
  then have "flog2 ?a < k + 53" by (metis not_le power_int_increasing one_le_numeral)
  then have u: "?u \<le> k" using assms(3) by (simp add: ulp_exp_def)
  then have "(2::rat) powi (k - ?u) = 2 ^ nat (k - ?u)" by (simp add: power_int_def)
  then have "?a / 2 powi ?u = of_int (m * 2 ^ nat (k - ?u))"
    by (simp add: power_int_diff times_divide_eq_right [symmetric] del: times_divide_eq_right)
  then have "rnd_abs ?a = of_int (m * 2 ^ nat (k - ?u)) * 2 powi ?u"
    unfolding rnd_abs_def by (simp only: rhe_of_int)
  also have "\<dots> = ?a / 2 powi ?u * 2 powi ?u" using \<open>?a / 2 powi ?u = _\<close> by simp
  finally show ?thesis by simp
qed

lemma rnd_exact:
  assumes "0 < m" "m < 2 ^ 53" "- 1074 \<le> k" "k \<le> 971"
  shows "rnd s (of_int m * 2 powi k) = FNum (of_int m * 2 powi k)"
proof -
  have "(of_int m :: rat) < of_int (2 ^ 53)" using assms(2) by (simp only: of_int_less_iff)
  then have "of_int m * 2 powi k < 2 ^ 53 * (2 powi k :: rat)" by simp
  also have "\<dots> \<le> 2 ^ 53 * 2 powi 971"
    using assms(4) by (intro mult_left_mono power_int_increasing) auto
  also have "\<dots> = 2 ^ 1024" by (simp add: power_int_def)
  finally have lt: "of_int m * 2 powi k < (2 ^ 1024 :: rat)" .
  have "0 < (of_int m * 2 powi k :: rat)" using assms(1) by simp
  with lt assms(1) show ?thesis by (simp only: rnd_pos rnd_abs_exact [OF assms(1-3)]) simp
qed

lemma rnd_pow2:
  assumes "- 1074 \<le> k" "k \<le> 1023"
  shows "rnd s (2 powi k) = FNum (2 powi k)"
proof (cases "k \<le> 971")
  case True
  with rnd_exact [of 1 k s] assms show ?thesis by simp
next
  case False
  have "(2::rat) powi k = of_int (2 ^ 52) * 2 powi (k - 52)" using powi_split [of 52 "k - 52"] by simp
  then show ?thesis using rnd_exact [of "2 ^ 52" "k - 52" s] assms False by simp
qed

lemma of_goint_exact: "0 < n \<Longrightarrow> n < 2 ^ 53 \<Longrightarrow> of_goint n = FNum (of_int n)"
  using rnd_exact [of n 0 False] by (simp add: of_goint_def lit_def)

subsection \<open>Evaluation\<close>

text \<open>Floors of quotients of numerals, so that the simplifier computes closed \<open>f64\<close> terms.\<close>

lemma floor_rat_numeral [simp]:
  "\<lfloor>(numeral a :: rat) / numeral b\<rfloor> = numeral a div numeral b"
  "\<lfloor>(1 :: rat) / numeral b\<rfloor> = 1 div numeral b"
  "\<lfloor>- ((numeral a :: rat) / numeral b)\<rfloor> = - numeral a div numeral b"
  "\<lfloor>- ((1 :: rat) / numeral b)\<rfloor> = - 1 div numeral b"
  using floor_divide_of_int_eq [where 'a = rat, of "numeral a" "numeral b"]
    floor_divide_of_int_eq [where 'a = rat, of 1 "numeral b"]
    floor_divide_of_int_eq [where 'a = rat, of "- numeral a" "numeral b"]
    floor_divide_of_int_eq [where 'a = rat, of "- 1" "numeral b"]
  by simp_all

lemma ceiling_rat_numeral [simp]:
  "\<lceil>(numeral a :: rat) / numeral b\<rceil> = - (- numeral a div numeral b)"
  "\<lceil>(1 :: rat) / numeral b\<rceil> = - (- 1 div numeral b)"
  by (simp_all add: ceiling_def)

lemmas f64_eval = lit_def rnd_def rnd_abs_def flog2_def ulp_exp_def rhe_def Let_def

text \<open>So powers of two are computed exactly.\<close>

lemma pow_loop_two:
  assumes "0 \<le> i" "1 \<le> c" "i * c \<le> 1023" "0 \<le> p" "p + i \<le> 1023"
  shows "\<exists>p' ae'. pow_loop i (FNum (1 / 2)) (c + 1) (FNum (2 powi - p)) ae = (FNum (2 powi - p'), ae') \<and>
    p \<le> p' \<and> p' \<le> p + i \<and> ae' - p' = ae - p + i * c"
  using assms
proof (induction i arbitrary: c p ae rule: measure_induct_rule [where f = nat])
  case (less i)
  show ?case
  proof (cases "i = 0")
    case True
    then show ?thesis by (subst pow_loop.simps) simp
  next
    case False
    with less.prems have i: "1 \<le> i" by simp
    then have "1 * c \<le> i * c" using less.prems(2) by (intro mult_right_mono) auto
    with less.prems(3) have c: "c \<le> 1023" by linarith
    have "rnd False (1 / 4) = FNum (1 / 4)" "rnd False (1 / 2) = FNum (1 / 2)"
      using rnd_pow2 [of "- 2" False] rnd_pow2 [of "- 1" False] by (simp_all add: power_int_minus)
    then have half: "FNum (1 / 2) * FNum (1 / 2) < FNum (1 / 2)"
      "FNum (1 / 2) * FNum (1 / 2) + FNum (1 / 2) * FNum (1 / 2) = FNum (1 / 2)"
      by (simp_all add: f64_ops)
    have mul: "FNum (2 powi - p) * FNum (1 / 2) = FNum (2 powi - (p + 1))"
    proof -
      have "(2::rat) powi - p * (1 / 2) = 2 powi - (p + 1)" using powi_split [of "- p" "- 1"] by simp
      then have "FNum (2 powi - p) * FNum (1 / 2) = rnd False (2 powi - (p + 1))"
        by (simp add: f64_ops not_less)
      then show ?thesis using rnd_pow2 [of "- (p + 1)" False] less.prems i by simp
    qed
    let ?b = "i mod 2"
    have b: "0 \<le> ?b" "?b \<le> 1" and d: "i = 2 * (i div 2) + ?b" by auto
    have step: "pow_loop i (FNum (1 / 2)) (c + 1) (FNum (2 powi - p)) ae
      = pow_loop (i div 2) (FNum (1 / 2)) (2 * c + 1) (FNum (2 powi - (p + ?b))) (ae + ?b * (c + 1))"
      using i c less.prems(2) half mul
      by (subst pow_loop.simps) (cases "i mod 2 = 1", simp_all add: add.commute)
    have sum: "(i div 2) * (2 * c) + ?b * c = i * c" using d by (metis distrib_right mult.assoc mult.commute)
    have le: "0 \<le> ?b * c" "p + ?b + i div 2 \<le> p + i" "i div 2 < i" using b d i less.prems(2) by auto
    obtain p' ae' where "pow_loop (i div 2) (FNum (1 / 2)) (2 * c + 1) (FNum (2 powi - (p + ?b))) (ae + ?b * (c + 1))
        = (FNum (2 powi - p'), ae')" "p + ?b \<le> p'" "p' \<le> p + ?b + i div 2"
      "ae' - p' = ae + ?b * (c + 1) - (p + ?b) + i div 2 * (2 * c)"
      using less.IH [of "i div 2" "2 * c" "p + ?b" "ae + ?b * (c + 1)"] less.prems i b sum le by auto
    moreover from this(4) sum have "ae' - p' = ae - p + i * c" by (simp add: algebra_simps)
    moreover from calculation(2,3) b(1) le(2) have "p \<le> p'" "p' \<le> p + i" by linarith+
    ultimately show ?thesis unfolding step by blast
  qed
qed

lemma Pow_two:
  assumes "0 \<le> y" "y \<le> 1023"
  shows "Pow (FNum 2) y = FNum (2 powi y)"
proof -
  have f: "Frexp (FNum 2) = (FNum (1 / 2), 2)" by (simp add: flog2_def power_int_def)
  obtain p ae where l: "pow_loop y (FNum (1 / 2)) 2 (FNum 1) 0 = (FNum (2 powi - p), ae)" "ae - p = y"
    using pow_loop_two [of y 1 0 0] assms by auto
  have "(2::rat) powi - p * 2 powi ae = 2 powi y" using powi_split [of "- p" ae] l(2) by simp
  then have "Ldexp (FNum (2 powi - p)) ae = FNum (2 powi y)"
    using rnd_pow2 [of y] assms by (simp add: not_less)
  with f l(1) assms show ?thesis by (auto simp: Pow_def)
qed

subsection \<open>Special values\<close>

lemma NaN_arith [simp]:
  "FNaN + y = FNaN" "x + FNaN = FNaN" "FNaN - y = FNaN" "x - FNaN = FNaN"
  "FNaN * y = FNaN" "x * FNaN = FNaN" "FNaN / y = FNaN" "x / FNaN = FNaN"
  by (cases x; cases y; simp add: f64_ops)+

lemma NaN_less [simp]: "\<not> FNaN < y" "\<not> x < FNaN" "\<not> FNaN \<le> y" "\<not> x \<le> (FNaN :: f64)"
  by (cases x; cases y; simp add: f64_ops)+

lemma lit_not_NaN [simp]: "lit q \<noteq> FNaN"
  by (simp add: lit_def rnd_def Let_def)

end
