(* ===== verification/Mlp.thy ===== *)
theory Mlp
  imports GoFloat
begin

text \<open>
  The multi-layer perceptron (\<^verbatim>\<open>smart-home/model/mlp.go\<close>): its state, the forward pass, one
  step of stochastic gradient descent, and the flat weight vector that the actors exchange.

  Every loop of the source is a \<^const>\<open>for_upto\<close> with checked indexing, polymorphic in the
  number type as in \<^verbatim>\<open>Fed_Avg\<close>. \<open>wf_mlp\<close> says that the four slices have the lengths the
  architecture prescribes. The lemmas show that on such a network nothing panics, that the
  forward pass is the usual affine-ReLU-affine formula, that a step keeps \<open>wf_mlp\<close>, and that
  \<open>SetWeights\<close> and \<open>Weights\<close> are inverse.
\<close>

record 'a mlp =
  InputDim :: nat
  HiddenDim :: nat
  OutputDim :: nat
  W1 :: "'a list"
  B1 :: "'a list"
  W2 :: "'a list"
  B2 :: "'a list"

definition wf_mlp :: "'a mlp \<Rightarrow> bool" where
  "wf_mlp m \<longleftrightarrow> length (W1 m) = InputDim m * HiddenDim m \<and> length (B1 m) = HiddenDim m \<and>
     length (W2 m) = HiddenDim m * OutputDim m \<and> length (B2 m) = OutputDim m"

text \<open>
  \<open>NewMLP\<close> fills the matrices by He initialisation; \<open>r\<close> is the sequence of values that
  \<^verbatim>\<open>rand.NormFloat64\<close> returns.
\<close>

definition NewMLP :: "(nat \<Rightarrow> f64) \<Rightarrow> nat \<Rightarrow> nat \<Rightarrow> nat \<Rightarrow> f64 mlp" where
  "NewMLP r inputDim hiddenDim outputDim =
    (let std = Sqrt (lit 2 / lit (of_nat inputDim)); std2 = Sqrt (lit 2 / lit (of_nat hiddenDim));
       n1 = inputDim * hiddenDim; n2 = hiddenDim * outputDim
     in \<lparr>InputDim = inputDim, HiddenDim = hiddenDim, OutputDim = outputDim,
       W1 = map (\<lambda>i. r i * std) [0..<n1], B1 = replicate hiddenDim 0,
       W2 = map (\<lambda>i. r (n1 + i) * std2) [0..<n2], B2 = replicate outputDim 0\<rparr>)"

definition relu :: "'a::{zero, ord} \<Rightarrow> 'a" where
  "relu x = (if 0 < x then x else 0)"

section \<open>Forward pass\<close>

definition hidden :: "'a::{zero, plus, times, ord} mlp \<Rightarrow> 'a list \<Rightarrow> 'a list option" where
  "hidden m input = for_upto (HiddenDim m) (\<lambda>j h. do {
     sum \<leftarrow> for_upto (InputDim m) (\<lambda>i sum. do {
       x \<leftarrow> idx input i;
       w \<leftarrow> idx (W1 m) (i * HiddenDim m + j);
       Some (sum + x * w)
     }) 0;
     b \<leftarrow> idx (B1 m) j;
     upd h j (relu (sum + b))
   }) (replicate (HiddenDim m) 0)"

definition Predict :: "'a::{zero, plus, times, ord} mlp \<Rightarrow> 'a list \<Rightarrow> 'a list option" where
  "Predict m input = do {
     h \<leftarrow> hidden m input;
     for_upto (OutputDim m) (\<lambda>j output. do {
       sum \<leftarrow> for_upto (HiddenDim m) (\<lambda>i sum. do {
         x \<leftarrow> idx h i;
         w \<leftarrow> idx (W2 m) (i * OutputDim m + j);
         Some (sum + x * w)
       }) 0;
       b \<leftarrow> idx (B2 m) j;
       upd output j (sum + b)
     }) (replicate (OutputDim m) 0)
   }"

section \<open>Training step\<close>

definition mse_loss ::
  "(rat \<Rightarrow> 'a::{zero, plus, minus, times, inverse}) \<Rightarrow> nat \<Rightarrow> 'a list \<Rightarrow> 'a list \<Rightarrow> 'a option" where
  "mse_loss L outDim output target = do {
     loss \<leftarrow> for_upto outDim (\<lambda>j loss. do {
       o' \<leftarrow> idx output j;
       t \<leftarrow> idx target j;
       let diff = o' - t in Some (loss + diff * diff)
     }) 0;
     Some (loss / L (of_nat outDim))
   }"

definition output_gradients ::
  "(rat \<Rightarrow> 'a::{zero, plus, minus, times, inverse}) \<Rightarrow> nat \<Rightarrow> 'a list \<Rightarrow> 'a list \<Rightarrow> 'a list option" where
  "output_gradients L outDim output target = for_upto outDim (\<lambda>j dOutput. do {
     o' \<leftarrow> idx output j;
     t \<leftarrow> idx target j;
     upd dOutput j (L 2 * (o' - t) / L (of_nat outDim))
   }) (replicate outDim 0)"

definition hidden_gradients ::
  "'a::{zero, plus, times, ord} mlp \<Rightarrow> 'a list \<Rightarrow> 'a list \<Rightarrow> 'a list option" where
  "hidden_gradients m h dOutput = for_upto (HiddenDim m) (\<lambda>i dHidden. do {
     sum \<leftarrow> for_upto (OutputDim m) (\<lambda>j sum. do {
       d \<leftarrow> idx dOutput j;
       w \<leftarrow> idx (W2 m) (i * OutputDim m + j);
       Some (sum + d * w)
     }) 0;
     x \<leftarrow> idx h i;
     (if 0 < x then upd dHidden i sum else Some dHidden)
   }) (replicate (HiddenDim m) 0)"

text \<open>The in-place updates \<^verbatim>\<open>w[i*cols+j] -= lr * d[j] * x[i]\<close> and \<^verbatim>\<open>b[j] -= lr * d[j]\<close>.\<close>

definition update_matrix ::
  "'a::{minus, times} \<Rightarrow> nat \<Rightarrow> nat \<Rightarrow> 'a list \<Rightarrow> 'a list \<Rightarrow> 'a list \<Rightarrow> 'a list option" where
  "update_matrix lr rows cols d x w = for_upto rows (\<lambda>i. for_upto cols (\<lambda>j w. do {
     dj \<leftarrow> idx d j;
     xi \<leftarrow> idx x i;
     v \<leftarrow> idx w (i * cols + j);
     upd w (i * cols + j) (v - lr * dj * xi)
   })) w"

definition update_bias :: "'a::{minus, times} \<Rightarrow> nat \<Rightarrow> 'a list \<Rightarrow> 'a list \<Rightarrow> 'a list option" where
  "update_bias lr n d b = for_upto n (\<lambda>j b. do {
     dj \<leftarrow> idx d j;
     v \<leftarrow> idx b j;
     upd b j (v - lr * dj)
   }) b"

definition Train ::
  "(rat \<Rightarrow> 'a::{zero, plus, minus, times, inverse, ord}) \<Rightarrow> 'a mlp \<Rightarrow> 'a list \<Rightarrow> 'a list \<Rightarrow> 'a \<Rightarrow> ('a \<times> 'a mlp) option" where
  "Train L m input target lr = do {
     h \<leftarrow> hidden m input;
     output \<leftarrow> Predict m input;
     loss \<leftarrow> mse_loss L (OutputDim m) output target;
     dOutput \<leftarrow> output_gradients L (OutputDim m) output target;
     dHidden \<leftarrow> hidden_gradients m h dOutput;
     w2 \<leftarrow> update_matrix lr (HiddenDim m) (OutputDim m) dOutput h (W2 m);
     b2 \<leftarrow> update_bias lr (OutputDim m) dOutput (B2 m);
     w1 \<leftarrow> update_matrix lr (InputDim m) (HiddenDim m) dHidden input (W1 m);
     b1 \<leftarrow> update_bias lr (HiddenDim m) dHidden (B1 m);
     Some (loss, m\<lparr>W1 := w1, B1 := b1, W2 := w2, B2 := b2\<rparr>)
   }"

section \<open>Flat weight vectors\<close>

text \<open>\<^verbatim>\<open>copy(dst[off:], src)\<close>: as many elements as fit; slicing past the length panics.\<close>

definition copy_into :: "'a list \<Rightarrow> nat \<Rightarrow> 'a list \<Rightarrow> 'a list option" where
  "copy_into dst off src = (if off \<le> length dst
     then Some (take off dst @ take (length dst - off) src @ drop (off + length src) dst) else None)"

text \<open>\<^verbatim>\<open>copy(dst, w[off:])\<close>.\<close>

definition copy_from :: "'a list \<Rightarrow> 'a list \<Rightarrow> nat \<Rightarrow> 'a list option" where
  "copy_from dst w off = (if off \<le> length w
     then Some (take (length dst) (drop off w) @ drop (length w - off) dst) else None)"

definition NumWeights :: "'a mlp \<Rightarrow> nat" where
  "NumWeights m = length (W1 m) + length (B1 m) + length (W2 m) + length (B2 m)"

definition Weights :: "'a::zero mlp \<Rightarrow> 'a list option" where
  "Weights m =
    (let total = length (W1 m) + length (B1 m) + length (W2 m) + length (B2 m) in do {
       out \<leftarrow> copy_into (replicate total 0) 0 (W1 m);
       out \<leftarrow> copy_into out (length (W1 m)) (B1 m);
       out \<leftarrow> copy_into out (length (W1 m) + length (B1 m)) (W2 m);
       copy_into out (length (W1 m) + length (B1 m) + length (W2 m)) (B2 m)
     })"

definition SetWeights :: "'a mlp \<Rightarrow> 'a list \<Rightarrow> 'a mlp option" where
  "SetWeights m w = do {
     w1 \<leftarrow> copy_from (W1 m) w 0;
     b1 \<leftarrow> copy_from (B1 m) w (length (W1 m));
     w2 \<leftarrow> copy_from (W2 m) w (length (W1 m) + length (B1 m));
     b2 \<leftarrow> copy_from (B2 m) w (length (W1 m) + length (B1 m) + length (W2 m));
     Some (m\<lparr>W1 := w1, B1 := b1, W2 := w2, B2 := b2\<rparr>)
   }"

section \<open>Lemmas\<close>

subsection \<open>Closed forms of the loops\<close>

definition dot :: "nat \<Rightarrow> (nat \<Rightarrow> 'a::{zero, plus, times}) \<Rightarrow> (nat \<Rightarrow> 'a) \<Rightarrow> 'a" where
  "dot n f g = fold (\<lambda>i s. s + f i * g i) [0..<n] 0"

definition preact :: "'a::{zero, plus, times} mlp \<Rightarrow> 'a list \<Rightarrow> nat \<Rightarrow> 'a" where
  "preact m x j = dot (InputDim m) (\<lambda>i. x ! i) (\<lambda>i. W1 m ! (i * HiddenDim m + j)) + B1 m ! j"

definition hid :: "'a::{zero, plus, times, ord} mlp \<Rightarrow> 'a list \<Rightarrow> nat \<Rightarrow> 'a" where
  "hid m x j = relu (preact m x j)"

definition outp :: "'a::{zero, plus, times, ord} mlp \<Rightarrow> 'a list \<Rightarrow> nat \<Rightarrow> 'a" where
  "outp m x k = dot (HiddenDim m) (hid m x) (\<lambda>i. W2 m ! (i * OutputDim m + k)) + B2 m ! k"

definition grad_out :: "(rat \<Rightarrow> 'a::{zero, plus, minus, times, inverse, ord}) \<Rightarrow> 'a mlp \<Rightarrow> 'a list \<Rightarrow> 'a list \<Rightarrow> nat \<Rightarrow> 'a" where
  "grad_out L m x t k = L 2 * (outp m x k - t ! k) / L (of_nat (OutputDim m))"

definition grad_hid :: "(rat \<Rightarrow> 'a::{zero, plus, minus, times, inverse, ord}) \<Rightarrow> 'a mlp \<Rightarrow> 'a list \<Rightarrow> 'a list \<Rightarrow> nat \<Rightarrow> 'a" where
  "grad_hid L m x t j = (if 0 < hid m x j
     then dot (OutputDim m) (grad_out L m x t) (\<lambda>k. W2 m ! (j * OutputDim m + k)) else 0)"

definition loss_of :: "(rat \<Rightarrow> 'a::{zero, plus, minus, times, inverse, ord}) \<Rightarrow> 'a mlp \<Rightarrow> 'a list \<Rightarrow> 'a list \<Rightarrow> 'a" where
  "loss_of L m x t =
    dot (OutputDim m) (\<lambda>k. outp m x k - t ! k) (\<lambda>k. outp m x k - t ! k) / L (of_nat (OutputDim m))"

lemma dot_cong [cong]:
  "n = n' \<Longrightarrow> (\<And>i. i < n' \<Longrightarrow> f i = f' i) \<Longrightarrow> (\<And>i. i < n' \<Longrightarrow> g i = g' i) \<Longrightarrow> dot n f g = dot n' f' g'"
  unfolding dot_def by (intro fold_cong) auto

lemma dot_loop:
  assumes "n \<le> length a" "\<And>i. i < n \<Longrightarrow> p i < length b"
  shows "for_upto n (\<lambda>i s. do { x \<leftarrow> idx a i; w \<leftarrow> idx b (p i); Some (s + x * w) }) 0
    = Some (dot n (\<lambda>i. a ! i) (\<lambda>i. b ! p i))"
  unfolding dot_def using assms by (intro for_upto_total) (simp add: go_simps)

lemma fill_loop:
  assumes "\<And>i b. i < n \<Longrightarrow> body i b = upd b i (f i)"
  shows "for_upto n body (replicate n z) = Some (map f [0..<n])"
  using assms for_upto_pointwise [where a = "replicate n z" and n = n and body = body and f = "\<lambda>i _. f i"]
  by (simp add: go_simps)

lemma hidden_eq:
  assumes "wf_mlp m" "InputDim m \<le> length x"
  shows "hidden m x = Some (map (hid m x) [0..<HiddenDim m])"
  unfolding hidden_def hid_def preact_def
  using assms by (intro fill_loop) (simp add: wf_mlp_def dot_loop row_index go_simps)

lemma hidden_panics:
  assumes "length x < InputDim m" "0 < HiddenDim m"
  shows "hidden m x = None"
proof -
  have "for_upto (InputDim m) (\<lambda>i sum. do { v \<leftarrow> idx x i; w \<leftarrow> idx (W1 m) (i * HiddenDim m + 0);
      Some (sum + v * w) }) 0 = None"
    using assms(1) by (intro for_upto_None [of "length x"]) (simp_all add: idx_None)
  then show ?thesis unfolding hidden_def
    using assms(2) by (intro for_upto_None [of 0]) simp_all
qed

lemma Predict_eq:
  assumes "wf_mlp m" "InputDim m \<le> length x"
  shows "Predict m x = Some (map (outp m x) [0..<OutputDim m])"
  unfolding Predict_def outp_def hidden_eq [OF assms]
  using assms by (simp, intro fill_loop) (simp add: wf_mlp_def dot_loop row_index go_simps)

lemma mse_loss_eq:
  assumes "n \<le> length o'" "n \<le> length t"
  shows "mse_loss L n o' t = Some (dot n (\<lambda>j. o' ! j - t ! j) (\<lambda>j. o' ! j - t ! j) / L (of_nat n))"
proof -
  have "for_upto n (\<lambda>j loss. do { u \<leftarrow> idx o' j; v \<leftarrow> idx t j; let d = u - v in Some (loss + d * d) }) 0
      = Some (dot n (\<lambda>j. o' ! j - t ! j) (\<lambda>j. o' ! j - t ! j))"
    unfolding dot_def using assms by (intro for_upto_total) (simp add: go_simps Let_def)
  then show ?thesis by (simp add: mse_loss_def)
qed

lemma output_gradients_eq:
  assumes "n \<le> length o'" "n \<le> length t"
  shows "output_gradients L n o' t = Some (map (\<lambda>j. L 2 * (o' ! j - t ! j) / L (of_nat n)) [0..<n])"
  unfolding output_gradients_def using assms by (intro fill_loop) (simp add: go_simps)

lemma hidden_gradients_eq:
  assumes "wf_mlp m" "length h = HiddenDim m" "length d = OutputDim m"
  shows "hidden_gradients m h d = Some (map (\<lambda>i. if 0 < h ! i
    then dot (OutputDim m) (\<lambda>k. d ! k) (\<lambda>k. W2 m ! (i * OutputDim m + k)) else 0) [0..<HiddenDim m])"
proof -
  let ?f = "\<lambda>i z. if 0 < h ! i then dot (OutputDim m) (\<lambda>k. d ! k) (\<lambda>k. W2 m ! (i * OutputDim m + k)) else z"
  have "hidden_gradients m h d = Some (map (\<lambda>i. ?f i (replicate (HiddenDim m) 0 ! i)) [0..<HiddenDim m])"
    unfolding hidden_gradients_def using assms
    by (intro for_upto_pointwise) (simp_all add: wf_mlp_def dot_loop row_index go_simps)
  then show ?thesis by simp
qed

lemma update_matrix_eq:
  assumes "length w = r * c" "c \<le> length d" "r \<le> length x"
  shows "update_matrix lr r c d x w
    = Some (map (\<lambda>k. w ! k - lr * d ! (k mod c) * x ! (k div c)) [0..<r * c])"
  unfolding update_matrix_def using assms
  by (intro for_upto_rows) (simp_all add: row_index go_simps)

lemma update_bias_eq:
  assumes "length b = n" "n \<le> length d"
  shows "update_bias lr n d b = Some (map (\<lambda>k. b ! k - lr * d ! k) [0..<n])"
  unfolding update_bias_def using assms
  by (intro for_upto_pointwise) (simp_all add: go_simps)

lemma mod_less_rows: "k < r * c \<Longrightarrow> k mod c < (c::nat)"
  by (cases "c = 0") auto

lemma div_less_rows: "k < r * c \<Longrightarrow> k div c < (r::nat)"
  by (simp add: less_mult_imp_div_less)

lemmas rows_simps = mod_less_rows div_less_rows row_index

text \<open>The whole step in closed form: every parameter moves against its gradient.\<close>

lemma Train_eq:
  assumes "wf_mlp m" "InputDim m \<le> length x" "OutputDim m \<le> length t"
  shows "Train L m x t lr = Some (loss_of L m x t, m\<lparr>
    W1 := map (\<lambda>k. W1 m ! k - lr * grad_hid L m x t (k mod HiddenDim m) * x ! (k div HiddenDim m))
            [0..<InputDim m * HiddenDim m],
    B1 := map (\<lambda>j. B1 m ! j - lr * grad_hid L m x t j) [0..<HiddenDim m],
    W2 := map (\<lambda>k. W2 m ! k - lr * grad_out L m x t (k mod OutputDim m) * hid m x (k div OutputDim m))
            [0..<HiddenDim m * OutputDim m],
    B2 := map (\<lambda>k. B2 m ! k - lr * grad_out L m x t k) [0..<OutputDim m]\<rparr>)"
proof -
  let ?O = "OutputDim m" and ?H = "HiddenDim m" and ?I = "InputDim m"
  let ?h = "map (hid m x) [0..<?H]" and ?o = "map (outp m x) [0..<?O]"
  let ?do = "map (grad_out L m x t) [0..<?O]" and ?dh = "map (grad_hid L m x t) [0..<?H]"
  have o: "mse_loss L ?O ?o t = Some (loss_of L m x t)" "output_gradients L ?O ?o t = Some ?do"
    using assms by (simp_all add: mse_loss_eq output_gradients_eq loss_of_def grad_out_def)
  have h: "hidden_gradients m ?h ?do = Some ?dh"
    using assms by (simp add: hidden_gradients_eq grad_hid_def)
  have w: "update_matrix lr ?H ?O ?do ?h (W2 m) = Some (map (\<lambda>k. W2 m ! k - lr * ?do ! (k mod ?O) * ?h ! (k div ?O)) [0..<?H * ?O])"
    "update_matrix lr ?I ?H ?dh x (W1 m) = Some (map (\<lambda>k. W1 m ! k - lr * ?dh ! (k mod ?H) * x ! (k div ?H)) [0..<?I * ?H])"
    "update_bias lr ?O ?do (B2 m) = Some (map (\<lambda>k. B2 m ! k - lr * ?do ! k) [0..<?O])"
    "update_bias lr ?H ?dh (B1 m) = Some (map (\<lambda>k. B1 m ! k - lr * ?dh ! k) [0..<?H])"
    using assms by (intro update_matrix_eq update_bias_eq; simp add: wf_mlp_def)+
  show ?thesis
    unfolding Train_def hidden_eq [OF assms(1,2)] Predict_eq [OF assms(1,2)]
    by (simp add: o h w rows_simps)
qed

lemma Train_wf:
  assumes "wf_mlp m" "InputDim m \<le> length x" "OutputDim m \<le> length t"
  shows "\<exists>loss m'. Train L m x t lr = Some (loss, m') \<and> wf_mlp m' \<and> InputDim m' = InputDim m
    \<and> HiddenDim m' = HiddenDim m \<and> OutputDim m' = OutputDim m"
  using assms by (simp add: Train_eq wf_mlp_def)

subsection \<open>Flat vectors\<close>

lemma Weights_eq: "Weights m = Some (W1 m @ B1 m @ W2 m @ B2 m)"
  by (simp add: Weights_def copy_into_def Let_def)

lemma SetWeights_eq:
  assumes "length w = NumWeights m"
  shows "SetWeights m w = Some (m\<lparr>W1 := take (length (W1 m)) w,
    B1 := take (length (B1 m)) (drop (length (W1 m)) w),
    W2 := take (length (W2 m)) (drop (length (W1 m) + length (B1 m)) w),
    B2 := drop (length (W1 m) + length (B1 m) + length (W2 m)) w\<rparr>)"
  using assms by (simp add: SetWeights_def copy_from_def NumWeights_def)

lemma SetWeights_wf:
  assumes "SetWeights m w = Some m'" "wf_mlp m"
  shows "wf_mlp m' \<and> InputDim m' = InputDim m \<and> HiddenDim m' = HiddenDim m \<and> OutputDim m' = OutputDim m"
  using assms by (auto simp: SetWeights_def copy_from_def wf_mlp_def split: bind_splits if_splits)

lemma SetWeights_None_iff:
  "SetWeights m w = None \<longleftrightarrow> length w < length (W1 m) + length (B1 m) + length (W2 m)"
  by (auto simp: SetWeights_def copy_from_def split: bind_splits)

lemma split_in_four:
  "take a w @ take b (drop a w) @ take c (drop (a + b) w) @ drop (a + b + c) w = w"
proof -
  have "take c (drop (a + b) w) @ drop (a + b + c) w = drop (a + b) w"
    by (metis add.commute append_take_drop_id drop_drop)
  moreover have "take b (drop a w) @ drop (a + b) w = drop a w"
    by (metis add.commute append_take_drop_id drop_drop)
  ultimately show ?thesis by simp
qed

section \<open>Properties\<close>

text \<open>
  The forward pass of a well-formed network returns for every sufficiently long input and
  then computes, in the machine's own arithmetic, the affine-ReLU-affine map of its weights;
  an input that is too short panics.
\<close>

theorem Predict_outcome:
  assumes "wf_mlp m" and "0 < HiddenDim m"
  shows "Predict m x = (if length x < InputDim m then None
    else Some (map (outp m x) [0..<OutputDim m]))"
  using assms hidden_panics [of x m] Predict_eq [of m x] by (simp add: Predict_def)

definition tiny_mlp :: "rat mlp" where
  "tiny_mlp = \<lparr>InputDim = 1, HiddenDim = 2, OutputDim = 1, W1 = [1, -1], B1 = [1, 0], W2 = [2, 3], B2 = [5]\<rparr>"

theorem Predict_outcome_witness:
  "Predict tiny_mlp [] = None \<and> Predict tiny_mlp [4] = Some [15]"
proof -
  have h: "wf_mlp tiny_mlp" "0 < HiddenDim tiny_mlp" by (simp_all add: tiny_mlp_def wf_mlp_def)
  show ?thesis
    unfolding Predict_outcome [OF h]
    by (simp add: tiny_mlp_def outp_def hid_def preact_def dot_def relu_def upt_rec)
qed

text \<open>
  C33: a training step never panics on a well-formed network with a sample of the right size, and
  keeps the network well-formed and its architecture unchanged.
\<close>

theorem Train_preserves_wf:
  fixes m :: "'a::{zero, plus, minus, times, inverse, ord} mlp"
  assumes "wf_mlp m" and "InputDim m \<le> length x" and "OutputDim m \<le> length t"
  shows "\<exists>loss m'. Train L m x t lr = Some (loss, m') \<and> wf_mlp m' \<and> InputDim m' = InputDim m
    \<and> HiddenDim m' = HiddenDim m \<and> OutputDim m' = OutputDim m"
  using assms by (rule Train_wf)

theorem Train_preserves_wf_witness:
  "\<exists>loss m'. Train id tiny_mlp [4] [10] (1 / 10) = Some (loss, m') \<and> wf_mlp m' \<and> HiddenDim m' = 2"
  using Train_preserves_wf [of tiny_mlp "[4]" "[10]" id "1 / 10"]
  by (auto simp: tiny_mlp_def wf_mlp_def)

text \<open>
  C32: \<open>SetWeights\<close> and \<open>Weights\<close> round-trip: a flat vector of \<open>NumWeights\<close> parameters comes
  back unchanged, and copying one network's flat vector into another network of the same shape
  makes the two equal. A vector that ends before the output bias panics.
\<close>

theorem SetWeights_Weights_roundtrip:
  fixes m n :: "'a::zero mlp"
  assumes "wf_mlp m" and "wf_mlp n" and "InputDim n = InputDim m" and "HiddenDim n = HiddenDim m"
    and "OutputDim n = OutputDim m" and "length w = NumWeights m"
  shows "(\<exists>m'. SetWeights m w = Some m' \<and> wf_mlp m' \<and> Weights m' = Some w) \<and>
    Option.bind (Weights n) (SetWeights m) = Some n \<and>
    (SetWeights m v = None \<longleftrightarrow> length v < length (W1 m) + length (B1 m) + length (W2 m))"
proof (intro conjI)
  show "\<exists>m'. SetWeights m w = Some m' \<and> wf_mlp m' \<and> Weights m' = Some w"
    using assms by (simp add: SetWeights_eq Weights_eq wf_mlp_def NumWeights_def split_in_four)
  show "Option.bind (Weights n) (SetWeights m) = Some n"
    using assms by (simp add: Weights_eq SetWeights_eq wf_mlp_def NumWeights_def)
  show "SetWeights m v = None \<longleftrightarrow> length v < length (W1 m) + length (B1 m) + length (W2 m)"
    by (rule SetWeights_None_iff)
qed

theorem SetWeights_Weights_roundtrip_witness:
  "(\<exists>m'. SetWeights tiny_mlp [1, 2, 3, 4, 5, 6, 7] = Some m' \<and> Weights m' = Some [1, 2, 3, 4, 5, 6, 7]) \<and>
    SetWeights tiny_mlp [1, 2] = None"
  using SetWeights_Weights_roundtrip [of tiny_mlp tiny_mlp "[1, 2, 3, 4, 5, 6, 7]" "[1, 2]"]
  by (auto simp: tiny_mlp_def wf_mlp_def NumWeights_def)

end
