(* ===== verification/Mlp_Gradient.thy ===== *)
theory Mlp_Gradient
  imports Mlp
begin

text \<open>
  Back-propagation is the gradient. Over the real numbers the loss of a network is a
  differentiable function of each single parameter wherever no hidden unit sits on the kink
  of the ReLU, and the step of \<open>Train\<close> moves the parameter by the learning rate times that
  partial derivative. This is what makes \<open>Train\<close> stochastic gradient descent rather than some
  other update, and it checks all four update loops and both gradient loops of the source at once.
\<close>

section \<open>Sums\<close>

lemma dot_sum: "dot n f g = (\<Sum>i<n. f i * (g i :: 'a::comm_ring))"
  unfolding dot_def by (induction n) simp_all

lemma row_unique: "j < (c::nat) \<Longrightarrow> i * c + j = k \<longleftrightarrow> i = k div c \<and> j = k mod c"
  by auto

text \<open>The effect on one row product of changing one entry of the matrix.\<close>

lemma dot_list_update:
  fixes f :: "nat \<Rightarrow> 'a::comm_ring"
  assumes "length b = n * c" "k < n * c" "j < c"
  shows "dot n f (\<lambda>i. b[k := w] ! (i * c + j)) = dot n f (\<lambda>i. b ! (i * c + j))
    + (if j = k mod c then f (k div c) * (w - b ! k) else 0)"
proof -
  have "b[k := w] ! (i * c + j) = b ! (i * c + j) + (if i = k div c \<and> j = k mod c then w - b ! k else 0)"
    if "i < n" for i
    using that assms row_index [of i n j c] row_unique [of j c i k] by (auto simp: nth_list_update)
  then have "dot n f (\<lambda>i. b[k := w] ! (i * c + j))
      = (\<Sum>i<n. f i * b ! (i * c + j) + (if i = k div c then if j = k mod c then f i * (w - b ! k) else 0 else 0))"
    unfolding dot_sum by (intro sum.cong) (auto simp: algebra_simps)
  also have "\<dots> = dot n f (\<lambda>i. b ! (i * c + j)) + (if j = k mod c then f (k div c) * (w - b ! k) else 0)"
    using div_less_rows [OF assms(2)] by (simp add: sum.distrib dot_sum)
  finally show ?thesis .
qed

section \<open>Derivatives\<close>

text \<open>The loss along one parameter: a mean of squares of differentiable functions.\<close>

lemma squares_DERIV:
  fixes g :: "nat \<Rightarrow> real \<Rightarrow> real"
  assumes "\<And>k. k < n \<Longrightarrow> (g k has_real_derivative d k) (at w)"
  shows "((\<lambda>v. (\<Sum>k<n. g k v * g k v) / c) has_real_derivative (\<Sum>k<n. 2 * g k w * d k) / c) (at w)"
proof -
  have "((\<lambda>v. \<Sum>k<n. g k v * g k v) has_real_derivative (\<Sum>k<n. 2 * g k w * d k)) (at w)"
  proof (rule DERIV_sum)
    fix k assume "k \<in> {..<n}"
    then have "(g k has_real_derivative d k) (at w)" using assms by simp
    from DERIV_mult [OF this this] show "((\<lambda>v. g k v * g k v) has_real_derivative 2 * g k w * d k) (at w)"
      by (simp add: algebra_simps)
  qed
  then show ?thesis by (rule DERIV_cdivide)
qed

lemma relu_DERIV:
  assumes "p \<noteq> (0::real)"
  shows "(relu has_real_derivative (if 0 < p then 1 else 0)) (at p)"
proof (cases "0 < p")
  case True
  have "((\<lambda>x. x) has_real_derivative 1) (at p)" by (rule DERIV_ident)
  then have "(relu has_real_derivative 1) (at p)"
    by (rule has_field_derivative_transform_within_open [where S = "{0<..}"])
      (use True in \<open>auto simp: relu_def\<close>)
  with True show ?thesis by simp
next
  case False
  have "((\<lambda>x. 0) has_real_derivative 0) (at p)" by (rule DERIV_const)
  then have "(relu has_real_derivative 0) (at p)"
    by (rule has_field_derivative_transform_within_open [where S = "{..<0}"])
      (use False assms in \<open>auto simp: relu_def\<close>)
  with False show ?thesis by simp
qed

lemma affine_DERIV: "((\<lambda>v. a + c * (v - w)) has_real_derivative c) (at (w::real))"
  by (auto intro!: derivative_eq_intros)

lemma relu_affine_DERIV:
  assumes "p \<noteq> 0"
  shows "((\<lambda>v. relu (p + c * (v - w))) has_real_derivative (if 0 < p then c else 0)) (at (w::real))"
proof -
  have "(relu has_real_derivative (if 0 < p then 1 else 0)) (at (p + c * (w - w)))"
    using relu_DERIV [OF assms] by simp
  from DERIV_chain2 [OF this affine_DERIV] show ?thesis by (simp split: if_splits)
qed

section \<open>The loss as a function of one parameter\<close>

text \<open>\<open>f w\<close> is the network with one parameter set to \<open>w\<close>; \<open>w0\<close> is its current value.\<close>

lemma loss_DERIV:
  fixes m :: "real mlp"
  assumes "\<And>w. OutputDim (f w) = OutputDim m"
    and "\<And>k. k < OutputDim m \<Longrightarrow> ((\<lambda>w. outp (f w) x k) has_real_derivative d k) (at w0)"
    and "\<And>k. k < OutputDim m \<Longrightarrow> outp (f w0) x k = outp m x k"
  shows "((\<lambda>w. loss_of of_rat (f w) x t) has_real_derivative
    (\<Sum>k<OutputDim m. grad_out of_rat m x t k * d k)) (at w0)"
proof -
  have "((\<lambda>w. outp (f w) x k - t ! k) has_real_derivative d k) (at w0)" if "k < OutputDim m" for k
    using DERIV_diff [OF assms(2) [OF that] DERIV_const [of "t ! k"]] by simp
  from squares_DERIV [OF this] have
    "((\<lambda>w. (\<Sum>k<OutputDim m. (outp (f w) x k - t ! k) * (outp (f w) x k - t ! k)) / of_nat (OutputDim m))
      has_real_derivative (\<Sum>k<OutputDim m. 2 * (outp (f w0) x k - t ! k) * d k) / of_nat (OutputDim m)) (at w0)" .
  then show ?thesis
    by (simp add: loss_of_def dot_sum grad_out_def assms(1,3) sum_divide_distrib)
qed

lemma output_unit_DERIV:
  fixes m :: "real mlp"
  assumes "\<And>w. OutputDim (f w) = OutputDim m"
    and "\<And>k w. k < OutputDim m \<Longrightarrow> outp (f w) x k = outp m x k + (if k = k0 then c * (w - w0) else 0)"
    and "k0 < OutputDim m"
  shows "((\<lambda>w. loss_of of_rat (f w) x t) has_real_derivative grad_out of_rat m x t k0 * c) (at w0)"
proof -
  have "((\<lambda>w. outp (f w) x k) has_real_derivative (if k = k0 then c else 0)) (at w0)"
    if "k < OutputDim m" for k
    using affine_DERIV [of "outp m x k" c w0] that by (cases "k = k0") (simp_all add: assms(2))
  from loss_DERIV [where f = f and d = "\<lambda>k. if k = k0 then c else 0", OF assms(1) this] show ?thesis
    using assms(2,3) by (simp add: if_distrib [of "(*) _"] cong: if_cong)
qed

lemma hidden_unit_DERIV:
  fixes m :: "real mlp"
  assumes "\<And>w. OutputDim (f w) = OutputDim m \<and> HiddenDim (f w) = HiddenDim m \<and> W2 (f w) = W2 m \<and> B2 (f w) = B2 m"
    and "\<And>j w. j < HiddenDim m \<Longrightarrow> preact (f w) x j = preact m x j + (if j = j0 then c * (w - w0) else 0)"
    and "j0 < HiddenDim m" "preact m x j0 \<noteq> 0"
  shows "((\<lambda>w. loss_of of_rat (f w) x t) has_real_derivative grad_hid of_rat m x t j0 * c) (at w0)"
proof -
  let ?p = "preact m x j0" and ?v = "\<lambda>k. W2 m ! (j0 * OutputDim m + k)"
  let ?h = "\<lambda>w. relu (?p + c * (w - w0))" and ?dh = "if 0 < ?p then c else 0"
  have "hid (f w) x j = hid m x j + (if j = j0 then ?h w - relu ?p else 0)" if "j < HiddenDim m" for j w
    using that by (simp add: hid_def assms(2))
  then have "dot (HiddenDim m) (hid (f w) x) (\<lambda>i. W2 m ! (i * OutputDim m + k))
      = (\<Sum>i<HiddenDim m. hid m x i * W2 m ! (i * OutputDim m + k)
          + (if i = j0 then (?h w - relu ?p) * ?v k else 0))" for w k
    unfolding dot_sum by (intro sum.cong) (auto simp: ring_distribs)
  then have out: "outp (f w) x k = outp m x k + (?h w - relu ?p) * ?v k" for w k
    using assms(1,3) by (simp add: outp_def sum.distrib dot_sum)
  have "((\<lambda>w. outp (f w) x k) has_real_derivative ?dh * ?v k) (at w0)" for k
    unfolding out using relu_affine_DERIV [OF assms(4), of c w0]
    by (auto intro!: derivative_eq_intros)
  from loss_DERIV [where f = f and d = "\<lambda>k. ?dh * ?v k", OF _ this]
  have "((\<lambda>w. loss_of of_rat (f w) x t) has_real_derivative
      (\<Sum>k<OutputDim m. grad_out of_rat m x t k * (?dh * ?v k))) (at w0)"
    using assms(1) by (simp add: out)
  moreover have "(\<Sum>k<OutputDim m. grad_out of_rat m x t k * (?dh * ?v k)) = grad_hid of_rat m x t j0 * c"
    by (simp add: grad_hid_def hid_def relu_def dot_sum sum_distrib_left mult.assoc mult.left_commute mult.commute)
  ultimately show ?thesis by simp
qed

section \<open>The four parameter groups\<close>

lemma W2_DERIV:
  fixes m :: "real mlp"
  assumes "wf_mlp m" "k < HiddenDim m * OutputDim m"
  shows "((\<lambda>w. loss_of of_rat (m\<lparr>W2 := (W2 m)[k := w]\<rparr>) x t) has_real_derivative
    grad_out of_rat m x t (k mod OutputDim m) * hid m x (k div OutputDim m)) (at (W2 m ! k))"
proof (rule output_unit_DERIV)
  fix j w assume j: "j < OutputDim m"
  have "hid (m\<lparr>W2 := (W2 m)[k := w]\<rparr>) x = hid m x" by (simp add: fun_eq_iff hid_def preact_def)
  then show "outp (m\<lparr>W2 := (W2 m)[k := w]\<rparr>) x j = outp m x j
      + (if j = k mod OutputDim m then hid m x (k div OutputDim m) * (w - W2 m ! k) else 0)"
    using assms j by (simp add: outp_def dot_list_update wf_mlp_def del: dot_cong)
qed (use assms in \<open>simp_all add: mod_less_rows\<close>)

lemma B2_DERIV:
  fixes m :: "real mlp"
  assumes "wf_mlp m" "k < OutputDim m"
  shows "((\<lambda>w. loss_of of_rat (m\<lparr>B2 := (B2 m)[k := w]\<rparr>) x t) has_real_derivative
    grad_out of_rat m x t k) (at (B2 m ! k))"
proof -
  have "((\<lambda>w. loss_of of_rat (m\<lparr>B2 := (B2 m)[k := w]\<rparr>) x t) has_real_derivative
    grad_out of_rat m x t k * 1) (at (B2 m ! k))"
    using assms by (intro output_unit_DERIV)
      (auto simp: outp_def hid_def preact_def wf_mlp_def nth_list_update)
  then show ?thesis by simp
qed

lemma W1_DERIV:
  fixes m :: "real mlp"
  assumes "wf_mlp m" "k < InputDim m * HiddenDim m" "preact m x (k mod HiddenDim m) \<noteq> 0"
  shows "((\<lambda>w. loss_of of_rat (m\<lparr>W1 := (W1 m)[k := w]\<rparr>) x t) has_real_derivative
    grad_hid of_rat m x t (k mod HiddenDim m) * x ! (k div HiddenDim m)) (at (W1 m ! k))"
  using assms by (intro hidden_unit_DERIV)
    (simp_all add: preact_def dot_list_update wf_mlp_def mod_less_rows del: dot_cong)

lemma B1_DERIV:
  fixes m :: "real mlp"
  assumes "wf_mlp m" "k < HiddenDim m" "preact m x k \<noteq> 0"
  shows "((\<lambda>w. loss_of of_rat (m\<lparr>B1 := (B1 m)[k := w]\<rparr>) x t) has_real_derivative
    grad_hid of_rat m x t k) (at (B1 m ! k))"
proof -
  have "((\<lambda>w. loss_of of_rat (m\<lparr>B1 := (B1 m)[k := w]\<rparr>) x t) has_real_derivative
    grad_hid of_rat m x t k * 1) (at (B1 m ! k))"
    using assms by (intro hidden_unit_DERIV) (auto simp: preact_def wf_mlp_def nth_list_update)
  then show ?thesis by simp
qed

section \<open>Properties\<close>

text \<open>
  C1: over the reals \<open>Train\<close> is one step of gradient descent on the mean squared error. It returns
  the loss before the update, and every weight and bias \<open>p\<close> of the new network is
  \<open>p - lr * \<partial>loss/\<partial>p\<close> with the true partial derivative of the loss at the old network,
  provided no hidden unit's pre-activation is exactly zero.
\<close>

theorem Train_is_gradient_descent:
  fixes m :: "real mlp"
  assumes "wf_mlp m" and "InputDim m \<le> length x" and "OutputDim m \<le> length t"
    and "\<forall>j<HiddenDim m. preact m x j \<noteq> 0"
  shows "\<exists>m'. Train of_rat m x t lr = Some (loss_of of_rat m x t, m') \<and>
    (\<forall>k<length (W1 m). \<exists>D. ((\<lambda>w. loss_of of_rat (m\<lparr>W1 := (W1 m)[k := w]\<rparr>) x t) has_real_derivative D) (at (W1 m ! k))
       \<and> W1 m' ! k = W1 m ! k - lr * D) \<and>
    (\<forall>k<length (B1 m). \<exists>D. ((\<lambda>w. loss_of of_rat (m\<lparr>B1 := (B1 m)[k := w]\<rparr>) x t) has_real_derivative D) (at (B1 m ! k))
       \<and> B1 m' ! k = B1 m ! k - lr * D) \<and>
    (\<forall>k<length (W2 m). \<exists>D. ((\<lambda>w. loss_of of_rat (m\<lparr>W2 := (W2 m)[k := w]\<rparr>) x t) has_real_derivative D) (at (W2 m ! k))
       \<and> W2 m' ! k = W2 m ! k - lr * D) \<and>
    (\<forall>k<length (B2 m). \<exists>D. ((\<lambda>w. loss_of of_rat (m\<lparr>B2 := (B2 m)[k := w]\<rparr>) x t) has_real_derivative D) (at (B2 m ! k))
       \<and> B2 m' ! k = B2 m ! k - lr * D)"
proof -
  have len: "length (W1 m) = InputDim m * HiddenDim m" "length (B1 m) = HiddenDim m"
    "length (W2 m) = HiddenDim m * OutputDim m" "length (B2 m) = OutputDim m"
    using assms(1) by (simp_all add: wf_mlp_def)
  have nz: "preact m x (k mod HiddenDim m) \<noteq> 0" if "k < InputDim m * HiddenDim m" for k
    using assms(4) that mod_less_rows by blast
  show ?thesis
    unfolding Train_eq [OF assms(1-3)] len
    using W1_DERIV [OF assms(1) _ nz] B1_DERIV [OF assms(1)] W2_DERIV [OF assms(1)]
      B2_DERIV [OF assms(1)] assms(4)
    by (simp add: mult.assoc) blast
qed

definition tiny_real :: "real mlp" where
  "tiny_real = \<lparr>InputDim = 1, HiddenDim = 1, OutputDim = 1, W1 = [1], B1 = [1], W2 = [2], B2 = [0]\<rparr>"

theorem Train_is_gradient_descent_witness:
  "\<exists>m'. Train of_rat tiny_real [1] [3] (1 / 10) = Some (loss_of of_rat tiny_real [1] [3], m') \<and>
    (\<exists>D. ((\<lambda>w. loss_of of_rat (tiny_real\<lparr>W2 := [w]\<rparr>) [1] [3]) has_real_derivative D) (at 2)
       \<and> W2 m' ! 0 = 2 - 1 / 10 * D)"
proof -
  have h: "wf_mlp tiny_real" "InputDim tiny_real \<le> length [1::real]" "OutputDim tiny_real \<le> length [3::real]"
    "\<forall>j<HiddenDim tiny_real. preact tiny_real [1] j \<noteq> 0"
    by (simp_all add: tiny_real_def wf_mlp_def preact_def dot_def)
  from Train_is_gradient_descent [OF h, of "1 / 10"] show ?thesis
    by (force simp: tiny_real_def)
qed

end
