(* ===== verification/Json.thy ===== *)
theory Json
  imports GoFloat "HOL-Library.Char_ord" "HOL-Library.List_Lexorder"
begin

text \<open>
  What the program uses of \<^verbatim>\<open>encoding/json\<close>: persisted state and remote payloads are Go structs that
  are marshalled to JSON by reflection over their types and unmarshalled into a zero value of
  a type.

  A Go type is a value of \<open>gotype\<close>, a Go value of it a \<open>goval\<close>. JSON documents are trees; the text
  level (indentation, escapes, digits) is left out, since it is read back by the same library. A number
  written from a Go \<^verbatim>\<open>int\<close> is a \<open>JInt\<close>, one written from a \<^verbatim>\<open>float64\<close> a \<open>JNum\<close>, and the decoders accept
  either where the library does: a floating-point number is an integer literal when it is integral and
  below \<open>10 ^ 21\<close>. NaN and infinities cannot be marshalled.
\<close>

datatype json = JNull | JInt int | JNum f64 | JStr string | JTime int | JArr "json list" | JObj "(string \<times> json) list"

datatype gotype = TInt | TFloat | TString | TTime | TSlice gotype | TMap gotype | TStruct "(string \<times> gotype) list"

datatype goval = VInt int | VFloat f64 | VString string | VTime int | VSlice "goval list option"
  | VMap "(string \<times> goval) list option" | VStruct "goval list"

text \<open>All results of a list of partial results, or nothing.\<close>

fun all_some :: "'a option list \<Rightarrow> 'a list option" where
  "all_some [] = Some []"
| "all_some (None # xs) = None"
| "all_some (Some x # xs) = map_option ((#) x) (all_some xs)"

fun zero_val :: "gotype \<Rightarrow> goval" where
  "zero_val TInt = VInt 0"
| "zero_val TFloat = VFloat 0"
| "zero_val TString = VString ''''"
| "zero_val TTime = VTime zero_time"
| "zero_val (TSlice t) = VSlice None"
| "zero_val (TMap t) = VMap None"
| "zero_val (TStruct fs) = VStruct (map (\<lambda>f. zero_val (snd f)) fs)"

section \<open>Marshal\<close>

fun marshal :: "gotype \<Rightarrow> goval \<Rightarrow> json option"
  and marshal_fields :: "(string \<times> gotype) list \<Rightarrow> goval list \<Rightarrow> (string \<times> json) list option"
  and marshal_list :: "gotype \<Rightarrow> goval list \<Rightarrow> json list option"
  and marshal_map :: "gotype \<Rightarrow> (string \<times> goval) list \<Rightarrow> (string \<times> json) list option" where
  "marshal TInt (VInt i) = Some (JInt i)"
| "marshal TFloat (VFloat f) = (if finite_f64 f then Some (JNum f) else None)"
| "marshal TString (VString s) = Some (JStr s)"
| "marshal TTime (VTime t) = Some (JTime t)"
| "marshal (TSlice t) (VSlice None) = Some JNull"
| "marshal (TSlice t) (VSlice (Some vs)) = map_option JArr (marshal_list t vs)"
| "marshal (TMap t) (VMap None) = Some JNull"
| "marshal (TMap t) (VMap (Some m)) = map_option JObj (marshal_map t m)"
| "marshal (TStruct fs) (VStruct vs) = map_option JObj (marshal_fields fs vs)"
| "marshal _ _ = None"
| "marshal_fields [] [] = Some []"
| "marshal_fields ((n, t) # fs) (v # vs) =
    Option.bind (marshal t v) (\<lambda>j. map_option ((#) (n, j)) (marshal_fields fs vs))"
| "marshal_fields _ _ = None"
| "marshal_list t [] = Some []"
| "marshal_list t (v # vs) = Option.bind (marshal t v) (\<lambda>j. map_option ((#) j) (marshal_list t vs))"
| "marshal_map t [] = Some []"
| "marshal_map t ((k, v) # m) = Option.bind (marshal t v) (\<lambda>j. map_option ((#) (k, j)) (marshal_map t m))"

section \<open>Unmarshal\<close>

text \<open>Keys are matched to field names without regard to the case of ASCII letters; the last match counts.\<close>

definition upper :: "char \<Rightarrow> char" where
  "upper c = (if CHR ''a'' \<le> c \<and> c \<le> CHR ''z'' then char_of (of_char c - 32 :: nat) else c)"

definition fold_name :: "string \<Rightarrow> string" where
  "fold_name s = map upper s"

fun last_match :: "string \<Rightarrow> (string \<times> json) list \<Rightarrow> json option" where
  "last_match n [] = None"
| "last_match n ((k, j) # kvs) = (case last_match n kvs of Some j' \<Rightarrow> Some j'
     | None \<Rightarrow> if fold_name k = fold_name n then Some j else None)"

definition json_int :: "json \<Rightarrow> int option" where
  "json_int j = (case j of
     JInt i \<Rightarrow> if in_int64 i then Some i else None
   | JNum (FZero s) \<Rightarrow> Some 0
   | JNum (FNum q) \<Rightarrow> if of_int \<lfloor>q\<rfloor> = q \<and> \<bar>q\<bar> < 10 ^ 21 \<and> in_int64 \<lfloor>q\<rfloor> then Some \<lfloor>q\<rfloor> else None
   | _ \<Rightarrow> None)"

definition json_float :: "json \<Rightarrow> f64 option" where
  "json_float j = (case j of JInt i \<Rightarrow> Some (of_goint i) | JNum f \<Rightarrow> Some f | _ \<Rightarrow> None)"

fun unmarshal :: "gotype \<Rightarrow> json \<Rightarrow> goval option"
  and unmarshal_fields :: "(string \<times> gotype) list \<Rightarrow> (string \<times> json) list \<Rightarrow> goval list option" where
  "unmarshal t JNull = Some (zero_val t)"
| "unmarshal TInt j = map_option VInt (json_int j)"
| "unmarshal TFloat j = map_option VFloat (json_float j)"
| "unmarshal TString (JStr s) = Some (VString s)"
| "unmarshal TTime (JTime t) = Some (VTime t)"
| "unmarshal (TSlice t) (JArr js) = map_option (\<lambda>vs. VSlice (Some vs)) (all_some (map (unmarshal t) js))"
| "unmarshal (TMap t) (JObj kvs) =
    map_option (\<lambda>m. VMap (Some m)) (all_some (map (\<lambda>kv. map_option (Pair (fst kv)) (unmarshal t (snd kv))) kvs))"
| "unmarshal (TStruct fs) (JObj kvs) = map_option VStruct (unmarshal_fields fs kvs)"
| "unmarshal _ _ = None"
| "unmarshal_fields [] kvs = Some []"
| "unmarshal_fields ((n, t) # fs) kvs =
    Option.bind (case last_match n kvs of None \<Rightarrow> Some (zero_val t) | Some j \<Rightarrow> unmarshal t j)
      (\<lambda>v. map_option ((#) v) (unmarshal_fields fs kvs))"

text \<open>Decoding into an \<^verbatim>\<open>any\<close>: every number becomes a \<^verbatim>\<open>float64\<close>.\<close>

fun to_any :: "json \<Rightarrow> json" where
  "to_any (JInt i) = JNum (of_goint i)"
| "to_any (JArr js) = JArr (map to_any js)"
| "to_any (JObj kvs) = JObj (map (\<lambda>kv. (fst kv, to_any (snd kv))) kvs)"
| "to_any j = j"

text \<open>A value of type \<^verbatim>\<open>map[string]any\<close> marshals with its keys sorted, if no number in it is a NaN or an infinity.\<close>

fun json_finite :: "json \<Rightarrow> bool" where
  "json_finite (JNum f) = finite_f64 f"
| "json_finite (JArr js) = list_all json_finite js"
| "json_finite (JObj kvs) = list_all (\<lambda>kv. json_finite (snd kv)) kvs"
| "json_finite j = True"

definition marshal_any_map :: "(string \<times> json) list \<Rightarrow> json option" where
  "marshal_any_map m = (if json_finite (JObj m) then Some (JObj (sort_key fst m)) else None)"

section \<open>Typing\<close>

text \<open>
  The values of a type, with integers in range, maps with distinct keys and no floating-point value that
  JSON cannot represent.
\<close>

fun typed :: "gotype \<Rightarrow> goval \<Rightarrow> bool" and typed_fields :: "(string \<times> gotype) list \<Rightarrow> goval list \<Rightarrow> bool" where
  "typed TInt (VInt i) = in_int64 i"
| "typed TFloat (VFloat f) = finite_f64 f"
| "typed TString (VString s) = True"
| "typed TTime (VTime t) = True"
| "typed (TSlice t) (VSlice vs) = (case vs of None \<Rightarrow> True | Some vs \<Rightarrow> list_all (typed t) vs)"
| "typed (TMap t) (VMap m) = (case m of None \<Rightarrow> True | Some m \<Rightarrow> list_all (\<lambda>kv. typed t (snd kv)) m)"
| "typed (TStruct fs) (VStruct vs) = typed_fields fs vs"
| "typed _ _ = False"
| "typed_fields [] [] = True"
| "typed_fields ((n, t) # fs) (v # vs) = (typed t v \<and> typed_fields fs vs)"
| "typed_fields _ _ = False"

text \<open>Types whose field names differ in more than the case of letters.\<close>

fun wf_type :: "gotype \<Rightarrow> bool" where
  "wf_type (TSlice t) = wf_type t"
| "wf_type (TMap t) = wf_type t"
| "wf_type (TStruct fs) = (distinct (map (\<lambda>f. fold_name (fst f)) fs) \<and> list_all (\<lambda>f. wf_type (snd f)) fs)"
| "wf_type _ = True"

section \<open>Lemmas\<close>

lemma all_some_map_Some: "(\<And>x. x \<in> set xs \<Longrightarrow> f x = Some (g x)) \<Longrightarrow> all_some (map f xs) = Some (map g xs)"
  by (induction xs) auto

lemma last_match_None: "fold_name n \<notin> set (map (\<lambda>kv. fold_name (fst kv)) kvs) \<Longrightarrow> last_match n kvs = None"
  by (induction n kvs rule: last_match.induct) auto

lemma last_match_distinct:
  "distinct (map (\<lambda>kv. fold_name (fst kv)) kvs) \<Longrightarrow> (n, j) \<in> set kvs \<Longrightarrow> last_match n kvs = Some j"
proof (induction n kvs rule: last_match.induct)
  case (2 n k j' kvs)
  show ?case
  proof (cases "(n, j) \<in> set kvs")
    case True
    with 2 show ?thesis by simp
  next
    case False
    with 2 have "last_match n kvs = None" by (intro last_match_None) auto
    with False 2 show ?thesis by auto
  qed
qed simp

text \<open>Marshalling a value of the type succeeds, and unmarshalling the result gives the value back.\<close>

lemma unmarshal_marshal_all:
  "wf_type t \<Longrightarrow> typed t v \<Longrightarrow> \<exists>j. marshal t v = Some j \<and> unmarshal t j = Some v"
  "list_all (\<lambda>f. wf_type (snd f)) fs \<Longrightarrow> typed_fields fs vs \<Longrightarrow> \<exists>kvs. marshal_fields fs vs = Some kvs \<and>
    map fst kvs = map fst fs \<and> (\<forall>kvs'. (\<forall>(n, j)\<in>set kvs. last_match n kvs' = Some j) \<longrightarrow> unmarshal_fields fs kvs' = Some vs)"
  "wf_type t \<Longrightarrow> list_all (typed t) vs \<Longrightarrow> \<exists>js. marshal_list t vs = Some js \<and> all_some (map (unmarshal t) js) = Some vs"
  "wf_type t \<Longrightarrow> list_all (\<lambda>kv. typed t (snd kv)) m \<Longrightarrow> \<exists>kvs. marshal_map t m = Some kvs \<and>
    all_some (map (\<lambda>kv. map_option (Pair (fst kv)) (unmarshal t (snd kv))) kvs) = Some m"
proof (induction t v and fs vs and t vs and t m rule: marshal_marshal_fields_marshal_list_marshal_map.induct)
  case (9 fs vs)
  then obtain kvs where kvs: "marshal_fields fs vs = Some kvs" "map fst kvs = map fst fs"
    "\<forall>kvs'. (\<forall>(n, j)\<in>set kvs. last_match n kvs' = Some j) \<longrightarrow> unmarshal_fields fs kvs' = Some vs" by auto
  have "map (\<lambda>kv. fold_name (fst kv)) kvs = map (\<lambda>f. fold_name (fst f)) fs"
    using arg_cong [OF kvs(2), of "map fold_name"] by (simp add: comp_def)
  with 9 have "\<forall>(n, j)\<in>set kvs. last_match n kvs = Some j" by (auto intro: last_match_distinct)
  with kvs show ?case by auto
next
  case (12 n t fs v vs)
  then show ?case by fastforce
qed (auto simp: json_int_def json_float_def)

lemma unmarshal_marshal: "wf_type t \<Longrightarrow> typed t v \<Longrightarrow> Option.bind (marshal t v) (unmarshal t) = Some v"
  using unmarshal_marshal_all(1) by fastforce

lemma marshal_typed: "wf_type t \<Longrightarrow> typed t v \<Longrightarrow> \<exists>j. marshal t v = Some j"
  using unmarshal_marshal_all(1) by blast

end
