(* ===== verification/Mailbox.thy ===== *)
theory Mailbox
  imports Prelude "HOL-Library.Sublist"
begin

text \<open>
  The mailbox (\<^verbatim>\<open>actor-framework/mailbox.go\<close>): a FIFO queue of messages in front of each actor.

  A buffered Go channel is the list of its pending elements, oldest first, with its capacity
  and whether it is closed. \<open>Enqueue\<close> is one call by one sender, with every way it can end: the
  message is dealt with, the sender blocks, the send panics because the channel is closed, or the
  loop of \<^verbatim>\<open>DropOldest\<close> spins. \<open>pump_step\<close> is one iteration of the forwarding goroutine of an
  unbounded mailbox; its \<^verbatim>\<open>select\<close> may choose either ready case, so it is a relation.

  The interface \<open>fifo_queue\<close> says what any mailbox promises its actor, and \<open>lossless_queue\<close> what
  the unbounded and the blocking ones add; both are interpreted on the mailbox's own steps.
\<close>

datatype MailboxStrategy = DropNewest | DropOldest | BlockSender

definition DefaultMailboxSize :: nat where
  "DefaultMailboxSize = 256"

record 'm mailbox =
  ch :: "'m list"
  cap :: nat
  ch_closed :: bool
  strategy :: MailboxStrategy
  bounded :: bool
  unboundedIn :: "'m list"
  in_closed :: bool
  unboundedBuf :: "'m list"
  pump_done :: bool
  enqueued :: "64 word"
  dropped :: "64 word"

definition NewMailbox :: "nat \<Rightarrow> MailboxStrategy \<Rightarrow> 'm mailbox" where
  "NewMailbox capacity s = \<lparr>ch = [], cap = capacity, ch_closed = False, strategy = s, bounded = True,
     unboundedIn = [], in_closed = False, unboundedBuf = [], pump_done = True, enqueued = 0, dropped = 0\<rparr>"

text \<open>The strategy field of an unbounded mailbox is the zero value of its type.\<close>

definition NewUnboundedMailbox :: "'m mailbox" where
  "NewUnboundedMailbox = \<lparr>ch = [], cap = DefaultMailboxSize, ch_closed = False, strategy = DropNewest,
     bounded = False, unboundedIn = [], in_closed = False, unboundedBuf = [], pump_done = False,
     enqueued = 0, dropped = 0\<rparr>"

section \<open>The pump\<close>

inductive pump_step :: "'m mailbox \<Rightarrow> 'm mailbox \<Rightarrow> bool" where
  first: "\<not> bounded mb \<Longrightarrow> \<not> pump_done mb \<Longrightarrow> unboundedBuf mb = [] \<Longrightarrow> unboundedIn mb = m # ms \<Longrightarrow>
    pump_step mb (mb\<lparr>unboundedBuf := [m], unboundedIn := ms\<rparr>)"
| first_closed: "\<not> bounded mb \<Longrightarrow> \<not> pump_done mb \<Longrightarrow> unboundedBuf mb = [] \<Longrightarrow> unboundedIn mb = [] \<Longrightarrow>
    in_closed mb \<Longrightarrow> pump_step mb (mb\<lparr>pump_done := True\<rparr>)"
| forward: "\<not> bounded mb \<Longrightarrow> \<not> pump_done mb \<Longrightarrow> unboundedBuf mb = m # ms \<Longrightarrow> length (ch mb) < cap mb \<Longrightarrow>
    pump_step mb (mb\<lparr>ch := ch mb @ [m], unboundedBuf := ms\<rparr>)"
| collect: "\<not> bounded mb \<Longrightarrow> \<not> pump_done mb \<Longrightarrow> unboundedBuf mb \<noteq> [] \<Longrightarrow> unboundedIn mb = m # ms \<Longrightarrow>
    pump_step mb (mb\<lparr>unboundedBuf := unboundedBuf mb @ [m], unboundedIn := ms\<rparr>)"
| collect_closed: "\<not> bounded mb \<Longrightarrow> \<not> pump_done mb \<Longrightarrow> unboundedBuf mb \<noteq> [] \<Longrightarrow> unboundedIn mb = [] \<Longrightarrow>
    in_closed mb \<Longrightarrow> pump_step mb (mb\<lparr>pump_done := True\<rparr>)"

section \<open>Operations\<close>

datatype 'm enq = Sent "'m mailbox" | Blocks | SendPanic "'m mailbox" | Spins

text \<open>The \<^verbatim>\<open>for\<close> loop of \<^verbatim>\<open>DropOldest\<close>: try to send, otherwise drain one message and retry.\<close>

partial_function (option) drop_oldest_loop :: "'m mailbox \<Rightarrow> 'm \<Rightarrow> 'm mailbox option" where
  "drop_oldest_loop mb msg =
    (if length (ch mb) < cap mb then Some (mb\<lparr>ch := ch mb @ [msg]\<rparr>)
     else case ch mb of
       [] \<Rightarrow> drop_oldest_loop mb msg
     | m # ms \<Rightarrow> drop_oldest_loop (mb\<lparr>ch := ms, dropped := dropped mb + 1\<rparr>) msg)"

definition Enqueue :: "'m mailbox \<Rightarrow> 'm \<Rightarrow> 'm enq" where
  "Enqueue mb0 msg =
    (let mb = mb0\<lparr>enqueued := enqueued mb0 + 1\<rparr>
     in if \<not> bounded mb then
       if in_closed mb then SendPanic mb
       else if length (unboundedIn mb) < DefaultMailboxSize
         then Sent (mb\<lparr>unboundedIn := unboundedIn mb @ [msg]\<rparr>)
       else Blocks
     else if ch_closed mb then SendPanic mb
     else case strategy mb of
       BlockSender \<Rightarrow>
         if length (ch mb) < cap mb then Sent (mb\<lparr>ch := ch mb @ [msg]\<rparr>) else Blocks
     | DropNewest \<Rightarrow>
         if length (ch mb) < cap mb then Sent (mb\<lparr>ch := ch mb @ [msg]\<rparr>)
         else Sent (mb\<lparr>dropped := dropped mb + 1\<rparr>)
     | DropOldest \<Rightarrow>
         (case drop_oldest_loop mb msg of None \<Rightarrow> Spins | Some mb' \<Rightarrow> Sent mb'))"

text \<open>A receive on the channel that \<^verbatim>\<open>C()\<close> returns.\<close>

datatype 'm recv = Received 'm "'m mailbox" | WouldBlock | ChanClosed

definition receive :: "'m mailbox \<Rightarrow> 'm recv" where
  "receive mb = (case ch mb of
     m # ms \<Rightarrow> Received m (mb\<lparr>ch := ms\<rparr>)
   | [] \<Rightarrow> if ch_closed mb then ChanClosed else WouldBlock)"

text \<open>\<^verbatim>\<open>Close\<close>; closing a closed channel panics (\<^const>\<open>None\<close>).\<close>

definition Close :: "'m mailbox \<Rightarrow> 'm mailbox option" where
  "Close mb = (if \<not> bounded mb
     then (if in_closed mb then None else Some (mb\<lparr>in_closed := True\<rparr>))
     else (if ch_closed mb then None else Some (mb\<lparr>ch_closed := True\<rparr>)))"

record MailboxStats =
  Enqueued :: "64 word"
  Dropped :: "64 word"
  Pending :: nat

definition Stats :: "'m mailbox \<Rightarrow> MailboxStats" where
  "Stats mb = \<lparr>Enqueued = enqueued mb, Dropped = dropped mb, Pending = length (ch mb)\<rparr>"

section \<open>Invariant and steps\<close>

definition mailbox_inv :: "'m mailbox \<Rightarrow> bool" where
  "mailbox_inv mb \<longleftrightarrow> length (ch mb) \<le> cap mb \<and>
    (if bounded mb then unboundedIn mb = [] \<and> unboundedBuf mb = []
     else cap mb = DefaultMailboxSize \<and> length (unboundedIn mb) \<le> DefaultMailboxSize)"

text \<open>Every message that was accepted and not yet received, oldest first.\<close>

definition contents :: "'m mailbox \<Rightarrow> 'm list" where
  "contents mb = ch mb @ unboundedBuf mb @ unboundedIn mb"

datatype 'm mevent = Send 'm | Recv 'm | Tau

inductive mb_step :: "'m mailbox \<Rightarrow> 'm mevent \<Rightarrow> 'm mailbox \<Rightarrow> bool" where
  send: "Enqueue mb m = Sent mb' \<Longrightarrow> mb_step mb (Send m) mb'"
| recv: "receive mb = Received m mb' \<Longrightarrow> mb_step mb (Recv m) mb'"
| pump: "pump_step mb mb' \<Longrightarrow> mb_step mb Tau mb'"

inductive_cases mb_step_sendE: "mb_step mb (Send m) mb'"
inductive_cases mb_step_recvE: "mb_step mb (Recv m) mb'"
inductive_cases mb_step_tauE: "mb_step mb Tau mb'"

fun sends :: "'m mevent list \<Rightarrow> 'm list" where
  "sends [] = []"
| "sends (Send m # es) = m # sends es"
| "sends (_ # es) = sends es"

fun recvs :: "'m mevent list \<Rightarrow> 'm list" where
  "recvs [] = []"
| "recvs (Recv m # es) = m # recvs es"
| "recvs (_ # es) = recvs es"

lemma sends_append [simp]: "sends (es @ es') = sends es @ sends es'"
  by (induction es rule: sends.induct) auto

lemma recvs_append [simp]: "recvs (es @ es') = recvs es @ recvs es'"
  by (induction es rule: recvs.induct) auto

section \<open>The interface\<close>

text \<open>What an actor relies on: received messages are sent messages, in the order sent.\<close>

locale fifo_queue =
  fixes stp :: "'q \<Rightarrow> 'm mevent \<Rightarrow> 'q \<Rightarrow> bool" and cont :: "'q \<Rightarrow> 'm list" and inv :: "'q \<Rightarrow> bool"
  assumes inv_step: "stp q e q' \<Longrightarrow> inv q \<Longrightarrow> inv q'"
    and send_law: "stp q (Send m) q' \<Longrightarrow> inv q \<Longrightarrow> subseq (cont q') (cont q @ [m])"
    and recv_law: "stp q (Recv m) q' \<Longrightarrow> inv q \<Longrightarrow> cont q = m # cont q'"
    and tau_law: "stp q Tau q' \<Longrightarrow> inv q \<Longrightarrow> cont q' = cont q"
begin

lemma run_inv: "lrun stp q es q' \<Longrightarrow> inv q \<Longrightarrow> inv q'"
  by (erule lrun_inv) (auto intro: inv_step)

lemma run_fifo: "lrun stp q es q' \<Longrightarrow> inv q \<Longrightarrow> subseq (recvs es @ cont q') (cont q @ sends es)"
proof (induction rule: lrun.induct)
  case (lrun_nil q)
  then show ?case by simp
next
  case (lrun_snoc q es q' e q'')
  then have inv: "inv q'" and IH: "subseq (recvs es @ cont q') (cont q @ sends es)"
    by (auto intro: run_inv)
  show ?case
  proof (cases e)
    case (Send m)
    with lrun_snoc.hyps(2) inv have "subseq (recvs es @ cont q'') (recvs es @ (cont q' @ [m]))"
      by (auto intro: list_emb_append_mono dest: send_law)
    also have "subseq \<dots> ((cont q @ sends es) @ [m])"
      using IH list_emb_append_mono [OF IH, of "[m]" "[m]"] by simp
    finally show ?thesis using Send by simp
  next
    case (Recv m)
    with lrun_snoc.hyps(2) inv IH show ?thesis by (auto dest: recv_law)
  next
    case Tau
    with lrun_snoc.hyps(2) inv IH show ?thesis by (auto dest: tau_law)
  qed
qed

end

locale lossless_queue = fifo_queue +
  assumes send_exact: "stp q (Send m) q' \<Longrightarrow> inv q \<Longrightarrow> cont q' = cont q @ [m]"
begin

lemma run_lossless: "lrun stp q es q' \<Longrightarrow> inv q \<Longrightarrow> recvs es @ cont q' = cont q @ sends es"
proof (induction rule: lrun.induct)
  case (lrun_nil q)
  then show ?case by simp
next
  case (lrun_snoc q es q' e q'')
  then have "inv q'" by (auto intro: run_inv)
  with lrun_snoc show ?case
    by (cases e) (auto dest: send_exact recv_law tau_law)
qed

end

section \<open>Lemmas\<close>

lemma drop_oldest_loop_room:
  "length (ch mb) < cap mb \<Longrightarrow> drop_oldest_loop mb msg = Some (mb\<lparr>ch := ch mb @ [msg]\<rparr>)"
  by (subst drop_oldest_loop.simps) simp

text \<open>On a full channel of positive capacity the loop drains exactly one message.\<close>

lemma drop_oldest_loop_full:
  assumes "length (ch mb) = cap mb" "ch mb = m # ms"
  shows "drop_oldest_loop mb msg = Some (mb\<lparr>ch := ms @ [msg], dropped := dropped mb + 1\<rparr>)"
  using assms by (subst drop_oldest_loop.simps) (simp add: drop_oldest_loop_room)

lemma drop_oldest_loop_Some:
  assumes "length (ch mb) \<le> cap mb" "0 < cap mb"
  shows "drop_oldest_loop mb msg = Some (if length (ch mb) < cap mb then mb\<lparr>ch := ch mb @ [msg]\<rparr>
    else mb\<lparr>ch := tl (ch mb) @ [msg], dropped := dropped mb + 1\<rparr>)"
  using assms drop_oldest_loop_room [of mb msg] drop_oldest_loop_full [of mb _ _ msg]
  by (cases "ch mb") auto

text \<open>With capacity 0 and no receiver the loop never returns.\<close>

lemma drop_oldest_loop_spins:
  assumes "cap mb = 0" "ch mb = []"
  shows "drop_oldest_loop mb msg = None"
proof (rule ccontr)
  assume "drop_oldest_loop mb msg \<noteq> None"
  then obtain r where ret: "drop_oldest_loop mb msg = Some r" by auto
  have "\<not> (cap mb = 0 \<and> ch mb = [])"
  proof (rule drop_oldest_loop.raw_induct [where P = "\<lambda>mb msg r. \<not> (cap mb = 0 \<and> ch mb = [])", OF _ ret])
    fix f mb msg r
    assume IH: "\<And>mb msg r. f mb msg = Some r \<Longrightarrow> \<not> (cap mb = 0 \<and> ch mb = [])"
      and eq: "(if length (ch mb) < cap mb then Some (mb\<lparr>ch := ch mb @ [msg]\<rparr>)
        else case ch mb of [] \<Rightarrow> f mb msg
          | m # ms \<Rightarrow> f (mb\<lparr>ch := ms, dropped := dropped mb + 1\<rparr>) msg) = Some r"
    show "\<not> (cap mb = 0 \<and> ch mb = [])" using IH [of mb msg r] eq by auto
  qed
  with assms show False by simp
qed

text \<open>So \<open>Enqueue\<close> is a case distinction without a loop.\<close>

lemma Enqueue_eq:
  assumes "mailbox_inv mb"
  shows "Enqueue mb msg =
    (let mb = mb\<lparr>enqueued := enqueued mb + 1\<rparr>; room = length (ch mb) < cap mb; sent = Sent (mb\<lparr>ch := ch mb @ [msg]\<rparr>)
     in if \<not> bounded mb then
       (if in_closed mb then SendPanic mb
        else if length (unboundedIn mb) < DefaultMailboxSize then Sent (mb\<lparr>unboundedIn := unboundedIn mb @ [msg]\<rparr>)
        else Blocks)
     else if ch_closed mb then SendPanic mb
     else if room then sent
     else case strategy mb of
       BlockSender \<Rightarrow> Blocks
     | DropNewest \<Rightarrow> Sent (mb\<lparr>dropped := dropped mb + 1\<rparr>)
     | DropOldest \<Rightarrow> if cap mb = 0 then Spins else Sent (mb\<lparr>ch := tl (ch mb) @ [msg], dropped := dropped mb + 1\<rparr>))"
  using assms
  by (auto simp: Enqueue_def Let_def mailbox_inv_def drop_oldest_loop_Some drop_oldest_loop_spins
      split: MailboxStrategy.splits)

lemma mailbox_inv_New [simp, inv_intros]: "mailbox_inv (NewMailbox c s)" "mailbox_inv NewUnboundedMailbox"
  by (simp_all add: mailbox_inv_def NewMailbox_def NewUnboundedMailbox_def)

lemma Enqueue_inv: "Enqueue mb m = Sent mb' \<Longrightarrow> mailbox_inv mb \<Longrightarrow> mailbox_inv mb'"
  by (auto simp: Enqueue_eq Let_def split: if_splits MailboxStrategy.splits) (auto simp: mailbox_inv_def)

lemma receive_inv: "receive mb = Received m mb' \<Longrightarrow> mailbox_inv mb \<Longrightarrow> mailbox_inv mb'"
  by (auto simp: receive_def mailbox_inv_def split: list.splits if_splits)

lemma pump_step_inv: "pump_step mb mb' \<Longrightarrow> mailbox_inv mb \<Longrightarrow> mailbox_inv mb'"
  by (induction rule: pump_step.induct) (auto simp: mailbox_inv_def)

lemma mb_step_inv: "mb_step mb e mb' \<Longrightarrow> mailbox_inv mb \<Longrightarrow> mailbox_inv mb'"
  by (induction rule: mb_step.induct) (auto intro: Enqueue_inv receive_inv pump_step_inv)

lemma Enqueue_contents:
  "Enqueue mb m = Sent mb' \<Longrightarrow> mailbox_inv mb \<Longrightarrow>
    contents mb' = (if bounded mb \<and> length (ch mb) = cap mb
      then (if strategy mb = DropOldest then tl (contents mb) @ [m] else contents mb)
      else contents mb @ [m])"
  by (auto simp: Enqueue_eq Let_def mailbox_inv_def contents_def split: if_splits MailboxStrategy.splits)

lemma Enqueue_fields:
  "Enqueue mb m = Sent mb' \<Longrightarrow> mailbox_inv mb \<Longrightarrow> bounded mb' = bounded mb \<and> strategy mb' = strategy mb
    \<and> cap mb' = cap mb \<and> enqueued mb' = enqueued mb + 1"
  by (auto simp: Enqueue_eq Let_def split: if_splits MailboxStrategy.splits)

lemma receive_contents: "receive mb = Received m mb' \<Longrightarrow> contents mb = m # contents mb'"
  by (auto simp: receive_def contents_def split: list.splits if_splits)

lemma pump_step_contents: "pump_step mb mb' \<Longrightarrow> contents mb' = contents mb"
  by (induction rule: pump_step.induct) (auto simp: contents_def)

lemma pump_step_fields:
  "pump_step mb mb' \<Longrightarrow> bounded mb' = bounded mb \<and> strategy mb' = strategy mb \<and> cap mb' = cap mb
    \<and> enqueued mb' = enqueued mb \<and> dropped mb' = dropped mb"
  by (induction rule: pump_step.induct) auto

lemma mb_step_kind: "mb_step mb e mb' \<Longrightarrow> mailbox_inv mb \<Longrightarrow> bounded mb' = bounded mb \<and> strategy mb' = strategy mb"
  by (induction rule: mb_step.induct)
    (auto dest: Enqueue_fields pump_step_fields simp: receive_def split: list.splits if_splits)

lemma subseq_tl_snoc: "subseq (tl xs @ ys) (xs @ ys)"
  by (cases xs) (auto intro: list_emb_Cons)

interpretation mbq: fifo_queue mb_step contents mailbox_inv
proof unfold_locales
  fix q q' :: "'m mailbox" and m
  assume "mb_step q (Send m) q'" "mailbox_inv q"
  then show "subseq (contents q') (contents q @ [m])"
    by (auto elim!: mb_step_sendE simp: Enqueue_contents subseq_tl_snoc)
qed (auto elim!: mb_step_recvE mb_step_tauE intro: mb_step_inv receive_contents pump_step_contents)

text \<open>The mailboxes that never drop: the unbounded ones and those that block the sender.\<close>

definition lossless_inv :: "'m mailbox \<Rightarrow> bool" where
  "lossless_inv mb \<longleftrightarrow> mailbox_inv mb \<and> (bounded mb \<longrightarrow> strategy mb = BlockSender)"

lemma Enqueue_lossless:
  "Enqueue mb m = Sent mb' \<Longrightarrow> lossless_inv mb \<Longrightarrow> contents mb' = contents mb @ [m] \<and> dropped mb' = dropped mb"
  by (auto simp: lossless_inv_def Enqueue_eq Let_def mailbox_inv_def contents_def split: if_splits)

interpretation mbl: lossless_queue mb_step contents lossless_inv
proof unfold_locales
  fix q q' :: "'m mailbox" and m
  assume "mb_step q (Send m) q'" "lossless_inv q"
  then show "contents q' = contents q @ [m]" "subseq (contents q') (contents q @ [m])"
    by (auto elim!: mb_step_sendE simp: Enqueue_lossless)
qed (auto elim!: mb_step_recvE mb_step_tauE simp: lossless_inv_def
    intro: mb_step_inv receive_contents pump_step_contents dest: mb_step_kind)

subsection \<open>Accounting\<close>

text \<open>The messages counted by \<open>enqueued\<close> that were neither dropped nor are still pending.\<close>

definition balance :: "'m mailbox \<Rightarrow> 64 word" where
  "balance mb = enqueued mb - dropped mb - of_nat (length (contents mb))"

lemma Enqueue_balance:
  assumes "Enqueue mb m = Sent mb'" "mailbox_inv mb"
  shows "balance mb' = balance mb"
  using assms by (cases "ch mb") (auto simp: balance_def Enqueue_eq Let_def mailbox_inv_def contents_def
      algebra_simps split: if_splits MailboxStrategy.splits dest!: sym [of "Suc _"])

lemma mb_step_balance:
  assumes "mb_step mb e mb'" "mailbox_inv mb"
  shows "balance mb' = balance mb + of_nat (length (recvs [e]))"
  using assms(1)
proof cases
  case (send m)
  with assms(2) show ?thesis by (simp add: Enqueue_balance)
next
  case (recv m)
  then have "enqueued mb' = enqueued mb" "dropped mb' = dropped mb"
    by (auto simp: receive_def split: list.splits if_splits)
  with recv show ?thesis by (simp add: balance_def receive_contents)
next
  case pump
  then show ?thesis by (simp add: balance_def pump_step_contents pump_step_fields)
qed

lemma mb_run_balance:
  "lrun mb_step mb es mb' \<Longrightarrow> mailbox_inv mb \<Longrightarrow> balance mb' = balance mb + of_nat (length (recvs es))"
proof (induction rule: lrun.induct)
  case (lrun_nil q)
  then show ?case by simp
next
  case (lrun_snoc q es q' e q'')
  then have "mailbox_inv q'" by (auto intro: mbq.run_inv)
  with lrun_snoc show ?case by (simp add: mb_step_balance)
qed

lemma mb_run_lossless_dropped:
  "lrun mb_step mb es mb' \<Longrightarrow> lossless_inv mb \<Longrightarrow> dropped mb' = dropped mb"
proof (induction rule: lrun.induct)
  case (lrun_snoc q es q' e q'')
  then have "lossless_inv q'" by (auto intro: mbl.run_inv)
  with lrun_snoc show ?case
    by (auto elim!: mb_step.cases simp: Enqueue_lossless pump_step_fields receive_def
        split: list.splits if_splits)
qed simp

lemmas mb_run_Cons = lrun_Cons [where stp = mb_step]
lemmas mb_run_one = lrun_one [where stp = mb_step]

section \<open>Properties\<close>

text \<open>
  C8: whatever its kind, capacity and strategy, a mailbox delivers in FIFO order and invents
  nothing: along every run the messages received, followed by those still pending, are a
  subsequence of the messages sent; a bounded channel never exceeds its capacity; and the two
  counters account for every message (modulo the counters' 64 bits).
\<close>

theorem mailbox_fifo:
  assumes "mb0 = NewMailbox c s \<or> mb0 = NewUnboundedMailbox" and "lrun mb_step mb0 es mb"
  shows "subseq (recvs es @ contents mb) (sends es) \<and> length (ch mb) \<le> cap mb \<and>
    enqueued mb = dropped mb + of_nat (length (recvs es)) + of_nat (length (contents mb))"
proof -
  have inv: "mailbox_inv mb0" and fresh: "contents mb0 = []" "enqueued mb0 = 0" "dropped mb0 = 0"
    using assms(1) by (auto simp: NewMailbox_def NewUnboundedMailbox_def contents_def
        mailbox_inv_def)
  have "mailbox_inv mb" using assms(2) inv by (rule mbq.run_inv)
  with mbq.run_fifo [OF assms(2) inv] mb_run_balance [OF assms(2) inv] fresh show ?thesis
    by (simp add: mailbox_inv_def balance_def algebra_simps)
qed

theorem mailbox_fifo_witness:
  "\<exists>mb :: nat mailbox. lrun mb_step (NewMailbox 1 DropNewest) [Send 7, Send 8, Recv 7] mb \<and>
    subseq (recvs [Send 7, Send 8, Recv 7] @ contents mb) [7, 8] \<and> dropped mb = 1 \<and>
    enqueued mb = dropped mb + 1"
proof -
  define a :: "nat mailbox" where "a = NewMailbox 1 DropNewest"
  define b where "b = a\<lparr>ch := [7], enqueued := 1\<rparr>"
  define c where "c = b\<lparr>enqueued := 2, dropped := 1\<rparr>"
  define d where "d = c\<lparr>ch := []\<rparr>"
  note defs = d_def c_def b_def a_def NewMailbox_def
  have s: "mb_step a (Send 7) b" "mb_step b (Send 8) c" "mb_step c (Recv 7) d"
    by (intro mb_step.intros, simp add: defs Enqueue_def receive_def)+
  have r: "lrun mb_step a [Send 7, Send 8, Recv 7] d"
    by (rule mb_run_Cons [OF s(1) mb_run_Cons [OF s(2) mb_run_one [OF s(3)]]])
  show ?thesis
    using r mailbox_fifo [OF disjI1 r, of 1 DropNewest] by (auto simp: defs contents_def)
qed



text \<open>
  An open bounded mailbox of positive capacity with a dropping strategy never blocks, spins or
  panics the sender, so \<open>Tell\<close> is the non-blocking call its interface promises. With room it
  appends; when full, \<open>DropNewest\<close> keeps the queue and \<open>DropOldest\<close> replaces the oldest message;
  either way one drop is counted.
\<close>

theorem Enqueue_dropping:
  assumes "mailbox_inv mb" and "bounded mb" and "\<not> ch_closed mb" and "0 < cap mb"
    and "strategy mb \<noteq> BlockSender"
  shows "\<exists>mb'. Enqueue mb m = Sent mb' \<and> mailbox_inv mb' \<and> enqueued mb' = enqueued mb + 1 \<and>
    ch mb' = (if length (ch mb) < cap mb then ch mb @ [m]
       else if strategy mb = DropNewest then ch mb else tl (ch mb) @ [m]) \<and>
    dropped mb' = dropped mb + (if length (ch mb) < cap mb then 0 else 1)"
proof -
  have "\<exists>mb'. Enqueue mb m = Sent mb'"
    using assms by (auto simp: Enqueue_eq Let_def split: MailboxStrategy.splits)
  then obtain mb' where e: "Enqueue mb m = Sent mb'" ..
  then have "mailbox_inv mb'" using assms(1) by (rule Enqueue_inv)
  with e assms show ?thesis
    by (auto simp: Enqueue_eq Let_def split: if_splits MailboxStrategy.splits)
qed

theorem Enqueue_dropping_witness:
  "\<exists>mb'. Enqueue (NewMailbox 1 DropOldest\<lparr>ch := [7 :: nat], enqueued := 1\<rparr>) 8 = Sent mb' \<and>
    ch mb' = [8] \<and> dropped mb' = 1"
  using Enqueue_dropping [of "NewMailbox 1 DropOldest\<lparr>ch := [7 :: nat], enqueued := 1\<rparr>" 8]
  by (auto simp: NewMailbox_def mailbox_inv_def)

text \<open>
  The unbounded mailbox makes progress. While its pump goroutine runs, a sender that finds the
  input channel full can always be released by one pump step, and when the consumer channel is
  empty but messages are in flight, at most two pump steps bring the oldest of them to the consumer.
\<close>

theorem unbounded_mailbox_progress:
  assumes "mailbox_inv mb" and "\<not> bounded mb" and "\<not> pump_done mb" and "\<not> in_closed mb"
  shows "(Enqueue mb m = Blocks \<longrightarrow> (\<exists>mb' mb''. pump_step mb mb' \<and> Enqueue mb' m = Sent mb'')) \<and>
    (ch mb = [] \<and> contents mb = x # xs \<longrightarrow>
      (\<exists>mb'. (pump_step mb mb' \<or> (\<exists>mb1. pump_step mb mb1 \<and> pump_step mb1 mb')) \<and> ch mb' = [x]))"
proof (intro conjI impI)
  assume "Enqueue mb m = Blocks"
  then have full: "length (unboundedIn mb) = DefaultMailboxSize"
    using assms by (auto simp: Enqueue_eq Let_def mailbox_inv_def split: if_splits)
  then obtain y ys where y: "unboundedIn mb = y # ys" by (cases "unboundedIn mb") (auto simp: DefaultMailboxSize_def)
  have p: "pump_step mb (mb\<lparr>unboundedBuf := unboundedBuf mb @ [y], unboundedIn := ys\<rparr>)"
    using assms(2,3) y pump_step.first [of mb y ys] pump_step.collect [of mb y ys]
    by (cases "unboundedBuf mb = []") simp_all
  moreover have "Enqueue (mb\<lparr>unboundedBuf := unboundedBuf mb @ [y], unboundedIn := ys\<rparr>) m
      = Sent (mb\<lparr>unboundedBuf := unboundedBuf mb @ [y], unboundedIn := ys @ [m], enqueued := enqueued mb + 1\<rparr>)"
    using full y assms by (simp add: Enqueue_def)
  ultimately show "\<exists>mb' mb''. pump_step mb mb' \<and> Enqueue mb' m = Sent mb''" by blast
next
  assume "ch mb = [] \<and> contents mb = x # xs"
  then have c: "ch mb = []" and q: "unboundedBuf mb @ unboundedIn mb = x # xs" by (auto simp: contents_def)
  have cap: "0 < cap mb" using assms(1,2) by (simp add: mailbox_inv_def DefaultMailboxSize_def)
  show "\<exists>mb'. (pump_step mb mb' \<or> (\<exists>mb1. pump_step mb mb1 \<and> pump_step mb1 mb')) \<and> ch mb' = [x]"
  proof (cases "unboundedBuf mb")
    case Nil
    with q have i: "unboundedIn mb = x # xs" by simp
    let ?mb1 = "mb\<lparr>unboundedBuf := [x], unboundedIn := xs\<rparr>"
    have "pump_step mb ?mb1" using assms Nil i by (intro pump_step.first) auto
    moreover have "pump_step ?mb1 (?mb1\<lparr>ch := ch ?mb1 @ [x], unboundedBuf := []\<rparr>)"
      using assms c cap by (intro pump_step.forward) auto
    moreover have "ch (?mb1\<lparr>ch := ch ?mb1 @ [x], unboundedBuf := []\<rparr>) = [x]" using c by simp
    ultimately show ?thesis by blast
  next
    case (Cons y ys)
    then have "pump_step mb (mb\<lparr>ch := ch mb @ [x], unboundedBuf := ys\<rparr>)"
      using assms c cap q by (intro pump_step.forward) auto
    moreover have "ch (mb\<lparr>ch := ch mb @ [x], unboundedBuf := ys\<rparr>) = [x]" using c by simp
    ultimately show ?thesis by blast
  qed
qed

theorem unbounded_mailbox_progress_witness:
  "\<exists>mb' :: nat mailbox. (pump_step (NewUnboundedMailbox\<lparr>unboundedIn := [7]\<rparr>) mb' \<or>
      (\<exists>mb1. pump_step (NewUnboundedMailbox\<lparr>unboundedIn := [7]\<rparr>) mb1 \<and> pump_step mb1 mb')) \<and> ch mb' = [7]"
  using unbounded_mailbox_progress [of "NewUnboundedMailbox\<lparr>unboundedIn := [7 :: nat]\<rparr>" 0 7 "[]"]
  by (simp add: NewUnboundedMailbox_def mailbox_inv_def contents_def DefaultMailboxSize_def)

text \<open>
  Closing a mailbox does not make \<open>Enqueue\<close> a no-op, as the comment of \<open>Close\<close> says: every later
  \<open>Enqueue\<close> panics, in both modes. Nor does closing an unbounded mailbox close its consumer
  channel: no pump step does, and a receive on it blocks instead of reporting the close.
\<close>

theorem Close_then_Enqueue_panics:
  assumes "Close mb = Some mb'"
  shows "(\<exists>mb''. Enqueue mb' m = SendPanic mb'') \<and>
    (\<not> bounded mb \<and> \<not> ch_closed mb \<and> ch mb = [] \<longrightarrow> receive mb' = WouldBlock) \<and>
    (\<forall>mb''. pump_step mb' mb'' \<longrightarrow> ch_closed mb'' = ch_closed mb')"
  using assms
  by (auto simp: Close_def Enqueue_def Let_def receive_def elim!: pump_step.cases split: if_splits)

theorem Close_then_Enqueue_panics_witness:
  "\<exists>mb' mb''. Close (NewUnboundedMailbox :: nat mailbox) = Some mb' \<and> Enqueue mb' 5 = SendPanic mb'' \<and>
    receive mb' = WouldBlock"
  using Close_then_Enqueue_panics [of "NewUnboundedMailbox :: nat mailbox" _ 5]
  by (auto simp: Close_def NewUnboundedMailbox_def)

end
