(* ===== verification/Actor.thy ===== *)
theory Actor
  imports Mailbox
begin

text \<open>
  Messages, references and the behaviour stack (\<^verbatim>\<open>actor-framework/actor.go\<close> and
  \<^verbatim>\<open>context.go\<close>).

  The dynamic type \<^verbatim>\<open>any\<close> of a payload is a datatype with the framework's own payload types
  as constructors and \<open>Dyn\<close> for the application's, whose type \<open>'u\<close> is a parameter: the
  framework is generic in it, as the source is. A behaviour function that an actor installs with
  \<^verbatim>\<open>Become\<close> is represented by a tag of the parameter type \<open>'b\<close>.
\<close>

type_synonym ActorID = string
type_synonym MessageType = string

abbreviation MsgStarted :: MessageType where "MsgStarted \<equiv> ''system.started''"
abbreviation MsgStopping :: MessageType where "MsgStopping \<equiv> ''system.stopping''"
abbreviation MsgStopped :: MessageType where "MsgStopped \<equiv> ''system.stopped''"
abbreviation MsgRestarting :: MessageType where "MsgRestarting \<equiv> ''system.restarting''"
abbreviation MsgActorFailed :: MessageType where "MsgActorFailed \<equiv> ''supervision.actor_failed''"
abbreviation MsgStatusCheck :: MessageType where "MsgStatusCheck \<equiv> ''supervision.status_check''"
abbreviation MsgHeartbeat :: MessageType where "MsgHeartbeat \<equiv> ''supervision.heartbeat''"

text \<open>The payload that the system sends to a supervisor (\<^verbatim>\<open>system.go\<close>).\<close>

record ActorFailedPayload =
  failedID :: ActorID
  ActorType :: string
  Error :: string
  RestartCount :: int

text \<open>A message and its dynamically typed payload. A reply channel is named by a number.\<close>

datatype 'u any = NilAny | AskEnvelope (Original: "'u message") (ReplyCh: nat) | ActorFailed ActorFailedPayload | Dyn 'u
  and 'u message = Message (MsgType: MessageType) (Payload: "'u any") (Sender: ActorID) (Timestamp: int)

definition newMessage :: "go_env \<Rightarrow> MessageType \<Rightarrow> 'u any \<Rightarrow> ActorID \<Rightarrow> 'u message" where
  "newMessage e t payload sender = Message t payload sender (now e)"

text \<open>A composite literal that leaves the timestamp out gets the zero time.\<close>

definition mkMessage :: "MessageType \<Rightarrow> 'u any \<Rightarrow> ActorID \<Rightarrow> 'u message" where
  "mkMessage t payload sender = Message t payload sender zero_time"

definition IsAsk :: "'u message \<Rightarrow> ('u message \<times> nat) option" where
  "IsAsk msg = (case Payload msg of AskEnvelope orig r \<Rightarrow> Some (orig, r) | _ \<Rightarrow> None)"

text \<open>The message that \<^verbatim>\<open>localActorRef.Ask\<close> enqueues.\<close>

definition askMessage :: "go_env \<Rightarrow> nat \<Rightarrow> 'u message \<Rightarrow> 'u message" where
  "askMessage e replyCh msg = Message (MsgType msg) (AskEnvelope msg replyCh) (Sender msg) (now e)"

section \<open>Behaviours\<close>

text \<open>The stack of \<^verbatim>\<open>actorContext\<close>: \<open>Become\<close> pushes at the end, \<open>Unbecome\<close> pops, the last is active.\<close>

definition Become :: "'b \<Rightarrow> 'b list \<Rightarrow> 'b list" where
  "Become b stack = stack @ [b]"

definition Unbecome :: "'b list \<Rightarrow> 'b list" where
  "Unbecome stack = (if length stack = 0 then stack else take (length stack - 1) stack)"

definition CurrentBehavior :: "'b list \<Rightarrow> 'b option" where
  "CurrentBehavior stack = (if length stack = 0 then None else Some (stack ! (length stack - 1)))"

definition isLifecycle :: "MessageType \<Rightarrow> bool" where
  "isLifecycle t \<longleftrightarrow> t = MsgStarted \<or> t = MsgStopping \<or> t = MsgStopped \<or> t = MsgRestarting"

text \<open>Which handler \<^verbatim>\<open>dispatch\<close> runs: a behaviour, or the actor's own \<^verbatim>\<open>Receive\<close> (\<^const>\<open>None\<close>).\<close>

definition handler_for :: "'b list \<Rightarrow> MessageType \<Rightarrow> 'b option" where
  "handler_for stack t = (if \<not> isLifecycle t then CurrentBehavior stack else None)"

section \<open>Lemmas\<close>

lemma Unbecome_Become [simp]: "Unbecome (Become b stack) = stack"
  by (simp add: Become_def Unbecome_def)

lemma CurrentBehavior_Become [simp]: "CurrentBehavior (Become b stack) = Some b"
  by (simp add: Become_def CurrentBehavior_def)

lemma Unbecome_Nil [simp]: "Unbecome [] = []"
  by (simp add: Unbecome_def)

lemma CurrentBehavior_Nil [simp]: "CurrentBehavior [] = None"
  by (simp add: CurrentBehavior_def)

lemma Unbecome_butlast: "Unbecome stack = butlast stack"
  by (simp add: Unbecome_def butlast_conv_take)

lemma CurrentBehavior_last: "stack \<noteq> [] \<Longrightarrow> CurrentBehavior stack = Some (last stack)"
  by (simp add: CurrentBehavior_def last_conv_nth)

lemma IsAsk_askMessage [simp]: "IsAsk (askMessage e r msg) = Some (msg, r)"
  by (simp add: IsAsk_def askMessage_def)

section \<open>Properties\<close>

text \<open>
  The behaviour stack is a stack, and lifecycle messages bypass it: \<open>Unbecome\<close> undoes
  \<open>Become\<close>, is a no-op on the empty stack, the most recent behaviour handles every message that
  is not a lifecycle message, and a lifecycle message reaches the actor's own \<open>Receive\<close> whatever
  is on the stack, as does every message when the stack is empty.
\<close>

theorem behavior_stack_dispatch:
  "Unbecome (Become b stack) = stack \<and> Unbecome [] = ([] :: 'b list) \<and>
    handler_for (Become b stack) t = (if isLifecycle t then None else Some b) \<and>
    handler_for ([] :: 'b list) t = None"
  by (simp add: handler_for_def)

end
