(* ===== verification/ActorSystem.thy ===== *)
theory ActorSystem
  imports Actor
begin

text \<open>
  The actor system (\<^verbatim>\<open>actor-framework/system.go\<close>, and the references of \<^verbatim>\<open>actor.go\<close>).

  The state \<open>sys\<close> has a heap of all \<^verbatim>\<open>actorEntry\<close> values ever made, each with its actor, mailbox
  and context; the address of an entry is its position and doubles as the \<^verbatim>\<open>*localActorRef\<close>, so a
  reference obtained before a restart still points at the old mailbox. \<open>actors\<close> is the registry,
  \<open>wg\<close> the wait group, \<open>replies\<close> the reply channels of \<^verbatim>\<open>Ask\<close>, and \<open>world\<close> whatever else the
  application's actors share (files, background goroutines).

  An implementation of the \<^verbatim>\<open>Actor\<close> interface is a value of \<open>actor_ops\<close>: its methods act on the
  whole state at the address of the actor. The goroutine \<^verbatim>\<open>runActor\<close> is split at the points where
  it waits: \<open>run_start\<close>, \<open>run_receive\<close> and \<open>run_stop\<close> are what it does between two waits, and
  \<open>sys_step\<close> lets any goroutine take its next turn, so that every interleaving of whole handler
  calls is a run. A handler that would block on a full channel is not scheduled until it can run
  through (\<open>Blocked\<close>).
\<close>

record SpawnOptions =
  MailboxCapacity :: int
  SpawnStrategy :: MailboxStrategy
  SupervisorID :: ActorID

definition DefaultSpawnOptions :: SpawnOptions where
  "DefaultSpawnOptions = \<lparr>MailboxCapacity = int DefaultMailboxSize, SpawnStrategy = DropNewest, SupervisorID = ''''\<rparr>"

text \<open>The point that the goroutine of an entry has reached.\<close>

datatype phase = Spawned | Running | Stopped | Failed

fun live :: "phase \<Rightarrow> bool" where
  "live Spawned = True"
| "live Running = True"
| "live _ = False"

record ('a, 'b, 'u) entry =
  actor :: 'a
  mbox :: "'u message mailbox"
  sender :: "nat option"
  behaviorStack :: "'b list"
  cancelled :: bool
  spawnOpts :: SpawnOptions
  phase :: phase

record ('a, 'b, 'u, 'w) sys =
  heap :: "('a, 'b, 'u) entry list"
  actors :: "(ActorID, nat) gomap"
  shut :: bool
  wg :: nat
  replies :: "'u message list list"
  world :: 'w

datatype 's outcome = Done 's | Panicked string 's | Blocked

fun obind :: "'s outcome \<Rightarrow> ('s \<Rightarrow> 's outcome) \<Rightarrow> 's outcome" where
  "obind (Done s) f = f s"
| "obind (Panicked r s) f = Panicked r s"
| "obind Blocked f = Blocked"

text \<open>The methods of the \<^verbatim>\<open>Actor\<close> interface, plus the behaviour functions by tag.\<close>

record ('a, 'b, 'u, 'w) actor_ops =
  ID :: "'a \<Rightarrow> ActorID"
  TypeName :: "'a \<Rightarrow> string"
  OnPreStart :: "go_env \<Rightarrow> nat \<Rightarrow> ('a, 'b, 'u, 'w) sys \<Rightarrow> string option \<times> ('a, 'b, 'u, 'w) sys"
  OnPostStop :: "go_env \<Rightarrow> nat \<Rightarrow> ('a, 'b, 'u, 'w) sys \<Rightarrow> ('a, 'b, 'u, 'w) sys"
  OnPreRestart :: "go_env \<Rightarrow> nat \<Rightarrow> string \<Rightarrow> ('a, 'b, 'u, 'w) sys \<Rightarrow> ('a, 'b, 'u, 'w) sys"
  Receive :: "go_env \<Rightarrow> nat \<Rightarrow> 'u message \<Rightarrow> ('a, 'b, 'u, 'w) sys \<Rightarrow> ('a, 'b, 'u, 'w) sys outcome"
  Behave :: "'b \<Rightarrow> go_env \<Rightarrow> nat \<Rightarrow> 'u message \<Rightarrow> ('a, 'b, 'u, 'w) sys \<Rightarrow> ('a, 'b, 'u, 'w) sys outcome"

datatype sys_error = ShutDownSystem | AlreadyRegistered ActorID | NotFound ActorID | NegativeCapacity int

section \<open>References\<close>

abbreviation ent :: "('a, 'b, 'u, 'w) sys \<Rightarrow> nat \<Rightarrow> ('a, 'b, 'u) entry" where
  "ent s a \<equiv> heap s ! a"

definition upd_ent :: "nat \<Rightarrow> (('a, 'b, 'u) entry \<Rightarrow> ('a, 'b, 'u) entry) \<Rightarrow> ('a, 'b, 'u, 'w) sys \<Rightarrow> ('a, 'b, 'u, 'w) sys" where
  "upd_ent a f s = s\<lparr>heap := (heap s)[a := f (ent s a)]\<rparr>"

text \<open>\<^verbatim>\<open>localActorRef.Tell\<close>: one \<^verbatim>\<open>Enqueue\<close> on the mailbox of the referenced entry.\<close>

definition Tell :: "nat \<Rightarrow> 'u message \<Rightarrow> ('a, 'b, 'u, 'w) sys \<Rightarrow> ('a, 'b, 'u, 'w) sys outcome" where
  "Tell a msg s = (case Enqueue (mbox (ent s a)) msg of
     Sent mb \<Rightarrow> Done (upd_ent a (\<lambda>en. en\<lparr>mbox := mb\<rparr>) s)
   | SendPanic mb \<Rightarrow> Panicked ''send on closed channel'' (upd_ent a (\<lambda>en. en\<lparr>mbox := mb\<rparr>) s)
   | Blocks \<Rightarrow> Blocked
   | Spins \<Rightarrow> Blocked)"

definition StopRef :: "go_env \<Rightarrow> nat \<Rightarrow> ('a, 'b, 'u, 'w) sys \<Rightarrow> ('a, 'b, 'u, 'w) sys outcome" where
  "StopRef e a s = Tell a (newMessage e MsgStopping NilAny '''') s"

text \<open>
  \<^verbatim>\<open>localActorRef.Ask\<close> makes a reply channel of capacity 1, enqueues the wrapped message and then
  waits: \<open>AskWait\<close> is the \<^verbatim>\<open>select\<close>, with \<open>expired\<close> whether the context is done and \<open>pick\<close> the
  choice of the scheduler when both cases are ready. \<^const>\<open>None\<close> is still waiting.
\<close>

definition AskSend :: "go_env \<Rightarrow> nat \<Rightarrow> 'u message \<Rightarrow> ('a, 'b, 'u, 'w) sys \<Rightarrow> nat \<times> ('a, 'b, 'u, 'w) sys outcome" where
  "AskSend e a msg s = (let r = length (replies s)
     in (r, Tell a (askMessage e r msg) (s\<lparr>replies := replies s @ [[]]\<rparr>)))"

definition AskWait :: "bool \<Rightarrow> bool \<Rightarrow> nat \<Rightarrow> ('a, 'b, 'u, 'w) sys \<Rightarrow> (string + 'u message) option" where
  "AskWait expired pick r s = (case replies s ! r of
     reply # _ \<Rightarrow> if expired \<and> pick then Some (Inl ''ask timeout'') else Some (Inr reply)
   | [] \<Rightarrow> if expired then Some (Inl ''ask timeout'') else None)"

text \<open>A handler's \<^verbatim>\<open>env.ReplyCh <- reply\<close>.\<close>

definition Reply :: "nat \<Rightarrow> 'u message \<Rightarrow> ('a, 'b, 'u, 'w) sys \<Rightarrow> ('a, 'b, 'u, 'w) sys outcome" where
  "Reply r msg s = (if length (replies s ! r) < 1 then Done (s\<lparr>replies := (replies s)[r := replies s ! r @ [msg]]\<rparr>) else Blocked)"

definition Lookup :: "ActorID \<Rightarrow> ('a, 'b, 'u, 'w) sys \<Rightarrow> sys_error + nat" where
  "Lookup i s = (case mget (actors s) i of None \<Rightarrow> Inl (NotFound i) | Some a \<Rightarrow> Inr a)"

section \<open>Spawning\<close>

definition NewActorSystem :: "'w \<Rightarrow> ('a, 'b, 'u, 'w) sys" where
  "NewActorSystem w = \<lparr>heap = [], actors = [], shut = False, wg = 0, replies = [], world = w\<rparr>"

definition new_entry :: "'a \<Rightarrow> SpawnOptions \<Rightarrow> ('a, 'b, 'u) entry" where
  "new_entry act opts = \<lparr>actor = act,
     mbox = (if MailboxCapacity opts = 0 then NewUnboundedMailbox
             else NewMailbox (nat (MailboxCapacity opts)) (SpawnStrategy opts)),
     sender = None, behaviorStack = [], cancelled = False, spawnOpts = opts, phase = Spawned\<rparr>"

text \<open>A negative capacity makes \<^verbatim>\<open>make(chan Message, capacity)\<close> panic (\<open>NegativeCapacity\<close>).\<close>

definition Spawn :: "('a, 'b, 'u, 'w) actor_ops \<Rightarrow> 'a \<Rightarrow> SpawnOptions \<Rightarrow> ('a, 'b, 'u, 'w) sys \<Rightarrow>
    (sys_error + nat) \<times> ('a, 'b, 'u, 'w) sys" where
  "Spawn ops act opts s =
    (if shut s then (Inl ShutDownSystem, s)
     else let i = ID ops act
       in case mget (actors s) i of
         Some _ \<Rightarrow> (Inl (AlreadyRegistered i), s)
       | None \<Rightarrow>
           if MailboxCapacity opts < 0 then (Inl (NegativeCapacity (MailboxCapacity opts)), s)
           else let a = length (heap s)
             in (Inr a, s\<lparr>heap := heap s @ [new_entry act opts], actors := mput i a (actors s), wg := wg s + 1\<rparr>))"

definition MustSpawn :: "('a, 'b, 'u, 'w) actor_ops \<Rightarrow> 'a \<Rightarrow> SpawnOptions \<Rightarrow> ('a, 'b, 'u, 'w) sys \<Rightarrow>
    (nat \<times> ('a, 'b, 'u, 'w) sys) option" where
  "MustSpawn ops act opts s = (case Spawn ops act opts s of (Inl _, _) \<Rightarrow> None | (Inr a, s') \<Rightarrow> Some (a, s'))"

section \<open>The actor goroutine\<close>

definition dispatch :: "('a, 'b, 'u, 'w) actor_ops \<Rightarrow> go_env \<Rightarrow> nat \<Rightarrow> 'u message \<Rightarrow> ('a, 'b, 'u, 'w) sys \<Rightarrow>
    ('a, 'b, 'u, 'w) sys outcome" where
  "dispatch ops e a msg s =
    (let from = (if Sender msg \<noteq> '''' then (case Lookup (Sender msg) s of Inr r \<Rightarrow> Some r | Inl _ \<Rightarrow> None) else None);
         s1 = upd_ent a (\<lambda>en. en\<lparr>sender := from\<rparr>) s
     in case handler_for (behaviorStack (ent s1 a)) (MsgType msg) of
          Some b \<Rightarrow> Behave ops b e a msg s1
        | None \<Rightarrow> Receive ops e a msg s1)"

definition unregister :: "ActorID \<Rightarrow> ('a, 'b, 'u, 'w) sys \<Rightarrow> ('a, 'b, 'u, 'w) sys" where
  "unregister i s = s\<lparr>actors := mdelete i (actors s)\<rparr>"

text \<open>The end of the goroutine: its \<^verbatim>\<open>wg.Done\<close> and the phase it leaves the entry in.\<close>

definition finish :: "phase \<Rightarrow> nat \<Rightarrow> ('a, 'b, 'u, 'w) sys \<Rightarrow> ('a, 'b, 'u, 'w) sys" where
  "finish p a s = (upd_ent a (\<lambda>en. en\<lparr>phase := p\<rparr>) s)\<lparr>wg := wg s - 1\<rparr>"

definition handleActorFailure :: "('a, 'b, 'u, 'w) actor_ops \<Rightarrow> go_env \<Rightarrow> nat \<Rightarrow> string \<Rightarrow> ('a, 'b, 'u, 'w) sys \<Rightarrow>
    ('a, 'b, 'u, 'w) sys outcome" where
  "handleActorFailure ops e a reason s =
    (let s1 = OnPreRestart ops e a reason s;
         i = ID ops (actor (ent s1 a));
         s2 = upd_ent a (\<lambda>en. en\<lparr>cancelled := True\<rparr>) (unregister i s1);
         sup = SupervisorID (spawnOpts (ent s2 a))
     in if sup = '''' then Done s2
        else case Lookup sup s2 of
          Inl _ \<Rightarrow> Done s2
        | Inr r \<Rightarrow> Tell r (newMessage e MsgActorFailed
              (ActorFailed \<lparr>failedID = i, ActorType = TypeName ops (actor (ent s2 a)), Error = reason, RestartCount = 0\<rparr>) '''') s2)"

definition run_fail :: "('a, 'b, 'u, 'w) actor_ops \<Rightarrow> go_env \<Rightarrow> nat \<Rightarrow> string \<Rightarrow> ('a, 'b, 'u, 'w) sys \<Rightarrow>
    ('a, 'b, 'u, 'w) sys outcome" where
  "run_fail ops e a reason s = obind (handleActorFailure ops e a reason s) (\<lambda>s'. Done (finish Failed a s'))"

text \<open>The deferred \<^verbatim>\<open>recover\<close>.\<close>

definition run_recover :: "('a, 'b, 'u, 'w) actor_ops \<Rightarrow> go_env \<Rightarrow> nat \<Rightarrow> string \<Rightarrow> ('a, 'b, 'u, 'w) sys \<Rightarrow>
    ('a, 'b, 'u, 'w) sys outcome" where
  "run_recover ops e a r s = run_fail ops e a (''panic in actor '' @ ID ops (actor (ent s a)) @ '': '' @ r) s"

definition run_start :: "('a, 'b, 'u, 'w) actor_ops \<Rightarrow> go_env \<Rightarrow> nat \<Rightarrow> ('a, 'b, 'u, 'w) sys \<Rightarrow>
    ('a, 'b, 'u, 'w) sys outcome" where
  "run_start ops e a s = (case OnPreStart ops e a s of
     (Some err, s1) \<Rightarrow> run_fail ops e a err s1
   | (None, s1) \<Rightarrow>
       (case Tell a (newMessage e MsgStarted NilAny '''') s1 of
          Done s2 \<Rightarrow> Done (upd_ent a (\<lambda>en. en\<lparr>phase := Running\<rparr>) s2)
        | Blocked \<Rightarrow> Blocked
        | Panicked r s2 \<Rightarrow> run_recover ops e a r s2))"

definition run_stop :: "('a, 'b, 'u, 'w) actor_ops \<Rightarrow> go_env \<Rightarrow> nat \<Rightarrow> ('a, 'b, 'u, 'w) sys \<Rightarrow> ('a, 'b, 'u, 'w) sys" where
  "run_stop ops e a s =
    (let s1 = OnPostStop ops e a s;
         s2 = upd_ent a (\<lambda>en. en\<lparr>cancelled := True\<rparr>) s1
     in finish Stopped a (unregister (ID ops (actor (ent s2 a))) s2))"

text \<open>One turn of the receive loop; a panic of the handler is recovered and reported.\<close>

definition run_receive :: "('a, 'b, 'u, 'w) actor_ops \<Rightarrow> go_env \<Rightarrow> nat \<Rightarrow> ('a, 'b, 'u, 'w) sys \<Rightarrow>
    ('a, 'b, 'u, 'w) sys outcome" where
  "run_receive ops e a s = (case receive (mbox (ent s a)) of
     WouldBlock \<Rightarrow> Blocked
   | ChanClosed \<Rightarrow> Done (run_stop ops e a s)
   | Received msg mb \<Rightarrow>
       (let s1 = upd_ent a (\<lambda>en. en\<lparr>mbox := mb\<rparr>) s
        in if MsgType msg = MsgStopping then Done (run_stop ops e a s1)
           else case dispatch ops e a msg s1 of
             Done s2 \<Rightarrow> Done s2
           | Blocked \<Rightarrow> Blocked
           | Panicked r s2 \<Rightarrow> run_recover ops e a r s2))"

section \<open>Stopping, restarting, shutting down\<close>

definition StopActor :: "go_env \<Rightarrow> ActorID \<Rightarrow> ('a, 'b, 'u, 'w) sys \<Rightarrow> sys_error option \<times> ('a, 'b, 'u, 'w) sys outcome" where
  "StopActor e i s = (case Lookup i s of Inl err \<Rightarrow> (Some err, Done s) | Inr a \<Rightarrow> (None, StopRef e a s))"

text \<open>\<open>newActor\<close> is the result of the factory.\<close>

definition RestartActor :: "('a, 'b, 'u, 'w) actor_ops \<Rightarrow> go_env \<Rightarrow> 'a \<Rightarrow> SpawnOptions \<Rightarrow> ('a, 'b, 'u, 'w) sys \<Rightarrow>
    (sys_error + nat) \<times> ('a, 'b, 'u, 'w) sys outcome" where
  "RestartActor ops e newActor opts s =
    (case snd (StopActor e (ID ops newActor) s) of
       Done s1 \<Rightarrow>
         (case Spawn ops newActor opts s1 of
            (Inl err, s2) \<Rightarrow> (Inl err, Done s2)
          | (Inr a, s2) \<Rightarrow> (Inr a, Tell a (newMessage e MsgRestarting NilAny '''') s2))
     | r \<Rightarrow> (Inl (NotFound (ID ops newActor)), r))"

fun tell_all :: "'u message \<Rightarrow> nat list \<Rightarrow> ('a, 'b, 'u, 'w) sys \<Rightarrow> ('a, 'b, 'u, 'w) sys outcome" where
  "tell_all msg [] s = Done s"
| "tell_all msg (a # as) s = obind (Tell a msg s) (tell_all msg as)"

text \<open>\<^verbatim>\<open>Shutdown\<close> up to its \<^verbatim>\<open>wg.Wait()\<close>, which returns once \<open>wg\<close> is 0; \<^verbatim>\<open>once\<close> makes it idempotent.\<close>

definition Shutdown :: "go_env \<Rightarrow> ('a, 'b, 'u, 'w) sys \<Rightarrow> ('a, 'b, 'u, 'w) sys outcome" where
  "Shutdown e s = (if shut s then Done s
     else tell_all (newMessage e MsgStopping NilAny '''')
       (map (\<lambda>i. the (mget (actors s) i)) (iter e (keys (actors s)))) (s\<lparr>shut := True\<rparr>))"

section \<open>Steps\<close>

datatype ('a, 'u) slabel = LStart nat | LReceive nat | LShut nat | LPump nat | LTell nat "'u message" | LSpawn 'a | LShutdown

inductive sys_step :: "('a, 'b, 'u, 'w) actor_ops \<Rightarrow> ('a, 'b, 'u, 'w) sys \<Rightarrow> ('a, 'u) slabel \<Rightarrow> ('a, 'b, 'u, 'w) sys \<Rightarrow> bool" for ops where
  start: "a < length (heap s) \<Longrightarrow> phase (ent s a) = Spawned \<Longrightarrow> env_ok e \<Longrightarrow> run_start ops e a s = Done s' \<Longrightarrow>
    sys_step ops s (LStart a) s'"
| receive: "a < length (heap s) \<Longrightarrow> phase (ent s a) = Running \<Longrightarrow> env_ok e \<Longrightarrow> run_receive ops e a s = Done s' \<Longrightarrow>
    sys_step ops s (LReceive a) s'"
| shut: "a < length (heap s) \<Longrightarrow> phase (ent s a) = Running \<Longrightarrow> env_ok e \<Longrightarrow> shut s \<Longrightarrow>
    sys_step ops s (LShut a) (run_stop ops e a s)"
| pump: "a < length (heap s) \<Longrightarrow> pump_step (mbox (ent s a)) mb \<Longrightarrow>
    sys_step ops s (LPump a) (upd_ent a (\<lambda>en. en\<lparr>mbox := mb\<rparr>) s)"
| tell: "a < length (heap s) \<Longrightarrow> Tell a msg s = Done s' \<Longrightarrow> sys_step ops s (LTell a msg) s'"
| spawn: "Spawn ops act opts s = (Inr a, s') \<Longrightarrow> sys_step ops s (LSpawn act) s'"
| shutdown: "env_ok e \<Longrightarrow> Shutdown e s = Done s' \<Longrightarrow> sys_step ops s LShutdown s'"

text \<open>An actor that embeds \<^verbatim>\<open>BaseActor\<close> (\<^verbatim>\<open>actor.go\<close>) and handles nothing: the hooks are no-ops.\<close>

definition base_ops :: "(ActorID, 'b, 'u, 'w) actor_ops" where
  "base_ops = \<lparr>ID = (\<lambda>i. i), TypeName = (\<lambda>_. ''BaseActor''), OnPreStart = (\<lambda>_ _ s. (None, s)),
     OnPostStop = (\<lambda>_ _ s. s), OnPreRestart = (\<lambda>_ _ _ s. s), Receive = (\<lambda>_ _ _ s. Done s),
     Behave = (\<lambda>_ _ _ _ s. Done s)\<rparr>"

section \<open>Invariant\<close>

text \<open>
  The registry holds exactly the live entries, under their own IDs, and the wait group counts
  them. Between taking an actor out of the registry and the end of its goroutine the entry is
  live and not registered: \<open>X\<close> holds such entries, and is empty between two turns.
\<close>

definition live_set :: "('a, 'b, 'u, 'w) sys \<Rightarrow> nat set" where
  "live_set s = {a. a < length (heap s) \<and> live (phase (ent s a))}"

definition sys_inv_but :: "nat set \<Rightarrow> ('a, 'b, 'u, 'w) actor_ops \<Rightarrow> ('a, 'b, 'u, 'w) sys \<Rightarrow> bool" where
  "sys_inv_but X ops s \<longleftrightarrow> gomap_inv (actors s) \<and>
    (\<forall>i a. mget (actors s) i = Some a \<longleftrightarrow> a \<in> live_set s - X \<and> ID ops (actor (ent s a)) = i) \<and>
    (\<forall>a<length (heap s). mailbox_inv (mbox (ent s a))) \<and> wg s = card (live_set s)"

abbreviation sys_inv :: "('a, 'b, 'u, 'w) actor_ops \<Rightarrow> ('a, 'b, 'u, 'w) sys \<Rightarrow> bool" where
  "sys_inv \<equiv> sys_inv_but {}"

text \<open>What a method call keeps of the entries that existed before it.\<close>

definition keeps :: "('a, 'b, 'u, 'w) actor_ops \<Rightarrow> ('a, 'b, 'u, 'w) sys \<Rightarrow> ('a, 'b, 'u, 'w) sys \<Rightarrow> bool" where
  "keeps ops s s' \<longleftrightarrow> length (heap s) \<le> length (heap s') \<and> shut s' = shut s \<and>
    (shut s \<longrightarrow> length (heap s') = length (heap s)) \<and>
    (\<forall>b<length (heap s). phase (ent s' b) = phase (ent s b) \<and> spawnOpts (ent s' b) = spawnOpts (ent s b) \<and>
      ID ops (actor (ent s' b)) = ID ops (actor (ent s b)))"

text \<open>The states in which a call can leave the system.\<close>

fun leaves :: "'s outcome \<Rightarrow> 's \<Rightarrow> bool" where
  "leaves (Done s) s' \<longleftrightarrow> s' = s"
| "leaves (Panicked _ s) s' \<longleftrightarrow> s' = s"
| "leaves Blocked s' \<longleftrightarrow> False"

definition safe_call :: "('a, 'b, 'u, 'w) actor_ops \<Rightarrow> ('a, 'b, 'u, 'w) sys \<Rightarrow> ('a, 'b, 'u, 'w) sys \<Rightarrow> bool" where
  "safe_call ops s s' \<longleftrightarrow> keeps ops s s' \<and> (\<forall>X\<subseteq>{..<length (heap s)}. sys_inv_but X ops s \<longrightarrow> sys_inv_but X ops s')"

section \<open>Lemmas\<close>

lemma upd_ent_simps [simp]:
  "length (heap (upd_ent a f s)) = length (heap s)" "actors (upd_ent a f s) = actors s"
  "shut (upd_ent a f s) = shut s" "wg (upd_ent a f s) = wg s" "replies (upd_ent a f s) = replies s"
  "world (upd_ent a f s) = world s"
  by (simp_all add: upd_ent_def)

lemma ent_upd_ent: "b < length (heap s) \<Longrightarrow> ent (upd_ent a f s) b = (if a = b then f (ent s b) else ent s b)"
  by (simp add: upd_ent_def nth_list_update)

lemma finite_live_set [simp]: "finite (live_set s)"
  by (simp add: live_set_def)

lemma live_set_upd_ent:
  "(\<And>en. phase (f en) = phase en) \<Longrightarrow> live_set (upd_ent a f s) = live_set s"
  by (auto simp: live_set_def ent_upd_ent split: if_splits)

lemma keeps_refl [simp]: "keeps ops s s"
  by (simp add: keeps_def)

lemma keeps_trans: "keeps ops s s' \<Longrightarrow> keeps ops s' s'' \<Longrightarrow> keeps ops s s''"
proof -
  assume k: "keeps ops s s'" "keeps ops s' s''"
  then have "b < length (heap s')" if "b < length (heap s)" for b using that by (simp add: keeps_def)
  with k show ?thesis by (auto simp: keeps_def)
qed

lemma safe_call_refl [simp]: "safe_call ops s s"
  by (simp add: safe_call_def)

lemma safe_call_trans [trans]: "safe_call ops s s' \<Longrightarrow> safe_call ops s' s'' \<Longrightarrow> safe_call ops s s''"
  unfolding safe_call_def
proof (intro conjI allI impI)
  assume *: "keeps ops s s' \<and> (\<forall>X\<subseteq>{..<length (heap s)}. sys_inv_but X ops s \<longrightarrow> sys_inv_but X ops s')"
    "keeps ops s' s'' \<and> (\<forall>X\<subseteq>{..<length (heap s')}. sys_inv_but X ops s' \<longrightarrow> sys_inv_but X ops s'')"
  then show "keeps ops s s''" by (blast intro: keeps_trans)
  fix X assume "X \<subseteq> {..<length (heap s)}" "sys_inv_but X ops s"
  moreover from this(1) *(1) have "X \<subseteq> {..<length (heap s')}"
    by (meson keeps_def lessThan_subset_iff order_trans)
  ultimately show "sys_inv_but X ops s''" using * by blast
qed

lemma safe_call_keeps: "safe_call ops s s' \<Longrightarrow> keeps ops s s'"
  by (simp add: safe_call_def)

lemma safe_call_inv: "safe_call ops s s' \<Longrightarrow> sys_inv ops s \<Longrightarrow> sys_inv ops s'"
  by (simp add: safe_call_def)

text \<open>An update of an entry that is local to the actor: its state, mailbox, context.\<close>

lemma safe_call_upd_ent:
  assumes "\<And>en. phase (f en) = phase en" "\<And>en. spawnOpts (f en) = spawnOpts en"
    and "a < length (heap s) \<Longrightarrow> ID ops (actor (f (ent s a))) = ID ops (actor (ent s a))"
    and "a < length (heap s) \<Longrightarrow> mailbox_inv (mbox (ent s a)) \<Longrightarrow> mailbox_inv (mbox (f (ent s a)))"
  shows "safe_call ops s (upd_ent a f s)"
proof -
  have b: "mailbox_inv (mbox (ent (upd_ent a f s) b))" if "b < length (heap s)" "\<forall>b<length (heap s). mailbox_inv (mbox (ent s b))" for b
    using that assms(4) by (auto simp: ent_upd_ent)
  have i: "ID ops (actor (ent (upd_ent a f s) b)) = ID ops (actor (ent s b))" if "b < length (heap s)" for b
    using that assms(3) by (auto simp: ent_upd_ent)
  have "sys_inv_but X ops (upd_ent a f s)" if "sys_inv_but X ops s" for X
    using that b i unfolding sys_inv_but_def live_set_upd_ent [of f, OF assms(1)]
    by (auto simp: live_set_def)
  with i assms(1,2) show ?thesis
    by (simp add: safe_call_def keeps_def ent_upd_ent)
qed

lemma Enqueue_panic_inv: "Enqueue mb m = SendPanic mb' \<Longrightarrow> mailbox_inv mb \<Longrightarrow> mailbox_inv mb'"
  by (auto simp: Enqueue_eq Let_def split: if_splits MailboxStrategy.splits) (auto simp: mailbox_inv_def)

lemma Tell_safe [inv_intros]: "leaves (Tell a msg s) s' \<Longrightarrow> safe_call ops s s'"
  by (auto simp: Tell_def split: enq.splits intro!: safe_call_upd_ent intro: Enqueue_inv Enqueue_panic_inv)

lemma Tell_Done: "Tell a msg s = Done s' \<Longrightarrow> safe_call ops s s'"
  using Tell_safe [of a msg s s'] by simp

lemma Tell_Panicked: "Tell a msg s = Panicked r s' \<Longrightarrow> safe_call ops s s'"
  using Tell_safe [of a msg s s'] by simp

lemma safe_call_replies [simp]: "safe_call ops s (s\<lparr>replies := rs\<rparr>)"
  by (simp add: safe_call_def keeps_def sys_inv_but_def live_set_def)

lemma safe_call_world [simp]: "safe_call ops s (s\<lparr>world := w\<rparr>)"
  by (simp add: safe_call_def keeps_def sys_inv_but_def live_set_def)

lemma AskSend_safe [inv_intros]: "leaves (snd (AskSend e a msg s)) s' \<Longrightarrow> safe_call ops s s'"
  by (auto simp: AskSend_def Let_def intro: safe_call_trans [OF safe_call_replies] Tell_safe)

lemma Reply_safe [inv_intros]: "leaves (Reply r msg s) s' \<Longrightarrow> safe_call ops s s'"
  by (auto simp: Reply_def split: if_splits)

subsection \<open>Spawning and restarting\<close>

lemma live_set_Spawn: "live_set (s\<lparr>heap := heap s @ [new_entry act opts], actors := m, wg := n\<rparr>) = insert (length (heap s)) (live_set s)"
  by (auto simp: live_set_def nth_append new_entry_def less_Suc_eq)

lemma Spawn_cases:
  obtains (err) err where "Spawn ops act opts s = (Inl err, s)"
  | (ok) "\<not> shut s" "mget (actors s) (ID ops act) = None" "0 \<le> MailboxCapacity opts"
      "Spawn ops act opts s = (Inr (length (heap s)), s\<lparr>heap := heap s @ [new_entry act opts],
         actors := mput (ID ops act) (length (heap s)) (actors s), wg := wg s + 1\<rparr>)"
  by (cases "shut s"; cases "mget (actors s) (ID ops act)"; cases "MailboxCapacity opts < 0")
    (auto simp: Spawn_def Let_def)

lemma mailbox_inv_new_entry [simp]: "mailbox_inv (mbox (new_entry act opts))"
  by (simp add: new_entry_def)

lemma new_entry_simps [simp]: "actor (new_entry act opts) = act" "phase (new_entry act opts) = Spawned"
  "spawnOpts (new_entry act opts) = opts"
  by (simp_all add: new_entry_def)

lemma Spawn_inv:
  assumes "sys_inv_but X ops s" "X \<subseteq> {..<length (heap s)}" "mget (actors s) (ID ops act) = None"
  shows "sys_inv_but X ops (s\<lparr>heap := heap s @ [new_entry act opts],
    actors := mput (ID ops act) (length (heap s)) (actors s), wg := wg s + 1\<rparr>)" (is "sys_inv_but X ops ?s")
proof -
  let ?n = "length (heap s)"
  have old: "a < ?n" "ent ?s a = ent s a" if "a \<in> live_set s" for a
    using that by (auto simp: live_set_def nth_append)
  have n: "?n \<notin> X" "?n \<notin> live_set s" using assms(2) by (auto simp: live_set_def)
  have iff: "mget (actors s) i = Some a \<longleftrightarrow> a \<in> live_set s - X \<and> ID ops (actor (ent s a)) = i" for i a
    using assms(1) by (simp add: sys_inv_but_def)
  have "mget (actors ?s) i = Some a \<longleftrightarrow> a \<in> live_set ?s - X \<and> ID ops (actor (ent ?s a)) = i" for i a
  proof (cases "a = ?n")
    case True
    with n iff [of i a] show ?thesis by (auto simp: live_set_Spawn)
  next
    case False
    then show ?thesis using iff [of i a] old [of a] assms(3) by (auto simp: live_set_Spawn simp del: mget_eq_None_iff)
  qed
  moreover have "wg ?s = card (live_set ?s)"
    using assms(1) n by (simp add: live_set_Spawn sys_inv_but_def)
  moreover have "\<forall>a<length (heap ?s). mailbox_inv (mbox (ent ?s a))"
    using assms(1) by (auto simp: sys_inv_but_def nth_append less_Suc_eq)
  ultimately show ?thesis using assms(1) by (simp add: sys_inv_but_def)
qed

lemma Spawn_safe [inv_intros]: "safe_call ops s (snd (Spawn ops act opts s))"
proof (cases rule: Spawn_cases [of ops act opts s])
  case ok
  then have "keeps ops s (snd (Spawn ops act opts s))" by (simp add: keeps_def nth_append)
  with ok Spawn_inv [OF _ _ ok(2), of _ opts] show ?thesis by (simp add: safe_call_def)
qed simp

lemma StopActor_safe [inv_intros]: "leaves (snd (StopActor e i s)) s' \<Longrightarrow> safe_call ops s s'"
  by (auto simp: StopActor_def StopRef_def split: sum.splits intro: Tell_safe)

lemma RestartActor_safe [inv_intros]:
  assumes "leaves (snd (RestartActor ops e act opts s)) s'"
  shows "safe_call ops s s'"
proof (cases "snd (StopActor e (ID ops act) s)")
  case (Done s1)
  then have 1: "safe_call ops s s1" using StopActor_safe [of e "ID ops act" s s1] by simp
  have 2: "safe_call ops s1 (snd (Spawn ops act opts s1))" by (rule Spawn_safe)
  have "safe_call ops (snd (Spawn ops act opts s1)) s'"
    using assms Done by (auto simp: RestartActor_def split: prod.splits sum.splits intro: Tell_safe)
  with 1 2 show ?thesis by (blast intro: safe_call_trans)
next
  case (Panicked r s1)
  with assms show ?thesis using StopActor_safe [of e "ID ops act" s s'] by (simp add: RestartActor_def)
next
  case Blocked
  with assms show ?thesis by (simp add: RestartActor_def)
qed

lemma tell_all_safe [inv_intros]: "leaves (tell_all msg as s) s' \<Longrightarrow> safe_call ops s s'"
proof (induction msg as s rule: tell_all.induct)
  case (2 msg a as s)
  then show ?case
    by (cases "Tell a msg s") (auto intro: safe_call_trans Tell_Done Tell_Panicked)
qed simp

lemma tell_all_Done: "tell_all msg as s = Done s' \<Longrightarrow> safe_call ops s s'"
  using tell_all_safe [of msg as s s'] by simp

subsection \<open>The end of an actor\<close>

lemma unregister_inv:
  assumes "sys_inv ops s" "a \<in> live_set s" "i = ID ops (actor (ent s a))"
  shows "sys_inv_but {a} ops (unregister i s)"
proof -
  have reg: "mget (actors s) j = Some b \<longleftrightarrow> b \<in> live_set s \<and> ID ops (actor (ent s b)) = j" for j b
    using assms(1) by (simp add: sys_inv_but_def)
  have "((mget (actors s))(i := None)) j = Some b \<longleftrightarrow> b \<in> live_set s - {a} \<and> ID ops (actor (ent s b)) = j" for j b
    using reg [of j b] reg [of i a] assms(2,3) by auto
  moreover have "live_set (unregister i s) = live_set s" by (simp add: unregister_def live_set_def)
  ultimately show ?thesis using assms(1) by (simp add: sys_inv_but_def unregister_def)
qed

lemma live_set_finish: "\<not> live p \<Longrightarrow> a < length (heap s) \<Longrightarrow> live_set (finish p a s) = live_set s - {a}"
  by (auto simp: live_set_def finish_def ent_upd_ent split: if_splits)

lemma finish_inv:
  assumes "sys_inv_but {a} ops s" "a \<in> live_set s" "\<not> live p"
  shows "sys_inv ops (finish p a s)"
proof -
  have a: "a < length (heap s)" using assms(2) by (simp add: live_set_def)
  have ent: "ent (finish p a s) b = (if a = b then (ent s b)\<lparr>phase := p\<rparr> else ent s b)" if "b < length (heap s)" for b
    using that by (simp add: finish_def ent_upd_ent)
  have "b < length (heap s)" if "b \<in> live_set s" for b using that by (simp add: live_set_def)
  moreover have "card (live_set s - {a}) = card (live_set s) - 1" using assms(2) by simp
  moreover have "heap (finish p a s) = heap (upd_ent a (\<lambda>en. en\<lparr>phase := p\<rparr>) s)" "actors (finish p a s) = actors s"
    "wg (finish p a s) = wg s - 1" by (simp_all add: finish_def)
  ultimately show ?thesis using assms a ent by (auto simp: sys_inv_but_def live_set_finish)
qed

section \<open>The contract of an actor implementation\<close>

text \<open>
  What the system relies on when it calls into an actor: a method may send, spawn, restart, change
  the state of its own actor and the world, but leaves the system's bookkeeping in order. Under
  this contract the invariant holds in every reachable state, whatever the interleaving.
\<close>

locale actor_contract =
  fixes ops :: "('a, 'b, 'u, 'w) actor_ops"
  assumes pre_start_law: "safe_call ops s (snd (OnPreStart ops e a s))"
    and post_stop_law: "safe_call ops s (OnPostStop ops e a s)"
    and pre_restart_law: "safe_call ops s (OnPreRestart ops e a reason s)"
    and receive_law: "a < length (heap s) \<Longrightarrow> leaves (Receive ops e a msg s) s' \<Longrightarrow> safe_call ops s s'"
    and behave_law: "a < length (heap s) \<Longrightarrow> leaves (Behave ops b e a msg s) s' \<Longrightarrow> safe_call ops s s'"
begin

lemma dispatch_safe: "a < length (heap s) \<Longrightarrow> leaves (dispatch ops e a msg s) s' \<Longrightarrow> safe_call ops s s'"
  unfolding dispatch_def Let_def
  by (rule safe_call_trans [OF safe_call_upd_ent [where f = "\<lambda>en. en\<lparr>sender := _\<rparr>"]])
    (auto intro: receive_law behave_law split: option.splits)

lemma live_after: "keeps ops s s' \<Longrightarrow> a \<in> live_set s \<Longrightarrow> a \<in> live_set s'"
  by (auto simp: keeps_def live_set_def)

lemma unregister_cancel_inv:
  assumes "sys_inv ops s" "a \<in> live_set s"
  shows "sys_inv_but {a} ops (upd_ent a (\<lambda>en. en\<lparr>cancelled := True\<rparr>) (unregister (ID ops (actor (ent s a))) s))"
proof -
  let ?s = "unregister (ID ops (actor (ent s a))) s"
  have "safe_call ops ?s (upd_ent a (\<lambda>en. en\<lparr>cancelled := True\<rparr>) ?s)" by (rule safe_call_upd_ent) auto
  with unregister_inv [OF assms refl] assms(2) show ?thesis
    by (auto simp: safe_call_def live_set_def unregister_def)
qed

lemma run_stop_inv:
  assumes "sys_inv ops s" "a \<in> live_set s"
  shows "sys_inv ops (run_stop ops e a s)"
    and "live_set (run_stop ops e a s) - {a} \<supseteq> live_set s - {a}" "a \<notin> live_set (run_stop ops e a s)"
proof -
  let ?s1 = "OnPostStop ops e a s" and ?f = "\<lambda>en. en\<lparr>cancelled := True\<rparr>"
  let ?s2 = "upd_ent a ?f ?s1"
  have "safe_call ops ?s1 ?s2" by (rule safe_call_upd_ent) auto
  then have c: "safe_call ops s ?s2" using post_stop_law by (blast intro: safe_call_trans)
  have a2: "a \<in> live_set ?s2" using live_after [OF safe_call_keeps [OF c]] assms(2) .
  have 3: "sys_inv_but {a} ops (unregister (ID ops (actor (ent ?s2 a))) ?s2)"
    using unregister_inv [OF safe_call_inv [OF c assms(1)] a2 refl] .
  have l: "live_set (unregister i s') = live_set s'" for i and s' :: "('a, 'b, 'u, 'w) sys"
    by (simp add: unregister_def live_set_def)
  show "sys_inv ops (run_stop ops e a s)"
    unfolding run_stop_def Let_def by (rule finish_inv [OF 3]) (simp_all add: l a2)
  have "a < length (heap (unregister i ?s2))" for i using a2 by (simp add: live_set_def unregister_def)
  then have "live_set (run_stop ops e a s) = live_set ?s2 - {a}"
    by (simp add: run_stop_def Let_def live_set_finish l)
  then show "live_set (run_stop ops e a s) - {a} \<supseteq> live_set s - {a}" "a \<notin> live_set (run_stop ops e a s)"
    using live_after [OF safe_call_keeps [OF c]] by auto
qed

lemma run_fail_inv:
  assumes "sys_inv ops s" "a \<in> live_set s" "run_fail ops e a reason s = Done s'"
  shows "sys_inv ops s'"
proof -
  let ?s1 = "OnPreRestart ops e a reason s"
  have inv1: "sys_inv ops ?s1" and a1: "a \<in> live_set ?s1"
    using safe_call_inv [OF pre_restart_law assms(1)] live_after [OF safe_call_keeps [OF pre_restart_law] assms(2)] by blast+
  let ?i = "ID ops (actor (ent ?s1 a))"
  let ?s2 = "upd_ent a (\<lambda>en. en\<lparr>cancelled := True\<rparr>) (unregister ?i ?s1)"
  have inv2: "sys_inv_but {a} ops ?s2" by (rule unregister_cancel_inv [OF inv1 a1])
  have a2: "a \<in> live_set ?s2" using a1 by (auto simp: live_set_def unregister_def ent_upd_ent)
  obtain s3 where s3: "handleActorFailure ops e a reason s = Done s3" "s' = finish Failed a s3"
    using assms(3) by (cases "handleActorFailure ops e a reason s") (auto simp: run_fail_def)
  have "safe_call ops ?s2 s3"
    using s3(1) by (auto simp: handleActorFailure_def Let_def split: if_splits sum.splits intro: Tell_Done)
  then have "sys_inv_but {a} ops s3" "a \<in> live_set s3"
    using inv2 a2 live_after [of ?s2 s3 a] by (auto simp: safe_call_def live_set_def)
  then show ?thesis unfolding s3(2) by (rule finish_inv) simp
qed

lemma run_recover_inv:
  "sys_inv ops s \<Longrightarrow> a \<in> live_set s \<Longrightarrow> run_recover ops e a r s = Done s' \<Longrightarrow> sys_inv ops s'"
  by (auto simp: run_recover_def intro: run_fail_inv)

lemma run_start_inv:
  assumes "sys_inv ops s" "a \<in> live_set s" "run_start ops e a s = Done s'"
  shows "sys_inv ops s'"
proof -
  obtain err s1 where 1: "OnPreStart ops e a s = (err, s1)" by fastforce
  then have c: "safe_call ops s s1" using pre_start_law [of s e a] by simp
  then have i1: "sys_inv ops s1" and a1: "a \<in> live_set s1"
    using safe_call_inv [OF c assms(1)] live_after [OF safe_call_keeps [OF c] assms(2)] by blast+
  show ?thesis
  proof (cases err)
    case (Some r)
    with 1 assms(3) i1 a1 show ?thesis by (auto simp: run_start_def intro: run_fail_inv)
  next
    case None
    have run: "sys_inv ops (upd_ent a (\<lambda>en. en\<lparr>phase := Running\<rparr>) s2)" if "sys_inv ops s2" "a \<in> live_set s2" for s2
    proof -
      have "live_set (upd_ent a (\<lambda>en. en\<lparr>phase := Running\<rparr>) s2) = live_set s2"
        using that(2) by (auto simp: live_set_def ent_upd_ent split: if_splits)
      with that show ?thesis by (auto simp: sys_inv_but_def live_set_def ent_upd_ent)
    qed
    have t: "sys_inv ops s2 \<and> a \<in> live_set s2" if "safe_call ops s1 s2" for s2
      using safe_call_inv [OF that i1] live_after [OF safe_call_keeps [OF that] a1] by blast
    from None 1 assms(3) show ?thesis
      by (auto simp: run_start_def split: outcome.splits dest!: Tell_Done [where ops = ops] Tell_Panicked [where ops = ops] t
          intro: run run_recover_inv)
  qed
qed

lemma run_receive_inv:
  assumes "sys_inv ops s" "a \<in> live_set s" "run_receive ops e a s = Done s'"
  shows "sys_inv ops s'"
proof (cases "receive (mbox (ent s a))")
  case (Received msg mb)
  let ?s1 = "upd_ent a (\<lambda>en. en\<lparr>mbox := mb\<rparr>) s"
  have c1: "safe_call ops s ?s1" by (rule safe_call_upd_ent) (auto intro: receive_inv [OF Received])
  have t: "sys_inv ops s2 \<and> a \<in> live_set s2" if "safe_call ops s s2" for s2
    using safe_call_inv [OF that assms(1)] live_after [OF safe_call_keeps [OF that] assms(2)] by blast
  have d: "sys_inv ops s2 \<and> a \<in> live_set s2" if "leaves (dispatch ops e a msg ?s1) s2" for s2
    using t [OF safe_call_trans [OF c1 dispatch_safe [OF _ that]]] assms(2) by (simp add: live_set_def)
  show ?thesis
    using assms(3) Received t [OF c1] d
    by (auto simp: run_receive_def Let_def split: if_splits outcome.splits intro: run_stop_inv run_recover_inv)
next
  case ChanClosed
  with assms show ?thesis by (auto simp: run_receive_def intro: run_stop_inv)
next
  case WouldBlock
  with assms show ?thesis by (simp add: run_receive_def)
qed

theorem step_inv: "sys_step ops s l s' \<Longrightarrow> sys_inv ops s \<Longrightarrow> sys_inv ops s'"
proof (induction rule: sys_step.induct)
  case (start a s e s')
  then show ?case by (intro run_start_inv [of s a e s']) (auto simp: live_set_def)
next
  case (receive a s e s')
  then show ?case by (intro run_receive_inv [of s a e s']) (auto simp: live_set_def)
next
  case (shut a s e)
  then show ?case by (intro run_stop_inv) (auto simp: live_set_def)
next
  case (pump a s mb)
  have "safe_call ops s (upd_ent a (\<lambda>en. en\<lparr>mbox := mb\<rparr>) s)"
    by (rule safe_call_upd_ent) (auto intro: pump_step_inv pump)
  then show ?case using pump by (blast intro: safe_call_inv)
next
  case (tell a s msg s')
  then show ?case by (blast intro: safe_call_inv Tell_Done)
next
  case (spawn act opts s a s')
  then show ?case using safe_call_inv [OF Spawn_safe [of ops s act opts]] by simp
next
  case (shutdown e s s')
  have "sys_inv ops (s\<lparr>shut := True\<rparr>)" using shutdown by (simp add: sys_inv_but_def live_set_def)
  with shutdown show ?case by (auto simp: Shutdown_def split: if_splits dest: tell_all_Done intro: safe_call_inv)
qed

lemma NewActorSystem_inv: "sys_inv ops (NewActorSystem w)"
  by (simp add: NewActorSystem_def sys_inv_but_def live_set_def)

lemma reach_inv: "lrun (sys_step ops) (NewActorSystem w) ls s \<Longrightarrow> sys_inv ops s"
  using lrun_inv [where I = "sys_inv ops", OF _ NewActorSystem_inv step_inv] .

text \<open>Once the system is shutting down, running actors can all stop, whatever is in their mailboxes.\<close>

lemma run_stop_shut:
  assumes "shut s" "a \<in> live_set s"
  shows "shut (run_stop ops e a s)" "live_set (run_stop ops e a s) = live_set s - {a}"
    "b < length (heap s) \<Longrightarrow> b \<noteq> a \<Longrightarrow> phase (ent (run_stop ops e a s) b) = phase (ent s b)"
proof -
  let ?s1 = "OnPostStop ops e a s"
  have k: "keeps ops s ?s1" by (rule safe_call_keeps [OF post_stop_law])
  have len: "length (heap ?s1) = length (heap s)" and a: "a < length (heap s)"
    using k assms by (auto simp: keeps_def live_set_def)
  have ph: "phase (ent ?s1 b) = phase (ent s b)" if "b < length (heap s)" for b using k that by (simp add: keeps_def)
  show "shut (run_stop ops e a s)"
    using k assms(1) by (simp add: run_stop_def Let_def finish_def unregister_def keeps_def)
  show ent: "b < length (heap s) \<Longrightarrow> b \<noteq> a \<Longrightarrow> phase (ent (run_stop ops e a s) b) = phase (ent s b)" for b
    using len ph by (simp add: run_stop_def Let_def finish_def unregister_def ent_upd_ent upd_ent_def)
  show "live_set (run_stop ops e a s) = live_set s - {a}"
    using len a ph by (auto simp: live_set_def run_stop_def Let_def finish_def unregister_def upd_ent_def nth_list_update
        split: if_splits)
qed

lemma shutdown_completes:
  assumes "sys_inv ops s" "shut s" "\<forall>a\<in>live_set s. phase (ent s a) = Running" "env_ok e"
  shows "\<exists>ls s'. lrun (sys_step ops) s ls s' \<and> wg s' = 0 \<and> actors s' = []"
  using assms(1-3)
proof (induction "card (live_set s)" arbitrary: s)
  case 0
  then have "live_set s = {}" by simp
  with 0 have "wg s = 0" and none: "mget (actors s) i \<noteq> Some b" for i b by (auto simp: sys_inv_but_def)
  moreover have "actors s = []"
    using none [of "fst (hd (actors s))" "snd (hd (actors s))"] by (cases "actors s") auto
  ultimately show ?case using lrun_nil [of "sys_step ops" s] by (intro exI [of _ "[]"] exI [of _ s]) simp
next
  case (Suc n)
  then obtain a where a: "a \<in> live_set s" by fastforce
  let ?s = "run_stop ops e a s"
  have "a < length (heap s)" "phase (ent s a) = Running"
    using a bspec [OF Suc.prems(3) a] by (simp_all add: live_set_def)
  then have st: "sys_step ops s (LShut a) ?s" by (rule sys_step.shut [OF _ _ assms(4) Suc.prems(2)])
  have "phase (ent ?s b) = Running" if "b \<in> live_set ?s" for b
  proof -
    have b: "b \<in> live_set s" "b \<noteq> a" "b < length (heap s)"
      using that run_stop_shut(2) [OF Suc.prems(2) a, of e] by (auto simp: live_set_def)
    then show ?thesis
      using run_stop_shut(3) [OF Suc.prems(2) a, of b e] bspec [OF Suc.prems(3) b(1)] by simp
  qed
  moreover have "n = card (live_set ?s)" using run_stop_shut(2) [OF Suc.prems(2) a, of e] a Suc.hyps(2) by simp
  ultimately obtain ls s' where "lrun (sys_step ops) ?s ls s'" "wg s' = 0" "actors s' = []"
    using Suc.hyps(1) [OF _ run_stop_inv(1) [OF Suc.prems(1) a] run_stop_shut(1) [OF Suc.prems(2) a]] by blast
  then show ?case using lrun_Cons [where stp = "sys_step ops", OF st] by blast
qed

end

section \<open>Properties\<close>

lemma mget_live: "sys_inv ops s \<Longrightarrow> mget (actors s) i = Some a \<Longrightarrow> a < length (heap s)"
  by (simp add: sys_inv_but_def live_set_def)

text \<open>
  \<open>Spawn\<close> either registers the actor or changes nothing. It fails exactly when the system is shut
  down, the ID is taken, or the mailbox capacity is negative. Otherwise the new entry gets a fresh address,
  \<open>Lookup\<close> finds it under its ID, every other ID is looked up as before, and the system invariant holds.
\<close>

theorem Spawn_correct:
  assumes "sys_inv ops s"
  shows "case Spawn ops act opts s of
      (Inl err, s') \<Rightarrow> s' = s \<and>
        (shut s \<or> (\<exists>a. Lookup (ID ops act) s = Inr a) \<or> MailboxCapacity opts < 0)
    | (Inr a, s') \<Rightarrow> \<not> shut s \<and> Lookup (ID ops act) s = Inl (NotFound (ID ops act)) \<and> 0 \<le> MailboxCapacity opts \<and>
        a = length (heap s) \<and> Lookup (ID ops act) s' = Inr a \<and> (\<forall>i. i \<noteq> ID ops act \<longrightarrow> Lookup i s' = Lookup i s) \<and>
        heap s' = heap s @ [new_entry act opts] \<and> sys_inv ops s'"
proof (cases rule: Spawn_cases [of ops act opts s])
  case (err er)
  then show ?thesis by (auto simp: Spawn_def Lookup_def Let_def split: if_splits option.splits)
next
  case ok
  with Spawn_inv [OF assms _ ok(2), of opts] show ?thesis by (simp add: Lookup_def)
qed

theorem Spawn_correct_witness:
  "let s = NewActorSystem () :: (ActorID, unit, unit, unit) sys
   in sys_inv base_ops s \<and> Lookup ''sensor-1'' (snd (Spawn base_ops ''sensor-1'' DefaultSpawnOptions s)) = Inr 0"
proof -
  have "sys_inv base_ops (NewActorSystem () :: (ActorID, unit, unit, unit) sys)" by (simp add: NewActorSystem_def sys_inv_but_def live_set_def)
  from Spawn_correct [OF this, of "''sensor-1''" DefaultSpawnOptions] this show ?thesis
    by (simp add: Spawn_def NewActorSystem_def base_ops_def DefaultSpawnOptions_def)
qed

text \<open>
  Restarting an actor that is still registered never works: \<open>RestartActor\<close> queues a stop message for
  the running instance and then, because that instance is still in the registry, returns the
  already-registered error; no new instance is spawned and the registry is unchanged.
\<close>

theorem RestartActor_registered:
  assumes "sys_inv ops s" "\<not> shut s" "Lookup (ID ops act) s = Inr a"
    and "StopRef e a s = Done s'"
  shows "RestartActor ops e act opts s = (Inl (AlreadyRegistered (ID ops act)), Done s') \<and>
    length (heap s') = length (heap s) \<and> actors s' = actors s \<and>
    Enqueue (mbox (ent s a)) (newMessage e MsgStopping NilAny '''') = Sent (mbox (ent s' a))"
proof -
  have a: "mget (actors s) (ID ops act) = Some a" using assms(3) by (simp add: Lookup_def split: option.splits)
  obtain mb where mb: "Enqueue (mbox (ent s a)) (newMessage e MsgStopping NilAny '''') = Sent mb"
    "s' = upd_ent a (\<lambda>en. en\<lparr>mbox := mb\<rparr>) s"
    using assms(4) by (auto simp: StopRef_def Tell_def split: enq.splits)
  have "a < length (heap s)" using mget_live [OF assms(1) a] .
  with a mb assms show ?thesis
    by (simp add: RestartActor_def StopActor_def Spawn_def ent_upd_ent)
qed

theorem RestartActor_registered_witness:
  "\<exists>(s :: (ActorID, unit, unit, unit) sys) e s'. sys_inv base_ops s \<and> Lookup ''sensor-1'' s = Inr 0 \<and> StopRef e 0 s = Done s' \<and>
    RestartActor base_ops e ''sensor-1'' DefaultSpawnOptions s = (Inl (AlreadyRegistered ''sensor-1''), Done s') \<and>
    length (heap s') = 1"
proof -
  let ?ops = "base_ops :: (ActorID, unit, unit, unit) actor_ops"
  define s0 where "s0 = (NewActorSystem () :: (ActorID, unit, unit, unit) sys)"
  let ?e = "\<lparr>now = 0, iter = (\<lambda>ks. ks)\<rparr>"
  let ?s = "snd (Spawn ?ops ''sensor-1'' DefaultSpawnOptions s0)"
  let ?s' = "upd_ent 0 (\<lambda>en. en\<lparr>mbox := (mbox en)\<lparr>ch := [newMessage ?e MsgStopping NilAny ''''], enqueued := 1\<rparr>\<rparr>) ?s"
  have "sys_inv ?ops s0" by (simp add: s0_def NewActorSystem_def sys_inv_but_def live_set_def)
  then have 1: "sys_inv ?ops ?s" by (rule safe_call_inv [OF Spawn_safe])
  have 2: "\<not> shut ?s" "Lookup (ID ?ops ''sensor-1'') ?s = Inr 0" "length (heap ?s) = 1"
    by (simp_all add: Spawn_def s0_def NewActorSystem_def base_ops_def DefaultSpawnOptions_def Lookup_def)
  have 3: "StopRef ?e 0 ?s = Done ?s'"
    by (simp add: StopRef_def Tell_def Enqueue_def Spawn_def s0_def NewActorSystem_def base_ops_def DefaultSpawnOptions_def
        DefaultMailboxSize_def new_entry_def NewMailbox_def upd_ent_def)
  have "ID ?ops ''sensor-1'' = ''sensor-1''" by (simp add: base_ops_def)
  with RestartActor_registered [OF 1 2(1,2) 3, of DefaultSpawnOptions] 1 2 3
  have "sys_inv ?ops ?s \<and> Lookup ''sensor-1'' ?s = Inr 0 \<and> StopRef ?e 0 ?s = Done ?s' \<and>
    RestartActor ?ops ?e ''sensor-1'' DefaultSpawnOptions ?s = (Inl (AlreadyRegistered ''sensor-1''), Done ?s') \<and>
    length (heap ?s') = 1" by simp
  then show ?thesis by blast
qed

text \<open>The contract holds for actors that inherit everything from \<^verbatim>\<open>BaseActor\<close>.\<close>

interpretation base: actor_contract base_ops
  by unfold_locales (simp_all add: base_ops_def)

end
