(* ===== verification/Messages.thy ===== *)
theory Messages
  imports Json ActorSystem
begin

text \<open>
  The messages of the smart home (\<^verbatim>\<open>smart-home/actors/messages.go\<close>), the typed access to payloads
  (\<^verbatim>\<open>payload.go\<close>) and the payload types known to the remote transport (\<^verbatim>\<open>remote_registry.go\<close>).

  All payload structs of the program are constructors of one datatype, so that a payload is a dynamically
  typed value as in the source: \<open>ptype_of\<close> is its dynamic type. The type parameter \<open>'f\<close> is the type of
  actor factories, which only the payloads of the supervision package carry. \<open>MapAny\<close> is a
  \<^verbatim>\<open>map[string]any\<close>, and \<open>OtherAny\<close> any other value that decoding JSON into an \<^verbatim>\<open>any\<close> can give.
\<close>

abbreviation MsgStartTraining :: MessageType where "MsgStartTraining \<equiv> ''smart_home.start_training''"
abbreviation MsgModelUpdate :: MessageType where "MsgModelUpdate \<equiv> ''smart_home.model_update''"
abbreviation MsgGlobalModelUpdate :: MessageType where "MsgGlobalModelUpdate \<equiv> ''smart_home.global_model_update''"
abbreviation MsgRoundComplete :: MessageType where "MsgRoundComplete \<equiv> ''smart_home.round_complete''"
abbreviation MsgAdjustEnvironment :: MessageType where "MsgAdjustEnvironment \<equiv> ''smart_home.adjust_environment''"
abbreviation MsgDeviceStatus :: MessageType where "MsgDeviceStatus \<equiv> ''smart_home.device_status''"
abbreviation MsgLogMetrics :: MessageType where "MsgLogMetrics \<equiv> ''smart_home.log_metrics''"
abbreviation MsgLogEvent :: MessageType where "MsgLogEvent \<equiv> ''smart_home.log_event''"
abbreviation MsgRegisterSensor :: MessageType where "MsgRegisterSensor \<equiv> ''smart_home.register_sensor''"
abbreviation MsgStartRound :: MessageType where "MsgStartRound \<equiv> ''smart_home.start_round''"
abbreviation MsgTrainingComplete :: MessageType where "MsgTrainingComplete \<equiv> ''smart_home.training_complete''"
abbreviation MsgRequestStatus :: MessageType where "MsgRequestStatus \<equiv> ''smart_home.request_status''"
abbreviation MsgEvaluateModel :: MessageType where "MsgEvaluateModel \<equiv> ''smart_home.evaluate_model''"
abbreviation MsgEvaluationResult :: MessageType where "MsgEvaluationResult \<equiv> ''smart_home.evaluation_result''"

datatype 'f payload =
    StartTrainingPayload (pRoundID: int) (pWeights: "f64 slice") (pLearningRate: f64) (pEpochs: int)
  | ModelUpdatePayload (pSensorID: string) (pRoundID: int) (pWeights: "f64 slice") (pNumSamples: int) (pLoss: f64)
  | GlobalModelUpdatePayload (pRoundID: int) (pGlobalWeights: "f64 slice") (pGlobalLoss: f64)
  | RoundCompletePayload (pRoundID: int) (pGlobalLoss: f64) (pNumClients: int) (pElapsedMs: int)
  | AdjustEnvironmentPayload (pRoomID: string) (pTargetTemp: f64) (pTargetHum: f64) (pTargetLight: f64)
  | DeviceStatusPayload (pRoomID: string) (pDeviceType: string) (pAction: string) (pActorID: string) (pTimestamp: int)
  | LogMetricsPayload (pRoundID: int) (pMSE: f64) (pRMSE: f64) (pMAE: f64) (pR2Score: f64)
  | LogEventPayload (pSource: string) (pEvent: string)
  | RegisterSensorPayload (pSensorID: string) (pRoomID: string) (pNumSamples: int) (pAddress: string)
  | TrainingCompletePayload (pWeights: "f64 slice") (pLoss: f64) (pNumSamples: int)
  | StartRoundPayload
  | RequestStatusPayload
  | EvaluateModelPayload (pRoundID: int) (pGlobalWeights: "f64 slice") (pLoggerID: ActorID)
  | EvaluationResultPayload (pRoundID: int) (pMSE: f64) (pRMSE: f64) (pMAE: f64) (pR2Score: f64)
  | StatusResponsePayload (pRound: int) (pSensorCount: int)
  | RegisterPayload (pID: ActorID) (pFactory: 'f) (pOpts: SpawnOptions)
  | UnregisterPayload (pID: ActorID)
  | DelayedRestartPayload (pID: ActorID) (pFactory: 'f) (pOpts: SpawnOptions)
  | MapAny "(string \<times> json) list"
  | OtherAny json

datatype ptype = PStartTraining | PModelUpdate | PGlobalModelUpdate | PRoundComplete | PAdjustEnvironment
  | PDeviceStatus | PLogMetrics | PLogEvent | PRegisterSensor | PTrainingComplete | PStartRound | PRequestStatus
  | PEvaluateModel | PEvaluationResult | PStatusResponse

fun ptype_of :: "'f payload \<Rightarrow> ptype option" where
  "ptype_of (StartTrainingPayload _ _ _ _) = Some PStartTraining"
| "ptype_of (ModelUpdatePayload _ _ _ _ _) = Some PModelUpdate"
| "ptype_of (GlobalModelUpdatePayload _ _ _) = Some PGlobalModelUpdate"
| "ptype_of (RoundCompletePayload _ _ _ _) = Some PRoundComplete"
| "ptype_of (AdjustEnvironmentPayload _ _ _ _) = Some PAdjustEnvironment"
| "ptype_of (DeviceStatusPayload _ _ _ _ _) = Some PDeviceStatus"
| "ptype_of (LogMetricsPayload _ _ _ _ _) = Some PLogMetrics"
| "ptype_of (LogEventPayload _ _) = Some PLogEvent"
| "ptype_of (RegisterSensorPayload _ _ _ _) = Some PRegisterSensor"
| "ptype_of (TrainingCompletePayload _ _ _) = Some PTrainingComplete"
| "ptype_of StartRoundPayload = Some PStartRound"
| "ptype_of RequestStatusPayload = Some PRequestStatus"
| "ptype_of (EvaluateModelPayload _ _ _) = Some PEvaluateModel"
| "ptype_of (EvaluationResultPayload _ _ _ _ _) = Some PEvaluationResult"
| "ptype_of (StatusResponsePayload _ _) = Some PStatusResponse"
| "ptype_of _ = None"

section \<open>Reflection\<close>

text \<open>The struct types, as \<^verbatim>\<open>encoding/json\<close> sees them, and the conversions between structs and their fields.\<close>

abbreviation TFloats :: gotype where "TFloats \<equiv> TSlice TFloat"

fun fields_of :: "ptype \<Rightarrow> (string \<times> gotype) list" where
  "fields_of PStartTraining = [(''RoundID'', TInt), (''Weights'', TFloats), (''LearningRate'', TFloat), (''Epochs'', TInt)]"
| "fields_of PModelUpdate = [(''SensorID'', TString), (''RoundID'', TInt), (''Weights'', TFloats), (''NumSamples'', TInt), (''Loss'', TFloat)]"
| "fields_of PGlobalModelUpdate = [(''RoundID'', TInt), (''GlobalWeights'', TFloats), (''GlobalLoss'', TFloat)]"
| "fields_of PRoundComplete = [(''RoundID'', TInt), (''GlobalLoss'', TFloat), (''NumClients'', TInt), (''ElapsedMs'', TInt)]"
| "fields_of PAdjustEnvironment = [(''RoomID'', TString), (''TargetTemp'', TFloat), (''TargetHum'', TFloat), (''TargetLight'', TFloat)]"
| "fields_of PDeviceStatus = [(''RoomID'', TString), (''DeviceType'', TString), (''Action'', TString), (''ActorID'', TString), (''Timestamp'', TTime)]"
| "fields_of PLogMetrics = [(''RoundID'', TInt), (''MSE'', TFloat), (''RMSE'', TFloat), (''MAE'', TFloat), (''R2Score'', TFloat)]"
| "fields_of PLogEvent = [(''Source'', TString), (''Event'', TString)]"
| "fields_of PRegisterSensor = [(''SensorID'', TString), (''RoomID'', TString), (''NumSamples'', TInt), (''Address'', TString)]"
| "fields_of PTrainingComplete = [(''Weights'', TFloats), (''Loss'', TFloat), (''NumSamples'', TInt)]"
| "fields_of PStartRound = []"
| "fields_of PRequestStatus = []"
| "fields_of PEvaluateModel = [(''RoundID'', TInt), (''GlobalWeights'', TFloats), (''LoggerID'', TString)]"
| "fields_of PEvaluationResult = [(''RoundID'', TInt), (''MSE'', TFloat), (''RMSE'', TFloat), (''MAE'', TFloat), (''R2Score'', TFloat)]"
| "fields_of PStatusResponse = [(''Round'', TInt), (''SensorCount'', TInt)]"

fun floats :: "f64 slice \<Rightarrow> goval" where
  "floats SNil = VSlice None"
| "floats (SList ws) = VSlice (Some (map VFloat ws))"

fun to_floats :: "goval list option \<Rightarrow> f64 slice" where
  "to_floats None = SNil"
| "to_floats (Some vs) = SList (map (\<lambda>v. case v of VFloat f \<Rightarrow> f | _ \<Rightarrow> 0) vs)"

fun to_fields :: "'f payload \<Rightarrow> goval list" where
  "to_fields (StartTrainingPayload r w l e) = [VInt r, floats w, VFloat l, VInt e]"
| "to_fields (ModelUpdatePayload i r w n l) = [VString i, VInt r, floats w, VInt n, VFloat l]"
| "to_fields (GlobalModelUpdatePayload r w l) = [VInt r, floats w, VFloat l]"
| "to_fields (RoundCompletePayload r l n t) = [VInt r, VFloat l, VInt n, VInt t]"
| "to_fields (AdjustEnvironmentPayload i t h l) = [VString i, VFloat t, VFloat h, VFloat l]"
| "to_fields (DeviceStatusPayload i d a b t) = [VString i, VString d, VString a, VString b, VTime t]"
| "to_fields (LogMetricsPayload r a b c d) = [VInt r, VFloat a, VFloat b, VFloat c, VFloat d]"
| "to_fields (LogEventPayload s e) = [VString s, VString e]"
| "to_fields (RegisterSensorPayload i r n a) = [VString i, VString r, VInt n, VString a]"
| "to_fields (TrainingCompletePayload w l n) = [floats w, VFloat l, VInt n]"
| "to_fields (EvaluateModelPayload r w l) = [VInt r, floats w, VString l]"
| "to_fields (EvaluationResultPayload r a b c d) = [VInt r, VFloat a, VFloat b, VFloat c, VFloat d]"
| "to_fields (StatusResponsePayload r n) = [VInt r, VInt n]"
| "to_fields _ = []"

definition of_fields :: "ptype \<Rightarrow> goval list \<Rightarrow> 'f payload option" where
  "of_fields p vs = (case (p, vs) of
     (PStartTraining, [VInt r, VSlice w, VFloat l, VInt e]) \<Rightarrow> Some (StartTrainingPayload r (to_floats w) l e)
   | (PModelUpdate, [VString i, VInt r, VSlice w, VInt n, VFloat l]) \<Rightarrow> Some (ModelUpdatePayload i r (to_floats w) n l)
   | (PGlobalModelUpdate, [VInt r, VSlice w, VFloat l]) \<Rightarrow> Some (GlobalModelUpdatePayload r (to_floats w) l)
   | (PRoundComplete, [VInt r, VFloat l, VInt n, VInt t]) \<Rightarrow> Some (RoundCompletePayload r l n t)
   | (PAdjustEnvironment, [VString i, VFloat t, VFloat h, VFloat l]) \<Rightarrow> Some (AdjustEnvironmentPayload i t h l)
   | (PDeviceStatus, [VString i, VString d, VString a, VString b, VTime t]) \<Rightarrow> Some (DeviceStatusPayload i d a b t)
   | (PLogMetrics, [VInt r, VFloat a, VFloat b, VFloat c, VFloat d]) \<Rightarrow> Some (LogMetricsPayload r a b c d)
   | (PLogEvent, [VString s, VString e]) \<Rightarrow> Some (LogEventPayload s e)
   | (PRegisterSensor, [VString i, VString r, VInt n, VString a]) \<Rightarrow> Some (RegisterSensorPayload i r n a)
   | (PTrainingComplete, [VSlice w, VFloat l, VInt n]) \<Rightarrow> Some (TrainingCompletePayload (to_floats w) l n)
   | (PStartRound, []) \<Rightarrow> Some StartRoundPayload
   | (PRequestStatus, []) \<Rightarrow> Some RequestStatusPayload
   | (PEvaluateModel, [VInt r, VSlice w, VString l]) \<Rightarrow> Some (EvaluateModelPayload r (to_floats w) l)
   | (PEvaluationResult, [VInt r, VFloat a, VFloat b, VFloat c, VFloat d]) \<Rightarrow> Some (EvaluationResultPayload r a b c d)
   | (PStatusResponse, [VInt r, VInt n]) \<Rightarrow> Some (StatusResponsePayload r n)
   | _ \<Rightarrow> None)"

text \<open>\<^verbatim>\<open>json.Marshal(payload)\<close>; a struct with a function in it cannot be marshalled.\<close>

fun marshal_payload :: "'f payload \<Rightarrow> json option" where
  "marshal_payload (MapAny m) = marshal_any_map m"
| "marshal_payload (OtherAny j) = (if json_finite j then Some j else None)"
| "marshal_payload p = (case ptype_of p of
     Some t \<Rightarrow> marshal (TStruct (fields_of t)) (VStruct (to_fields p))
   | None \<Rightarrow> None)"

text \<open>\<^verbatim>\<open>json.Unmarshal\<close> into a zero value of a payload type.\<close>

definition unmarshal_payload :: "ptype \<Rightarrow> json \<Rightarrow> 'f payload option" where
  "unmarshal_payload t j = (case unmarshal (TStruct (fields_of t)) j of
     Some (VStruct vs) \<Rightarrow> of_fields t vs
   | _ \<Rightarrow> None)"

text \<open>\<^verbatim>\<open>fmt.Sprintf("%T", payload)\<close>.\<close>

fun ptype_name :: "ptype \<Rightarrow> string" where
  "ptype_name PStartTraining = ''actors.StartTrainingPayload''"
| "ptype_name PModelUpdate = ''actors.ModelUpdatePayload''"
| "ptype_name PGlobalModelUpdate = ''actors.GlobalModelUpdatePayload''"
| "ptype_name PRoundComplete = ''actors.RoundCompletePayload''"
| "ptype_name PAdjustEnvironment = ''actors.AdjustEnvironmentPayload''"
| "ptype_name PDeviceStatus = ''actors.DeviceStatusPayload''"
| "ptype_name PLogMetrics = ''actors.LogMetricsPayload''"
| "ptype_name PLogEvent = ''actors.LogEventPayload''"
| "ptype_name PRegisterSensor = ''actors.RegisterSensorPayload''"
| "ptype_name PTrainingComplete = ''actors.TrainingCompletePayload''"
| "ptype_name PStartRound = ''actors.StartRoundPayload''"
| "ptype_name PRequestStatus = ''actors.RequestStatusPayload''"
| "ptype_name PEvaluateModel = ''actors.EvaluateModelPayload''"
| "ptype_name PEvaluationResult = ''actors.EvaluationResultPayload''"
| "ptype_name PStatusResponse = ''actors.StatusResponsePayload''"

fun any_json_type :: "json \<Rightarrow> string" where
  "any_json_type (JNum _) = ''float64''"
| "any_json_type (JInt _) = ''float64''"
| "any_json_type (JArr _) = ''[]interface {}''"
| "any_json_type (JObj _) = ''map[string]interface {}''"
| "any_json_type JNull = ''<nil>''"
| "any_json_type _ = ''string''"

fun payload_type_name :: "'f payload \<Rightarrow> string" where
  "payload_type_name (RegisterPayload _ _ _) = ''supervision.RegisterPayload''"
| "payload_type_name (UnregisterPayload _) = ''supervision.UnregisterPayload''"
| "payload_type_name (DelayedRestartPayload _ _ _) = ''supervision.DelayedRestartPayload''"
| "payload_type_name (MapAny _) = ''map[string]interface {}''"
| "payload_type_name (OtherAny j) = any_json_type j"
| "payload_type_name p = (case ptype_of p of Some t \<Rightarrow> ptype_name t | None \<Rightarrow> '''')"

section \<open>Typed access\<close>

text \<open>\<^verbatim>\<open>castPayload[T]\<close> at the type with tag \<open>t\<close>.\<close>

definition castPayload :: "ptype \<Rightarrow> 'f payload any \<Rightarrow> 'f payload option" where
  "castPayload t payload0 =
    (let payload = (case payload0 of AskEnvelope orig _ \<Rightarrow> Payload orig | _ \<Rightarrow> payload0)
     in case payload of
          Dyn p \<Rightarrow>
            if ptype_of p = Some t then Some p
            else (case p of
                MapAny m \<Rightarrow> Option.bind (marshal_any_map m) (unmarshal_payload t)
              | _ \<Rightarrow> None)
        | _ \<Rightarrow> None)"

text \<open>\<^verbatim>\<open>copyWeights\<close>: a copy, with nil for nil.\<close>

definition copyWeights :: "f64 slice \<Rightarrow> f64 slice" where
  "copyWeights src = (case src of SNil \<Rightarrow> SNil | SList ws \<Rightarrow> SList ws)"

section \<open>The payload types of the remote transport\<close>

type_synonym payload_registry = "(string, ptype) gomap"

definition RegisterPayloadType :: "ptype \<Rightarrow> payload_registry \<Rightarrow> payload_registry" where
  "RegisterPayloadType t reg = mput (ptype_name t) t reg"

text \<open>The package initialiser of \<^verbatim>\<open>remote_registry.go\<close>.\<close>

definition init_registry :: payload_registry where
  "init_registry = fold RegisterPayloadType
    [PStartTraining, PModelUpdate, PGlobalModelUpdate, PRoundComplete, PAdjustEnvironment, PDeviceStatus, PLogMetrics,
     PLogEvent, PRegisterSensor, PStartRound, PTrainingComplete, PRequestStatus, PStatusResponse, PEvaluateModel,
     PEvaluationResult] []"

section \<open>Lemmas\<close>

text \<open>A payload whose numbers JSON can represent.\<close>

definition json_safe :: "'f payload \<Rightarrow> bool" where
  "json_safe p = (case ptype_of p of Some t \<Rightarrow> typed_fields (fields_of t) (to_fields p) | None \<Rightarrow> False)"

lemma to_floats_floats [simp]: "floats w = VSlice vs \<Longrightarrow> to_floats vs = w"
  by (cases w) (auto simp: comp_def)

lemma floats_VSlice: "\<exists>vs. floats w = VSlice vs"
  by (cases w) auto

lemma wf_fields_of: "wf_type (TStruct (fields_of t))"
  by (cases t) (simp_all add: fold_name_def upper_def)

lemma of_fields_to_fields: "ptype_of p = Some t \<Longrightarrow> of_fields t (to_fields p) = Some p"
  using floats_VSlice [of "pWeights p"] floats_VSlice [of "pGlobalWeights p"]
  by (cases p) (auto simp: of_fields_def)

lemma marshal_payload_ptype:
  "ptype_of p = Some t \<Longrightarrow> marshal_payload p = marshal (TStruct (fields_of t)) (VStruct (to_fields p))"
  by (cases p) auto

lemma payload_type_name_ptype: "ptype_of p = Some t \<Longrightarrow> payload_type_name p = ptype_name t"
  by (cases p) auto

lemma payload_roundtrip:
  assumes "json_safe p"
  obtains t j where "ptype_of p = Some t" "marshal_payload p = Some j" "unmarshal_payload t j = Some p" "j \<noteq> JNull"
proof -
  obtain t where t: "ptype_of p = Some t" and ty: "typed (TStruct (fields_of t)) (VStruct (to_fields p))"
    using assms by (auto simp: json_safe_def split: option.splits)
  obtain j where j: "marshal (TStruct (fields_of t)) (VStruct (to_fields p)) = Some j"
    "unmarshal (TStruct (fields_of t)) j = Some (VStruct (to_fields p))"
    using unmarshal_marshal_all(1) [OF wf_fields_of ty] by blast
  moreover have "j \<noteq> JNull" using j(1) by auto
  ultimately show ?thesis using that t by (simp add: marshal_payload_ptype unmarshal_payload_def of_fields_to_fields)
qed

lemma mget_init_registry: "mget init_registry (ptype_name t) = Some t"
  by (cases t) (simp_all add: init_registry_def RegisterPayloadType_def)

lemma copyWeights_id [simp]: "copyWeights w = w"
  by (cases w) (simp_all add: copyWeights_def)

end
