(* ===== verification/Remote.thy ===== *)
theory Remote
  imports Messages
begin

text \<open>
  Remote references and the server behind them (\<^verbatim>\<open>actor-framework/remote/remote_ref.go\<close> and
  \<^verbatim>\<open>server.go\<close>): messages cross the network as requests whose payload is JSON plus a type name.

  The gRPC stubs are generated code: the network is whatever brings a request that \<open>marshalTell\<close> or
  \<open>marshalAsk\<close> made to the \<open>server_Tell\<close>, \<open>server_Ask\<close> or \<open>server_Stop\<close> of some process. Absent payload
  bytes are \<^const>\<open>None\<close>. Timestamps are nanoseconds since the epoch.
\<close>

record TellRequest =
  ActorId :: string
  reqMsgType :: string
  PayloadJson :: "json option"
  PayloadType :: string
  reqSender :: string
  TimestampNanos :: int

record AskRequest = TellRequest +
  TimeoutMs :: int

record AskResponse =
  Success :: bool
  respJson :: "json option"
  respType :: string
  respError :: string

section \<open>Serialisation\<close>

text \<open>\<^verbatim>\<open>json.Marshal\<close> and \<^verbatim>\<open>%T\<close> of a dynamically typed payload. A channel cannot be marshalled.\<close>

fun marshal_any :: "'f payload any \<Rightarrow> json option" where
  "marshal_any NilAny = Some JNull"
| "marshal_any (AskEnvelope _ _) = None"
| "marshal_any (ActorFailed p) = Some (JObj [(''ActorID'', JStr (failedID p)), (''ActorType'', JStr (ActorType p)),
     (''Error'', JStr (Error p)), (''RestartCount'', JInt (RestartCount p))])"
| "marshal_any (Dyn p) = marshal_payload p"

fun type_name_any :: "'f payload any \<Rightarrow> string" where
  "type_name_any NilAny = ''<nil>''"
| "type_name_any (AskEnvelope _ _) = ''actorframework.AskEnvelope''"
| "type_name_any (ActorFailed _) = ''actorframework.ActorFailedPayload''"
| "type_name_any (Dyn p) = payload_type_name p"

definition marshalTell :: "ActorID \<Rightarrow> 'f payload message \<Rightarrow> TellRequest" where
  "marshalTell i msg = \<lparr>ActorId = i, reqMsgType = MsgType msg, PayloadJson = marshal_any (Payload msg),
     PayloadType = type_name_any (Payload msg), reqSender = Sender msg, TimestampNanos = wrap64 (Timestamp msg)\<rparr>"

text \<open>
  \<^verbatim>\<open>RemoteActorRef.Ask\<close> up to the call: \<open>remaining\<close> is the time to the caller's deadline in
  milliseconds, if it has one; \<^const>\<open>None\<close> is the early return when it has passed.
\<close>

definition marshalAsk :: "ActorID \<Rightarrow> 'f payload message \<Rightarrow> AskRequest" where
  "marshalAsk i msg = \<lparr>ActorId = i, reqMsgType = MsgType msg, PayloadJson = marshal_any (Payload msg),
     PayloadType = type_name_any (Payload msg), reqSender = Sender msg, TimestampNanos = wrap64 (Timestamp msg), TimeoutMs = 0\<rparr>"

definition remote_Ask_request :: "int option \<Rightarrow> ActorID \<Rightarrow> 'f payload message \<Rightarrow> AskRequest option" where
  "remote_Ask_request remaining i msg = (let req = marshalAsk i msg
     in case remaining of
          Some ms \<Rightarrow> if ms \<le> 0 then None else Some (req\<lparr>TimeoutMs := ms\<rparr>)
        | None \<Rightarrow> Some (req\<lparr>TimeoutMs := 30000\<rparr>))"

text \<open>
  \<^verbatim>\<open>decodePayload\<close>. When the type is registered but the document does not fit it, or the type is not
  registered, the payload is decoded into an \<^verbatim>\<open>any\<close>.
\<close>

definition decode_any :: "json \<Rightarrow> 'f payload any" where
  "decode_any j = (case to_any j of JNull \<Rightarrow> NilAny | JObj kvs \<Rightarrow> Dyn (MapAny kvs) | j' \<Rightarrow> Dyn (OtherAny j'))"

definition decodePayload :: "payload_registry \<Rightarrow> json option \<Rightarrow> string \<Rightarrow> 'f payload any" where
  "decodePayload reg data typeName = (case data of
     None \<Rightarrow> NilAny
   | Some j \<Rightarrow>
       (case mget reg typeName of
          Some t \<Rightarrow> (case unmarshal_payload t j of Some p \<Rightarrow> Dyn p | None \<Rightarrow> decode_any j)
        | None \<Rightarrow> decode_any j))"

definition unmarshalReply :: "payload_registry \<Rightarrow> go_env \<Rightarrow> AskResponse \<Rightarrow> 'f payload message" where
  "unmarshalReply reg e resp = Message '''' (decodePayload reg (respJson resp) (respType resp)) '''' (now e)"

text \<open>The end of \<^verbatim>\<open>RemoteActorRef.Ask\<close>.\<close>

definition remote_Ask_result :: "payload_registry \<Rightarrow> go_env \<Rightarrow> AskResponse \<Rightarrow> string + 'f payload message" where
  "remote_Ask_result reg e resp = (if \<not> Success resp then Inl (''remote ask error: '' @ respError resp)
     else Inr (unmarshalReply reg e resp))"

section \<open>The server\<close>

definition request_message :: "payload_registry \<Rightarrow> ('z) TellRequest_scheme \<Rightarrow> 'f payload message" where
  "request_message reg req = Message (reqMsgType req) (decodePayload reg (PayloadJson req) (PayloadType req)) (reqSender req) (TimestampNanos req)"

definition server_Tell :: "payload_registry \<Rightarrow> TellRequest \<Rightarrow> ('a, 'b, 'f payload, 'w) sys \<Rightarrow> ('a, 'b, 'f payload, 'w) sys outcome" where
  "server_Tell reg req s = (case Lookup (ActorId req) s of
     Inl _ \<Rightarrow> Done s
   | Inr ref \<Rightarrow> Tell ref (request_message reg req) s)"

text \<open>\<^verbatim>\<open>ActorServer.Ask\<close> up to the wait: an error response, or the reply channel and the system.\<close>

definition server_Ask :: "payload_registry \<Rightarrow> go_env \<Rightarrow> AskRequest \<Rightarrow> ('a, 'b, 'f payload, 'w) sys \<Rightarrow>
    AskResponse + nat \<times> ('a, 'b, 'f payload, 'w) sys outcome" where
  "server_Ask reg e req s = (case Lookup (ActorId req) s of
     Inl _ \<Rightarrow> Inl \<lparr>Success = False, respJson = None, respType = '''', respError = ''actor \"'' @ ActorId req @ ''\" not found''\<rparr>
   | Inr ref \<Rightarrow> Inr (AskSend e ref (request_message reg req) s))"

text \<open>The rest of it, with the result of the wait.\<close>

definition server_Ask_response :: "string + 'f payload message \<Rightarrow> AskResponse" where
  "server_Ask_response res = (case res of
     Inl err \<Rightarrow> \<lparr>Success = False, respJson = None, respType = '''', respError = err\<rparr>
   | Inr reply \<Rightarrow> \<lparr>Success = True, respJson = marshal_any (Payload reply), respType = type_name_any (Payload reply), respError = ''''\<rparr>)"

definition server_Stop :: "go_env \<Rightarrow> string \<Rightarrow> ('a, 'b, 'f payload, 'w) sys \<Rightarrow> ('a, 'b, 'f payload, 'w) sys outcome" where
  "server_Stop e i s = (case Lookup i s of Inl _ \<Rightarrow> Done s | Inr ref \<Rightarrow> StopRef e ref s)"

section \<open>Lemmas\<close>

lemma server_Tell_safe: "leaves (server_Tell reg req s) s' \<Longrightarrow> safe_call ops s s'"
  by (auto simp: server_Tell_def split: sum.splits intro: Tell_safe)

lemma decode_registered:
  assumes "json_safe p"
  shows "decodePayload init_registry (marshal_payload p) (payload_type_name p) = Dyn p"
proof -
  obtain t j where "ptype_of p = Some t" "marshal_payload p = Some j" "unmarshal_payload t j = Some p"
    by (rule payload_roundtrip [OF assms])
  then show ?thesis by (simp add: decodePayload_def payload_type_name_ptype mget_init_registry)
qed

subsection \<open>The generic fallback\<close>

text \<open>Integers that \<^verbatim>\<open>float64\<close> represents exactly survive the way through an \<^verbatim>\<open>any\<close>.\<close>

fun small :: "goval \<Rightarrow> bool" where
  "small (VInt i) = (\<bar>i\<bar> < 2 ^ 53)"
| "small (VSlice (Some vs)) = list_all small vs"
| "small (VMap (Some m)) = list_all (\<lambda>kv. small (snd kv)) m"
| "small (VStruct vs) = list_all small vs"
| "small _ = True"

lemma of_goint_small:
  assumes "\<bar>i\<bar> < 2 ^ 53"
  shows "of_goint i = (if i = 0 then FZero False else FNum (of_int i))"
proof -
  consider "0 < i" | "i = 0" | "0 < - i" by linarith
  then show ?thesis
  proof cases
    case 1
    then show ?thesis using assms by (simp add: of_goint_exact)
  next
    case 2
    then show ?thesis by (simp add: of_goint_def lit_def rnd_def)
  next
    case 3
    then have "of_goint i = fneg (of_goint (- i))" by (simp add: of_goint_def lit_def rnd_neg)
    then show ?thesis using 3 assms of_goint_exact [of "- i"] by simp
  qed
qed

lemma json_int_of_goint: "\<bar>i\<bar> < 2 ^ 53 \<Longrightarrow> json_int (JNum (of_goint i)) = Some i"
proof -
  assume i: "\<bar>i\<bar> < 2 ^ 53"
  then have "\<bar>i\<bar> < 10 ^ 21" by simp
  then have "(of_int \<bar>i\<bar> :: rat) < of_int (10 ^ 21)" by (simp only: of_int_less_iff)
  then have "\<bar>of_int i\<bar> < (10 ^ 21 :: rat)" by simp
  with i show ?thesis by (auto simp: of_goint_small json_int_def in_int64_def)
qed

lemma finite_of_goint: "\<bar>i\<bar> < 2 ^ 53 \<Longrightarrow> finite_f64 (of_goint i)"
  by (simp add: of_goint_small finite_f64_def)

lemma last_match_mset:
  assumes "distinct (map (\<lambda>kv. fold_name (fst kv)) kvs)" "mset kvs' = mset kvs" "(n, j) \<in> set kvs"
  shows "last_match n kvs' = Some j"
proof -
  have "mset (map (\<lambda>kv. fold_name (fst kv)) kvs') = mset (map (\<lambda>kv. fold_name (fst kv)) kvs)"
    using assms(2) by simp
  then have "distinct (map (\<lambda>kv. fold_name (fst kv)) kvs')" using assms(1) mset_eq_imp_distinct_iff by blast
  moreover have "(n, j) \<in> set kvs'" using assms(2,3) by (metis set_mset_mset)
  ultimately show ?thesis by (rule last_match_distinct)
qed

abbreviation any_field :: "string \<times> json \<Rightarrow> string \<times> json" where
  "any_field kv \<equiv> (fst kv, to_any (snd kv))"

lemma generic_field:
  "t \<in> {TInt, TFloat, TString, TTime, TSlice TFloat} \<Longrightarrow> typed t v \<Longrightarrow> small v \<Longrightarrow>
    \<exists>j. marshal t v = Some j \<and> unmarshal t (to_any j) = Some v \<and> json_finite (to_any j)"
proof (cases v)
  case (VSlice vs)
  assume *: "t \<in> {TInt, TFloat, TString, TTime, TSlice TFloat}" "typed t v"
  have "\<exists>js. marshal_list TFloat ws = Some js \<and> all_some (map (unmarshal TFloat) (map to_any js)) = Some ws \<and>
      list_all json_finite (map to_any js)" if "list_all (typed TFloat) ws" for ws
    using that
  proof (induction ws)
    case (Cons w ws)
    then show ?case by (cases w) (auto simp: json_float_def)
  qed simp
  with * VSlice show ?thesis by (cases vs) (force simp: comp_def)+
qed (auto simp: json_int_of_goint json_float_def finite_of_goint)

lemma generic_fields:
  assumes "snd ` set fs \<subseteq> {TInt, TFloat, TString, TTime, TSlice TFloat}" "typed_fields fs vs" "list_all small vs"
  shows "\<exists>kvs. marshal_fields fs vs = Some kvs \<and> map fst kvs = map fst fs \<and>
    list_all (\<lambda>kv. json_finite (to_any (snd kv))) kvs \<and>
    (\<forall>kvs'. (\<forall>(n, j)\<in>set kvs. last_match n kvs' = Some (to_any j)) \<longrightarrow> unmarshal_fields fs kvs' = Some vs)"
  using assms
proof (induction fs arbitrary: vs)
  case Nil
  then show ?case by (cases vs) auto
next
  case (Cons f fs)
  obtain n t where f: "f = (n, t)" by fastforce
  with Cons.prems obtain v ws where vs: "vs = v # ws" by (cases vs) auto
  with f Cons.prems obtain j where "marshal t v = Some j" "unmarshal t (to_any j) = Some v" "json_finite (to_any j)"
    using generic_field [of t v] by auto
  moreover obtain kvs where "marshal_fields fs ws = Some kvs" "map fst kvs = map fst fs"
    "list_all (\<lambda>kv. json_finite (to_any (snd kv))) kvs"
    "\<forall>kvs'. (\<forall>(n, j)\<in>set kvs. last_match n kvs' = Some (to_any j)) \<longrightarrow> unmarshal_fields fs kvs' = Some ws"
    using Cons.IH [of ws] Cons.prems f vs by auto
  ultimately show ?case using f vs by simp
qed

lemma fields_of_flat: "snd ` set (fields_of t) \<subseteq> {TInt, TFloat, TString, TTime, TSlice TFloat}"
  by (cases t) auto

lemma decode_unregistered:
  assumes "json_safe p" "list_all small (to_fields p)" "ptype_of p = Some t"
  shows "castPayload t (decodePayload [] (marshal_payload p) n :: 'f payload any) = Some p"
proof -
  let ?fs = "fields_of t"
  have ty: "typed_fields ?fs (to_fields p)" using assms(1,3) by (simp add: json_safe_def)
  obtain kvs where kvs: "marshal_fields ?fs (to_fields p) = Some kvs" "map fst kvs = map fst ?fs"
    "list_all (\<lambda>kv. json_finite (to_any (snd kv))) kvs"
    "\<forall>kvs'. (\<forall>(n, j)\<in>set kvs. last_match n kvs' = Some (to_any j)) \<longrightarrow> unmarshal_fields ?fs kvs' = Some (to_fields p)"
    using generic_fields [OF fields_of_flat ty assms(2)] by blast
  let ?m = "map any_field kvs"
  have "map (\<lambda>kv. fold_name (fst kv)) ?m = map (\<lambda>f. fold_name (fst f)) ?fs"
    using arg_cong [OF kvs(2), of "map fold_name"] by (simp add: comp_def)
  then have d: "distinct (map (\<lambda>kv. fold_name (fst kv)) ?m)" using wf_fields_of [of t] by (simp only: wf_type.simps)
  have "last_match n (sort_key fst ?m) = Some (to_any j)" if "(n, j) \<in> set kvs" for n j
    using that by (intro last_match_mset [OF d]) force+
  with kvs(4) have u: "unmarshal_fields ?fs (sort_key fst ?m) = Some (to_fields p)" by blast
  have m: "marshal_any_map ?m = Some (JObj (sort_key fst ?m))"
    using kvs(3) by (simp add: marshal_any_map_def list_all_iff)
  have "decodePayload [] (marshal_payload p) n = (Dyn (MapAny ?m) :: 'f payload any)"
    using kvs(1) assms(3) by (simp add: decodePayload_def marshal_payload_ptype decode_any_def)
  then show ?thesis
    using m u assms(3) by (simp add: castPayload_def unmarshal_payload_def of_fields_to_fields)
qed

section \<open>Properties\<close>





text \<open>
  A payload that JSON cannot represent is lost in transit. If a number in it is a NaN or an infinity, the
  request is still sent, without payload bytes, and the receiver gets the message with a nil
  payload, which no typed access accepts.
\<close>

theorem remote_tell_nan_lost:
  fixes s :: "('a, 'b, 'f payload, 'w) sys" and msg :: "'f payload message"
  assumes "Payload msg = Dyn p" "marshal_payload p = None" "Lookup i s = Inr ref"
  shows "server_Tell reg (marshalTell i msg) s = Tell ref (Message (MsgType msg) NilAny (Sender msg) (wrap64 (Timestamp msg))) s \<and>
    castPayload t NilAny = (None :: 'f payload option)"
  using assms by (simp add: server_Tell_def request_message_def marshalTell_def decodePayload_def castPayload_def)

theorem remote_tell_nan_lost_witness:
  "let msg = Message MsgGlobalModelUpdate (Dyn (GlobalModelUpdatePayload 1 (SList [FNaN]) (FNum 1))) ''coordinator'' 5 :: unit payload message;
     s = snd (Spawn base_ops ''sensor-1'' DefaultSpawnOptions (NewActorSystem () :: (ActorID, unit, unit payload, unit) sys))
   in server_Tell init_registry (marshalTell ''sensor-1'' msg) s = Tell 0 (Message MsgGlobalModelUpdate NilAny ''coordinator'' 5) s"
proof -
  let ?p = "GlobalModelUpdatePayload 1 (SList [FNaN]) (FNum 1) :: unit payload"
  let ?s = "snd (Spawn base_ops ''sensor-1'' DefaultSpawnOptions (NewActorSystem () :: (ActorID, unit, unit payload, unit) sys))"
  have "Lookup ''sensor-1'' ?s = Inr 0"
    by (simp add: Spawn_def NewActorSystem_def base_ops_def DefaultSpawnOptions_def Lookup_def)
  moreover have "marshal_payload ?p = None" by (simp add: finite_f64_def)
  ultimately show ?thesis
    using remote_tell_nan_lost [of "Message MsgGlobalModelUpdate (Dyn ?p) ''coordinator'' 5" ?p "''sensor-1''" ?s 0 init_registry PGlobalModelUpdate]
    by (simp add: Let_def in_int64_def)
qed

end
