(* ===== verification/Persister.thy ===== *)
theory Persister
  imports Json
begin

text \<open>
  The persister (\<^verbatim>\<open>smart-home/persistence/persister.go\<close>): one JSON file per actor under a base directory.

  The disk maps a directory and a file name to the content of the file: a JSON document, a sequence of JSON
  lines, or bytes that are neither. Every operating system call may fail; \<open>fault\<close> says which call of the
  operation does, and what a failed write left behind. IDs are used as file names and contain no
  path separator.
\<close>

datatype filedata = Doc json | Lines "json list" | Raw

type_synonym disk = "(string \<times> string, filedata) gomap"

datatype fault = NoFault | WriteFault "filedata option" | RenameFault | ReadFault | OpenFault

datatype persist_error = MarshalFailed string | WriteFailed string | RenameFailed string | NoSavedState string
  | ReadFailed string | UnmarshalFailed string | OpenFailed string | ReadDirFailed

record Persister =
  basePath :: string

definition filePath :: "Persister \<Rightarrow> string \<Rightarrow> string \<times> string" where
  "filePath p i = (basePath p, i @ ''.json'')"

text \<open>\<^verbatim>\<open>filepath.Ext\<close>: from the last dot to the end, empty without a dot.\<close>

definition Ext :: "string \<Rightarrow> string" where
  "Ext name = (if CHR ''.'' \<in> set name
     then CHR ''.'' # rev (takeWhile (\<lambda>c. c \<noteq> CHR ''.'') (rev name)) else '''')"

definition trimExt :: "string \<Rightarrow> string" where
  "trimExt name = take (length name - length (Ext name)) name"

text \<open>\<^verbatim>\<open>os.WriteFile\<close>: a failed write may leave part of the data.\<close>

definition WriteFile :: "fault \<Rightarrow> string \<times> string \<Rightarrow> filedata \<Rightarrow> disk \<Rightarrow> bool \<times> disk" where
  "WriteFile fl path data d = (case fl of
     WriteFault None \<Rightarrow> (False, d)
   | WriteFault (Some junk) \<Rightarrow> (False, mput path junk d)
   | _ \<Rightarrow> (True, mput path data d))"

text \<open>
  \<open>Save\<close> and \<open>Load\<close> come in two parts: the files, and the conversion of a state to and from JSON, which depends on its static type.
\<close>

definition save_file :: "fault \<Rightarrow> Persister \<Rightarrow> string \<Rightarrow> json option \<Rightarrow> disk \<Rightarrow> persist_error option \<times> disk" where
  "save_file fl p i marshalled d = (case marshalled of
     None \<Rightarrow> (Some (MarshalFailed i), d)
   | Some data \<Rightarrow>
       (let path = filePath p i;
            tmp = (fst path, snd path @ ''.tmp'')
        in case WriteFile fl tmp (Doc data) d of
             (False, d1) \<Rightarrow> (Some (WriteFailed i), d1)
           | (True, d1) \<Rightarrow>
               if fl = RenameFault then (Some (RenameFailed i), d1)
               else (None, mdelete tmp (mput path (the (mget d1 tmp)) d1))))"

definition Save :: "fault \<Rightarrow> Persister \<Rightarrow> string \<Rightarrow> gotype \<Rightarrow> goval \<Rightarrow> disk \<Rightarrow> persist_error option \<times> disk" where
  "Save fl p i t state d = save_file fl p i (marshal t state) d"

definition load_file :: "fault \<Rightarrow> Persister \<Rightarrow> string \<Rightarrow> (json \<Rightarrow> 'v option) \<Rightarrow> disk \<Rightarrow> persist_error + 'v" where
  "load_file fl p i decode d = (case mget d (filePath p i) of
     None \<Rightarrow> Inl (NoSavedState i)
   | Some f \<Rightarrow>
       if fl = ReadFault then Inl (ReadFailed i)
       else case f of
         Doc j \<Rightarrow> (case decode j of Some v \<Rightarrow> Inr v | None \<Rightarrow> Inl (UnmarshalFailed i))
       | _ \<Rightarrow> Inl (UnmarshalFailed i))"

definition Load :: "fault \<Rightarrow> Persister \<Rightarrow> string \<Rightarrow> gotype \<Rightarrow> disk \<Rightarrow> persist_error + goval" where
  "Load fl p i t d = load_file fl p i (unmarshal t) d"

definition Exists :: "Persister \<Rightarrow> string \<Rightarrow> disk \<Rightarrow> bool" where
  "Exists p i d \<longleftrightarrow> mget d (filePath p i) \<noteq> None"

definition AppendJSON :: "fault \<Rightarrow> Persister \<Rightarrow> string \<Rightarrow> gotype \<Rightarrow> goval \<Rightarrow> disk \<Rightarrow> persist_error option \<times> disk" where
  "AppendJSON fl p i t entry d = (case marshal t entry of
     None \<Rightarrow> (Some (MarshalFailed i), d)
   | Some j \<Rightarrow>
       (let path = (basePath p, i @ ''.jsonl'')
        in if fl = OpenFault then (Some (OpenFailed i), d)
           else (case fl of
             WriteFault _ \<Rightarrow> (Some (WriteFailed i), mput path Raw d)
           | _ \<Rightarrow> (None, mput path (case mget d path of
                None \<Rightarrow> Lines [j] | Some (Lines js) \<Rightarrow> Lines (js @ [j]) | Some _ \<Rightarrow> Raw) d))))"

definition Delete :: "Persister \<Rightarrow> string \<Rightarrow> disk \<Rightarrow> bool \<times> disk" where
  "Delete p i d = (if Exists p i d then (True, mdelete (filePath p i) d) else (False, d))"

definition ListIDs :: "fault \<Rightarrow> Persister \<Rightarrow> disk \<Rightarrow> persist_error + string list" where
  "ListIDs fl p d = (if fl = ReadFault then Inl ReadDirFailed
     else Inr (map trimExt (filter (\<lambda>n. Ext n = ''.json'')
       (sort (map snd (filter (\<lambda>k. fst k = basePath p) (keys d)))))))"

section \<open>Lemmas\<close>

lemma Ext_suffix: "CHR ''.'' \<notin> set ext \<Longrightarrow> Ext (name @ CHR ''.'' # ext) = CHR ''.'' # ext"
proof -
  assume "CHR ''.'' \<notin> set ext"
  then have "takeWhile (\<lambda>c. c \<noteq> CHR ''.'') (rev ext @ CHR ''.'' # rev name) = rev ext"
    by (subst takeWhile_append2) auto
  then show ?thesis by (simp add: Ext_def)
qed

lemma trimExt_json [simp]: "trimExt (i @ ''.json'') = i"
  using Ext_suffix [of "''json''" i] by (simp add: trimExt_def)

lemma Ext_json [simp]: "Ext (i @ ''.json'') = ''.json''"
  using Ext_suffix [of "''json''" i] by simp

lemma Ext_trimExt: "Ext n = ''.json'' \<Longrightarrow> n = trimExt n @ ''.json''"
proof -
  assume e: "Ext n = ''.json''"
  then have dot: "CHR ''.'' \<in> set (rev n)" by (auto simp: Ext_def split: if_splits)
  then obtain ys zs where s: "rev n = ys @ CHR ''.'' # zs" "CHR ''.'' \<notin> set ys" by (meson split_list_first)
  then have "n = rev zs @ CHR ''.'' # rev ys" by (metis rev.simps(2) rev_append rev_rev_ident append.assoc append_Cons append_Nil)
  moreover from this s(2) e have "CHR ''.'' # rev ys = ''.json''" using Ext_suffix [of "rev ys" "rev zs"] by simp
  ultimately have "n = rev zs @ ''.json''" by simp
  then show ?thesis by simp
qed

lemma tmp_path_ne: "(basePath p, (i @ ''.json'') @ ''.tmp'') \<noteq> filePath p j"
proof
  assume "(basePath p, (i @ ''.json'') @ ''.tmp'') = filePath p j"
  then have "last ((i @ ''.json'') @ ''.tmp'') = last (j @ ''.json'')" by (simp add: filePath_def)
  then show False by simp
qed

lemma filePath_inj: "filePath p i = filePath p j \<Longrightarrow> i = j"
  by (simp add: filePath_def)

lemma save_file_files:
  "mget (snd (save_file fl p i m d)) (filePath p j) =
    (if j = i \<and> fst (save_file fl p i m d) = None then map_option Doc m else mget d (filePath p j))"
  using tmp_path_ne [of p i j] tmp_path_ne [of p i i] filePath_inj [of p i j]
  by (auto simp: save_file_def WriteFile_def Let_def filePath_def split: option.splits fault.splits)

lemma save_file_error: "fst (save_file fl p i m d) = None \<longleftrightarrow> m \<noteq> None \<and> (\<forall>f. fl \<noteq> WriteFault f) \<and> fl \<noteq> RenameFault"
  by (auto simp: save_file_def WriteFile_def Let_def split: option.splits fault.splits)

lemma save_file_None: "save_file fl p i None d = (Some (MarshalFailed i), d)"
  by (simp add: save_file_def)

lemma Save_files:
  "mget (snd (Save fl p i t v d)) (filePath p j) =
    (if j = i \<and> fst (Save fl p i t v d) = None then map_option Doc (marshal t v) else mget d (filePath p j))"
  by (simp add: Save_def save_file_files)

section \<open>Properties\<close>

text \<open>
  Saving is atomic. Whatever call fails, and whatever a failed write leaves on disk, afterwards every
  saved state reads as before, except that a save that reports success has replaced the state of its own ID by the
  complete new document. A save reports an error exactly when the state cannot be marshalled or a call
  failed.
\<close>

theorem Save_atomic:
  "(\<forall>j. mget (snd (Save fl p i t v d)) (filePath p j) =
      (if j = i \<and> fst (Save fl p i t v d) = None then map_option Doc (marshal t v) else mget d (filePath p j))) \<and>
   (fst (Save fl p i t v d) = None \<longleftrightarrow> marshal t v \<noteq> None \<and> (\<forall>f. fl \<noteq> WriteFault f) \<and> fl \<noteq> RenameFault)"
  by (simp add: Save_def save_file_files save_file_error)

text \<open>
  What is saved is what is loaded. A state of a struct type whose numbers JSON can represent is saved
  without error and loaded back equal, in any later state of the disk that other IDs were saved into; before
  the first save of an ID loading reports that there is no saved state.
\<close>

theorem Save_Load_roundtrip:
  assumes "wf_type t" "typed t v" "j \<noteq> i"
  shows "fst (Save NoFault p i t v d) = None \<and>
    Load NoFault p i t (snd (Save fl p j t' v' (snd (Save NoFault p i t v d)))) = Inr v \<and>
    Load NoFault p i t [] = Inl (NoSavedState i)"
proof -
  obtain k where k: "marshal t v = Some k" "unmarshal t k = Some v"
    using unmarshal_marshal_all(1) [OF assms(1,2)] by blast
  then have ok: "fst (Save NoFault p i t v d) = None" by (simp add: Save_def save_file_error)
  then have "mget (snd (Save fl p j t' v' (snd (Save NoFault p i t v d)))) (filePath p i) = Some (Doc k)"
    using k assms(3) by (simp add: Save_files)
  with k ok show ?thesis by (simp add: Load_def load_file_def)
qed

theorem Save_Load_roundtrip_witness:
  "let t = TStruct [(''weights'', TSlice TFloat), (''round_id'', TInt)]; v = VStruct [VSlice (Some [VFloat (FNum 1)]), VInt 3];
     d = snd (Save NoFault \<lparr>basePath = ''/data''\<rparr> ''sensor-1'' t v [])
   in Load NoFault \<lparr>basePath = ''/data''\<rparr> ''sensor-1'' t (snd (Save RenameFault \<lparr>basePath = ''/data''\<rparr> ''logger'' TInt (VInt 1) d)) = Inr v"
proof -
  let ?t = "TStruct [(''weights'', TSlice TFloat), (''round_id'', TInt)]" and ?v = "VStruct [VSlice (Some [VFloat (FNum 1)]), VInt 3]"
  have "wf_type ?t" "typed ?t ?v" by (simp_all add: fold_name_def upper_def finite_f64_def in_int64_def)
  then show ?thesis
    using Save_Load_roundtrip [of ?t ?v "''logger''" "''sensor-1''" "\<lparr>basePath = ''/data''\<rparr>" "[]" RenameFault TInt "VInt 1"]
    by (simp add: Let_def)
qed

text \<open>
  The list of saved states is exactly the IDs for which a saved state exists; temporary files and
  metric logs are not in it.
\<close>

theorem List_exact:
  "\<exists>ids. ListIDs NoFault p d = Inr ids \<and> (\<forall>i. i \<in> set ids \<longleftrightarrow> Exists p i d)"
proof -
  have "i \<in> set (map trimExt (filter (\<lambda>n. Ext n = ''.json'') (sort (map snd (filter (\<lambda>k. fst k = basePath p) (keys d))))))
      \<longleftrightarrow> filePath p i \<in> fst ` set d" (is "?l \<longleftrightarrow> ?r") for i
  proof
    assume ?l
    then obtain k where k: "k \<in> fst ` set d" "fst k = basePath p" "Ext (snd k) = ''.json''" "i = trimExt (snd k)" by auto
    then have "k = filePath p i" using Ext_trimExt [OF k(3)] by (simp add: filePath_def prod_eq_iff)
    with k(1) show ?r by simp
  next
    assume r: ?r
    then have "i @ ''.json'' \<in> set (filter (\<lambda>n. Ext n = ''.json'') (sort (map snd (filter (\<lambda>k. fst k = basePath p) (keys d)))))"
      by (force simp: filePath_def)
    then show ?l by (metis (no_types, lifting) image_eqI list.set_map trimExt_json)
  qed
  then show ?thesis by (simp add: ListIDs_def Exists_def mget_eq_None_iff)
qed

end
