(* ===== verification/Strategy.thy ===== *)
theory Strategy
  imports GoFloat Actor
begin

text \<open>
  Restart strategies and the failure tracker (\<^verbatim>\<open>actor-framework/supervision/strategy.go\<close>).

  Instants and durations are nanoseconds. The strategy interface is a datatype with one constructor
  per implementation. The delay of the exponential backoff is computed in \<^verbatim>\<open>float64\<close> and converted
  back to a 64-bit integer, exactly as in the code, so that both the intended doubling and the
  overflow of the conversion are visible.
\<close>

datatype RestartAction = ActionRestart | ActionEscalate | ActionStop

record RestartDecision =
  Action :: RestartAction
  Delay :: int

definition Second :: int where
  "Second = 1000000000"

datatype RestartStrategy =
    OneForOne (MaxRetries: int) (Within: int)
  | ExponentialBackoff (InitialDelay: int) (MaxDelay: int) (Factor: f64)
  | Escalation (EscMaxRetries: int) (EscWithin: int)

text \<open>The counting loop that \<^verbatim>\<open>OneForOne\<close> and \<^verbatim>\<open>Escalation\<close> share: failures after the cutoff.\<close>

fun count_after :: "int \<Rightarrow> int list \<Rightarrow> int" where
  "count_after cutoff [] = 0"
| "count_after cutoff (f # fs) = (if f > cutoff then 1 else 0) + count_after cutoff fs"

definition OneForOne_OnFailure :: "go_env \<Rightarrow> int \<Rightarrow> int \<Rightarrow> int list \<Rightarrow> RestartDecision" where
  "OneForOne_OnFailure e maxRetries win0 failures =
    (if maxRetries \<le> 0 then \<lparr>Action = ActionRestart, Delay = 0\<rparr>
     else let win = (if win0 \<le> 0 then 10 * Second else win0);
              cutoff = now e - win;
              count = count_after cutoff failures
       in if count > maxRetries then \<lparr>Action = ActionEscalate, Delay = 0\<rparr>
          else \<lparr>Action = ActionRestart, Delay = 0\<rparr>)"

definition ExponentialBackoff_OnFailure :: "int \<Rightarrow> int \<Rightarrow> f64 \<Rightarrow> int list \<Rightarrow> RestartDecision" where
  "ExponentialBackoff_OnFailure initialDelay maxDelay factor0 failures =
    (let initial = (if initialDelay \<le> 0 then Second else initialDelay);
         maxD = (if maxDelay \<le> 0 then 30 * Second else maxDelay);
         factor = (if factor0 \<le> 0 then FNum 2 else factor0);
         delay = to_int64 (of_goint initial * Pow factor (int (length failures) - 1));
         delay = (if delay > maxD then maxD else delay)
     in \<lparr>Action = ActionRestart, Delay = delay\<rparr>)"

definition Escalation_OnFailure :: "go_env \<Rightarrow> int \<Rightarrow> int \<Rightarrow> int list \<Rightarrow> RestartDecision" where
  "Escalation_OnFailure e maxRetries win0 failures =
    (if maxRetries \<le> 0 then \<lparr>Action = ActionEscalate, Delay = 0\<rparr>
     else let win = (if win0 \<le> 0 then 10 * Second else win0);
              cutoff = now e - win;
              count = count_after cutoff failures
       in if count > maxRetries then \<lparr>Action = ActionStop, Delay = 0\<rparr>
          else \<lparr>Action = ActionEscalate, Delay = 0\<rparr>)"

text \<open>The dynamic dispatch of \<^verbatim>\<open>Strategy.OnFailure\<close>.\<close>

fun OnFailure :: "go_env \<Rightarrow> RestartStrategy \<Rightarrow> int list \<Rightarrow> RestartDecision" where
  "OnFailure e (OneForOne r w) failures = OneForOne_OnFailure e r w failures"
| "OnFailure e (ExponentialBackoff i m f) failures = ExponentialBackoff_OnFailure i m f failures"
| "OnFailure e (Escalation r w) failures = Escalation_OnFailure e r w failures"

section \<open>The failure tracker\<close>

type_synonym FailureTracker = "(ActorID, int list) gomap"

definition NewFailureTracker :: FailureTracker where
  "NewFailureTracker = []"

definition recorded :: "FailureTracker \<Rightarrow> ActorID \<Rightarrow> int list" where
  "recorded t i = (case mget t i of None \<Rightarrow> [] | Some fs \<Rightarrow> fs)"

definition Record :: "go_env \<Rightarrow> ActorID \<Rightarrow> int \<Rightarrow> FailureTracker \<Rightarrow> int list \<times> FailureTracker" where
  "Record e i maxAge t =
    (let t1 = mput i (recorded t i @ [now e]) t;
         cutoff = now e - maxAge;
         recent = filter (\<lambda>f. f > cutoff) (recorded t1 i)
     in (recent, mput i recent t1))"

definition Reset :: "ActorID \<Rightarrow> FailureTracker \<Rightarrow> FailureTracker" where
  "Reset i t = mdelete i t"

text \<open>A history of failures of one actor, recorded one after another.\<close>

fun record_all :: "ActorID \<Rightarrow> int \<Rightarrow> go_env list \<Rightarrow> FailureTracker \<Rightarrow> FailureTracker" where
  "record_all i maxAge [] t = t"
| "record_all i maxAge (e # es) t = record_all i maxAge es (snd (Record e i maxAge t))"

section \<open>Lemmas\<close>

lemma count_after_filter: "count_after c fs = int (length (filter (\<lambda>f. f > c) fs))"
  by (induction fs) auto

lemma recorded_mput [simp]: "recorded (mput i fs t) j = (if j = i then fs else recorded t j)"
  by (simp add: recorded_def)

lemma recorded_Reset [simp]: "recorded (Reset i t) j = (if j = i then [] else recorded t j)"
  by (simp add: recorded_def Reset_def)

lemma recorded_NewFailureTracker [simp]: "recorded NewFailureTracker j = []"
  by (simp add: recorded_def NewFailureTracker_def)

lemma Record_eq:
  "fst (Record e i maxAge t) = filter (\<lambda>f. f > now e - maxAge) (recorded t i @ [now e])"
  "recorded (snd (Record e i maxAge t)) j = (if j = i then fst (Record e i maxAge t) else recorded t j)"
  by (simp_all add: Record_def Let_def)

lemma record_all_snoc: "record_all i m (es @ [e]) t = snd (Record e i m (record_all i m es t))"
  by (induction es arbitrary: t) auto

text \<open>Pruning on the way loses nothing that a later, non-decreasing clock still has in its window.\<close>

lemma record_all_window:
  assumes "sorted (map now es)" "es \<noteq> []"
  shows "recorded (record_all i m es t) i
    = filter (\<lambda>f. f > now (last es) - m) (recorded t i @ map now es)"
  using assms
proof (induction es rule: rev_induct)
  case (snoc e es)
  show ?case
  proof (cases "es = []")
    case True
    then show ?thesis by (simp add: Record_eq)
  next
    case False
    with snoc have IH: "recorded (record_all i m es t) i = filter (\<lambda>f. f > now (last es) - m) (recorded t i @ map now es)"
      and le: "now (last es) \<le> now e" by (auto simp: sorted_append)
    have f: "filter (\<lambda>f. f > now e - m) (filter (\<lambda>f. f > now (last es) - m) fs) = filter (\<lambda>f. f > now e - m) fs" for fs
      unfolding filter_filter using le by (intro filter_cong) auto
    show ?thesis by (simp add: record_all_snoc Record_eq IH f del: filter_filter)
  qed
qed simp

lemma to_int64_of_int: "n \<noteq> 0 \<Longrightarrow> to_int64 (FNum (of_int n)) = (if in_int64 n then n else - (2 ^ 63))"
  by (simp add: trunc_rat_def)

section \<open>Properties\<close>

text \<open>
  Over any history of failures of an actor with a non-decreasing clock, the list that \<open>Record\<close>
  returns is exactly the failures of the last \<open>maxAge\<close> (the new one included), oldest first: the
  in-place pruning never loses a failure that is still in the window and never keeps an older one.
  The failures of other actors are untouched.
\<close>

theorem Record_exact_window:
  assumes "sorted (map now (es @ [e]))"
  shows "fst (Record e i maxAge (record_all i maxAge es NewFailureTracker))
      = filter (\<lambda>f. f > now e - maxAge) (map now (es @ [e])) \<and>
    (\<forall>t j. j \<noteq> i \<longrightarrow> recorded (snd (Record e i maxAge t)) j = recorded t j)"
proof -
  have "fst (Record e i maxAge (record_all i maxAge es NewFailureTracker))
      = recorded (record_all i maxAge (es @ [e]) NewFailureTracker) i"
    by (simp add: record_all_snoc Record_eq)
  also have "\<dots> = filter (\<lambda>f. f > now e - maxAge) (map now (es @ [e]))"
    using record_all_window [OF assms, of i maxAge NewFailureTracker] by simp
  finally show ?thesis by (simp add: Record_eq(2))
qed

theorem Record_exact_window_witness:
  "fst (Record \<lparr>now = 40, iter = (\<lambda>ks. ks)\<rparr> ''s'' 30
      (record_all ''s'' 30 [\<lparr>now = 5, iter = (\<lambda>ks. ks)\<rparr>, \<lparr>now = 20, iter = (\<lambda>ks. ks)\<rparr>] NewFailureTracker)) = [20, 40]"
  using Record_exact_window [of "[\<lparr>now = 5, iter = (\<lambda>ks. ks)\<rparr>, \<lparr>now = 20, iter = (\<lambda>ks. ks)\<rparr>]"
      "\<lparr>now = 40, iter = (\<lambda>ks. ks)\<rparr>" "''s''" 30]
  by simp

text \<open>
  The decision of the windowed strategies. With a positive retry limit, \<open>OneForOne\<close> escalates and
  \<open>Escalation\<close> stops exactly when more failures than the limit lie inside the window (10 seconds
  when the configured window is not positive), and otherwise they restart and escalate; without a positive
  limit they always restart and always escalate. None of the decisions carries a delay.
\<close>

theorem windowed_strategies:
  "let w = (if win \<le> 0 then 10 * Second else win);
       exceeded = (0 < maxRetries \<and> maxRetries < int (length (filter (\<lambda>f. now e - w < f) failures)))
   in OnFailure e (OneForOne maxRetries win) failures
        = \<lparr>Action = (if exceeded then ActionEscalate else ActionRestart), Delay = 0\<rparr> \<and>
      OnFailure e (Escalation maxRetries win) failures
        = \<lparr>Action = (if exceeded then ActionStop else ActionEscalate), Delay = 0\<rparr>"
  by (simp add: OneForOne_OnFailure_def Escalation_OnFailure_def count_after_filter Let_def)

text \<open>
  C39: with factor 2 (or a factor that is not positive, which means 2) the backoff doubles exactly: as
  long as the doubled delay fits in 64 bits, the decision after \<open>n\<close> failures is the initial delay times
  two to the power \<open>n - 1\<close>, capped at the maximum. Beyond that the conversion from \<^verbatim>\<open>float64\<close>
  overflows to the least 64-bit integer, which is below the cap, so the delay is negative instead
  of the maximum.
\<close>

theorem ExponentialBackoff_doubling:
  assumes "0 < initial" "initial < 2 ^ 53" "0 < maxD" "factor = FNum 2 \<or> factor \<le> 0"
    and "1 \<le> length failures" "length failures \<le> 900"
  shows "OnFailure e (ExponentialBackoff initial maxD factor) failures
    = \<lparr>Action = ActionRestart,
       Delay = (let d = initial * 2 ^ (length failures - 1) in if d < 2 ^ 63 then min d maxD else - (2 ^ 63))\<rparr>"
proof -
  define k where "k = length failures - 1"
  have k: "int (length failures) - 1 = int k" "k \<le> 899" using assms(5,6) by (auto simp: k_def)
  have "\<not> FNum 2 \<le> (0::f64)" by (simp add: f64_ops)
  then have f: "(if factor \<le> 0 then FNum 2 else factor) = FNum 2" using assms(4) by auto
  have "of_goint initial * FNum (2 powi int k) = rnd False (of_int initial * 2 powi int k)"
    using assms(1,2) by (simp add: of_goint_exact f64_ops not_less)
  also have "\<dots> = FNum (of_int initial * 2 powi int k)" using assms(1,2) k by (intro rnd_exact) auto
  also have "\<dots> = FNum (of_int (initial * 2 ^ k))" by simp
  finally have m: "of_goint initial * Pow (FNum 2) (int k) = FNum (of_int (initial * 2 ^ k))"
    using k by (simp add: Pow_two)
  have pos: "0 < initial * 2 ^ k" using assms(1) by simp
  have delay: "to_int64 (of_goint initial * Pow (FNum 2) (int k)) = (if initial * 2 ^ k < 2 ^ 63 then initial * 2 ^ k else - (2 ^ 63))"
    unfolding m using pos by (subst to_int64_of_int) (auto simp: in_int64_def)
  have init: "(if initial \<le> 0 then Second else initial) = initial" "(if maxD \<le> 0 then 30 * Second else maxD) = maxD"
    using assms(1,3) by auto
  show ?thesis
    unfolding OnFailure.simps ExponentialBackoff_OnFailure_def Let_def f k(1) delay init k_def [symmetric]
    using assms(3) by (cases "initial * 2 ^ k < 2 ^ 63") (auto simp: min_def)
qed

theorem ExponentialBackoff_doubling_witness:
  "OnFailure \<lparr>now = 0, iter = (\<lambda>ks. ks)\<rparr> (ExponentialBackoff Second (30 * Second) (FNum 2)) [1, 2, 3]
     = \<lparr>Action = ActionRestart, Delay = 4 * Second\<rparr> \<and>
   OnFailure \<lparr>now = 0, iter = (\<lambda>ks. ks)\<rparr> (ExponentialBackoff Second (30 * Second) (FNum 2)) [1, 2, 3, 4, 5, 6]
     = \<lparr>Action = ActionRestart, Delay = 30 * Second\<rparr>"
  using ExponentialBackoff_doubling [of Second "30 * Second" "FNum 2" "[1, 2, 3]" "\<lparr>now = 0, iter = (\<lambda>ks. ks)\<rparr>"]
    ExponentialBackoff_doubling [of Second "30 * Second" "FNum 2" "[1, 2, 3, 4, 5, 6]" "\<lparr>now = 0, iter = (\<lambda>ks. ks)\<rparr>"]
  by (simp add: Second_def)

end
