(* ===== verification/Supervisor.thy ===== *)
theory Supervisor
  imports Strategy Messages
begin

text \<open>
  The supervisor actor (\<^verbatim>\<open>actor-framework/supervision/supervisor.go\<close>).

  The handlers act on the state of the supervisor and on the actor system it runs in, whose types of
  actors, behaviours and world are parameters. A factory is a value of the parameter type \<open>'f\<close> and
  \<open>build\<close> runs it. Background goroutines (the heartbeat ticker, a delayed restart) are returned as values
  for the surrounding system to schedule. The \<^verbatim>\<open>system\<close> field is set by \<^verbatim>\<open>OnPreStart\<close> before any
  message is handled and never changes, so it is the system the handler is applied to.
\<close>

abbreviation MsgRegisterActor :: MessageType where "MsgRegisterActor \<equiv> ''supervision.register''"
abbreviation MsgUnregisterActor :: MessageType where "MsgUnregisterActor \<equiv> ''supervision.unregister''"
abbreviation MsgDelayedRestart :: MessageType where "MsgDelayedRestart \<equiv> ''supervision.delayed_restart''"
abbreviation MsgHeartbeatTick :: MessageType where "MsgHeartbeatTick \<equiv> ''supervision.heartbeat_tick''"

record SupervisionConfig =
  Strategy :: "RestartStrategy option"
  HeartbeatInterval :: int
  LoggerID :: ActorID

record 'f factoryEntry =
  factory :: 'f
  opts :: SpawnOptions

record 'f SupervisorActor =
  supID :: ActorID
  config :: SupervisionConfig
  tracker :: FailureTracker
  factories :: "(ActorID, 'f factoryEntry) gomap"

datatype 'f sup_goroutine = HeartbeatLoop int | DelayedRestart int ActorID "'f factoryEntry"

definition NewSupervisorActor :: "ActorID \<Rightarrow> SupervisionConfig \<Rightarrow> 'f SupervisorActor" where
  "NewSupervisorActor i cfg = \<lparr>supID = i,
     config = (if Strategy cfg = None then cfg\<lparr>Strategy := Some (OneForOne 3 (10 * Second))\<rparr> else cfg),
     tracker = NewFailureTracker, factories = []\<rparr>"

definition sup_OnPreStart :: "'f SupervisorActor \<Rightarrow> 'f sup_goroutine list" where
  "sup_OnPreStart st = (if HeartbeatInterval (config st) > 0 then [HeartbeatLoop (HeartbeatInterval (config st))] else [])"

text \<open>The message that one tick of \<^verbatim>\<open>heartbeatLoop\<close>, or the end of the delay, sends to the supervisor.\<close>

fun goroutine_message :: "'f sup_goroutine \<Rightarrow> 'f payload message" where
  "goroutine_message (HeartbeatLoop _) = mkMessage MsgHeartbeatTick NilAny ''''"
| "goroutine_message (DelayedRestart _ i entry) =
    mkMessage MsgDelayedRestart (Dyn (DelayedRestartPayload i (factory entry) (opts entry))) ''''"

section \<open>Handlers\<close>

definition handleRegister :: "'f payload message \<Rightarrow> 'f SupervisorActor \<Rightarrow> 'f SupervisorActor" where
  "handleRegister msg st = (case Payload msg of
     Dyn (RegisterPayload i f o1) \<Rightarrow> st\<lparr>factories := mput i \<lparr>factory = f, opts = o1\<rparr> (factories st)\<rparr>
   | _ \<Rightarrow> st)"

definition handleUnregister :: "'f payload message \<Rightarrow> 'f SupervisorActor \<Rightarrow> 'f SupervisorActor" where
  "handleUnregister msg st = (case Payload msg of
     Dyn (UnregisterPayload i) \<Rightarrow> st\<lparr>factories := mdelete i (factories st), tracker := Reset i (tracker st)\<rparr>
   | _ \<Rightarrow> st)"

text \<open>The log entry of a restart: a generic map, which the logger's \<open>castPayload\<close> turns into a typed payload.\<close>

definition restart_log :: "ActorID \<Rightarrow> ActorID \<Rightarrow> 'f payload message" where
  "restart_log self i = mkMessage ''smart_home.log_event''
    (Dyn (MapAny [(''Source'', JStr (''supervisor/'' @ self)),
                  (''Event'', JStr (''actor \"'' @ i @ ''\" restarted by supervisor''))])) ''''"

definition doRestart :: "('a, 'b, 'f payload, 'w) actor_ops \<Rightarrow> ('f \<Rightarrow> 'a) \<Rightarrow> go_env \<Rightarrow> ActorID \<Rightarrow> 'f factoryEntry \<Rightarrow>
    'f SupervisorActor \<Rightarrow> ('a, 'b, 'f payload, 'w) sys \<Rightarrow>
    'f SupervisorActor \<times> ('a, 'b, 'f payload, 'w) sys outcome" where
  "doRestart ops build e i entry st s =
    (case RestartActor ops e (build (factory entry)) (opts entry) s of
       (Inr ref, Done s1) \<Rightarrow>
         (let st1 = st\<lparr>factories := mput i entry (factories st), tracker := Reset i (tracker st)\<rparr>
          in if LoggerID (config st1) \<noteq> '''' then
               (case Lookup (LoggerID (config st1)) s1 of
                  Inr r \<Rightarrow> (st1, Tell r (restart_log (supID st1) i) s1)
                | Inl _ \<Rightarrow> (st1, Done s1))
             else (st1, Done s1))
     | (_, r) \<Rightarrow> (st, r))"

definition doEscalate :: "ActorFailedPayload \<Rightarrow> 'f SupervisorActor \<Rightarrow> ('a, 'b, 'f payload, 'w) sys \<Rightarrow>
    ('a, 'b, 'f payload, 'w) sys outcome" where
  "doEscalate payload st s = (case mget (factories st) (failedID payload) of
     None \<Rightarrow> Done s
   | Some entry \<Rightarrow>
       (let supervisorID = SupervisorID (opts entry)
        in if supervisorID = '''' then Done s
           else case Lookup supervisorID s of
             Inl _ \<Rightarrow> Done s
           | Inr parentRef \<Rightarrow> Tell parentRef (mkMessage MsgActorFailed (ActorFailed payload) '''') s))"

definition scheduleDelayedRestart :: "ActorID \<Rightarrow> 'f factoryEntry \<Rightarrow> int \<Rightarrow> 'f sup_goroutine" where
  "scheduleDelayedRestart i entry delay = DelayedRestart delay i entry"

definition handleFailure :: "('a, 'b, 'f payload, 'w) actor_ops \<Rightarrow> ('f \<Rightarrow> 'a) \<Rightarrow> go_env \<Rightarrow> 'f payload message \<Rightarrow>
    'f SupervisorActor \<Rightarrow> ('a, 'b, 'f payload, 'w) sys \<Rightarrow>
    'f SupervisorActor \<times> 'f sup_goroutine list \<times> ('a, 'b, 'f payload, 'w) sys outcome" where
  "handleFailure ops build e msg st s = (case Payload msg of
     ActorFailed payload \<Rightarrow>
       (case mget (factories st) (failedID payload) of
          None \<Rightarrow> (st, [], Done s)
        | Some entry \<Rightarrow>
            (let i = failedID payload;
                 (failures, t) = Record e i (30 * Second) (tracker st);
                 st1 = st\<lparr>tracker := t\<rparr>;
                 payload1 = payload\<lparr>RestartCount := int (length failures)\<rparr>;
                 decision = OnFailure e (the (Strategy (config st1))) failures
             in case Action decision of
                  ActionRestart \<Rightarrow>
                    if Delay decision > 0 then (st1, [scheduleDelayedRestart i entry (Delay decision)], Done s)
                    else (case doRestart ops build e i entry st1 s of (st2, r) \<Rightarrow> (st2, [], r))
                | ActionEscalate \<Rightarrow> (st1, [], doEscalate payload1 st1 s)
                | ActionStop \<Rightarrow> (st1\<lparr>factories := mdelete i (factories st1)\<rparr>, [], Done s)))
   | _ \<Rightarrow> (st, [], Done s))"

definition handleDelayedRestart :: "('a, 'b, 'f payload, 'w) actor_ops \<Rightarrow> ('f \<Rightarrow> 'a) \<Rightarrow> go_env \<Rightarrow> 'f payload message \<Rightarrow>
    'f SupervisorActor \<Rightarrow> ('a, 'b, 'f payload, 'w) sys \<Rightarrow> 'f SupervisorActor \<times> ('a, 'b, 'f payload, 'w) sys outcome" where
  "handleDelayedRestart ops build e msg st s = (case Payload msg of
     Dyn (DelayedRestartPayload i f o1) \<Rightarrow> doRestart ops build e i \<lparr>factory = f, opts = o1\<rparr> st s
   | _ \<Rightarrow> (st, Done s))"

text \<open>The second loop of \<^verbatim>\<open>handleHeartbeatTick\<close>.\<close>

fun status_checks :: "ActorID \<Rightarrow> ActorID list \<Rightarrow> ('a, 'b, 'f payload, 'w) sys \<Rightarrow> ('a, 'b, 'f payload, 'w) sys outcome" where
  "status_checks self [] s = Done s"
| "status_checks self (i # is) s = (case Lookup i s of
     Inl _ \<Rightarrow> status_checks self is s
   | Inr ref \<Rightarrow> obind (Tell ref (mkMessage MsgStatusCheck NilAny self) s) (status_checks self is))"

definition handleHeartbeatTick :: "go_env \<Rightarrow> 'f SupervisorActor \<Rightarrow> ('a, 'b, 'f payload, 'w) sys \<Rightarrow>
    ('a, 'b, 'f payload, 'w) sys outcome" where
  "handleHeartbeatTick e st s = status_checks (supID st) (iter e (keys (factories st))) s"

definition sup_Receive :: "('a, 'b, 'f payload, 'w) actor_ops \<Rightarrow> ('f \<Rightarrow> 'a) \<Rightarrow> go_env \<Rightarrow> 'f payload message \<Rightarrow>
    'f SupervisorActor \<Rightarrow> ('a, 'b, 'f payload, 'w) sys \<Rightarrow>
    'f SupervisorActor \<times> 'f sup_goroutine list \<times> ('a, 'b, 'f payload, 'w) sys outcome" where
  "sup_Receive ops build e msg st s =
    (if MsgType msg = MsgRegisterActor then (handleRegister msg st, [], Done s)
     else if MsgType msg = MsgUnregisterActor then (handleUnregister msg st, [], Done s)
     else if MsgType msg = MsgActorFailed then handleFailure ops build e msg st s
     else if MsgType msg = MsgDelayedRestart then
       (case handleDelayedRestart ops build e msg st s of (st1, r) \<Rightarrow> (st1, [], r))
     else if MsgType msg = MsgHeartbeatTick then (st, [], handleHeartbeatTick e st s)
     else (st, [], Done s))"

text \<open>The package functions \<^verbatim>\<open>Register\<close> and \<^verbatim>\<open>Unregister\<close>.\<close>

definition Register :: "nat \<Rightarrow> ActorID \<Rightarrow> 'f \<Rightarrow> SpawnOptions \<Rightarrow> ('a, 'b, 'f payload, 'w) sys \<Rightarrow> ('a, 'b, 'f payload, 'w) sys outcome" where
  "Register ref i f o1 s = Tell ref (mkMessage MsgRegisterActor (Dyn (RegisterPayload i f o1)) '''') s"

definition Unregister :: "nat \<Rightarrow> ActorID \<Rightarrow> ('a, 'b, 'f payload, 'w) sys \<Rightarrow> ('a, 'b, 'f payload, 'w) sys outcome" where
  "Unregister ref i s = Tell ref (mkMessage MsgUnregisterActor (Dyn (UnregisterPayload i)) '''') s"

section \<open>Lemmas\<close>

text \<open>A new mailbox has room, whatever its kind.\<close>

lemma Enqueue_new_entry:
  assumes "0 \<le> MailboxCapacity o1"
  shows "\<exists>mb. Enqueue (mbox (new_entry act o1 :: ('a, 'b, 'u) entry)) m = Sent mb \<and> contents mb = [m] \<and> mailbox_inv mb"
proof -
  have "mailbox_inv (mbox (new_entry act o1 :: ('a, 'b, 'u) entry))" "contents (mbox (new_entry act o1 :: ('a, 'b, 'u) entry)) = []"
    by (simp_all add: new_entry_def contents_def NewMailbox_def NewUnboundedMailbox_def mailbox_inv_def)
  then show ?thesis using assms
    by (auto simp: Enqueue_eq Let_def new_entry_def NewMailbox_def NewUnboundedMailbox_def contents_def DefaultMailboxSize_def mailbox_inv_def)
qed

lemma doRestart_safe: "leaves (snd (doRestart ops build e i entry st s)) s' \<Longrightarrow> safe_call ops s s'"
proof -
  assume l: "leaves (snd (doRestart ops build e i entry st s)) s'"
  obtain r out where r: "RestartActor ops e (build (factory entry)) (opts entry) s = (r, out)" by fastforce
  then have safe: "leaves out s1 \<Longrightarrow> safe_call ops s s1" for s1
    using RestartActor_safe [of ops e "build (factory entry)" "opts entry" s s1] by simp
  show ?thesis
  proof (cases "\<exists>ref s1. r = Inr ref \<and> out = Done s1")
    case True
    then obtain ref s1 where s1: "r = Inr ref" "out = Done s1" by blast
    with safe have "safe_call ops s s1" by simp
    moreover have "safe_call ops s1 s'"
      using l r s1 by (auto simp: doRestart_def Let_def split: if_splits sum.splits intro: Tell_safe)
    ultimately show ?thesis by (rule safe_call_trans)
  next
    case False
    then have "snd (doRestart ops build e i entry st s) = out"
      using r by (auto simp: doRestart_def split: sum.splits outcome.splits)
    with l safe show ?thesis by simp
  qed
qed

lemma doEscalate_safe: "leaves (doEscalate payload st s) s' \<Longrightarrow> safe_call ops s s'"
  by (auto simp: doEscalate_def Let_def split: option.splits if_splits sum.splits intro: Tell_safe)

lemma status_checks_safe: "leaves (status_checks self is s) s' \<Longrightarrow> safe_call ops s s'"
proof (induction self "is" s rule: status_checks.induct)
  case (2 self i "is" s)
  show ?case
  proof (cases "Lookup i s")
    case (Inr ref)
    with 2 show ?thesis
      by (cases "Tell ref (mkMessage MsgStatusCheck NilAny self) s")
        (auto intro: safe_call_trans Tell_Done Tell_Panicked)
  qed (use 2 in simp)
qed simp

lemma sup_Receive_safe:
  assumes "leaves (snd (snd (sup_Receive ops build e msg st s))) s'"
  shows "safe_call ops s s'"
proof -
  have f: "safe_call ops s s'" if "leaves (snd (snd (handleFailure ops build e msg st s))) s'"
    using that by (auto simp: handleFailure_def Let_def split: any.splits option.splits prod.splits RestartAction.splits
        if_splits dest: doRestart_safe [where ops = ops] doEscalate_safe [where ops = ops])
      (metis doRestart_safe snd_conv)+
  have d: "safe_call ops s s'" if "leaves (snd (handleDelayedRestart ops build e msg st s)) s'"
    using that by (auto simp: handleDelayedRestart_def split: any.splits payload.splits intro: doRestart_safe)
  show ?thesis
    using assms f d by (auto simp: sup_Receive_def handleHeartbeatTick_def split: if_splits prod.splits intro: status_checks_safe)
qed

lemma sup_Receive_supID [simp]: "supID (fst (sup_Receive ops build e msg st s)) = supID st"
  by (auto simp: sup_Receive_def handleRegister_def handleUnregister_def handleFailure_def handleDelayedRestart_def doRestart_def Let_def
      split: any.splits payload.splits option.splits prod.splits RestartAction.splits sum.splits outcome.splits)

text \<open>Restarting an actor that is gone from the registry, in a running system, succeeds.\<close>

lemma RestartActor_gone:
  fixes s :: "('a, 'b, 'u, 'w) sys"
  assumes "sys_inv ops s" "\<not> shut s" "mget (actors s) (ID ops act) = None" "0 \<le> MailboxCapacity o1"
  obtains s1 mb where "RestartActor ops e act o1 s = (Inr (length (heap s)), Done s1)"
    "heap s1 = heap s @ [(new_entry act o1)\<lparr>mbox := mb\<rparr>]" "contents mb = [newMessage e MsgRestarting NilAny '''']"
    "actors s1 = mput (ID ops act) (length (heap s)) (actors s)" "shut s1 = shut s" "sys_inv ops s1" "world s1 = world s"
    "Enqueue (mbox (new_entry act o1 :: ('a, 'b, 'u) entry)) (newMessage e MsgRestarting NilAny '''') = Sent mb"
proof -
  let ?n = "length (heap s)" and ?m = "newMessage e MsgRestarting NilAny '''' :: 'u message"
  let ?s = "s\<lparr>heap := heap s @ [new_entry act o1], actors := mput (ID ops act) ?n (actors s), wg := Suc (wg s)\<rparr>"
  obtain mb where mb: "Enqueue (mbox (new_entry act o1 :: ('a, 'b, 'u) entry)) ?m = Sent mb" "contents mb = [?m]"
    using Enqueue_new_entry [OF assms(4), of act ?m] by (elim exE conjE)
  let ?s1 = "upd_ent ?n (\<lambda>en. en\<lparr>mbox := mb\<rparr>) ?s"
  have sp: "Spawn ops act o1 s = (Inr ?n, ?s)" using assms by (simp add: Spawn_def Let_def)
  have t: "Tell ?n ?m ?s = Done ?s1" by (simp add: Tell_def mb(1))
  have r: "RestartActor ops e act o1 s = (Inr ?n, Done ?s1)"
    by (simp add: RestartActor_def StopActor_def Lookup_def assms(3) sp t)
  moreover have "sys_inv ops ?s1"
    using safe_call_inv [OF RestartActor_safe assms(1), of e act o1 ?s1] r by simp
  moreover have "heap ?s1 = heap s @ [(new_entry act o1)\<lparr>mbox := mb\<rparr>]" by (simp add: upd_ent_def)
  ultimately show ?thesis using that mb by simp
qed

text \<open>What the supervisor does when the strategy decides to restart at once.\<close>

lemma handleFailure_restarts:
  fixes s :: "('a, 'b, 'f payload, 'w) sys"
  assumes "sys_inv ops s" "\<not> shut s" "Payload msg = ActorFailed p" "mget (factories st) (failedID p) = Some entry"
    and "ID ops (build (factory entry)) = failedID p" "mget (actors s) (failedID p) = None"
    and "0 \<le> MailboxCapacity (opts entry)"
    and "OnFailure e (the (Strategy (config st))) (fst (Record e (failedID p) (30 * Second) (tracker st)))
      = \<lparr>Action = ActionRestart, Delay = 0\<rparr>"
  obtains st' s1 mb where "heap s1 = heap s @ [(new_entry (build (factory entry)) (opts entry))\<lparr>mbox := mb\<rparr>]"
    "contents mb = [newMessage e MsgRestarting NilAny '''']" "sys_inv ops s1" "world s1 = world s"
    "actors s1 = mput (failedID p) (length (heap s)) (actors s)"
    "mget (factories st') = mget (factories st)" "recorded (tracker st') (failedID p) = []"
    "handleFailure ops build e msg st s = (st', [],
        case Lookup (LoggerID (config st)) s1 of
          Inr r \<Rightarrow> if LoggerID (config st) \<noteq> '''' then Tell r (restart_log (supID st) (failedID p)) s1 else Done s1
        | Inl _ \<Rightarrow> Done s1)"
    "Enqueue (mbox (new_entry (build (factory entry)) (opts entry) :: ('a, 'b, 'f payload) entry)) (newMessage e MsgRestarting NilAny '''') = Sent mb"
proof -
  let ?i = "failedID p" and ?act = "build (factory entry)"
  have none: "mget (actors s) (ID ops ?act) = None" using assms(5,6) by simp
  obtain s1 mb where r: "RestartActor ops e ?act (opts entry) s = (Inr (length (heap s)), Done s1)"
    and h: "heap s1 = heap s @ [(new_entry ?act (opts entry))\<lparr>mbox := mb\<rparr>]" "contents mb = [newMessage e MsgRestarting NilAny '''']"
      "actors s1 = mput (ID ops ?act) (length (heap s)) (actors s)" "sys_inv ops s1" "world s1 = world s"
      "Enqueue (mbox (new_entry ?act (opts entry) :: ('a, 'b, 'f payload) entry)) (newMessage e MsgRestarting NilAny '''') = Sent mb"
    by (rule RestartActor_gone [OF assms(1,2) none assms(7), of e]) blast
  obtain fs t where rec: "Record e ?i (30 * Second) (tracker st) = (fs, t)" by fastforce
  let ?st = "st\<lparr>factories := mput ?i entry (factories st), tracker := Reset ?i t\<rparr>"
  have "handleFailure ops build e msg st s = (?st, [], case Lookup (LoggerID (config st)) s1 of
          Inr r \<Rightarrow> if LoggerID (config st) \<noteq> '''' then Tell r (restart_log (supID st) ?i) s1 else Done s1
        | Inl _ \<Rightarrow> Done s1)"
    using assms(3,4,8) r rec by (auto simp: handleFailure_def doRestart_def Let_def split: sum.splits)
  moreover have "mget (factories ?st) = mget (factories st)" using assms(4) by (simp add: fun_upd_idem_iff)
  moreover have "recorded (tracker ?st) ?i = []" by simp
  ultimately show ?thesis using that h assms(5) by simp
qed

section \<open>Properties\<close>



text \<open>
  C37: a successful restart clears the record of failures, so the retry limit of \<open>OneForOne\<close> is never
  reached: if nothing is recorded for the actor, every failure is answered by a restart whatever the limit
  and the window, and when the restart succeeds nothing is recorded afterwards either.
\<close>

theorem OneForOne_never_escalates:
  assumes "Strategy (config st) = Some (OneForOne maxRetries win)" "recorded (tracker st) (failedID p) = []"
    and "Payload msg = ActorFailed p" "mget (factories st) (failedID p) = Some entry"
    and "RestartActor ops e (build (factory entry)) (opts entry) s = (Inr ref, Done s1)"
  shows "OnFailure e (the (Strategy (config st))) (fst (Record e (failedID p) (30 * Second) (tracker st)))
      = \<lparr>Action = ActionRestart, Delay = 0\<rparr> \<and>
    recorded (tracker (fst (handleFailure ops build e msg st s))) (failedID p) = [] \<and>
    fst (snd (handleFailure ops build e msg st s)) = []"
proof -
  let ?i = "failedID p"
  have "fst (Record e ?i (30 * Second) (tracker st)) = [now e]" using assms(2) by (simp add: Record_eq Second_def)
  moreover from this obtain t where rec: "Record e ?i (30 * Second) (tracker st) = ([now e], t)" by (metis prod.collapse)
  moreover have "OnFailure e (OneForOne maxRetries win) [now e] = \<lparr>Action = ActionRestart, Delay = 0\<rparr>"
    by (simp add: OneForOne_OnFailure_def Let_def)
  ultimately show ?thesis
    using assms by (auto simp: handleFailure_def doRestart_def Let_def split: sum.splits)
qed

theorem OneForOne_never_escalates_witness:
  "let s = NewActorSystem () :: (ActorID, unit, ActorID payload, unit) sys; e = \<lparr>now = 0, iter = (\<lambda>ks. ks)\<rparr>;
     st = \<lparr>supID = ''supervisor'', config = \<lparr>Strategy = Some (OneForOne 1 Second), HeartbeatInterval = 0, LoggerID = ''''\<rparr>,
       tracker = [], factories = [(''sensor-1'', \<lparr>factory = ''sensor-1'', opts = DefaultSpawnOptions\<rparr>)]\<rparr>;
     msg = mkMessage MsgActorFailed (ActorFailed \<lparr>failedID = ''sensor-1'', ActorType = ''Sensor'', Error = ''panic'', RestartCount = 0\<rparr>) ''''
   in recorded (tracker (fst (handleFailure base_ops (\<lambda>f. f) e msg st s))) ''sensor-1'' = []"
proof -
  let ?s = "NewActorSystem () :: (ActorID, unit, ActorID payload, unit) sys" and ?e = "\<lparr>now = 0, iter = (\<lambda>ks. ks)\<rparr>"
  let ?en = "\<lparr>factory = ''sensor-1'', opts = DefaultSpawnOptions\<rparr>"
  let ?st = "\<lparr>supID = ''supervisor'', config = \<lparr>Strategy = Some (OneForOne 1 Second), HeartbeatInterval = 0, LoggerID = ''''\<rparr>,
       tracker = [], factories = [(''sensor-1'', ?en)]\<rparr>"
  let ?p = "\<lparr>failedID = ''sensor-1'', ActorType = ''Sensor'', Error = ''panic'', RestartCount = 0\<rparr>"
  let ?msg = "mkMessage MsgActorFailed (ActorFailed ?p) '''' :: ActorID payload message"
  obtain s1 where r: "RestartActor base_ops ?e ''sensor-1'' DefaultSpawnOptions ?s = (Inr 0, Done s1)"
    using RestartActor_gone [OF base.NewActorSystem_inv [of "()"], of "''sensor-1''" DefaultSpawnOptions ?e]
    by (auto simp: NewActorSystem_def DefaultSpawnOptions_def)
  show ?thesis
    using OneForOne_never_escalates [of ?st 1 Second ?p ?msg ?en base_ops ?e "\<lambda>f. f" ?s 0 s1] r
    by (simp add: mkMessage_def recorded_def)
qed

text \<open>
  C38: escalation goes to the supervisor that the failed actor is registered with. When the child names the
  escalating supervisor itself, as the actors that the supervisor was told to watch do, the failure message
  comes back to the mailbox of the same supervisor, about the same actor, instead of reaching a parent;
  nothing is restarted or stopped.
\<close>

theorem escalation_returns_to_self:
  assumes "Payload msg = ActorFailed p" "mget (factories st) (failedID p) = Some entry"
    and "SupervisorID (opts entry) = supID st" "supID st \<noteq> ''''" "Lookup (supID st) s = Inr self"
    and "Action (OnFailure e (the (Strategy (config st))) (fst (Record e (failedID p) (30 * Second) (tracker st)))) = ActionEscalate"
  shows "\<exists>st' n. factories st' = factories st \<and> handleFailure ops build e msg st s = (st', [],
    Tell self (mkMessage MsgActorFailed (ActorFailed (p\<lparr>RestartCount := n\<rparr>)) '''') s)"
proof -
  obtain fs t where rec: "Record e (failedID p) (30 * Second) (tracker st) = (fs, t)" by fastforce
  show ?thesis
    using assms rec
    by (intro exI [of _ "st\<lparr>tracker := t\<rparr>"] exI [of _ "int (length fs)"]) (simp add: handleFailure_def doEscalate_def Let_def)
qed

theorem escalation_returns_to_self_witness:
  "let s = snd (Spawn base_ops ''supervisor'' DefaultSpawnOptions (NewActorSystem () :: (ActorID, unit, ActorID payload, unit) sys));
     e = \<lparr>now = 0, iter = (\<lambda>ks. ks)\<rparr>;
     st = \<lparr>supID = ''supervisor'', config = \<lparr>Strategy = Some (Escalation 0 0), HeartbeatInterval = 0, LoggerID = ''''\<rparr>,
       tracker = [], factories = [(''sensor-1'', \<lparr>factory = ''sensor-1'', opts = DefaultSpawnOptions\<lparr>SupervisorID := ''supervisor''\<rparr>\<rparr>)]\<rparr>;
     p = \<lparr>failedID = ''sensor-1'', ActorType = ''Sensor'', Error = ''panic'', RestartCount = 0\<rparr>
   in \<exists>st' n. handleFailure base_ops (\<lambda>f. f) e (mkMessage MsgActorFailed (ActorFailed p) '''') st s = (st', [],
     Tell 0 (mkMessage MsgActorFailed (ActorFailed (p\<lparr>RestartCount := n\<rparr>)) '''') s)"
proof -
  let ?s = "snd (Spawn base_ops ''supervisor'' DefaultSpawnOptions (NewActorSystem () :: (ActorID, unit, ActorID payload, unit) sys))"
  let ?en = "\<lparr>factory = ''sensor-1'', opts = DefaultSpawnOptions\<lparr>SupervisorID := ''supervisor''\<rparr>\<rparr>"
  let ?st = "\<lparr>supID = ''supervisor'', config = \<lparr>Strategy = Some (Escalation 0 0), HeartbeatInterval = 0, LoggerID = ''''\<rparr>,
       tracker = [], factories = [(''sensor-1'', ?en)]\<rparr>"
  let ?p = "\<lparr>failedID = ''sensor-1'', ActorType = ''Sensor'', Error = ''panic'', RestartCount = 0\<rparr>"
  let ?e = "\<lparr>now = 0, iter = (\<lambda>ks. ks)\<rparr>" and ?msg = "mkMessage MsgActorFailed (ActorFailed ?p) '''' :: ActorID payload message"
  have l: "Lookup ''supervisor'' ?s = Inr 0"
    by (simp add: Spawn_def NewActorSystem_def base_ops_def DefaultSpawnOptions_def Lookup_def)
  have "\<exists>st' n. factories st' = factories ?st \<and> handleFailure base_ops (\<lambda>f. f) ?e ?msg ?st ?s = (st', [],
      Tell 0 (mkMessage MsgActorFailed (ActorFailed (?p\<lparr>RestartCount := n\<rparr>)) '''') ?s)"
    by (rule escalation_returns_to_self [where entry = ?en])
      (simp_all add: l mkMessage_def Escalation_OnFailure_def)
  then show ?thesis unfolding Let_def by blast
qed

end
