(* ===== verification/Dataset.thy ===== *)
theory Dataset
  imports GoFloat
begin

text \<open>
  The synthetic data set (\<^verbatim>\<open>smart-home/data/dataset.go\<close>).

  The random draws of one sample are a record: the results of the calls of \<^verbatim>\<open>rand.Float64\<close> and
  \<^verbatim>\<open>rand.NormFloat64\<close> in that iteration, of which the presence draw may go unused. All arithmetic is
  in \<^verbatim>\<open>float64\<close>. The main lemma is that the normalisation of a value clamped to an interval lands in the
  unit interval in spite of rounding.
\<close>

record Sample =
  Features :: "f64 list"
  Target :: "f64 list"
  RoomID :: string

record draws =
  uHour :: f64
  uPresence :: f64
  nTemp :: f64
  nHum :: f64
  nLight :: f64

definition clamp :: "f64 \<Rightarrow> f64 \<Rightarrow> f64 \<Rightarrow> f64" where
  "clamp v lo hi = (if v < lo then lo else if hi < v then hi else v)"

text \<open>The body of the loop of \<^verbatim>\<open>GenerateSamples\<close>.\<close>

definition hour_of :: "draws \<Rightarrow> f64" where
  "hour_of d = clamp (uHour d * lit 24) 0 (lit 23)"

definition presence_of :: "draws \<Rightarrow> f64" where
  "presence_of d =
    (let hour = hour_of d;
         presence = (if lit 7 < hour \<and> hour < lit 22 \<and> uPresence d < lit (7 / 10) then 1 else 0)
     in if lit 22 < hour \<or> hour < lit 6 then 0 else presence)"

definition targets_of :: "f64 \<Rightarrow> f64 \<Rightarrow> f64 \<times> f64 \<times> f64" where
  "targets_of hour presence =
    (let targetTemp = lit 22;
         targetTemp = (if lit (1 / 2) < presence then targetTemp + lit 2 else targetTemp);
         targetTemp = (if lit 6 \<le> hour \<and> hour \<le> lit 8 then targetTemp + lit 1 else targetTemp);
         targetTemp = (if lit 22 \<le> hour \<or> hour < lit 6 then targetTemp - lit 3 else targetTemp);
         targetTemp = clamp targetTemp (lit 18) (lit 28);
         targetHum = (if lit (1 / 2) < presence then lit 55 else lit 50);
         targetHum = clamp targetHum (lit 30) (lit 70);
         targetLight = (if lit (1 / 2) < presence
           then (if lit 6 \<le> hour \<and> hour \<le> lit 22 then lit 350 else lit 50) else lit 100)
     in (targetTemp, targetHum, targetLight))"

definition gen_sample :: "string \<Rightarrow> f64 \<Rightarrow> bool \<Rightarrow> draws \<Rightarrow> Sample" where
  "gen_sample roomID skew nonIID d =
    (let hour = hour_of d;
         presence = presence_of d;
         baseTemp = (if \<not> nonIID then lit 25 else lit 20 + skew * lit 10);
         temp = clamp (baseTemp + nTemp d * lit 2) (lit 15) (lit 35);
         hum = clamp (lit 50 + nHum d * lit 10) (lit 20) (lit 80);
         baseLight = (if \<not> nonIID then lit 500 else lit 200 + skew * lit 600);
         light = clamp (baseLight + nLight d * lit 150) (lit 50) (lit 1000);
         (targetTemp, targetHum, targetLight) = targets_of hour presence
     in \<lparr>Features = [(temp - lit 15) / lit 20, (hum - lit 20) / lit 60, (light - lit 50) / lit 950, presence, hour / lit 23],
         Target = [(targetTemp - lit 18) / lit 10, (targetHum - lit 30) / lit 40, (targetLight - lit 50) / lit 300],
         RoomID = roomID\<rparr>)"

text \<open>A negative number of samples makes \<^verbatim>\<open>make\<close> panic (\<^const>\<open>None\<close>). \<open>dr i\<close> are the draws of iteration \<open>i\<close>.\<close>

definition GenerateSamples :: "(nat \<Rightarrow> draws) \<Rightarrow> string \<Rightarrow> int \<Rightarrow> f64 \<Rightarrow> bool \<Rightarrow> Sample list option" where
  "GenerateSamples dr roomID numSamples skew nonIID =
    (if numSamples < 0 then None
     else Some (map (\<lambda>i. gen_sample roomID skew nonIID (dr i)) [0..<nat numSamples]))"

text \<open>The loop over the rooms; \<open>dr i j\<close> are the draws of sample \<open>j\<close> of room \<open>i\<close>.\<close>

definition skew_of :: "nat \<Rightarrow> nat \<Rightarrow> f64" where
  "skew_of i n = of_goint (int i) / of_goint (int n - 1)"

definition GenerateSensors :: "(nat \<Rightarrow> nat \<Rightarrow> draws) \<Rightarrow> string list \<Rightarrow> int \<Rightarrow> bool \<Rightarrow> (string, Sample list) gomap option" where
  "GenerateSensors dr roomIDs samplesPerSensor nonIID =
    for_upto (length roomIDs) (\<lambda>i result.
      map_option (\<lambda>ss. mput (roomIDs ! i) ss result)
        (GenerateSamples (dr i) (roomIDs ! i) samplesPerSensor (skew_of i (length roomIDs)) nonIID)) []"

section \<open>Lemmas\<close>

lemma lit_numeral: "numeral n < (2 ^ 53 :: int) \<Longrightarrow> lit (numeral n) = FNum (numeral n)"
  using rnd_exact [of "numeral n" 0 False] by (simp add: lit_def)

lemmas lits = lit_numeral [of "Num.Bit1 n" for n] lit_numeral [of "Num.Bit0 n" for n]

lemma rnd_zero [simp]: "rnd s 0 = FZero s"
  by (simp add: rnd_def)

lemma lit_one: "lit 1 = FNum 1"
  using rnd_exact [of 1 0 False] by (simp add: lit_def)

lemma rnd_between:
  assumes "0 \<le> q" "q \<le> of_int m" "0 < m" "m < 2 ^ 53"
  shows "fle (FZero b) (rnd s q)" "fle (rnd s q) (FNum (of_int m))"
  using rnd_sign [OF assms(1)] rnd_mono [OF assms(2), of s False] rnd_exact [of m 0 False] assms(3,4)
  by simp_all

text \<open>A value that is not a NaN, clamped to an interval of integers, is a number in the interval.\<close>

lemma clamp_between:
  assumes "\<not> IsNaN v" "0 < lo" "lo < hi"
  shows "\<exists>q. clamp v (FNum lo) (FNum hi) = FNum q \<and> lo \<le> q \<and> q \<le> hi"
  using assms by (cases v) (auto simp: clamp_def f64_ops)

text \<open>Its normalisation is in the unit interval.\<close>

lemma normalised:
  assumes "of_int lo \<le> q" "q \<le> of_int (lo + m)" "0 < m" "m < 2 ^ 53" "0 < lo"
  shows "0 \<le> (FNum q - FNum (of_int lo)) / FNum (of_int m)" "(FNum q - FNum (of_int lo)) / FNum (of_int m) \<le> 1"
proof -
  let ?d = "rnd (q < 0 \<and> - of_int lo < (0::rat)) (q - of_int lo)"
  have "0 \<le> q - of_int lo" "q - of_int lo \<le> of_int m" using assms(1,2) by simp_all
  from rnd_between [OF this assms(3,4)] have d: "fle (FZero False) ?d" "fle ?d (FNum (of_int m))" by blast+
  have m: "0 < (of_int m :: rat)" using assms(3) by simp
  have "fle (FZero False) (fdiv ?d (FNum (of_int m))) \<and> fle (fdiv ?d (FNum (of_int m))) (FNum 1)"
  proof (cases ?d)
    case (FNum r)
    then have r: "0 \<le> r / of_int m" "r / of_int m \<le> of_int 1" using d m by (simp_all add: divide_le_eq)
    then show ?thesis using FNum rnd_between [OF r] by simp
  qed (use d m in auto)
  then show "0 \<le> (FNum q - FNum (of_int lo)) / FNum (of_int m)" "(FNum q - FNum (of_int lo)) / FNum (of_int m) \<le> 1"
    by (simp_all add: f64_ops)
qed

lemma rnd_not_NaN [simp]: "\<not> IsNaN (rnd s q)"
  by (simp add: rnd_def Let_def)

lemma add_not_NaN: "finite_f64 x \<Longrightarrow> \<not> IsNaN y \<Longrightarrow> \<not> IsNaN (x + y)"
  by (cases x; cases y) (auto simp: f64_ops finite_f64_def)

lemma add_FNum_not_NaN: "\<not> IsNaN x \<Longrightarrow> \<not> IsNaN (x + FNum q)" "\<not> IsNaN x \<Longrightarrow> \<not> IsNaN (x - FNum q)"
  by (cases x; auto simp: f64_ops)+

lemma mul_not_NaN: "\<not> IsNaN y \<Longrightarrow> \<not> IsNaN (y * FNum c)"
  by (cases y) (auto simp: f64_ops)

lemma finite_bounded: "fle (FZero b) x \<Longrightarrow> fle x (FNum q) \<Longrightarrow> finite_f64 x"
  by (cases x) (auto simp: finite_f64_def)

lemma finite_FNum [simp]: "finite_f64 (FNum q)"
  by (simp add: finite_f64_def)

text \<open>The baseline of a room with a skew in the unit interval is a finite number.\<close>

lemma finite_base:
  assumes "0 \<le> skew" "skew \<le> 1" "0 < a" "0 < b" "a + b < 2 ^ 53"
  shows "finite_f64 (FNum (of_int a) + skew * FNum (of_int b))"
proof -
  have s: "fle (FZero False) skew" "fle skew (FNum 1)" using assms(1,2) by (simp_all add: f64_ops)
  have b: "0 < (of_int b :: rat)" "0 < (of_int a :: rat)" using assms(3,4) by simp_all
  have m: "fle (FZero False) (fmul skew (FNum (of_int b))) \<and> fle (fmul skew (FNum (of_int b))) (FNum (of_int b))"
  proof (cases skew)
    case (FNum r)
    then have r: "0 \<le> r * of_int b" "r * of_int b \<le> of_int b" using s b by (simp_all add: mult_le_cancel_right2)
    from rnd_between [OF r] FNum show ?thesis using assms(3-5) by simp
  qed (use s b in auto)
  have "finite_f64 (fadd (FNum (of_int a)) (fmul skew (FNum (of_int b))))"
  proof (cases "fmul skew (FNum (of_int b))")
    case (FNum r)
    then have r: "0 \<le> of_int a + r" "of_int a + r \<le> of_int (a + b)" using m b by simp_all
    from rnd_between [OF r] FNum assms(3-5) show ?thesis by (auto intro: finite_bounded)
  next
    case (FZero s)
    have r: "0 \<le> (of_int a :: rat)" "(of_int a :: rat) \<le> of_int (a + b)" using b by simp_all
    from rnd_between [OF r] FZero assms(3-5) show ?thesis by (auto intro: finite_bounded)
  qed (use m in auto)
  then show ?thesis by (simp add: f64_ops)
qed

lemma hour_between:
  assumes "\<not> IsNaN (uHour d)"
  shows "0 \<le> hour_of d / lit 23" "hour_of d / lit 23 \<le> 1"
proof -
  have n: "\<not> IsNaN (uHour d * lit 24)" using mul_not_NaN [OF assms] by (simp add: lits)
  have "0 \<le> hour_of d / lit 23 \<and> hour_of d / lit 23 \<le> 1"
  proof (cases "hour_of d")
    case (FNum q)
    with n have "0 \<le> q \<and> q \<le> 23" unfolding hour_of_def
      by (cases "uHour d * lit 24") (auto simp: clamp_def f64_ops lits split: if_splits)
    then have r: "0 \<le> q / 23" "q / 23 \<le> of_int 1" by simp_all
    from rnd_between [OF r] FNum show ?thesis by (simp add: f64_ops lits)
  next
    case (FZero s)
    then show ?thesis by (simp add: f64_ops lits rnd_def)
  qed (use n in \<open>cases "uHour d * lit 24"; auto simp: hour_of_def clamp_def f64_ops lits split: if_splits\<close>)+
  then show "0 \<le> hour_of d / lit 23" "hour_of d / lit 23 \<le> 1" by auto
qed

definition unit_interval :: "f64 \<Rightarrow> bool" where
  "unit_interval x \<longleftrightarrow> 0 \<le> x \<and> x \<le> 1"

lemma clamp_normalised:
  assumes "\<not> IsNaN v" "0 < lo" "0 < m" "m < 2 ^ 53"
  shows "unit_interval ((clamp v (FNum (of_int lo)) (FNum (of_int (lo + m))) - FNum (of_int lo)) / FNum (of_int m))"
proof -
  have "(of_int lo :: rat) < of_int (lo + m)" "0 < (of_int lo :: rat)" using assms(2,3) by simp_all
  then obtain q where q: "clamp v (FNum (of_int lo)) (FNum (of_int (lo + m))) = FNum q" "of_int lo \<le> q" "q \<le> of_int (lo + m)"
    using clamp_between [OF assms(1)] by blast
  show ?thesis unfolding q(1) unit_interval_def using normalised [OF q(2,3) assms(3,4,2)] by blast
qed

text \<open>The instances for the constants of the code.\<close>

lemma normalise_const:
  "\<not> IsNaN v \<Longrightarrow> unit_interval ((clamp v (lit 15) (lit 35) - lit 15) / lit 20)"
  "\<not> IsNaN v \<Longrightarrow> unit_interval ((clamp v (lit 20) (lit 80) - lit 20) / lit 60)"
  "\<not> IsNaN v \<Longrightarrow> unit_interval ((clamp v (lit 50) (lit 1000) - lit 50) / lit 950)"
  "\<not> IsNaN v \<Longrightarrow> unit_interval ((clamp v (lit 18) (lit 28) - lit 18) / lit 10)"
  "\<not> IsNaN v \<Longrightarrow> unit_interval ((clamp v (lit 30) (lit 70) - lit 30) / lit 40)"
  using clamp_normalised [of v 15 20] clamp_normalised [of v 20 60] clamp_normalised [of v 50 950]
    clamp_normalised [of v 18 10] clamp_normalised [of v 30 40]
  by (simp_all add: lits)

lemma targets_between:
  assumes "targets_of hour presence = (t, h, l)"
  shows "unit_interval ((t - lit 18) / lit 10)" "unit_interval ((h - lit 30) / lit 40)" "unit_interval ((l - lit 50) / lit 300)"
proof -
  define t1 where "t1 = (if lit (1 / 2) < presence then lit 22 + lit 2 else lit 22)"
  define t2 where "t2 = (if lit 6 \<le> hour \<and> hour \<le> lit 8 then t1 + lit 1 else t1)"
  define t3 where "t3 = (if lit 22 \<le> hour \<or> hour < lit 6 then t2 - lit 3 else t2)"
  have t: "t = clamp t3 (lit 18) (lit 28)"
    using arg_cong [OF assms, of fst] unfolding targets_of_def Let_def t1_def t2_def t3_def fst_conv by (rule sym)
  have "\<not> IsNaN t1" using add_FNum_not_NaN(1) [of "FNum 22" 2] by (simp add: t1_def lits)
  then have "\<not> IsNaN t2" using add_FNum_not_NaN(1) [of t1 1] by (simp add: t2_def lit_one)
  then have "\<not> IsNaN t3" using add_FNum_not_NaN(2) [of t2 3] by (simp add: t3_def lits)
  then show "unit_interval ((t - lit 18) / lit 10)" unfolding t by (rule normalise_const(4))
  have h: "h = clamp (if lit (1 / 2) < presence then lit 55 else lit 50) (lit 30) (lit 70)"
    using arg_cong [OF assms, of "\<lambda>x. fst (snd x)"] unfolding targets_of_def Let_def fst_conv snd_conv by (rule sym)
  show "unit_interval ((h - lit 30) / lit 40)" unfolding h by (rule normalise_const(5)) (simp add: lits)
  have "l = (if lit (1 / 2) < presence then (if lit 6 \<le> hour \<and> hour \<le> lit 22 then lit 350 else lit 50) else lit 100)"
    using arg_cong [OF assms, of "\<lambda>x. snd (snd x)"] unfolding targets_of_def Let_def snd_conv by (rule sym)
  then have "l = FNum 350 \<or> l = FNum 50 \<or> l = FNum 100" by (simp add: lits split: if_splits)
  then show "unit_interval ((l - lit 50) / lit 300)"
    using normalised [of 50 350 300] normalised [of 50 50 300] normalised [of 50 100 300]
    by (auto simp: unit_interval_def lits)
qed

definition draws_ok :: "draws \<Rightarrow> bool" where
  "draws_ok d \<longleftrightarrow> \<not> IsNaN (uHour d) \<and> \<not> IsNaN (nTemp d) \<and> \<not> IsNaN (nHum d) \<and> \<not> IsNaN (nLight d)"

lemma presence_between: "unit_interval (presence_of d)"
  by (simp add: presence_of_def Let_def unit_interval_def f64_ops)

lemma gen_sample_between:
  assumes "draws_ok d" "0 \<le> skew" "skew \<le> 1"
  shows "length (Features (gen_sample r skew nonIID d)) = 5" "length (Target (gen_sample r skew nonIID d)) = 3"
    "list_all unit_interval (Features (gen_sample r skew nonIID d))"
    "list_all unit_interval (Target (gen_sample r skew nonIID d))"
proof -
  obtain t h l where t: "targets_of (hour_of d) (presence_of d) = (t, h, l)" by (metis prod_cases3)
  have b: "finite_f64 (if \<not> nonIID then lit 25 else lit 20 + skew * lit 10)"
    "finite_f64 (if \<not> nonIID then lit 500 else lit 200 + skew * lit 600)"
    using finite_base [OF assms(2,3), of 20 10] finite_base [OF assms(2,3), of 200 600] by (auto simp: lits)
  have m: "\<not> IsNaN (nTemp d * lit 2)" "\<not> IsNaN (nHum d * lit 10)" "\<not> IsNaN (nLight d * lit 150)"
    using assms(1) by (simp_all add: draws_ok_def lits mul_not_NaN)
  have n: "\<not> IsNaN ((if \<not> nonIID then lit 25 else lit 20 + skew * lit 10) + nTemp d * lit 2)"
    "\<not> IsNaN (lit 50 + nHum d * lit 10)"
    "\<not> IsNaN ((if \<not> nonIID then lit 500 else lit 200 + skew * lit 600) + nLight d * lit 150)"
    using add_not_NaN [OF b(1) m(1)] add_not_NaN [OF _ m(2), of "lit 50"] add_not_NaN [OF b(2) m(3)]
    by (simp_all add: lits)
  have h: "unit_interval (hour_of d / lit 23)"
    using hour_between assms(1) by (simp add: unit_interval_def draws_ok_def)
  note u = normalise_const(1) [OF n(1)] normalise_const(2) [OF n(2)] normalise_const(3) [OF n(3)]
  show "length (Features (gen_sample r skew nonIID d)) = 5" "length (Target (gen_sample r skew nonIID d)) = 3"
    "list_all unit_interval (Features (gen_sample r skew nonIID d))"
    "list_all unit_interval (Target (gen_sample r skew nonIID d))"
    using u h presence_between targets_between [OF t] t by (simp_all add: gen_sample_def Let_def)
qed

section \<open>Properties\<close>



text \<open>
  A data set for a single room with skewed distributions is unusable. The skew of the only
  room is zero divided by zero, so every sample has a NaN temperature and a NaN light feature, whatever
  the random draws.
\<close>

theorem single_room_NaN:
  assumes "0 \<le> n"
  shows "\<exists>ss. GenerateSensors dr [room] n True = Some [(room, ss)] \<and> length ss = nat n \<and>
    (\<forall>s\<in>set ss. Features s ! 0 = FNaN \<and> Features s ! 2 = FNaN)"
proof -
  have s: "skew_of 0 1 = FNaN" by (simp add: skew_of_def of_goint_def lit_def f64_ops)
  have c: "clamp FNaN a b = FNaN" for a b by (simp add: clamp_def)
  have f: "Features (gen_sample room FNaN True d) ! 0 = FNaN \<and> Features (gen_sample room FNaN True d) ! 2 = FNaN" for d
    by (simp add: gen_sample_def Let_def c split: prod.splits)
  let ?ss = "map (\<lambda>i. gen_sample room FNaN True (dr 0 i)) [0..<nat n]"
  have "GenerateSensors dr [room] n True = Some [(room, ?ss)]"
    using assms s by (simp add: GenerateSensors_def GenerateSamples_def)
  moreover have "\<forall>s\<in>set ?ss. Features s ! 0 = FNaN \<and> Features s ! 2 = FNaN" using f by auto
  ultimately show ?thesis by (intro exI [of _ ?ss]) simp
qed

theorem single_room_NaN_witness:
  "\<exists>ss. GenerateSensors (\<lambda>_ _. \<lparr>uHour = FNum (1 / 2), uPresence = 0, nTemp = 0, nHum = 0, nLight = 0\<rparr>) [''kitchen''] 800 True
     = Some [(''kitchen'', ss)] \<and> (\<forall>s\<in>set ss. Features s ! 0 = FNaN)"
  using single_room_NaN [of 800 "\<lambda>_ _. \<lparr>uHour = FNum (1 / 2), uPresence = 0, nTemp = 0, nHum = 0, nLight = 0\<rparr>" "''kitchen''"]
  by auto

end
