(* ===== verification/Effects.thy ===== *)
theory Effects
  imports Remote Persister Supervisor Dataset
begin

text \<open>
  What a smart-home actor can do while it handles a message.

  A handler of \<^verbatim>\<open>smart-home/actors\<close> reads its own state, the context (its own ID, the sender of the message,
  the registry) and returns the new state with the list of its effects, in program order, and the
  reason of the panic that ended it, if any. \<open>perform\<close> runs the effects on the actor system. A handler's
  lookups see the registry as it is when the handler starts.

  References are addresses of local actors or remote references; a remote send puts the marshalled request
  on the network. Files are written to the disk; which operating system calls fail is decided by the list
  \<open>io\<close> of the world, one entry per file operation. A \<^verbatim>\<open>go\<close> statement adds a task to the world. \<open>rng\<close> are
  the values that \<^verbatim>\<open>rand.NormFloat64\<close> returns.
\<close>

datatype actor_ref = LocalRef nat | RemoteRef ActorID string

text \<open>The behaviours that actors of the program install: those of the sensor.\<close>

datatype behavior = TrainingBehavior | SendingResultsBehavior

datatype 'f task = SimulateTraining "'f payload" | SupervisorTask "'f sup_goroutine"

datatype 'f eff =
    ETell actor_ref "'f payload message"
  | EReply nat "'f payload message"
  | EBecome behavior
  | EUnbecome
  | EGo "'f task"
  | ESave Persister string gotype goval
  | EAppend Persister string gotype goval

datatype ('st, 'f) hres = HRes (hstate: 'st) (heffs: "'f eff list") (hpanic: "string option")

record ctx =
  Self :: ActorID
  CtxSender :: "actor_ref option"
  look :: "ActorID \<Rightarrow> nat option"

record 'f world =
  disk :: disk
  io :: "fault list"
  tasks :: "(nat \<times> 'f task) list"
  network :: "(string \<times> TellRequest) list"
  rng :: "nat \<Rightarrow> f64"

type_synonym ('a, 'f) home_sys = "('a, behavior, 'f payload, 'f world) sys"

definition next_fault :: "'f world \<Rightarrow> fault" where
  "next_fault w = (case io w of [] \<Rightarrow> NoFault | f # _ \<Rightarrow> f)"

section \<open>Performing effects\<close>

fun perform1 :: "nat \<Rightarrow> 'f eff \<Rightarrow> ('a, 'f) home_sys \<Rightarrow> ('a, 'f) home_sys outcome" where
  "perform1 a (ETell (LocalRef r) msg) s = Tell r msg s"
| "perform1 a (ETell (RemoteRef i target) msg) s =
    Done (s\<lparr>world := (world s)\<lparr>network := network (world s) @ [(target, marshalTell i msg)]\<rparr>\<rparr>)"
| "perform1 a (EReply r msg) s = Reply r msg s"
| "perform1 a (EBecome b) s = Done (upd_ent a (\<lambda>en. en\<lparr>behaviorStack := Become b (behaviorStack en)\<rparr>) s)"
| "perform1 a EUnbecome s = Done (upd_ent a (\<lambda>en. en\<lparr>behaviorStack := Unbecome (behaviorStack en)\<rparr>) s)"
| "perform1 a (EGo t) s = Done (s\<lparr>world := (world s)\<lparr>tasks := tasks (world s) @ [(a, t)]\<rparr>\<rparr>)"
| "perform1 a (ESave p i t v) s =
    Done (s\<lparr>world := (world s)\<lparr>disk := snd (Save (next_fault (world s)) p i t v (disk (world s))), io := tl (io (world s))\<rparr>\<rparr>)"
| "perform1 a (EAppend p i t v) s =
    Done (s\<lparr>world := (world s)\<lparr>disk := snd (AppendJSON (next_fault (world s)) p i t v (disk (world s))), io := tl (io (world s))\<rparr>\<rparr>)"

fun perform :: "nat \<Rightarrow> 'f eff list \<Rightarrow> ('a, 'f) home_sys \<Rightarrow> ('a, 'f) home_sys outcome" where
  "perform a [] s = Done s"
| "perform a (x # xs) s = obind (perform1 a x s) (perform a xs)"

text \<open>The context of the actor at address \<open>a\<close> during a handler call.\<close>

definition ctx_of :: "ActorID \<Rightarrow> nat \<Rightarrow> ('a, 'f) home_sys \<Rightarrow> ctx" where
  "ctx_of i a s = \<lparr>Self = i, CtxSender = map_option LocalRef (sender (ent s a)), look = mget (actors s)\<rparr>"

text \<open>A handler call: store the new state, run the effects, then panic if the handler did.\<close>

definition run_handler :: "('st \<Rightarrow> 'a) \<Rightarrow> nat \<Rightarrow> ('st, 'f) hres \<Rightarrow> ('a, 'f) home_sys \<Rightarrow> ('a, 'f) home_sys outcome" where
  "run_handler wrap a h s =
    obind (perform a (heffs h) (upd_ent a (\<lambda>en. en\<lparr>actor := wrap (hstate h)\<rparr>) s))
      (\<lambda>s'. case hpanic h of None \<Rightarrow> Done s' | Some r \<Rightarrow> Panicked r s')"

text \<open>The messages that a list of effects sends, in order.\<close>

fun sent :: "'f eff list \<Rightarrow> (actor_ref \<times> 'f payload message) list" where
  "sent [] = []"
| "sent (ETell r m # xs) = (r, m) # sent xs"
| "sent (_ # xs) = sent xs"

section \<open>Lemmas\<close>

lemma sent_append [simp]: "sent (xs @ ys) = sent xs @ sent ys"
  by (induction xs rule: sent.induct) auto

lemma perform1_safe [inv_intros]: "leaves (perform1 a x s) s' \<Longrightarrow> safe_call ops s s'"
proof (cases x)
  case (ETell r m)
  assume "leaves (perform1 a x s) s'"
  with ETell show ?thesis by (cases r) (auto intro: Tell_safe)
qed (auto intro: Reply_safe intro!: safe_call_upd_ent)

lemma perform_safe [inv_intros]: "leaves (perform a xs s) s' \<Longrightarrow> safe_call ops s s'"
proof (induction xs arbitrary: s)
  case (Cons x xs)
  show ?case
  proof (cases "perform1 a x s")
    case (Done s1)
    then have "safe_call ops s s1" by (intro perform1_safe [of a x]) simp
    moreover have "safe_call ops s1 s'" using Cons Done by simp
    ultimately show ?thesis by (rule safe_call_trans)
  qed (use Cons.prems perform1_safe [of a x s s'] in auto)
qed simp

lemma run_handler_safe:
  assumes "leaves (run_handler wrap a h s) s'"
    and "a < length (heap s) \<Longrightarrow> ID ops (wrap (hstate h)) = ID ops (actor (ent s a))"
  shows "safe_call ops s s'"
proof -
  let ?s = "upd_ent a (\<lambda>en. en\<lparr>actor := wrap (hstate h)\<rparr>) s"
  have 1: "safe_call ops s ?s" using assms(2) by (intro safe_call_upd_ent) auto
  have "leaves (perform a (heffs h) ?s) s'"
    using assms(1) unfolding run_handler_def
    by (cases "perform a (heffs h) ?s") (auto split: option.splits)
  with 1 show ?thesis by (blast intro: safe_call_trans perform_safe)
qed

lemma perform_append: "perform a (xs @ ys) s = obind (perform a xs s) (perform a ys)"
proof (induction xs arbitrary: s)
  case (Cons x xs)
  then show ?case by (cases "perform1 a x s") auto
qed simp

end
