(* ===== verification/Durable.thy ===== *)
theory Durable
  imports Effects
begin

text \<open>
  The state that an actor keeps on disk. Sensor, coordinator, logger and device controller all have the
  same protocol: \<^verbatim>\<open>persistState\<close> saves a struct made from the state and ignores the error, and
  \<^verbatim>\<open>OnPreStart\<close> loads it into a new instance and ignores the error. The locale \<open>durable\<close> is what
  such an actor has to provide, and its lemmas hold for all four.
\<close>

definition load_state :: "gotype \<Rightarrow> (goval \<Rightarrow> 'st \<Rightarrow> 'st) \<Rightarrow> fault \<Rightarrow> disk \<Rightarrow> Persister option \<Rightarrow> ActorID \<Rightarrow> 'st \<Rightarrow> 'st" where
  "load_state ty restore fl d po i st = (case po of
     None \<Rightarrow> st
   | Some p \<Rightarrow> (case Load fl p i ty d of Inl _ \<Rightarrow> st | Inr v \<Rightarrow> restore v st))"

definition save_state :: "gotype \<Rightarrow> Persister option \<Rightarrow> ActorID \<Rightarrow> goval \<Rightarrow> 'f eff list" where
  "save_state ty po i v = (case po of None \<Rightarrow> [] | Some p \<Rightarrow> [ESave p i ty v])"

text \<open>
  The interface: the type of the saved struct, the struct made from a state, the state made from a loaded struct
  and a new instance, the states whose numbers JSON can represent, and the agreement of two states on
  everything that is saved.
\<close>

locale durable =
  fixes ty :: gotype
    and saved :: "'st \<Rightarrow> goval"
    and restore :: "goval \<Rightarrow> 'st \<Rightarrow> 'st"
    and storable :: "'st \<Rightarrow> bool"
    and same_saved :: "'st \<Rightarrow> 'st \<Rightarrow> bool"
  assumes wf_ty: "wf_type ty"
    and typed_saved: "storable st \<Longrightarrow> typed ty (saved st)"
    and restore_saved: "storable st \<Longrightarrow> same_saved (restore (saved st) st0) st"
begin

lemma marshal_saved: "storable st \<Longrightarrow> \<exists>j. marshal ty (saved st) = Some j \<and> unmarshal ty j = Some (saved st)"
  using unmarshal_marshal_all(1) [OF wf_ty typed_saved] by blast

lemma saved_Some: "storable st \<Longrightarrow> fst (Save NoFault p i ty (saved st) d) = None"
  using marshal_saved [of st] by (auto simp: Save_def save_file_error)

text \<open>A new instance under the same ID starts with what the old instance saved.\<close>

lemma restart_restores:
  assumes "storable st" "fst (Save fl p i ty (saved st) d) = None"
  shows "same_saved (load_state ty restore NoFault (snd (Save fl p i ty (saved st) d)) (Some p) i st0) st"
  using marshal_saved [OF assms(1)] restore_saved [OF assms(1)] assms(2) Save_files [of fl p i ty "saved st" d i]
  by (auto simp: load_state_def Load_def load_file_def)

text \<open>A failed save leaves the last saved state in place.\<close>

lemma failed_save_keeps:
  assumes "fst (Save fl p i ty v d) \<noteq> None"
  shows "load_state ty restore fl' (snd (Save fl p i ty v d)) (Some p) j st0 = load_state ty restore fl' d (Some p) j st0"
proof -
  have "mget (snd (Save fl p i ty v d)) (filePath p j) = mget d (filePath p j)"
    using assms by (auto simp: Save_files)
  then show ?thesis by (simp add: load_state_def Load_def load_file_def)
qed

text \<open>Saves under other IDs do not matter.\<close>

lemma other_save_keeps:
  assumes "j \<noteq> i"
  shows "load_state ty restore fl' (snd (Save fl p j t v d)) (Some p) i st0 = load_state ty restore fl' d (Some p) i st0"
  using assms Save_files [of fl p j t v d i] by (simp add: load_state_def Load_def load_file_def)

text \<open>
  Crash safety: after \<^verbatim>\<open>persistState\<close>, whichever call of it failed, the next instance starts with the new state or, if a call failed,
  possibly with the old one.
\<close>

lemma old_or_new:
  fixes s :: "('a, 'f) home_sys"
  assumes "storable st" "perform a (save_state ty (Some p) i (saved st)) s = Done s'"
  shows "same_saved (load_state ty restore NoFault (disk (world s')) (Some p) i init) st \<or>
    next_fault (world s) \<noteq> NoFault \<and>
    load_state ty restore NoFault (disk (world s')) (Some p) i init = load_state ty restore NoFault (disk (world s)) (Some p) i init"
proof -
  let ?save = "Save (next_fault (world s)) p i ty (saved st) (disk (world s))"
  have d: "disk (world s') = snd ?save" using assms(2) by (auto simp: save_state_def)
  show ?thesis
  proof (cases "fst ?save = None")
    case True
    then show ?thesis unfolding d using restart_restores [OF assms(1)] by blast
  next
    case False
    then have "next_fault (world s) \<noteq> NoFault" using saved_Some [OF assms(1)] by metis
    with False show ?thesis unfolding d by (intro disjI2 conjI failed_save_keeps)
  qed
qed

end

end
