(* ===== verification/Sensor.thy ===== *)
theory Sensor
  imports Durable Mlp
begin

text \<open>
  The sensor actor (\<^verbatim>\<open>smart-home/actors/sensor.go\<close>): a state machine that trains a local model on
  request and sends the result to the coordinator.

  The handlers return the new state and their effects. The training goroutine is the function
  \<open>simulateTraining\<close> on the sensor and the request; \<^const>\<open>None\<close> is a panic in it, which nothing recovers.
  The method values \<^verbatim>\<open>s.trainingBehavior\<close> and \<^verbatim>\<open>s.sendingResultsBehavior\<close> are the tags of
  the type \<open>behavior\<close>.
\<close>

record SensorActor =
  sensorID :: ActorID
  state :: string
  roomID :: string
  roundID :: int
  weights :: "f64 slice"
  samples :: int
  mlp_of :: "f64 mlp option"
  trainData :: "Sample list"
  coordinator :: ActorID
  coordinatorRef :: "actor_ref option"
  persister :: "Persister option"

text \<open>\<open>r\<close> are the random draws of \<open>NewMLP\<close>; an absent variadic argument is the empty list.\<close>

definition NewSensorActor :: "(nat \<Rightarrow> f64) \<Rightarrow> ActorID \<Rightarrow> string \<Rightarrow> ActorID \<Rightarrow> Sample list \<Rightarrow> SensorActor" where
  "NewSensorActor r i room coord data = \<lparr>sensorID = i, state = ''idle'', roomID = room, roundID = 0, weights = SNil, samples = 0,
     mlp_of = (if length data > 0 then Some (NewMLP r 5 8 3) else None),
     trainData = (if length data > 0 then data else []), coordinator = coord, coordinatorRef = None, persister = None\<rparr>"

definition SetPersister :: "Persister \<Rightarrow> SensorActor \<Rightarrow> SensorActor" where
  "SetPersister p st = st\<lparr>persister := Some p\<rparr>"

definition SetCoordinatorRef :: "actor_ref \<Rightarrow> SensorActor \<Rightarrow> SensorActor" where
  "SetCoordinatorRef ref st = st\<lparr>coordinatorRef := Some ref\<rparr>"

section \<open>Persistence\<close>

definition sensorSavedState :: gotype where
  "sensorSavedState = TStruct [(''weights'', TFloats), (''round_id'', TInt), (''samples'', TInt)]"

definition sensor_saved :: "SensorActor \<Rightarrow> goval" where
  "sensor_saved st = VStruct [floats (weights st), VInt (roundID st), VInt (samples st)]"

definition sensor_restore :: "goval \<Rightarrow> SensorActor \<Rightarrow> SensorActor" where
  "sensor_restore v st = (case v of
     VStruct [VSlice w, VInt r, VInt n] \<Rightarrow> st\<lparr>weights := to_floats w, roundID := r, samples := n\<rparr>
   | _ \<Rightarrow> st)"

definition sensor_OnPreStart :: "fault \<Rightarrow> disk \<Rightarrow> SensorActor \<Rightarrow> SensorActor" where
  "sensor_OnPreStart fl d st = load_state sensorSavedState sensor_restore fl d (persister st) (sensorID st) st"

definition sensor_persistState :: "SensorActor \<Rightarrow> 'f eff list" where
  "sensor_persistState st = save_state sensorSavedState (persister st) (sensorID st) (sensor_saved st)"

section \<open>The training goroutine\<close>

definition computeLoss :: "f64 mlp \<Rightarrow> Sample list \<Rightarrow> f64 option" where
  "computeLoss m ss = do {
     total \<leftarrow> for_upto (length ss) (\<lambda>k total. do {
       pred \<leftarrow> Predict m (Features (ss ! k));
       for_upto (length pred) (\<lambda>j total. do {
         t \<leftarrow> idx (Target (ss ! k)) j;
         let diff = pred ! j - t in Some (total + diff * diff)
       }) total
     }) 0;
     Some (Round (total / of_goint (int (length ss) * 3) * lit 1000000) / lit 1000000)
   }"

text \<open>The two nested loops of \<^verbatim>\<open>realTraining\<close>.\<close>

definition train_epochs :: "nat \<Rightarrow> f64 \<Rightarrow> Sample list \<Rightarrow> f64 mlp \<Rightarrow> f64 mlp option" where
  "train_epochs epochs lr ss m = for_upto epochs (\<lambda>epoch. for_upto (length ss) (\<lambda>k m.
     map_option snd (Train lit m (Features (ss ! k)) (Target (ss ! k)) lr))) m"

definition realTraining :: "SensorActor \<Rightarrow> 'f payload \<Rightarrow> (SensorActor \<times> 'f payload message) option" where
  "realTraining st p = do {
     m \<leftarrow> mlp_of st;
     m \<leftarrow> SetWeights m (elems (pWeights p));
     m \<leftarrow> train_epochs (nat (pEpochs p)) (pLearningRate p) (trainData st) m;
     loss \<leftarrow> computeLoss m (trainData st);
     trained \<leftarrow> Weights m;
     Some (st\<lparr>mlp_of := Some m\<rparr>,
       mkMessage MsgTrainingComplete (Dyn (TrainingCompletePayload (SList trained) loss (int (length (trainData st))))) '''')
   }"

text \<open>Go's remainder takes the sign of the dividend.\<close>

definition go_rem :: "int \<Rightarrow> int \<Rightarrow> int" where
  "go_rem a b = (if a < 0 then - ((- a) mod b) else a mod b)"

definition stubTraining :: "go_env \<Rightarrow> 'f payload \<Rightarrow> 'f payload message" where
  "stubTraining e p =
    (let numSamples = 80 + go_rem (now e) 40;
         trained = (case pWeights p of SNil \<Rightarrow> SNil
           | SList ws \<Rightarrow> SList (map (\<lambda>i. ws ! i + lit (1 / 100) * of_goint (int (i mod 3) - 1)) [0..<length ws]))
     in mkMessage MsgTrainingComplete
          (Dyn (TrainingCompletePayload trained (lit (1 / 2) - of_goint (pRoundID p) * lit (2 / 100)) numSamples)) '''')"

definition simulateTraining :: "go_env \<Rightarrow> SensorActor \<Rightarrow> 'f payload \<Rightarrow> (SensorActor \<times> 'f payload message) option" where
  "simulateTraining e st p =
    (if mlp_of st \<noteq> None \<and> length (trainData st) > 0 then realTraining st p else Some (st, stubTraining e p))"

section \<open>Handlers\<close>

definition handleStartTraining :: "'f payload message \<Rightarrow> SensorActor \<Rightarrow> (SensorActor, 'f) hres" where
  "handleStartTraining msg st = (case castPayload PStartTraining (Payload msg) of
     None \<Rightarrow> HRes st [] None
   | Some p \<Rightarrow> HRes (st\<lparr>state := ''training'', roundID := pRoundID p, weights := copyWeights (pWeights p)\<rparr>)
       [EBecome TrainingBehavior, EGo (SimulateTraining p)] None)"

definition handleGlobalModelUpdate :: "'f payload message \<Rightarrow> SensorActor \<Rightarrow> (SensorActor, 'f) hres" where
  "handleGlobalModelUpdate msg st = (case castPayload PGlobalModelUpdate (Payload msg) of
     None \<Rightarrow> HRes st [] None
   | Some p \<Rightarrow> HRes (st\<lparr>weights := copyWeights (pGlobalWeights p), roundID := pRoundID p\<rparr>) [] None)"

definition handleStatusCheck :: "ctx \<Rightarrow> SensorActor \<Rightarrow> (SensorActor, 'f) hres" where
  "handleStatusCheck c st = (case CtxSender c of
     None \<Rightarrow> HRes st [] None
   | Some ref \<Rightarrow> HRes st [ETell ref (mkMessage MsgHeartbeat NilAny (Self c))] None)"

definition sensor_Receive :: "ctx \<Rightarrow> 'f payload message \<Rightarrow> SensorActor \<Rightarrow> (SensorActor, 'f) hres" where
  "sensor_Receive c msg st =
    (if MsgType msg = MsgStartTraining then handleStartTraining msg st
     else if MsgType msg = MsgGlobalModelUpdate then handleGlobalModelUpdate msg st
     else if MsgType msg = MsgStatusCheck then handleStatusCheck c st
     else if MsgType msg = ''crash'' then HRes st [] (Some ''simulated crash for demo'')
     else HRes st [] None)"

definition sanitise :: "f64 \<Rightarrow> f64" where
  "sanitise w = (if IsNaN w \<or> IsInf w then 0 else w)"

definition sanitise_weights :: "f64 slice \<Rightarrow> f64 slice" where
  "sanitise_weights w = SList (map sanitise (elems w))"

definition processSendResults :: "ctx \<Rightarrow> 'f payload message \<Rightarrow> SensorActor \<Rightarrow> SensorActor \<times> 'f eff list" where
  "processSendResults c msg st = (case castPayload PTrainingComplete (Payload msg) of
     None \<Rightarrow> (st, [])
   | Some p \<Rightarrow>
       (let st1 = st\<lparr>samples := pNumSamples p\<rparr>;
            coordRef = (case coordinatorRef st1 of
              Some ref \<Rightarrow> Some ref
            | None \<Rightarrow> map_option LocalRef (look c (coordinator st1)))
        in case coordRef of
             None \<Rightarrow> (st1, [])
           | Some ref \<Rightarrow> (st1, ETell ref (mkMessage MsgModelUpdate
                 (Dyn (ModelUpdatePayload (sensorID st1) (roundID st1) (sanitise_weights (pWeights p)) (pNumSamples p)
                    (sanitise (pLoss p)))) (Self c))
               # sensor_persistState st1)))"

definition trainingBehavior :: "ctx \<Rightarrow> 'f payload message \<Rightarrow> SensorActor \<Rightarrow> (SensorActor, 'f) hres" where
  "trainingBehavior c msg st =
    (if MsgType msg = MsgTrainingComplete then
       (case processSendResults c msg (st\<lparr>state := ''sending''\<rparr>) of
          (st1, effs) \<Rightarrow> HRes (st1\<lparr>state := ''idle''\<rparr>) (EBecome SendingResultsBehavior # effs @ [EUnbecome, EUnbecome]) None)
     else if MsgType msg = MsgGlobalModelUpdate then handleGlobalModelUpdate msg st
     else if MsgType msg = MsgStatusCheck then handleStatusCheck c st
     else if MsgType msg = MsgStartTraining then HRes st [] None
     else if MsgType msg = ''crash'' then HRes st [] (Some ''simulated crash for demo'')
     else HRes st [] None)"

definition sendingResultsBehavior :: "SensorActor \<Rightarrow> (SensorActor, 'f) hres" where
  "sendingResultsBehavior st = HRes st [] None"

text \<open>Exported observers.\<close>

definition sensor_State :: "SensorActor \<Rightarrow> string" where
  "sensor_State st = state st"

definition sensor_Weights :: "SensorActor \<Rightarrow> f64 slice" where
  "sensor_Weights st = copyWeights (weights st)"

section \<open>The state machine\<close>

text \<open>
  The sensor together with its behaviour stack and the number of training goroutines that have been
  started and whose result has not been handled yet. Results come from these goroutines only.
\<close>

fun stack_after :: "'f eff list \<Rightarrow> behavior list \<Rightarrow> behavior list" where
  "stack_after [] stack = stack"
| "stack_after (EBecome b # xs) stack = stack_after xs (Become b stack)"
| "stack_after (EUnbecome # xs) stack = stack_after xs (Unbecome stack)"
| "stack_after (_ # xs) stack = stack_after xs stack"

definition sensor_handle :: "ctx \<Rightarrow> behavior list \<Rightarrow> 'f payload message \<Rightarrow> SensorActor \<Rightarrow> (SensorActor, 'f) hres" where
  "sensor_handle c stack msg st = (case handler_for stack (MsgType msg) of
     None \<Rightarrow> sensor_Receive c msg st
   | Some TrainingBehavior \<Rightarrow> trainingBehavior c msg st
   | Some SendingResultsBehavior \<Rightarrow> sendingResultsBehavior st)"

fun is_go :: "'f eff \<Rightarrow> bool" where
  "is_go (EGo _) = True"
| "is_go _ = False"

inductive sensor_step :: "SensorActor \<times> behavior list \<times> nat \<Rightarrow> 'f payload message \<Rightarrow> SensorActor \<times> behavior list \<times> nat \<Rightarrow> bool" where
  handle: "MsgType msg \<noteq> MsgTrainingComplete \<Longrightarrow> sensor_handle c stack msg st = HRes st' effs None \<Longrightarrow>
    sensor_step (st, stack, n) msg (st', stack_after effs stack, n + length (filter is_go effs))"
| complete: "MsgType msg = MsgTrainingComplete \<Longrightarrow> 0 < n \<Longrightarrow> sensor_handle c stack msg st = HRes st' effs None \<Longrightarrow>
    sensor_step (st, stack, n) msg (st', stack_after effs stack, n - 1 + length (filter is_go effs))"

definition machine_inv :: "SensorActor \<times> behavior list \<times> nat \<Rightarrow> bool" where
  "machine_inv m = (case m of (st, stack, n) \<Rightarrow>
     (state st = ''idle'' \<and> stack = [] \<and> n = 0) \<or> (state st = ''training'' \<and> stack = [TrainingBehavior] \<and> n = 1))"

section \<open>Lemmas\<close>

lemma stack_after_append: "stack_after (xs @ ys) stack = stack_after ys (stack_after xs stack)"
  by (induction xs stack rule: stack_after.induct) auto

lemma persist_quiet: "stack_after (sensor_persistState st) stack = stack" "filter is_go (sensor_persistState st) = []"
  by (simp_all add: sensor_persistState_def save_state_def split: option.splits)

lemma processSendResults_quiet:
  "stack_after (snd (processSendResults c msg st)) stack = stack" "filter is_go (snd (processSendResults c msg st)) = []"
  "state (fst (processSendResults c msg st)) = state st" "sensorID (fst (processSendResults c msg st)) = sensorID st"
  by (simp_all add: processSendResults_def Let_def persist_quiet split: option.splits)

lemma sensor_handle_idle:
  assumes "state st = ''idle''" "sensor_handle c [] msg st = HRes st' effs None"
  shows "(state st' = ''idle'' \<and> stack_after effs [] = [] \<and> filter is_go effs = []) \<or>
    (MsgType msg = MsgStartTraining \<and> state st' = ''training'' \<and> stack_after effs [] = [TrainingBehavior] \<and> length (filter is_go effs) = 1)"
  using assms
  by (auto simp: sensor_handle_def handler_for_def sensor_Receive_def handleStartTraining_def handleGlobalModelUpdate_def
      handleStatusCheck_def Become_def split: if_splits option.splits)

lemma training_complete:
  assumes "MsgType msg = MsgTrainingComplete"
  shows "trainingBehavior c msg st = HRes ((fst (processSendResults c msg (st\<lparr>state := ''sending''\<rparr>)))\<lparr>state := ''idle''\<rparr>)
    (EBecome SendingResultsBehavior # snd (processSendResults c msg (st\<lparr>state := ''sending''\<rparr>)) @ [EUnbecome, EUnbecome]) None"
  using assms by (simp add: trainingBehavior_def split: prod.splits)

lemma sensor_handle_training:
  assumes "state st = ''training''" "sensor_handle c [TrainingBehavior] msg st = HRes st' effs None"
  shows "filter is_go effs = [] \<and>
    (if MsgType msg = MsgTrainingComplete then state st' = ''idle'' \<and> stack_after effs [TrainingBehavior] = []
     else state st' = ''training'' \<and> stack_after effs [TrainingBehavior] = [TrainingBehavior])"
proof (cases "MsgType msg = MsgTrainingComplete")
  case True
  then have "sensor_handle c [TrainingBehavior] msg st = trainingBehavior c msg st"
    by (simp add: sensor_handle_def handler_for_def isLifecycle_def CurrentBehavior_def)
  with assms(2) True show ?thesis
    by (auto simp: training_complete stack_after_append processSendResults_quiet Become_def Unbecome_def)
next
  case False
  with assms show ?thesis
    by (auto simp: sensor_handle_def handler_for_def CurrentBehavior_def trainingBehavior_def sensor_Receive_def
        handleGlobalModelUpdate_def handleStatusCheck_def isLifecycle_def split: if_splits option.splits)
qed

lemma machine_step: "sensor_step m msg m' \<Longrightarrow> machine_inv m \<Longrightarrow> machine_inv m'"
proof (induction rule: sensor_step.induct)
  case (handle msg c stack st st' effs n)
  then show ?case
    using sensor_handle_idle [of st c msg st' effs] sensor_handle_training [of st c msg st' effs]
    by (auto simp: machine_inv_def)
next
  case (complete msg n c stack st st' effs)
  then show ?case using sensor_handle_training [of st c msg st' effs] by (auto simp: machine_inv_def)
qed

lemma sanitise_finite: "finite_f64 (sanitise w)"
  by (simp add: sanitise_def finite_f64_def zero_f64_def)

lemma sanitise_id: "finite_f64 w \<Longrightarrow> sanitise w = w"
  by (simp add: sanitise_def finite_f64_def)

subsection \<open>Training\<close>

text \<open>The samples fit the network.\<close>

definition fits :: "f64 mlp \<Rightarrow> Sample list \<Rightarrow> bool" where
  "fits m ss \<longleftrightarrow> (\<forall>x\<in>set ss. InputDim m \<le> length (Features x) \<and> OutputDim m \<le> length (Target x))"

definition same_dims :: "'a mlp \<Rightarrow> 'a mlp \<Rightarrow> bool" where
  "same_dims m m' \<longleftrightarrow> InputDim m' = InputDim m \<and> HiddenDim m' = HiddenDim m \<and> OutputDim m' = OutputDim m"

lemma fits_same_dims: "same_dims m m' \<Longrightarrow> fits m' ss = fits m ss"
  by (simp add: same_dims_def fits_def)

lemma NumWeights_same_dims: "wf_mlp m \<Longrightarrow> wf_mlp m' \<Longrightarrow> same_dims m m' \<Longrightarrow> NumWeights m' = NumWeights m"
  by (simp add: NumWeights_def wf_mlp_def same_dims_def)

lemma train_epochs_total:
  assumes "wf_mlp m" "fits m ss"
  shows "\<exists>m'. train_epochs n lr ss m = Some m' \<and> wf_mlp m' \<and> same_dims m m'"
proof -
  have one: "\<exists>m''. map_option snd (Train lit m' (Features (ss ! k)) (Target (ss ! k)) lr) = Some m'' \<and> wf_mlp m'' \<and> same_dims m m''"
    if k: "k < length ss" and m': "wf_mlp m' \<and> same_dims m m'" for k m'
  proof -
    have "ss ! k \<in> set ss" using k by simp
    then have d: "InputDim m' \<le> length (Features (ss ! k))" "OutputDim m' \<le> length (Target (ss ! k))"
      using assms(2) m' unfolding fits_def same_dims_def by auto
    obtain loss m'' where "Train lit m' (Features (ss ! k)) (Target (ss ! k)) lr = Some (loss, m'')" "wf_mlp m''"
      "InputDim m'' = InputDim m'" "HiddenDim m'' = HiddenDim m'" "OutputDim m'' = OutputDim m'"
      using Train_wf [OF conjunct1 [OF m'] d, of lit lr] by (elim exE conjE)
    with m' show ?thesis by (simp add: same_dims_def)
  qed
  have ep: "\<exists>m''. for_upto (length ss) (\<lambda>k m. map_option snd (Train lit m (Features (ss ! k)) (Target (ss ! k)) lr)) m' = Some m''
      \<and> wf_mlp m'' \<and> same_dims m m''" if "wf_mlp m' \<and> same_dims m m'" for m'
    using one that by (intro for_upto_rule [where I = "\<lambda>_ m'. wf_mlp m' \<and> same_dims m m'"])
  show ?thesis unfolding train_epochs_def
    by (rule for_upto_rule [where I = "\<lambda>_ m'. wf_mlp m' \<and> same_dims m m'"], simp add: assms(1) same_dims_def) (rule ep)
qed

lemma computeLoss_total:
  assumes "wf_mlp m" "fits m ss"
  shows "\<exists>l. computeLoss m ss = Some l"
proof -
  have "\<exists>t'. do { pred \<leftarrow> Predict m (Features (ss ! k));
      for_upto (length pred) (\<lambda>j total. do { t \<leftarrow> idx (Target (ss ! k)) j; let diff = pred ! j - t in Some (total + diff * diff) }) t } = Some t'"
    if "k < length ss" for k t
    using that assms
    by (simp add: Predict_eq fits_def)
      (rule exI, rule for_upto_total [where g = "\<lambda>j total. total + (outp m (Features (ss ! k)) j - Target (ss ! k) ! j) * (outp m (Features (ss ! k)) j - Target (ss ! k) ! j)"],
       auto simp: idx_Some Let_def fits_def dest!: nth_mem)
  then have "\<exists>t'. for_upto (length ss) (\<lambda>k t. do { pred \<leftarrow> Predict m (Features (ss ! k));
      for_upto (length pred) (\<lambda>j total. do { t \<leftarrow> idx (Target (ss ! k)) j; let diff = pred ! j - t in Some (total + diff * diff) }) t }) 0 = Some t' \<and> True"
    by (intro for_upto_rule [where I = "\<lambda>_ _. True"]) simp_all
  then show ?thesis unfolding computeLoss_def by fastforce
qed

lemma realTraining_total:
  assumes "mlp_of st = Some m" "wf_mlp m" "fits m (trainData st)" "length (elems (pWeights p)) = NumWeights m"
  shows "\<exists>m' w loss. realTraining st p = Some (st\<lparr>mlp_of := Some m'\<rparr>,
      mkMessage MsgTrainingComplete (Dyn (TrainingCompletePayload (SList w) loss (int (length (trainData st))))) '''') \<and>
    Option.bind (SetWeights m (elems (pWeights p))) (train_epochs (nat (pEpochs p)) (pLearningRate p) (trainData st)) = Some m' \<and>
    wf_mlp m' \<and> same_dims m m' \<and> Weights m' = Some w \<and> length w = length (elems (pWeights p)) \<and> (pEpochs p \<le> 0 \<longrightarrow> w = elems (pWeights p))"
proof -
  have "SetWeights m (elems (pWeights p)) \<noteq> None" using assms(4) by (simp add: SetWeights_None_iff NumWeights_def)
  then obtain m1 where m1: "SetWeights m (elems (pWeights p)) = Some m1" by auto
  then have wf1: "wf_mlp m1" "same_dims m m1" using SetWeights_wf assms(2) by (auto simp: same_dims_def)
  then have f1: "fits m1 (trainData st)" using assms(3) by (simp add: fits_same_dims)
  obtain m2 where m2: "train_epochs (nat (pEpochs p)) (pLearningRate p) (trainData st) m1 = Some m2" "wf_mlp m2" "same_dims m1 m2"
    using train_epochs_total [OF wf1(1) f1, of "nat (pEpochs p)" "pLearningRate p"] by (elim exE conjE)
  then have d: "same_dims m m2" "fits m2 (trainData st)" using wf1 f1 by (simp_all add: same_dims_def fits_def)
  obtain l where l: "computeLoss m2 (trainData st) = Some l" using computeLoss_total [OF m2(2) d(2)] by blast
  have len: "length (W1 m2 @ B1 m2 @ W2 m2 @ B2 m2) = length (elems (pWeights p))"
    using NumWeights_same_dims [OF assms(2) m2(2) d(1)] assms(4) by (simp add: NumWeights_def)
  have z: "W1 m2 @ B1 m2 @ W2 m2 @ B2 m2 = elems (pWeights p)" if "pEpochs p \<le> 0"
    using that m1 m2(1) assms(4) split_in_four [of "length (W1 m)" "elems (pWeights p)" "length (B1 m)" "length (W2 m)"]
    by (auto simp: train_epochs_def SetWeights_eq)
  show ?thesis using assms(1) m1 m2 d l len z by (auto simp: realTraining_def Weights_eq)
qed

lemma wf_NewMLP: "wf_mlp (NewMLP r i h o')" "InputDim (NewMLP r i h o') = i" "HiddenDim (NewMLP r i h o') = h" "OutputDim (NewMLP r i h o') = o'"
  by (simp_all add: NewMLP_def wf_mlp_def Let_def)

interpretation sensor: durable sensorSavedState sensor_saved sensor_restore
  "\<lambda>st. list_all finite_f64 (elems (weights st)) \<and> in_int64 (roundID st) \<and> in_int64 (samples st)"
  "\<lambda>st st'. weights st = weights st' \<and> roundID st = roundID st' \<and> samples st = samples st'"
proof unfold_locales
  show "wf_type sensorSavedState" by (simp add: sensorSavedState_def fold_name_def upper_def)
  show "typed sensorSavedState (sensor_saved st)"
    if "list_all finite_f64 (elems (weights st)) \<and> in_int64 (roundID st) \<and> in_int64 (samples st)" for st
    using that by (cases "weights st") (simp_all add: sensorSavedState_def sensor_saved_def list_all_length)
  show "weights (sensor_restore (sensor_saved st) st0) = weights st \<and> roundID (sensor_restore (sensor_saved st) st0) = roundID st \<and>
      samples (sensor_restore (sensor_saved st) st0) = samples st" for st st0
    using floats_VSlice [of "weights st"] by (auto simp: sensor_restore_def sensor_saved_def)
qed

lemma sent_persist [simp]: "sent (sensor_persistState st) = []"
  by (simp add: sensor_persistState_def save_state_def split: option.splits)

lemma finite_sanitised: "list_all finite_f64 (elems (sanitise_weights w))"
  by (simp add: sanitise_weights_def list_all_length sanitise_finite)

section \<open>Properties\<close>

text \<open>
  C23: the state machine of the sensor. However messages interleave, between two messages the sensor is either idle,
  with its own handler active and no training goroutine outstanding, or training, with the training behaviour as the
  only one on the stack and exactly one goroutine outstanding: the transient state \<^verbatim>\<open>sending\<close> is never
  observed, no second goroutine is started and no behaviour is left on the stack.
\<close>

theorem sensor_state_machine:
  assumes "lrun sensor_step (NewSensorActor r i room coord data, [], 0) ls m"
  shows "\<exists>st stack n. m = (st, stack, n) \<and>
    (state st = ''idle'' \<and> stack = [] \<and> n = 0 \<or> state st = ''training'' \<and> stack = [TrainingBehavior] \<and> n = 1)"
proof -
  have "machine_inv m"
    using assms by (rule lrun_inv) (simp add: machine_inv_def NewSensorActor_def, rule machine_step)
  then show ?thesis by (cases m) (auto simp: machine_inv_def)
qed

theorem sensor_state_machine_witness:
  "let st = NewSensorActor (\<lambda>_. 0) ''sensor-1'' ''kitchen'' ''coordinator'' [];
       start = mkMessage MsgStartTraining (Dyn (StartTrainingPayload 1 SNil 0 1 :: unit payload)) ''coordinator'';
       st' = st\<lparr>state := ''training'', roundID := 1\<rparr>
   in lrun sensor_step (st, [], 0) [start, start] (st', [TrainingBehavior], 1) \<and> state st' = ''training''"
proof -
  let ?st = "NewSensorActor (\<lambda>_. 0) ''sensor-1'' ''kitchen'' ''coordinator'' []"
  let ?start = "mkMessage MsgStartTraining (Dyn (StartTrainingPayload 1 SNil 0 1 :: unit payload)) ''coordinator''"
  let ?st' = "?st\<lparr>state := ''training'', roundID := 1\<rparr>"
  have 1: "sensor_step (?st, [], 0) ?start (?st', [TrainingBehavior], 1)"
    using sensor_step.handle [of ?start undefined "[]" ?st ?st' "[EBecome TrainingBehavior, EGo (SimulateTraining (StartTrainingPayload 1 SNil 0 1))]" 0]
    by (simp add: mkMessage_def sensor_handle_def handler_for_def sensor_Receive_def handleStartTraining_def castPayload_def Become_def
        NewSensorActor_def)
  have 2: "sensor_step (?st', [TrainingBehavior], 1) ?start (?st', [TrainingBehavior], 1)"
    using sensor_step.handle [of ?start undefined "[TrainingBehavior]" ?st' ?st' "[]" 1]
    by (simp add: mkMessage_def sensor_handle_def handler_for_def trainingBehavior_def isLifecycle_def CurrentBehavior_def)
  have "lrun sensor_step (?st', [TrainingBehavior], 1) [?start] (?st', [TrainingBehavior], 1)" using 2 by (rule lrun_one)
  with 1 have l: "lrun sensor_step (?st, [], 0) [?start, ?start] (?st', [TrainingBehavior], 1)" by (rule lrun_Cons)
  then show ?thesis using sensor_state_machine [OF l] by (simp add: Let_def)
qed



text \<open>
  C24: local training terminates with a result. For a network of the right shape, samples that fit it and a weight vector
  of the right length, the goroutine returns: it reports the weights of the network obtained from the received weights by the
  prescribed number of epochs over the samples, as many as were received, with the number of samples;
  the network keeps its shape, and without epochs the weights come back unchanged. A weight vector that ends before the
  output bias makes the goroutine panic.
\<close>

theorem training_returns:
  assumes "mlp_of st = Some m" "wf_mlp m" "fits m (trainData st)" "trainData st \<noteq> []"
    and "length (elems (pWeights p)) = NumWeights m"
    and "length (elems (pWeights q)) < length (W1 m) + length (B1 m) + length (W2 m)"
  shows "\<exists>m' w loss. simulateTraining e st p = Some (st\<lparr>mlp_of := Some m'\<rparr>,
      mkMessage MsgTrainingComplete (Dyn (TrainingCompletePayload (SList w) loss (int (length (trainData st))))) '''') \<and>
    Option.bind (SetWeights m (elems (pWeights p))) (train_epochs (nat (pEpochs p)) (pLearningRate p) (trainData st)) = Some m' \<and>
    wf_mlp m' \<and> same_dims m m' \<and> Weights m' = Some w \<and> length w = length (elems (pWeights p)) \<and>
    (pEpochs p \<le> 0 \<longrightarrow> w = elems (pWeights p)) \<and> simulateTraining e st q = None"
proof -
  have "simulateTraining e st q = None" using assms(1,4,6) SetWeights_None_iff [of m "elems (pWeights q)"]
    by (simp add: simulateTraining_def realTraining_def)
  then show ?thesis
    using realTraining_total [OF assms(1-3,5)] assms(1,4) by (simp add: simulateTraining_def)
qed

theorem training_returns_witness:
  "let ss = [\<lparr>Features = replicate 5 0, Target = replicate 3 1, RoomID = ''kitchen''\<rparr>];
       st = NewSensorActor (\<lambda>_. 1) ''sensor-1'' ''kitchen'' ''coordinator'' ss;
       w = replicate 75 (FNum 1)
   in (\<exists>st' loss. simulateTraining \<lparr>now = 0, iter = \<lambda>ks. ks\<rparr> st (StartTrainingPayload 1 (SList w) 0 0 :: unit payload)
        = Some (st', mkMessage MsgTrainingComplete (Dyn (TrainingCompletePayload (SList w) loss 1)) '''')) \<and>
      simulateTraining \<lparr>now = 0, iter = \<lambda>ks. ks\<rparr> st (StartTrainingPayload 1 SNil 0 0 :: unit payload) = None"
proof -
  let ?ss = "[\<lparr>Features = replicate 5 0, Target = replicate 3 1, RoomID = ''kitchen''\<rparr>]"
  let ?m = "NewMLP (\<lambda>_. 1) 5 8 3"
  let ?st = "NewSensorActor (\<lambda>_. 1) ''sensor-1'' ''kitchen'' ''coordinator'' ?ss"
  let ?p = "StartTrainingPayload 1 (SList (replicate 75 (FNum 1))) 0 0 :: unit payload" and ?q = "StartTrainingPayload 1 SNil 0 0 :: unit payload"
  have n: "NumWeights ?m = 75" "length (W1 ?m) = 40" by (simp_all add: NumWeights_def NewMLP_def Let_def)
  show ?thesis
    using training_returns [of ?st ?m ?p ?q "\<lparr>now = 0, iter = \<lambda>ks. ks\<rparr>"] n
    by (auto simp: Let_def NewSensorActor_def wf_NewMLP fits_def)
qed

end
