(* ===== verification/Fed_Avg.thy ===== *)
theory Fed_Avg
  imports GoFloat
begin

text \<open>
  Federated averaging (\<^verbatim>\<open>smart-home/model/fedavg.go\<close>).

  \<open>FedAvg\<close> is the code's double loop, polymorphic in the number type: \<open>L\<close> embeds the
  literals and integer conversions. At \<^typ>\<open>f64\<close> with \<open>L = lit\<close> it is the program; at an
  ordered field with \<open>L = of_rat\<close> it is the function the comment of the source promises,
  the weighted mean of the client vectors.
\<close>

definition sum_samples :: "int list \<Rightarrow> int" where
  "sum_samples ns = fold (\<lambda>n t. wrap64 (t + n)) ns 0"

definition FedAvg ::
  "(rat \<Rightarrow> 'a::{zero, plus, times, inverse}) \<Rightarrow> 'a list list \<Rightarrow> int list \<Rightarrow> 'a slice option" where
  "FedAvg L clientWeights numSamples =
    (if length clientWeights = 0 then Some SNil
     else if length clientWeights \<noteq> length numSamples then Some SNil
     else let totalSamples = sum_samples numSamples
       in if totalSamples = 0 then Some SNil
         else let nClients = length clientWeights; nWeights = length (clientWeights ! 0)
           in map_option SList (for_upto nClients (\<lambda>c aggregated.
                let ratio = L (of_int (numSamples ! c)) / L (of_int totalSamples)
                in for_upto nWeights (\<lambda>i aggregated. do {
                     w \<leftarrow> idx (clientWeights ! c) i;
                     a \<leftarrow> idx aggregated i;
                     upd aggregated i (a + w * ratio)
                   }) aggregated) (replicate nWeights 0)))"

text \<open>The column-wise reference: the weight \<open>i\<close> accumulated over the clients in order.\<close>

definition fedavg_column ::
  "(rat \<Rightarrow> 'a::{zero, plus, times, inverse}) \<Rightarrow> 'a list list \<Rightarrow> int list \<Rightarrow> nat \<Rightarrow> 'a" where
  "fedavg_column L ws ns i =
    fold (\<lambda>c a. a + ws ! c ! i * (L (of_int (ns ! c)) / L (of_int (sum_samples ns)))) [0..<length ws] 0"

section \<open>Every arithmetic\<close>

lemma FedAvg_inner:
  assumes "nW \<le> length w" "length agg = nW"
  shows "for_upto nW (\<lambda>i agg. do { x \<leftarrow> idx w i; a \<leftarrow> idx agg i; upd agg i (a + x * r) }) agg
    = Some (map (\<lambda>i. agg ! i + w ! i * r) [0..<nW])"
  using assms for_upto_pointwise [where f = "\<lambda>i a. a + w ! i * r"] by (simp add: go_simps)

lemma FedAvg_inner_short:
  assumes "length w < nW"
  shows "for_upto nW (\<lambda>i agg. do { x \<leftarrow> idx w i; a \<leftarrow> idx agg i; upd agg i (a + x * r) }) agg = None"
  using assms by (intro for_upto_None [of "length w"]) (simp_all add: idx_None)

definition fedavg_ready :: "'a list list \<Rightarrow> int list \<Rightarrow> bool" where
  "fedavg_ready ws ns \<longleftrightarrow> ws \<noteq> [] \<and> length ws = length ns \<and> sum_samples ns \<noteq> 0"

lemma FedAvg_columns:
  assumes "fedavg_ready ws ns" "\<forall>w\<in>set ws. length (hd ws) \<le> length w"
  shows "FedAvg L ws ns = Some (SList (map (fedavg_column L ws ns) [0..<length (hd ws)]))"
proof -
  let ?nW = "length (hd ws)" and ?N = "L (of_int (sum_samples ns))"
  let ?g = "\<lambda>i c a. a + ws ! c ! i * (L (of_int (ns ! c)) / ?N)"
  define body where "body c agg = (let r = L (of_int (ns ! c)) / ?N
    in for_upto ?nW (\<lambda>i agg. do { x \<leftarrow> idx (ws ! c) i; a \<leftarrow> idx agg i; upd agg i (a + x * r) }) agg)" for c agg
  have "\<exists>s'. for_upto (length ws) body (replicate ?nW 0) = Some s'
      \<and> s' = map (\<lambda>i. fold (?g i) [0..<length ws] 0) [0..<?nW]"
  proof (rule for_upto_rule)
    show "replicate ?nW 0 = map (\<lambda>i. fold (?g i) [0..<0] 0) [0..<?nW]"
      by (simp add: map_replicate_trivial)
  next
    fix c s assume c: "c < length ws" and s: "s = map (\<lambda>i. fold (?g i) [0..<c] 0) [0..<?nW]"
    have "?nW \<le> length (ws ! c)" using assms(2) c by simp
    with s show "\<exists>s'. body c s = Some s' \<and> s' = map (\<lambda>i. fold (?g i) [0..<Suc c] 0) [0..<?nW]"
      by (simp add: body_def FedAvg_inner)
  qed
  with assms show ?thesis
    by (auto simp: FedAvg_def fedavg_ready_def body_def [abs_def] Let_def hd_conv_nth fedavg_column_def)
qed

lemma FedAvg_panics:
  assumes "fedavg_ready ws ns" "w \<in> set ws" "length w < length (hd ws)"
  shows "FedAvg L ws ns = None"
proof -
  obtain c where c: "c < length ws" "w = ws ! c" using assms(2) by (auto simp: in_set_conv_nth)
  show ?thesis
    using assms c by (auto simp: FedAvg_def fedavg_ready_def Let_def hd_conv_nth
        intro!: for_upto_None [of c] FedAvg_inner_short)
qed

lemma FedAvg_nil:
  "\<not> fedavg_ready ws ns \<Longrightarrow> FedAvg L ws ns = Some SNil"
  by (auto simp: FedAvg_def fedavg_ready_def Let_def)

lemma FedAvg_eq:
  "FedAvg L ws ns =
    (if ws = [] \<or> length ws \<noteq> length ns \<or> sum_samples ns = 0 then Some SNil
     else if \<exists>w\<in>set ws. length w < length (hd ws) then None
     else Some (SList (map (fedavg_column L ws ns) [0..<length (hd ws)])))"
  using FedAvg_nil [of ws ns L] FedAvg_panics [of ws ns _ L] FedAvg_columns [of ws ns L]
  by (auto simp: fedavg_ready_def not_less)

section \<open>Exact arithmetic\<close>

text \<open>The sample counts of a round: non-negative and, summed, within Go's \<^verbatim>\<open>int\<close>.\<close>

definition samples_ok :: "int list \<Rightarrow> bool" where
  "samples_ok ns \<longleftrightarrow> (\<forall>n\<in>set ns. 0 \<le> n) \<and> sum_list ns < 2 ^ 63"

lemma sum_samples_acc:
  "\<forall>n\<in>set ns. 0 \<le> n \<Longrightarrow> 0 \<le> t \<Longrightarrow> t + sum_list ns < 2 ^ 63 \<Longrightarrow>
    fold (\<lambda>n t. wrap64 (t + n)) ns t = t + sum_list ns"
proof (induction ns arbitrary: t)
  case Nil
  then show ?case by simp
next
  case (Cons n ns)
  then have "0 \<le> sum_list ns" by (auto intro: sum_list_nonneg)
  with Cons.prems have "wrap64 (t + n) = t + n"
    by (intro wrap64_id) (auto simp: in_int64_def)
  with Cons show ?case by (simp add: add.assoc)
qed

lemma sum_samples_exact: "samples_ok ns \<Longrightarrow> sum_samples ns = sum_list ns"
  using sum_samples_acc [of ns 0] by (simp add: sum_samples_def samples_ok_def)

lemma fold_plus_sum: "fold (\<lambda>c a. a + f c) [0..<n] (0 :: 'a::comm_monoid_add) = (\<Sum>c<n. f c)"
  by (induction n) simp_all

lemma fedavg_column_exact:
  assumes "samples_ok ns"
  shows "fedavg_column of_rat ws ns i =
    (\<Sum>c<length ws. (ws ! c ! i :: 'a::field_char_0) * of_int (ns ! c)) / of_int (sum_list ns)"
  using assms by (simp add: fedavg_column_def fold_plus_sum sum_samples_exact sum_divide_distrib)

lemma sum_nth_lessThan: "(\<Sum>c<length xs. f (xs ! c)) = sum_list (map f xs)"
  by (simp add: sum_list_sum_nth atLeast0LessThan)

lemma sum_list_map_mset:
  fixes f :: "'b \<Rightarrow> 'a::comm_monoid_add"
  assumes "mset xs = mset ys"
  shows "sum_list (map f xs) = sum_list (map f ys)"
proof -
  have "sum_mset (mset (map f xs)) = sum_mset (mset (map f ys))" using assms by simp
  then show ?thesis by (simp only: sum_mset_sum_list)
qed

lemma fedavg_column_zip:
  assumes "samples_ok ns" "length ws = length ns"
  shows "fedavg_column of_rat ws ns i =
    (\<Sum>(w, n)\<leftarrow>zip ws ns. (w ! i :: 'a::field_char_0) * of_int n) / of_int (sum_list ns)"
proof -
  have "(\<Sum>c<length ws. (ws ! c ! i) * of_int (ns ! c))
      = (\<Sum>c<length (zip ws ns). (\<lambda>(w, n). w ! i * of_int n) (zip ws ns ! c))"
    using assms(2) by (intro sum.cong) auto
  also have "\<dots> = (\<Sum>(w, n)\<leftarrow>zip ws ns. w ! i * of_int n)"
    by (rule sum_nth_lessThan)
  finally show ?thesis
    using assms(1) by (simp add: fedavg_column_exact)
qed

text \<open>A weighted mean lies between any bounds of its values.\<close>

lemma fedavg_column_bounds:
  fixes ws :: "'a::linordered_field list list"
  assumes "samples_ok ns" "length ws = length ns" "0 < sum_list ns"
    and "\<And>w. w \<in> set ws \<Longrightarrow> lo \<le> w ! i \<and> w ! i \<le> hi"
  shows "lo \<le> fedavg_column of_rat ws ns i \<and> fedavg_column of_rat ws ns i \<le> hi"
proof -
  let ?S = "\<Sum>c<length ws. ws ! c ! i * of_int (ns ! c)" and ?N = "of_int (sum_list ns) :: 'a"
  have N: "?N = (\<Sum>c<length ws. of_int (ns ! c))"
    using assms(2) by (simp add: sum_list_sum_nth atLeast0LessThan)
  have nn: "0 \<le> (of_int (ns ! c) :: 'a)" if "c < length ws" for c
    using assms(1,2) that by (simp add: samples_ok_def)
  have "lo * ?N \<le> ?S" unfolding N sum_distrib_left
    using assms(4) nn by (intro sum_mono mult_right_mono) auto
  moreover have "?S \<le> hi * ?N" unfolding N sum_distrib_left
    using assms(4) nn by (intro sum_mono mult_right_mono) auto
  moreover have "0 < ?N" using assms(3) by simp
  ultimately show ?thesis
    using assms(1) by (simp add: fedavg_column_exact le_divide_eq divide_le_eq)
qed

section \<open>Properties\<close>

text \<open>
  \<open>FedAvg\<close> never fails silently on well-formed input and its outcome is fully determined in
  every arithmetic, the machine's included: nil without clients, with mismatched slices or with
  no samples; a panic exactly when some client vector is shorter than the first; otherwise one
  accumulated column per weight, clients in order.
\<close>

theorem FedAvg_outcome:
  "FedAvg L ws ns =
    (if ws = [] then Some SNil
     else if length ws \<noteq> length ns then Some SNil
     else if sum_samples ns = 0 then Some SNil
     else if \<exists>w\<in>set ws. length w < length (hd ws) then None
     else Some (SList (map (fedavg_column L ws ns) [0..<length (hd ws)])))"
  by (simp add: FedAvg_eq)

text \<open>
  C2: over an exact ordered field \<open>FedAvg\<close> is the weighted mean the comment announces,
  \<open>w_global = \<Sum>(n_k / N) w_k\<close>: it returns a vector of the clients' dimension whose every
  component is the sample-weighted mean and lies within any bounds of the clients' components.
\<close>

theorem FedAvg_weighted_mean:
  fixes ws :: "'a::linordered_field list list"
  assumes "samples_ok ns" and "0 < sum_list ns" and "length ws = length ns"
    and "\<forall>w\<in>set ws. length w = d"
  shows "\<exists>agg. FedAvg of_rat ws ns = Some (SList agg) \<and> length agg = d \<and>
    (\<forall>i<d. agg ! i = (\<Sum>c<length ws. ws ! c ! i * of_int (ns ! c)) / of_int (sum_list ns)) \<and>
    (\<forall>i<d. \<forall>lo hi. (\<forall>w\<in>set ws. lo \<le> w ! i \<and> w ! i \<le> hi) \<longrightarrow> lo \<le> agg ! i \<and> agg ! i \<le> hi)"
proof -
  have ws: "ws \<noteq> []" using assms by auto
  then have d: "length (hd ws) = d" using assms(4) by simp
  have "FedAvg of_rat ws ns = Some (SList (map (fedavg_column of_rat ws ns) [0..<d]))"
    using assms ws d by (subst FedAvg_columns) (auto simp: fedavg_ready_def sum_samples_exact)
  moreover have "\<forall>i<d. fedavg_column of_rat ws ns i
      = (\<Sum>c<length ws. ws ! c ! i * of_int (ns ! c)) / of_int (sum_list ns)"
    using assms(1) fedavg_column_exact by blast
  moreover have "\<forall>i<d. \<forall>lo hi. (\<forall>w\<in>set ws. lo \<le> w ! i \<and> w ! i \<le> hi) \<longrightarrow>
      lo \<le> fedavg_column of_rat ws ns i \<and> fedavg_column of_rat ws ns i \<le> hi"
    using assms(1-3) fedavg_column_bounds [of ns ws] by blast
  ultimately show ?thesis by simp
qed

theorem FedAvg_weighted_mean_witness:
  "\<exists>agg. FedAvg of_rat [[1, 4], [3, 8 :: rat]] [1, 3] = Some (SList agg) \<and> length agg = 2 \<and>
    agg ! 0 = 5 / 2 \<and> agg ! 1 = 7"
proof -
  have h: "samples_ok [1, 3]" "0 < sum_list [1, 3 :: int]" "length [[1, 4], [3, 8 :: rat]] = length [1, 3 :: int]"
    "\<forall>w\<in>set [[1, 4], [3, 8 :: rat]]. length w = 2"
    by (simp_all add: samples_ok_def)
  show ?thesis
    using FedAvg_weighted_mean [OF h] by (auto simp: lessThan_Suc numeral_2_eq_2 All_less_Suc2)
qed

text \<open>
  In exact arithmetic the aggregate does not depend on the order in which Go's map iteration
  lists the clients.
\<close>

theorem FedAvg_order_independent:
  fixes ws :: "'a::linordered_field list list"
  assumes "samples_ok ns" and "length ws = length ns" and "\<forall>w\<in>set ws. length w = d"
    and "length ws' = length ns'" and "mset (zip ws' ns') = mset (zip ws ns)"
  shows "FedAvg of_rat ws' ns' = FedAvg of_rat ws ns"
proof -
  have "mset (map fst (zip ws' ns')) = mset (map fst (zip ws ns))"
    and "mset (map snd (zip ws' ns')) = mset (map snd (zip ws ns))"
    using assms(5) by (simp_all only: mset_map)
  then have m: "mset ws' = mset ws" "mset ns' = mset ns" using assms(2,4) by simp_all
  then have s: "set ws' = set ws" "set ns' = set ns" "sum_list ns' = sum_list ns"
    by (metis set_mset_mset, metis set_mset_mset, metis sum_mset_sum_list)
  then have ok: "samples_ok ns'" using assms(1) by (simp add: samples_ok_def)
  have col: "fedavg_column of_rat ws' ns' = fedavg_column of_rat ws ns"
    using assms(1,2,4) ok s(3)
    by (simp add: fun_eq_iff fedavg_column_zip sum_list_map_mset [OF assms(5)])
  have "ws' = [] \<longleftrightarrow> ws = []" using m(1) by auto
  moreover have "ws \<noteq> [] \<Longrightarrow> length (hd ws') = d \<and> length (hd ws) = d"
    using assms(3) s(1) calculation by (metis hd_in_set)
  ultimately show ?thesis
    using assms(1-4) ok s by (auto simp: FedAvg_eq sum_samples_exact col)
qed

theorem FedAvg_order_independent_witness:
  "FedAvg of_rat [[3, 8], [1, 4 :: rat]] [3, 1] = FedAvg of_rat [[1, 4], [3, 8]] [1, 3]"
  by (rule FedAvg_order_independent [where d = 2]) (simp_all add: samples_ok_def)

end
