(* ===== verification/Coordinator.thy ===== *)
theory Coordinator
  imports Durable Mlp Fed_Avg
begin

text \<open>
  The coordinator actor (\<^verbatim>\<open>smart-home/actors/coordinator.go\<close>): it keeps the registered sensors and the global
  weights, starts the rounds, collects the updates of the current round and aggregates them.

  Handlers return the new state and their effects. Maps are association lists, visited in the order that
  the environment gives. The mutex protects the observers that other goroutines call; a handler runs as a whole.
  The callback \<^verbatim>\<open>onRemoteSensor\<close> is a tag: the program installs one function (\<^verbatim>\<open>cmd/coordinator-service/main.go\<close>).
  \<open>r\<close> are the random draws of \<open>NewMLP\<close>.
\<close>

record sensorInfo =
  infoRoomID :: string
  infoNumSamples :: int

datatype remote_callback = CreateRemoteRef

record 'f CoordinatorActor =
  coordID :: ActorID
  roundNo :: int
  sensors :: "(string, sensorInfo) gomap"
  pendingRound :: int
  pendingUpdates :: "(string, 'f payload) gomap"
  globalWeights :: "f64 slice"
  numWeights :: int
  numEpochs :: int
  learningRate :: f64
  roundStart :: int
  loggerRef :: ActorID
  deviceRef :: ActorID
  coordPersister :: "Persister option"
  sensorRemoteRefs :: "(string, actor_ref) gomap"
  onRemoteSensor :: "remote_callback option"

definition NewCoordinatorActor :: "ActorID \<Rightarrow> ActorID \<Rightarrow> ActorID \<Rightarrow> int \<Rightarrow> 'f CoordinatorActor" where
  "NewCoordinatorActor i loggerID deviceID n = \<lparr>coordID = i, roundNo = 0, sensors = [], pendingRound = 0, pendingUpdates = [],
     globalWeights = SNil, numWeights = n, numEpochs = 5, learningRate = lit (1 / 100), roundStart = zero_time,
     loggerRef = loggerID, deviceRef = deviceID, coordPersister = None, sensorRemoteRefs = [], onRemoteSensor = None\<rparr>"

definition SetTrainingConfig :: "int \<Rightarrow> f64 \<Rightarrow> 'f CoordinatorActor \<Rightarrow> 'f CoordinatorActor" where
  "SetTrainingConfig epochs lr st = st\<lparr>numEpochs := epochs, learningRate := lr\<rparr>"

definition coord_SetPersister :: "Persister \<Rightarrow> 'f CoordinatorActor \<Rightarrow> 'f CoordinatorActor" where
  "coord_SetPersister p st = st\<lparr>coordPersister := Some p\<rparr>"

definition OnRemoteSensor :: "remote_callback \<Rightarrow> 'f CoordinatorActor \<Rightarrow> 'f CoordinatorActor" where
  "OnRemoteSensor fn st = st\<lparr>onRemoteSensor := Some fn\<rparr>"

definition SetSensorRemoteRef :: "string \<Rightarrow> actor_ref \<Rightarrow> 'f CoordinatorActor \<Rightarrow> 'f CoordinatorActor" where
  "SetSensorRemoteRef i ref st = st\<lparr>sensorRemoteRefs := mput i ref (sensorRemoteRefs st)\<rparr>"

text \<open>The function that the coordinator service installs.\<close>

fun call_back :: "remote_callback \<Rightarrow> string \<Rightarrow> string \<Rightarrow> 'f CoordinatorActor \<Rightarrow> 'f CoordinatorActor" where
  "call_back CreateRemoteRef i addr st = SetSensorRemoteRef i (RemoteRef i addr) st"

section \<open>Persistence\<close>

definition sensorInfoData :: gotype where
  "sensorInfoData = TStruct [(''sensor_id'', TString), (''room_id'', TString), (''num_samples'', TInt)]"

definition coordinatorSavedState :: gotype where
  "coordinatorSavedState = TStruct [(''round'', TInt), (''global_weights'', TFloats), (''sensors'', TSlice sensorInfoData)]"

definition info_val :: "string \<times> sensorInfo \<Rightarrow> goval" where
  "info_val kv = VStruct [VString (fst kv), VString (infoRoomID (snd kv)), VInt (infoNumSamples (snd kv))]"

definition info_of :: "goval \<Rightarrow> string \<times> sensorInfo" where
  "info_of v = (case v of VStruct [VString i, VString room, VInt n] \<Rightarrow> (i, \<lparr>infoRoomID = room, infoNumSamples = n\<rparr>)
     | _ \<Rightarrow> ('''', \<lparr>infoRoomID = '''', infoNumSamples = 0\<rparr>))"

text \<open>\<open>ids\<close> is the order in which the loop visits the sensors. Appending to a nil slice leaves it nil without sensors.\<close>

definition coord_saved :: "string list \<Rightarrow> 'f CoordinatorActor \<Rightarrow> goval" where
  "coord_saved ids st = VStruct [VInt (roundNo st), floats (globalWeights st),
     VSlice (if ids = [] then None else Some (map (\<lambda>i. info_val (i, the (mget (sensors st) i))) ids))]"

definition coord_restore :: "goval \<Rightarrow> 'f CoordinatorActor \<Rightarrow> 'f CoordinatorActor" where
  "coord_restore v st = (case v of
     VStruct [VInt r, VSlice w, VSlice ss] \<Rightarrow>
       st\<lparr>roundNo := r, globalWeights := (if w = None then globalWeights st else to_floats w),
          sensors := fold (\<lambda>x. case info_of x of (i, info) \<Rightarrow> mput i info) (case ss of None \<Rightarrow> [] | Some xs \<Rightarrow> xs) []\<rparr>
   | _ \<Rightarrow> st)"

definition coord_OnPreStart :: "fault \<Rightarrow> disk \<Rightarrow> 'f CoordinatorActor \<Rightarrow> 'f CoordinatorActor" where
  "coord_OnPreStart fl d st = load_state coordinatorSavedState coord_restore fl d (coordPersister st) (coordID st) st"

definition coord_persistState :: "go_env \<Rightarrow> 'f CoordinatorActor \<Rightarrow> 'f eff list" where
  "coord_persistState e st =
    save_state coordinatorSavedState (coordPersister st) (coordID st) (coord_saved (iter e (keys (sensors st))) st)"

section \<open>Handlers\<close>

definition lookupRef :: "ctx \<Rightarrow> 'f CoordinatorActor \<Rightarrow> string \<Rightarrow> actor_ref option" where
  "lookupRef c st i = (case mget (sensorRemoteRefs st) i of
     Some r \<Rightarrow> Some r
   | None \<Rightarrow> map_option LocalRef (look c i))"

definition handleRegisterSensor :: "'f payload message \<Rightarrow> 'f CoordinatorActor \<Rightarrow> ('f CoordinatorActor, 'f) hres" where
  "handleRegisterSensor msg st = (case castPayload PRegisterSensor (Payload msg) of
     None \<Rightarrow> HRes st [] None
   | Some p \<Rightarrow>
       (let st1 = st\<lparr>sensors := mput (pSensorID p) \<lparr>infoRoomID = pRoomID p, infoNumSamples = pNumSamples p\<rparr> (sensors st)\<rparr>
        in if globalWeights st1 = SNil \<and> numWeights st1 < 0 then HRes st1 [] (Some ''makeslice: len out of range'')
           else let st2 = (if globalWeights st1 = SNil
                  then st1\<lparr>globalWeights := SList (replicate (nat (numWeights st1)) (lit (1 / 100)))\<rparr> else st1)
             in HRes (if pAddress p \<noteq> '''' then (case onRemoteSensor st2 of
                    Some fn \<Rightarrow> call_back fn (pSensorID p) (pAddress p) st2
                  | None \<Rightarrow> st2) else st2) [] None))"

definition handleRequestStatus :: "ctx \<Rightarrow> 'f payload message \<Rightarrow> 'f CoordinatorActor \<Rightarrow> ('f CoordinatorActor, 'f) hres" where
  "handleRequestStatus c msg st =
    HRes st (if Sender msg \<noteq> '''' then (case look c (Sender msg) of
        Some ref \<Rightarrow> [ETell (LocalRef ref) (mkMessage ''smart_home.status_response''
          (Dyn (StatusResponsePayload (roundNo st) (int (length (sensors st))))) '''')]
      | None \<Rightarrow> []) else []) None"

text \<open>A loop that sends \<open>msg\<close> to each sensor in \<open>ids\<close> that has a reference.\<close>

definition tell_sensors :: "ctx \<Rightarrow> 'f CoordinatorActor \<Rightarrow> 'f payload message \<Rightarrow> string list \<Rightarrow> 'f eff list" where
  "tell_sensors c st msg ids = concat (map (\<lambda>i. case lookupRef c st i of None \<Rightarrow> [] | Some ref \<Rightarrow> [ETell ref msg]) ids)"

definition handleStartRound :: "go_env \<Rightarrow> ctx \<Rightarrow> 'f CoordinatorActor \<Rightarrow> ('f CoordinatorActor, 'f) hres" where
  "handleStartRound e c st =
    (let rnd = wrap64 (roundNo st + 1);
         sensorIDs = iter e (keys (sensors st));
         ws = copyWeights (globalWeights st);
         st1 = st\<lparr>roundNo := rnd, pendingRound := rnd, pendingUpdates := [], roundStart := now e\<rparr>
     in if length sensorIDs = 0 then HRes st1 [] None
        else HRes st1 (tell_sensors c st1 (mkMessage MsgStartTraining
          (Dyn (StartTrainingPayload rnd ws (learningRate st1) (numEpochs st1))) (Self c)) sensorIDs) None)"

section \<open>Aggregation\<close>

definition clampF :: "f64 \<Rightarrow> f64 \<Rightarrow> f64 \<Rightarrow> f64" where
  "clampF v lo hi = (if v < lo then lo else if hi < v then hi else v)"

definition avg_loss :: "int \<Rightarrow> 'f payload list \<Rightarrow> f64" where
  "avg_loss totalSamples updates =
    fold (\<lambda>u avg. let ratio = of_goint (pNumSamples u) / of_goint totalSamples in avg + pLoss u * ratio) updates 0"

text \<open>\<^verbatim>\<open>time.Since(start).Milliseconds()\<close>: the difference saturates, the division truncates.\<close>

definition elapsed_ms :: "int \<Rightarrow> int \<Rightarrow> int" where
  "elapsed_ms t start = (let d = max (- (2 ^ 63)) (min (2 ^ 63 - 1) (t - start))
     in if d < 0 then - ((- d) div 1000000) else d div 1000000)"

definition sample_input :: "f64 list" where
  "sample_input = [lit ((24 - 15) / 20), lit ((50 - 20) / 60), lit ((500 - 50) / 950), lit 1, lit (14 / 23)]"

text \<open>The environment that the global model prescribes; \<^const>\<open>None\<close> when installing the weights panics.\<close>

definition infer_targets :: "(nat \<Rightarrow> f64) \<Rightarrow> f64 list \<Rightarrow> (f64 \<times> f64 \<times> f64) option" where
  "infer_targets r aggregated = do {
     m \<leftarrow> SetWeights (NewMLP r 5 8 3) aggregated;
     pred \<leftarrow> Predict m sample_input;
     p0 \<leftarrow> idx pred 0;
     p1 \<leftarrow> idx pred 1;
     p2 \<leftarrow> idx pred 2;
     Some (clampF (p0 * lit 10 + lit 18) (lit 18) (lit 28), clampF (p1 * lit 40 + lit 30) (lit 30) (lit 70),
       clampF (p2 * lit 300 + lit 50) (lit 50) (lit 350))
   }"

definition aggregateAndFinalise :: "(nat \<Rightarrow> f64) \<Rightarrow> go_env \<Rightarrow> ctx \<Rightarrow> 'f CoordinatorActor \<Rightarrow> ('f CoordinatorActor, 'f) hres" where
  "aggregateAndFinalise r e c st =
    (let updates = map (\<lambda>i. the (mget (pendingUpdates st) i)) (iter e (keys (pendingUpdates st)));
         allSensorIDs = iter e (keys (sensors st));
         totalSamples = sum_samples (map pNumSamples updates)
     in if totalSamples = 0 \<or> length (elems (globalWeights st)) = 0 then HRes st [] None
        else case FedAvg lit (map (\<lambda>u. elems (pWeights u)) updates) (map pNumSamples updates) of
          None \<Rightarrow> HRes st [] (Some ''index out of range'')
        | Some aggregated \<Rightarrow>
            (let avgLoss = avg_loss totalSamples updates;
                 st1 = st\<lparr>globalWeights := aggregated\<rparr>;
                 updateEffs = tell_sensors c st1 (mkMessage MsgGlobalModelUpdate
                   (Dyn (GlobalModelUpdatePayload (roundNo st) aggregated avgLoss)) (Self c)) allSensorIDs;
                 logEffs = (if loggerRef st1 \<noteq> '''' then (case look c (loggerRef st1) of
                     Some ref \<Rightarrow> [ETell (LocalRef ref) (mkMessage MsgRoundComplete
                       (Dyn (RoundCompletePayload (roundNo st) avgLoss (int (length updates)) (elapsed_ms (now e) (roundStart st)))) '''')]
                   | None \<Rightarrow> []) else [])
             in case (if deviceRef st1 \<noteq> '''' then look c (deviceRef st1) else None) of
                  None \<Rightarrow> HRes st1 (updateEffs @ logEffs @ coord_persistState e st1) None
                | Some dev \<Rightarrow>
                    (case infer_targets r (elems aggregated) of
                       None \<Rightarrow> HRes st1 (updateEffs @ logEffs) (Some ''slice bounds out of range'')
                     | Some (targetTemp, targetHum, targetLight) \<Rightarrow>
                         HRes st1 (updateEffs @ logEffs @
                           [ETell (LocalRef dev) (mkMessage MsgAdjustEnvironment
                             (Dyn (AdjustEnvironmentPayload ''all'' targetTemp targetHum targetLight)) '''')] @
                           coord_persistState e st1) None)))"

definition handleModelUpdate :: "(nat \<Rightarrow> f64) \<Rightarrow> go_env \<Rightarrow> ctx \<Rightarrow> 'f payload message \<Rightarrow> 'f CoordinatorActor \<Rightarrow> ('f CoordinatorActor, 'f) hres" where
  "handleModelUpdate r e c msg st = (case castPayload PModelUpdate (Payload msg) of
     None \<Rightarrow> HRes st [] None
   | Some p \<Rightarrow>
       if pRoundID p \<noteq> pendingRound st then HRes st [] None
       else let st1 = st\<lparr>pendingUpdates := mput (pSensorID p) p (pendingUpdates st)\<rparr>;
                received = length (pendingUpdates st1);
                total = length (sensors st1)
            in if received \<ge> total then aggregateAndFinalise r e c st1 else HRes st1 [] None)"

definition coord_Receive :: "(nat \<Rightarrow> f64) \<Rightarrow> go_env \<Rightarrow> ctx \<Rightarrow> 'f payload message \<Rightarrow> 'f CoordinatorActor \<Rightarrow> ('f CoordinatorActor, 'f) hres" where
  "coord_Receive r e c msg st =
    (if MsgType msg = MsgRegisterSensor then handleRegisterSensor msg st
     else if MsgType msg = MsgStartRound then handleStartRound e c st
     else if MsgType msg = MsgModelUpdate then handleModelUpdate r e c msg st
     else if MsgType msg = MsgRequestStatus then handleRequestStatus c msg st
     else HRes st [] None)"

text \<open>Observers, and the two functions that other goroutines call on a reference to the coordinator.\<close>

definition coord_RoundID :: "'f CoordinatorActor \<Rightarrow> int" where
  "coord_RoundID st = roundNo st"

definition SensorCount :: "'f CoordinatorActor \<Rightarrow> int" where
  "SensorCount st = int (length (sensors st))"

definition coord_Weights :: "'f CoordinatorActor \<Rightarrow> f64 slice" where
  "coord_Weights st = copyWeights (globalWeights st)"

definition StartRound :: "actor_ref \<Rightarrow> 'f eff" where
  "StartRound ref = ETell ref (mkMessage MsgStartRound (Dyn StartRoundPayload) '''')"

definition RegisterSensor :: "actor_ref \<Rightarrow> string \<Rightarrow> string \<Rightarrow> int \<Rightarrow> string \<Rightarrow> 'f eff" where
  "RegisterSensor ref i room n addr = ETell ref (mkMessage MsgRegisterSensor (Dyn (RegisterSensorPayload i room n addr)) '''')"

section \<open>Lemmas\<close>

subsection \<open>Sending\<close>

text \<open>The messages that a broadcast loop sends: one to each sensor with a reference.\<close>

definition addressed :: "ctx \<Rightarrow> 'f CoordinatorActor \<Rightarrow> 'f payload message \<Rightarrow> string list \<Rightarrow> (actor_ref \<times> 'f payload message) list" where
  "addressed c st msg ids = List.map_filter (\<lambda>i. map_option (\<lambda>ref. (ref, msg)) (lookupRef c st i)) ids"

lemma sent_tell_sensors [simp]: "sent (tell_sensors c st msg ids) = addressed c st msg ids"
  by (induction ids) (auto simp: tell_sensors_def addressed_def List.map_filter_simps split: option.splits)

lemma addressed_iff: "(ref, m) \<in> set (addressed c st msg ids) \<longleftrightarrow> m = msg \<and> (\<exists>i\<in>set ids. lookupRef c st i = Some ref)"
  by (induction ids) (auto simp: addressed_def List.map_filter_simps split: option.splits)

lemma sent_coord_persist [simp]: "sent (coord_persistState e st) = []"
  by (simp add: coord_persistState_def save_state_def split: option.splits)

lemma addressed_cong: "sensorRemoteRefs st' = sensorRemoteRefs st \<Longrightarrow> addressed c st' msg ids = addressed c st msg ids"
  by (simp add: addressed_def lookupRef_def)

subsection \<open>Targets\<close>

lemma clampF_bounds: "IsNaN (clampF v (FNum lo) (FNum hi)) \<or> fle (FNum lo) (clampF v (FNum lo) (FNum hi)) \<and> fle (clampF v (FNum lo) (FNum hi)) (FNum hi)"
  if "lo \<le> hi"
  using that by (cases v) (auto simp: clampF_def less_f64_def)

lemma infer_targets_eq:
  "infer_targets r w = (if length w < 72 then None
    else let m = \<lparr>InputDim = 5, HiddenDim = 8, OutputDim = 3, W1 = take 40 w, B1 = take 8 (drop 40 w), W2 = take 24 (drop 48 w),
        B2 = take 3 (drop 72 w) @ replicate (75 - length w) 0\<rparr>;
      y = outp m sample_input
    in Some (clampF (y 0 * lit 10 + lit 18) (lit 18) (lit 28), clampF (y 1 * lit 40 + lit 30) (lit 30) (lit 70),
        clampF (y 2 * lit 300 + lit 50) (lit 50) (lit 350)))"
proof (cases "length w < 72")
  case True
  then have "SetWeights (NewMLP r 5 8 3) w = None" by (simp add: SetWeights_None_iff NewMLP_def Let_def)
  with True show ?thesis by (simp add: infer_targets_def)
next
  case False
  let ?m = "\<lparr>InputDim = 5, HiddenDim = 8, OutputDim = 3, W1 = take 40 w, B1 = take 8 (drop 40 w), W2 = take 24 (drop 48 w),
        B2 = take 3 (drop 72 w) @ replicate (75 - length w) 0\<rparr>"
  have "drop (length w - 72) (replicate 3 (0::f64)) = replicate (75 - length w) 0" using False by (simp add: drop_replicate)
  then have s: "SetWeights (NewMLP r 5 8 3) w = Some ?m"
    using False by (simp add: SetWeights_def NewMLP_def Let_def copy_from_def)
  have "wf_mlp ?m" using False by (simp add: wf_mlp_def)
  then have "Predict ?m sample_input = Some (map (outp ?m sample_input) [0..<3])"
    by (subst Predict_eq) (simp_all add: sample_input_def)
  with s False show ?thesis by (simp add: infer_targets_def Let_def idx_def numeral_2_eq_2)
qed

subsection \<open>Aggregation\<close>

definition updates_of :: "go_env \<Rightarrow> 'f CoordinatorActor \<Rightarrow> 'f payload list" where
  "updates_of e st = map (\<lambda>i. the (mget (pendingUpdates st) i)) (iter e (keys (pendingUpdates st)))"

lemma mset_updates_of:
  assumes "env_ok e" "gomap_inv (pendingUpdates st)"
  shows "mset (updates_of e st) = mset (map snd (pendingUpdates st))"
proof -
  have "mset (updates_of e st) = mset (map (\<lambda>i. the (mget (pendingUpdates st) i)) (keys (pendingUpdates st)))"
    using assms(1) unfolding updates_of_def env_ok_def by (metis mset_map)
  also have "map (\<lambda>i. the (mget (pendingUpdates st) i)) (keys (pendingUpdates st)) = map snd (pendingUpdates st)"
    using assms(2) by (auto simp: gomap_inv_def)
  finally show ?thesis .
qed

definition round_log :: "go_env \<Rightarrow> ctx \<Rightarrow> 'f CoordinatorActor \<Rightarrow> f64 \<Rightarrow> (actor_ref \<times> 'f payload message) list" where
  "round_log e c st l = (if loggerRef st \<noteq> '''' then (case look c (loggerRef st) of
     Some ref \<Rightarrow> [(LocalRef ref, mkMessage MsgRoundComplete
       (Dyn (RoundCompletePayload (roundNo st) l (int (length (pendingUpdates st))) (elapsed_ms (now e) (roundStart st)))) '''')]
   | None \<Rightarrow> []) else [])"

definition round_targets :: "(nat \<Rightarrow> f64) \<Rightarrow> ctx \<Rightarrow> 'f CoordinatorActor \<Rightarrow> f64 list \<Rightarrow> (actor_ref \<times> 'f payload message) list" where
  "round_targets r c st w = (case (if deviceRef st \<noteq> '''' then look c (deviceRef st) else None) of
     None \<Rightarrow> []
   | Some dev \<Rightarrow> (case infer_targets r w of
       None \<Rightarrow> []
     | Some (t, h, l) \<Rightarrow> [(LocalRef dev, mkMessage MsgAdjustEnvironment (Dyn (AdjustEnvironmentPayload ''all'' t h l)) '''')]))"

lemma round_messages_weights [simp]:
  "round_log e c (st\<lparr>globalWeights := w\<rparr>) l = round_log e c st l"
  "round_targets r c (st\<lparr>globalWeights := w\<rparr>) agg = round_targets r c st agg"
  by (simp_all add: round_log_def round_targets_def cong: option.case_cong)

text \<open>What a finished round does, for updates of the right shape.\<close>

lemma aggregate_eq:
  fixes st :: "'f CoordinatorActor"
  assumes "env_ok e" and "FedAvg lit (map (\<lambda>u. elems (pWeights u)) (updates_of e st)) (map pNumSamples (updates_of e st)) = Some (SList agg)"
    and "sum_samples (map pNumSamples (updates_of e st)) \<noteq> 0" "elems (globalWeights st) \<noteq> []"
    and "72 \<le> length agg \<or> deviceRef st = '''' \<or> look c (deviceRef st) = None"
  defines "l \<equiv> avg_loss (sum_samples (map pNumSamples (updates_of e st))) (updates_of e st)"
  shows "\<exists>effs. aggregateAndFinalise r e c st = HRes (st\<lparr>globalWeights := SList agg\<rparr>) effs None \<and>
    sent effs = addressed c st (mkMessage MsgGlobalModelUpdate (Dyn (GlobalModelUpdatePayload (roundNo st) (SList agg) l)) (Self c))
        (iter e (keys (sensors st))) @ round_log e c st l @ round_targets r c st agg"
proof -
  have t: "infer_targets r agg \<noteq> None" if "72 \<le> length agg" using that by (simp add: infer_targets_eq Let_def)
  have a: "addressed c (st\<lparr>globalWeights := SList agg\<rparr>) msg ids = addressed c st msg ids" for msg ids
    by (rule addressed_cong) simp
  have len: "length (updates_of e st) = length (pendingUpdates st)" using assms(1) by (simp add: updates_of_def)
  show ?thesis
    using assms(2-5) t a len unfolding aggregateAndFinalise_def updates_of_def [symmetric] Let_def
    by (auto simp: round_log_def round_targets_def l_def split: option.splits)
qed

subsection \<open>Collecting updates\<close>

text \<open>
  What the coordinator knows: maps have one entry per key, and the updates it has collected are filed under their
  sender and belong to the round it waits for; once a sensor is registered there are global weights.
\<close>

definition coord_inv :: "'f CoordinatorActor \<Rightarrow> bool" where
  "coord_inv st \<longleftrightarrow> gomap_inv (sensors st) \<and> gomap_inv (pendingUpdates st) \<and> gomap_inv (sensorRemoteRefs st) \<and>
    (\<forall>(i, u) \<in> set (pendingUpdates st). pSensorID u = i \<and> pRoundID u = pendingRound st) \<and>
    (sensors st \<noteq> [] \<longrightarrow> globalWeights st \<noteq> SNil)"

lemma set_mput: "x \<in> set (mput k v m) \<Longrightarrow> x = (k, v) \<or> x \<in> set m"
  by (induction k v m rule: mput.induct) (auto split: if_splits)

lemma mput_not_Nil [simp]: "mput k v m \<noteq> []"
  by (cases m) (auto split: if_splits)

lemma handleRegisterSensor_inv:
  assumes "coord_inv st" "0 \<le> numWeights st"
  shows "coord_inv (hstate (handleRegisterSensor msg st)) \<and> numWeights (hstate (handleRegisterSensor msg st)) = numWeights st"
proof (cases "castPayload PRegisterSensor (Payload msg)")
  case (Some p)
  have cb: "coord_inv (call_back fn i a st') \<and> numWeights (call_back fn i a st') = numWeights st'" if "coord_inv st'" for fn i a and st' :: "'f CoordinatorActor"
    using that by (cases fn) (simp add: SetSensorRemoteRef_def coord_inv_def)
  let ?st1 = "st\<lparr>sensors := mput (pSensorID p) \<lparr>infoRoomID = pRoomID p, infoNumSamples = pNumSamples p\<rparr> (sensors st)\<rparr>"
  let ?st2 = "if globalWeights st = SNil then ?st1\<lparr>globalWeights := SList (replicate (nat (numWeights st)) (lit (1 / 100)))\<rparr> else ?st1"
  have "coord_inv ?st2" "numWeights ?st2 = numWeights st" using assms(1) by (auto simp: coord_inv_def)
  with Some assms(2) cb [of ?st2] show ?thesis by (auto simp: handleRegisterSensor_def Let_def split: option.splits if_splits)
qed (use assms in \<open>simp add: handleRegisterSensor_def\<close>)

lemma aggregate_hstate:
  "hstate (aggregateAndFinalise r e c st) =
    (if sum_samples (map pNumSamples (updates_of e st)) = 0 \<or> elems (globalWeights st) = [] then st
     else case FedAvg lit (map (\<lambda>u. elems (pWeights u)) (updates_of e st)) (map pNumSamples (updates_of e st)) of
       None \<Rightarrow> st | Some w \<Rightarrow> st\<lparr>globalWeights := w\<rparr>)"
  unfolding aggregateAndFinalise_def updates_of_def [symmetric] Let_def by (simp split: option.split prod.split)

lemma FedAvg_not_nil: "FedAvg L ws ns = Some w \<Longrightarrow> sum_samples ns \<noteq> 0 \<Longrightarrow> length ws = length ns \<Longrightarrow> w \<noteq> SNil"
  by (cases "ns = []") (auto simp: FedAvg_eq sum_samples_def split: if_splits)

lemma aggregate_inv:
  assumes "coord_inv st"
  shows "coord_inv (hstate (aggregateAndFinalise r e c st)) \<and> numWeights (hstate (aggregateAndFinalise r e c st)) = numWeights st"
  using assms by (auto simp: aggregate_hstate coord_inv_def dest: FedAvg_not_nil split: option.split)

lemma handleModelUpdate_inv:
  assumes "coord_inv st"
  shows "coord_inv (hstate (handleModelUpdate r e c msg st)) \<and> numWeights (hstate (handleModelUpdate r e c msg st)) = numWeights st"
proof (cases "castPayload PModelUpdate (Payload msg)")
  case (Some p)
  let ?st = "st\<lparr>pendingUpdates := mput (pSensorID p) p (pendingUpdates st)\<rparr>"
  have "coord_inv ?st" if "pRoundID p = pendingRound st"
    using that assms by (auto simp: coord_inv_def dest!: set_mput)
  then show ?thesis using assms aggregate_inv [of ?st r e c] Some by (simp add: handleModelUpdate_def Let_def)
qed (use assms in \<open>simp add: handleModelUpdate_def\<close>)

lemma handleStartRound_inv: "coord_inv st \<Longrightarrow> coord_inv (hstate (handleStartRound e c st)) \<and> numWeights (hstate (handleStartRound e c st)) = numWeights st"
  by (simp add: handleStartRound_def Let_def coord_inv_def)

lemma coord_Receive_inv:
  assumes "coord_inv st" "0 \<le> numWeights st"
  shows "coord_inv (hstate (coord_Receive r e c msg st)) \<and> numWeights (hstate (coord_Receive r e c msg st)) = numWeights st"
  using assms handleRegisterSensor_inv [OF assms, of msg] handleModelUpdate_inv [OF assms(1), of r e c msg] handleStartRound_inv [OF assms(1), of e c]
  by (simp add: coord_Receive_def handleRequestStatus_def)

text \<open>A sequence of messages handled one after the other, each with its own environment and context.\<close>

fun deliver :: "(nat \<Rightarrow> f64) \<Rightarrow> (go_env \<times> ctx \<times> 'f payload message) list \<Rightarrow> 'f CoordinatorActor \<Rightarrow> ('f CoordinatorActor, 'f) hres" where
  "deliver r [] st = HRes st [] None"
| "deliver r ((e, c, m) # xs) st = (case coord_Receive r e c m st of
     HRes st1 effs (Some p) \<Rightarrow> HRes st1 effs (Some p)
   | HRes st1 effs None \<Rightarrow> (case deliver r xs st1 of HRes st2 effs' pan \<Rightarrow> HRes st2 (effs @ effs') pan))"

definition carries :: "'f payload message \<Rightarrow> 'f payload \<Rightarrow> bool" where
  "carries m u \<longleftrightarrow> MsgType m = MsgModelUpdate \<and> castPayload PModelUpdate (Payload m) = Some u"

definition filed :: "'f payload list \<Rightarrow> (string, 'f payload) gomap" where
  "filed us = map (\<lambda>u. (pSensorID u, u)) us"

lemma filed_simps [simp]: "filed [] = []" "filed (u # us) = (pSensorID u, u) # filed us" "filed (us @ vs) = filed us @ filed vs"
  "length (filed us) = length us" "keys (filed us) = map pSensorID us" "map snd (filed us) = us" "fst ` set (filed us) = pSensorID ` set us"
  by (auto simp: filed_def comp_def image_image)

lemma mput_fresh: "k \<notin> fst ` set m \<Longrightarrow> mput k v m = m @ [(k, v)]"
  by (induction k v m rule: mput.induct) auto

lemma Receive_update:
  assumes "carries m u" "pRoundID u = pendingRound st" "pSensorID u \<notin> fst ` set (pendingUpdates st)"
  shows "coord_Receive r e c m st =
    (let st1 = st\<lparr>pendingUpdates := pendingUpdates st @ [(pSensorID u, u)]\<rparr>
     in if Suc (length (pendingUpdates st)) \<ge> length (sensors st) then aggregateAndFinalise r e c st1 else HRes st1 [] None)"
  using assms by (simp add: coord_Receive_def carries_def handleModelUpdate_def mput_fresh Let_def)

text \<open>Updates before the last one are filed, and nothing is sent.\<close>

lemma deliver_collects:
  assumes "list_all2 (\<lambda>(e, c, m) u. carries m u) xs us" "\<forall>u\<in>set us. pRoundID u = pendingRound st"
    and "distinct (map pSensorID us)" "pSensorID ` set us \<inter> fst ` set (pendingUpdates st) = {}"
    and "length (pendingUpdates st) + length us < length (sensors st)"
  shows "deliver r xs st = HRes (st\<lparr>pendingUpdates := pendingUpdates st @ filed us\<rparr>) [] None"
  using assms
proof (induction xs us arbitrary: st rule: list_all2_induct)
  case (Cons x xs u us)
  obtain e c m where x: "x = (e, c, m)" by (cases x)
  let ?st = "st\<lparr>pendingUpdates := pendingUpdates st @ [(pSensorID u, u)]\<rparr>"
  have "coord_Receive r e c m st = HRes ?st [] None"
    using Cons.hyps(1) Cons.prems Receive_update [of m u st r e c] by (auto simp: x Let_def)
  moreover have "deliver r xs ?st = HRes (?st\<lparr>pendingUpdates := pendingUpdates ?st @ filed us\<rparr>) [] None"
    using Cons.prems by (intro Cons.IH) (auto simp: image_iff)
  ultimately show ?case by (simp add: x)
qed simp

lemma FedAvg_lit_updates:
  assumes "samples_ok (map pNumSamples us)" "0 < sum_list (map pNumSamples us)" "\<forall>u\<in>set us. length (elems (pWeights u)) = d"
    and "mset us' = mset us"
  shows "\<exists>agg. FedAvg lit (map (\<lambda>u. elems (pWeights u)) us') (map pNumSamples us') = Some (SList agg) \<and> length agg = d \<and>
    sum_samples (map pNumSamples us') \<noteq> 0"
proof -
  have s: "set us' = set us" "sum_list (map pNumSamples us') = sum_list (map pNumSamples us)"
    using assms(4) mset_eq_setD sum_list_map_mset [OF assms(4), of pNumSamples] by blast+
  then have "samples_ok (map pNumSamples us')" using assms(1) by (simp add: samples_ok_def)
  then have n: "sum_samples (map pNumSamples us') \<noteq> 0" using assms(2) s(2) by (simp add: sum_samples_exact)
  moreover from this have "us' \<noteq> []" by (auto simp: sum_samples_def)
  moreover from this have "length (elems (pWeights (hd us'))) = d" using assms(3) s(1) by (metis hd_in_set)
  ultimately show ?thesis using assms(3) s(1) by (subst FedAvg_columns) (auto simp: fedavg_ready_def hd_map)
qed

subsection \<open>Restoring\<close>

lemma info_of_val [simp]: "info_of (info_val (i, info)) = (i, info)"
  by (simp add: info_of_def info_val_def)

lemma mget_restored:
  "mget (fold (\<lambda>x. case info_of x of (i, info) \<Rightarrow> mput i info) (map (\<lambda>i. info_val (i, f i)) ids) acc) k =
    (if k \<in> set ids then Some (f k) else mget acc k)"
  by (induction ids arbitrary: acc) auto

lemma typed_info: "in_int64 (infoNumSamples (snd kv)) \<Longrightarrow> typed sensorInfoData (info_val kv)"
  by (simp add: sensorInfoData_def info_val_def)

definition coord_storable :: "go_env \<Rightarrow> 'f CoordinatorActor \<Rightarrow> bool" where
  "coord_storable e st \<longleftrightarrow> env_ok e \<and> list_all finite_f64 (elems (globalWeights st)) \<and> globalWeights st \<noteq> SNil \<and> in_int64 (roundNo st) \<and>
    (\<forall>i info. mget (sensors st) i = Some info \<longrightarrow> in_int64 (infoNumSamples info))"

definition coord_same :: "'f CoordinatorActor \<Rightarrow> 'f CoordinatorActor \<Rightarrow> bool" where
  "coord_same st st' \<longleftrightarrow> roundNo st = roundNo st' \<and> globalWeights st = globalWeights st' \<and> mget (sensors st) = mget (sensors st')"

interpretation coordinator: durable coordinatorSavedState "\<lambda>st :: 'f CoordinatorActor. coord_saved (iter e (keys (sensors st))) st"
  coord_restore "coord_storable e" coord_same for e
proof unfold_locales
  show "wf_type coordinatorSavedState" by (simp add: coordinatorSavedState_def sensorInfoData_def fold_name_def upper_def)
next
  fix st :: "'f CoordinatorActor" assume st: "coord_storable e st"
  then obtain ws where ws: "globalWeights st = SList ws" by (cases "globalWeights st") (auto simp: coord_storable_def)
  have "typed sensorInfoData (info_val (i, the (mget (sensors st) i)))" if "i \<in> set (iter e (keys (sensors st)))" for i
  proof -
    have "i \<in> fst ` set (sensors st)" using that st by (simp add: coord_storable_def)
    then obtain info where "mget (sensors st) i = Some info" using mget_eq_None_iff [of "sensors st" i] by auto
    then show ?thesis using st by (intro typed_info) (simp add: coord_storable_def)
  qed
  then show "typed coordinatorSavedState (coord_saved (iter e (keys (sensors st))) st)"
    using st ws by (simp add: coordinatorSavedState_def coord_saved_def coord_storable_def list_all_iff)
next
  fix st init :: "'f CoordinatorActor" assume st: "coord_storable e st"
  then obtain ws where ws: "globalWeights st = SList ws" by (cases "globalWeights st") (auto simp: coord_storable_def)
  let ?ids = "iter e (keys (sensors st))"
  have "mget (sensors (coord_restore (coord_saved ?ids st) init)) k = mget (sensors st) k" for k
  proof -
    have "sensors (coord_restore (coord_saved ?ids st) init)
        = fold (\<lambda>x. case info_of x of (i, info) \<Rightarrow> mput i info) (map (\<lambda>i. info_val (i, the (mget (sensors st) i))) ?ids) []"
      using ws by (simp add: coord_restore_def coord_saved_def)
    then show ?thesis
      using st mget_eq_None_iff [of "sensors st" k] by (cases "mget (sensors st) k") (simp_all add: mget_restored coord_storable_def)
  qed
  then have "mget (sensors (coord_restore (coord_saved ?ids st) init)) = mget (sensors st)" by (rule ext)
  moreover have "roundNo (coord_restore (coord_saved ?ids st) init) = roundNo st"
    "globalWeights (coord_restore (coord_saved ?ids st) init) = globalWeights st"
    using ws by (simp_all add: coord_restore_def coord_saved_def comp_def)
  ultimately show "coord_same (coord_restore (coord_saved ?ids st) init) st" by (simp only: coord_same_def simp_thms)
qed

section \<open>Properties\<close>

text \<open>
  C6: a round completes. The coordinator waits for a round, and every registered sensor sends one update for it, in any order,
  with weight vectors of one length and a positive number of samples in all. Then all updates before the last are only
  recorded; the last one makes the coordinator replace the global weights by the federated average of exactly these updates
  (in the order of its map), send the new model to every registered sensor that it can reach, report the round with
  the number of clients to the logger, and send the prescribed environment to the device controller. Nothing panics.
\<close>

theorem round_completes:
  fixes st :: "'f CoordinatorActor"
  assumes "coord_inv st" "pendingUpdates st = []" "elems (globalWeights st) \<noteq> []"
    and "list_all2 (\<lambda>(_, _, m) u. carries m u) (xs @ [(e, c, m)]) us"
    and "mset (map pSensorID us) = mset (keys (sensors st))"
    and "\<forall>u\<in>set us. pRoundID u = pendingRound st \<and> length (elems (pWeights u)) = d"
    and "samples_ok (map pNumSamples us)" "0 < sum_list (map pNumSamples us)"
    and "env_ok e" "72 \<le> d \<or> deviceRef st = '''' \<or> look c (deviceRef st) = None"
  shows "\<exists>st1 us' agg effs.
    deliver r xs st = HRes st1 [] None \<and> mset us' = mset us \<and>
    FedAvg lit (map (\<lambda>u. elems (pWeights u)) us') (map pNumSamples us') = Some (SList agg) \<and> length agg = d \<and>
    (let st' = st\<lparr>pendingUpdates := filed us, globalWeights := SList agg\<rparr>;
         l = avg_loss (sum_samples (map pNumSamples us')) us'
     in coord_Receive r e c m st1 = HRes st' effs None \<and>
        sent effs = addressed c st (mkMessage MsgGlobalModelUpdate (Dyn (GlobalModelUpdatePayload (roundNo st) (SList agg) l)) (Self c))
          (iter e (keys (sensors st))) @ round_log e c st' l @ round_targets r c st' agg)"
proof -
  obtain vs u where us: "us = vs @ [u]" and vs: "list_all2 (\<lambda>(e, c, m) u. carries m u) xs vs" and u: "carries m u"
    using assms(4) by (auto simp: list_all2_append1 list_all2_Cons1)
  have len: "length us = length (sensors st)" using mset_eq_length [OF assms(5)] by simp
  have d: "distinct (map pSensorID us)"
    using assms(1,5) by (metis coord_inv_def gomap_inv_def mset_eq_imp_distinct_iff)
  have col: "deliver r xs st = HRes (st\<lparr>pendingUpdates := filed vs\<rparr>) [] None"
    using deliver_collects [OF vs, of st r] assms(2,6) d us len by simp
  let ?st = "st\<lparr>pendingUpdates := filed us\<rparr>"
  have rec: "coord_Receive r e c m (st\<lparr>pendingUpdates := filed vs\<rparr>) = aggregateAndFinalise r e c ?st"
    using Receive_update [OF u, of "st\<lparr>pendingUpdates := filed vs\<rparr>" r e c] assms(6) d us len by (auto simp: Let_def)
  let ?us = "updates_of e ?st"
  have ms: "mset ?us = mset us" using mset_updates_of [OF assms(9), of ?st] d by (simp add: gomap_inv_def)
  have six: "\<forall>u\<in>set us. length (elems (pWeights u)) = d" using assms(6) by simp
  obtain agg where agg: "FedAvg lit (map (\<lambda>u. elems (pWeights u)) ?us) (map pNumSamples ?us) = Some (SList agg)" "length agg = d"
    "sum_samples (map pNumSamples ?us) \<noteq> 0"
    using FedAvg_lit_updates [OF assms(7,8) six ms] by blast
  have dev: "72 \<le> length agg \<or> deviceRef ?st = '''' \<or> look c (deviceRef ?st) = None" using assms(10) agg(2) by simp
  have gw: "elems (globalWeights ?st) \<noteq> []" using assms(3) by simp
  let ?l = "avg_loss (sum_samples (map pNumSamples ?us)) ?us"
  obtain effs where effs: "aggregateAndFinalise r e c ?st = HRes (?st\<lparr>globalWeights := SList agg\<rparr>) effs None"
    "sent effs = addressed c ?st (mkMessage MsgGlobalModelUpdate (Dyn (GlobalModelUpdatePayload (roundNo ?st) (SList agg) ?l)) (Self c))
        (iter e (keys (sensors ?st))) @ round_log e c ?st ?l @ round_targets r c ?st agg"
    using aggregate_eq [OF assms(9) agg(1,3) gw dev, of r] by blast
  have a: "addressed c ?st msg ids = addressed c st msg ids" for msg ids by (rule addressed_cong) simp
  have "sent effs = addressed c st (mkMessage MsgGlobalModelUpdate (Dyn (GlobalModelUpdatePayload (roundNo st) (SList agg) ?l)) (Self c))
      (iter e (keys (sensors st))) @ round_log e c (?st\<lparr>globalWeights := SList agg\<rparr>) ?l @ round_targets r c (?st\<lparr>globalWeights := SList agg\<rparr>) agg"
    using effs(2) a by simp
  with col rec effs(1) ms agg show ?thesis unfolding Let_def by (metis (no_types, lifting))
qed

definition two_sensors :: "unit CoordinatorActor" where
  "two_sensors = (NewCoordinatorActor ''coordinator'' '''' '''' 2)\<lparr>roundNo := 1, pendingRound := 1, globalWeights := SList [FNum 1, FNum 1],
     sensors := [(''a'', \<lparr>infoRoomID = ''kitchen'', infoNumSamples = 10\<rparr>), (''b'', \<lparr>infoRoomID = ''garage'', infoNumSamples = 30\<rparr>)]\<rparr>"

definition an_update :: "string \<Rightarrow> int \<Rightarrow> unit payload" where
  "an_update i n = ModelUpdatePayload i 1 (SList [FNum 1, FNum 2]) n (FNum 1)"

lemma carries_update: "carries (mkMessage MsgModelUpdate (Dyn (an_update i n)) i) (an_update i n)"
  by (simp add: carries_def mkMessage_def castPayload_def an_update_def)

theorem round_completes_witness:
  "let e = \<lparr>now = 0, iter = (\<lambda>ks. ks)\<rparr>; c = \<lparr>Self = ''coordinator'', CtxSender = None, look = [''a'' \<mapsto> 1, ''b'' \<mapsto> 2]\<rparr>;
     mb = mkMessage MsgModelUpdate (Dyn (an_update ''b'' 30)) ''b''; ma = mkMessage MsgModelUpdate (Dyn (an_update ''a'' 10)) ''a''
   in \<exists>st1 agg effs st'. deliver (\<lambda>_. 0) [(e, c, mb)] two_sensors = HRes st1 [] None \<and> coord_Receive (\<lambda>_. 0) e c ma st1 = HRes st' effs None \<and>
     globalWeights st' = SList agg \<and> length agg = 2"
proof -
  let ?e = "\<lparr>now = 0, iter = (\<lambda>ks. ks)\<rparr>" and ?c = "\<lparr>Self = ''coordinator'', CtxSender = None, look = [''a'' \<mapsto> 1, ''b'' \<mapsto> 2]\<rparr>"
  let ?mb = "mkMessage MsgModelUpdate (Dyn (an_update ''b'' 30)) ''b''" and ?ma = "mkMessage MsgModelUpdate (Dyn (an_update ''a'' 10)) ''a''"
  have 1: "coord_inv two_sensors" "pendingUpdates two_sensors = []" "elems (globalWeights two_sensors) \<noteq> []" "env_ok ?e"
    "72 \<le> (2::nat) \<or> deviceRef two_sensors = '''' \<or> look ?c (deviceRef two_sensors) = None"
    by (simp_all add: two_sensors_def NewCoordinatorActor_def coord_inv_def gomap_inv_def env_ok_def)
  have 2: "list_all2 (\<lambda>(_, _, m) u. carries m u) ([(?e, ?c, ?mb)] @ [(?e, ?c, ?ma)]) [an_update ''b'' 30, an_update ''a'' 10]"
    by (simp add: carries_update)
  have 3: "mset (map pSensorID [an_update ''b'' 30, an_update ''a'' 10]) = mset (keys (sensors two_sensors))"
    "\<forall>u\<in>set [an_update ''b'' 30, an_update ''a'' 10]. pRoundID u = pendingRound two_sensors \<and> length (elems (pWeights u)) = 2"
    "samples_ok (map pNumSamples [an_update ''b'' 30, an_update ''a'' 10])" "0 < sum_list (map pNumSamples [an_update ''b'' 30, an_update ''a'' 10])"
    by (simp_all add: an_update_def two_sensors_def samples_ok_def)
  obtain st1 agg effs where o: "deliver (\<lambda>_. 0) [(?e, ?c, ?mb)] two_sensors = HRes st1 [] None" "length agg = 2"
    "coord_Receive (\<lambda>_. 0) ?e ?c ?ma st1
      = HRes (two_sensors\<lparr>pendingUpdates := filed [an_update ''b'' 30, an_update ''a'' 10], globalWeights := SList agg\<rparr>) effs None"
    using round_completes [OF 1(1-3) 2 3 1(4,5), of "\<lambda>_. 0"] unfolding Let_def by (elim exE conjE) (rule that)
  then have "globalWeights (hstate (coord_Receive (\<lambda>_. 0) ?e ?c ?ma st1)) = SList agg" by simp
  with o show ?thesis unfolding Let_def by (metis hres.sel(1))
qed

text \<open>
  Starting a round. The coordinator moves to the next round, forgets the updates of the last one, and sends every registered
  sensor that it can reach, through its remote reference if there is one and by lookup otherwise, exactly one request to train with
  the current global weights, the configured learning rate and number of epochs; with no sensor registered it sends nothing, and yet
  the round has been counted.
\<close>

theorem round_starts:
  fixes st :: "'f CoordinatorActor" and c :: ctx
  assumes "coord_inv st" "env_ok e"
  defines "n \<equiv> wrap64 (roundNo st + 1)"
  defines "msg \<equiv> mkMessage MsgStartTraining (Dyn (StartTrainingPayload n (globalWeights st) (learningRate st) (numEpochs st))) (Self c)"
  shows "\<exists>effs ids. handleStartRound e c st =
      HRes (st\<lparr>roundNo := n, pendingRound := n, pendingUpdates := [], roundStart := now e\<rparr>) effs None \<and>
    distinct ids \<and> set ids = fst ` set (sensors st) \<and>
    sent effs = List.map_filter (\<lambda>i. map_option (\<lambda>ref. (ref, msg)) (lookupRef c st i)) ids"
proof -
  let ?st = "st\<lparr>roundNo := n, pendingRound := n, pendingUpdates := [], roundStart := now e\<rparr>"
  let ?ids = "iter e (keys (sensors st))"
  have "distinct ?ids" "set ?ids = fst ` set (sensors st)"
    using assms(1,2) by (simp_all add: coord_inv_def gomap_inv_def)
  moreover have "handleStartRound e c st = HRes ?st (tell_sensors c ?st msg ?ids) None"
    by (simp add: handleStartRound_def Let_def n_def msg_def tell_sensors_def)
  moreover have "addressed c ?st msg ?ids = addressed c st msg ?ids" by (rule addressed_cong) simp
  ultimately show ?thesis by (fastforce simp: addressed_def)
qed

theorem round_starts_witness:
  "let e = \<lparr>now = 0, iter = (\<lambda>ks. ks)\<rparr>; c = \<lparr>Self = ''coordinator'', CtxSender = None, look = [''a'' \<mapsto> 1]\<rparr>
   in \<exists>effs ids. handleStartRound e c two_sensors = HRes (two_sensors\<lparr>roundNo := 2, pendingRound := 2, pendingUpdates := [], roundStart := 0\<rparr>) effs None \<and>
     set ids = {''a'', ''b''} \<and> (\<exists>m. set (sent effs) = {(LocalRef 1, m)})"
proof -
  let ?e = "\<lparr>now = 0, iter = (\<lambda>ks. ks)\<rparr>" and ?c = "\<lparr>Self = ''coordinator'', CtxSender = None, look = [''a'' \<mapsto> 1]\<rparr>"
  have h: "coord_inv two_sensors" "env_ok ?e"
    by (simp_all add: two_sensors_def NewCoordinatorActor_def coord_inv_def gomap_inv_def env_ok_def)
  have l: "lookupRef ?c two_sensors i = (if i = ''a'' then Some (LocalRef 1) else None)" for i
    by (simp add: lookupRef_def two_sensors_def NewCoordinatorActor_def)
  have s: "set (List.map_filter (\<lambda>i. map_option (\<lambda>ref. (ref, m)) (lookupRef ?c two_sensors i)) ids) = {(LocalRef 1, m)}"
    if "set ids = {''a'', ''b''}" for ids and m :: "unit payload message"
  proof -
    have "set (List.map_filter (\<lambda>i. if i = ''a'' then Some (LocalRef 1, m) else None) ids) = {(LocalRef 1, m)}"
      using that by (auto simp: List.map_filter_def)
    then show ?thesis by (simp only: l option.map if_distrib [of "map_option _"])
  qed
  have w: "wrap64 (roundNo two_sensors + 1) = 2" "fst ` set (sensors two_sensors) = {''a'', ''b''}"
    by (simp_all add: two_sensors_def in_int64_def)
  obtain effs ids where o: "handleStartRound ?e ?c two_sensors
      = HRes (two_sensors\<lparr>roundNo := 2, pendingRound := 2, pendingUpdates := [], roundStart := now ?e\<rparr>) effs None"
    "set ids = {''a'', ''b''}"
    "sent effs = List.map_filter (\<lambda>i. map_option (\<lambda>ref. (ref, mkMessage MsgStartTraining (Dyn (StartTrainingPayload 2 (globalWeights two_sensors)
      (learningRate two_sensors) (numEpochs two_sensors))) (Self ?c))) (lookupRef ?c two_sensors i)) ids"
    using round_starts [OF h, of ?c] unfolding w by (elim exE conjE) (rule that)
  have "\<exists>m. set (sent effs) = {(LocalRef 1, m)}" unfolding o(3) using s [OF o(2)] by blast
  then show ?thesis unfolding Let_def using o(1,2) unfolding go_env.select_convs(1) by blast
qed

text \<open>
  C25: whatever messages arrive, in whatever order, the coordinator's maps have one entry per key, every update it has collected is
  filed under the sensor that sent it and belongs to the round it waits for, and as soon as a sensor is registered there are
  global weights. A handler that panics leaves such a state too.
\<close>

theorem coordinator_invariant:
  assumes "0 \<le> n" "lrun (\<lambda>st m st'. \<exists>r e c. st' = hstate (coord_Receive r e c m st)) (NewCoordinatorActor i l d n) ms st"
  shows "distinct (keys (sensors st)) \<and> distinct (keys (pendingUpdates st)) \<and> distinct (keys (sensorRemoteRefs st)) \<and>
    (\<forall>(i, u) \<in> set (pendingUpdates st). pSensorID u = i \<and> pRoundID u = pendingRound st) \<and>
    (sensors st = [] \<or> globalWeights st \<noteq> SNil)"
proof -
  have "coord_inv st \<and> 0 \<le> numWeights st"
  proof (rule lrun_inv [OF assms(2)])
    show "coord_inv (NewCoordinatorActor i l d n) \<and> 0 \<le> numWeights (NewCoordinatorActor i l d n)"
      using assms(1) by (simp add: NewCoordinatorActor_def coord_inv_def)
  next
    fix st st' :: "'a CoordinatorActor" and m
    assume "\<exists>r e c. st' = hstate (coord_Receive r e c m st)" and I: "coord_inv st \<and> 0 \<le> numWeights st"
    then obtain r e c where "st' = hstate (coord_Receive r e c m st)" by blast
    then show "coord_inv st' \<and> 0 \<le> numWeights st'" using I coord_Receive_inv [of st r e c m] by simp
  qed
  then show ?thesis unfolding coord_inv_def gomap_inv_def by blast
qed

theorem coordinator_invariant_witness:
  "let st = hstate (coord_Receive (\<lambda>_. 0) \<lparr>now = 0, iter = (\<lambda>ks. ks)\<rparr> undefined
      (mkMessage MsgRegisterSensor (Dyn (RegisterSensorPayload ''a'' ''kitchen'' 10 '''' :: unit payload)) '''')
      (NewCoordinatorActor ''coordinator'' ''logger'' ''device-ctrl'' 75))
   in sensors st \<noteq> [] \<and> globalWeights st \<noteq> SNil"
proof -
  let ?m = "mkMessage MsgRegisterSensor (Dyn (RegisterSensorPayload ''a'' ''kitchen'' 10 '''' :: unit payload)) ''''"
  let ?init = "NewCoordinatorActor ''coordinator'' ''logger'' ''device-ctrl'' 75 :: unit CoordinatorActor"
  let ?st = "hstate (coord_Receive (\<lambda>_. 0) \<lparr>now = 0, iter = (\<lambda>ks. ks)\<rparr> undefined ?m ?init)"
  have "lrun (\<lambda>st m st'. \<exists>r e c. st' = hstate (coord_Receive r e c m st)) ?init [?m] ?st"
    using lrun_one [of "\<lambda>st m st'. \<exists>r e c. st' = hstate (coord_Receive r e c m st)" ?init ?m ?st] by blast
  from coordinator_invariant [OF _ this] have "sensors ?st = [] \<or> globalWeights ?st \<noteq> SNil" by simp
  moreover have "sensors ?st \<noteq> []"
    by (simp add: coord_Receive_def mkMessage_def handleRegisterSensor_def castPayload_def NewCoordinatorActor_def Let_def)
  ultimately show ?thesis unfolding Let_def by blast
qed

text \<open>
  C26: what ends a round. An update for another round changes nothing. An update for the current round makes the coordinator aggregate
  exactly when the number of different senders in the round has reached the number of registered sensors. Whether a sender is registered
  does not matter, nor whether the round has been aggregated already: an update that arrives after the last one
  aggregates again.
\<close>

theorem aggregation_trigger:
  assumes "coord_inv st" "carries m u"
  defines "st1 \<equiv> st\<lparr>pendingUpdates := mput (pSensorID u) u (pendingUpdates st)\<rparr>"
  shows "coord_Receive r e c m st =
    (if pRoundID u \<noteq> pendingRound st then HRes st [] None
     else if card (insert (pSensorID u) (fst ` set (pendingUpdates st))) < length (sensors st) then HRes st1 [] None
     else aggregateAndFinalise r e c st1)"
proof -
  have "distinct (keys (pendingUpdates st1))"
    using assms(1) by (simp add: st1_def coord_inv_def gomap_inv_def distinct_keys_mput del: distinct_map)
  then have "length (pendingUpdates st1) = card (set (keys (pendingUpdates st1)))" by (metis distinct_card length_map)
  also have "set (keys (pendingUpdates st1)) = insert (pSensorID u) (fst ` set (pendingUpdates st))" by (simp add: st1_def)
  finally show ?thesis
    using assms(2) by (simp add: coord_Receive_def carries_def handleModelUpdate_def Let_def st1_def not_le)
qed

theorem aggregation_trigger_witness:
  "let e = \<lparr>now = 0, iter = (\<lambda>ks. ks)\<rparr>; st = two_sensors\<lparr>pendingUpdates := [(''a'', an_update ''a'' 10)]\<rparr>;
     m = mkMessage MsgModelUpdate (Dyn (an_update ''nobody'' 10)) ''nobody''
   in ''nobody'' \<notin> fst ` set (sensors st) \<and> (\<exists>st1. coord_Receive (\<lambda>_. 0) e undefined m st = aggregateAndFinalise (\<lambda>_. 0) e undefined st1)"
proof -
  let ?st = "two_sensors\<lparr>pendingUpdates := [(''a'', an_update ''a'' 10)]\<rparr>"
  have "coord_inv ?st" "pRoundID (an_update ''nobody'' 10) = pendingRound ?st" "length (sensors ?st) = 2"
    "card (insert (pSensorID (an_update ''nobody'' 10)) (fst ` set (pendingUpdates ?st))) = 2" "''nobody'' \<notin> fst ` set (sensors ?st)"
    by (simp_all add: coord_inv_def gomap_inv_def two_sensors_def NewCoordinatorActor_def an_update_def)
  then show ?thesis
    using aggregation_trigger [OF _ carries_update, of ?st "\<lambda>_. 0" "\<lparr>now = 0, iter = (\<lambda>ks. ks)\<rparr>" undefined "''nobody''" 10]
    unfolding Let_def by auto
qed

text \<open>
  C27: the environment that the global model prescribes. For at least 72 weights the targets are computed, do not depend on the random
  initial weights of the scratch network, and each lies in its physical range: temperature from 18 to 28, humidity from 30 to 70,
  light from 50 to 350; or it is a NaN, which the clamping lets through. With fewer weights the handler panics.
\<close>

theorem targets_in_range:
  "(infer_targets r w = None \<longleftrightarrow> length w < 72) \<and> infer_targets r w = infer_targets r' w \<and>
    (case infer_targets r w of None \<Rightarrow> True | Some (t, h, l) \<Rightarrow>
      (IsNaN t \<or> FNum 18 \<le> t \<and> t \<le> FNum 28) \<and> (IsNaN h \<or> FNum 30 \<le> h \<and> h \<le> FNum 70) \<and> (IsNaN l \<or> FNum 50 \<le> l \<and> l \<le> FNum 350))"
proof (intro conjI)
  have l: "lit 18 = FNum 18" "lit 28 = FNum 28" "lit 30 = FNum 30" "lit 70 = FNum 70" "lit 50 = FNum 50" "lit 350 = FNum 350"
    by (simp_all add: lits)
  show "case infer_targets r w of None \<Rightarrow> True | Some (t, h, l) \<Rightarrow>
      (IsNaN t \<or> FNum 18 \<le> t \<and> t \<le> FNum 28) \<and> (IsNaN h \<or> FNum 30 \<le> h \<and> h \<le> FNum 70) \<and> (IsNaN l \<or> FNum 50 \<le> l \<and> l \<le> FNum 350)"
    using clampF_bounds [of 18 28] clampF_bounds [of 30 70] clampF_bounds [of 50 350]
    by (simp add: infer_targets_eq Let_def l less_eq_f64_def)
qed (simp_all add: infer_targets_eq Let_def)

text \<open>
  The coordinator survives a restart. A new instance under the same ID starts with the round number, the global weights and the
  registered sensors that the old instance saved last; if an operating system call failed while saving, it starts with those or with
  the ones saved before, never with anything in between. The weights must be finite numbers, as JSON requires.
\<close>

theorem coordinator_survives_restart:
  fixes st :: "'f CoordinatorActor" and s :: "('a, 'f) home_sys" and l dv :: ActorID and n :: int
  assumes "coord_storable e st" "coordPersister st = Some p" "perform a (coord_persistState e st) s = Done s'"
  defines "fresh \<equiv> coord_SetPersister p (NewCoordinatorActor (coordID st) l dv n :: 'f CoordinatorActor)"
  shows "(let st' = coord_OnPreStart NoFault (disk (world s')) fresh
     in roundNo st' = roundNo st \<and> globalWeights st' = globalWeights st \<and> mget (sensors st') = mget (sensors st)) \<or>
    next_fault (world s) \<noteq> NoFault \<and>
    coord_OnPreStart NoFault (disk (world s')) fresh = coord_OnPreStart NoFault (disk (world s)) fresh"
proof -
  have f: "coord_OnPreStart NoFault d fresh = load_state coordinatorSavedState coord_restore NoFault d (Some p) (coordID st) fresh" for d
    by (simp add: coord_OnPreStart_def fresh_def coord_SetPersister_def NewCoordinatorActor_def)
  have "perform a (save_state coordinatorSavedState (Some p) (coordID st) (coord_saved (iter e (keys (sensors st))) st)) s = Done s'"
    using assms(2,3) by (simp add: coord_persistState_def)
  from coordinator.old_or_new [OF assms(1) this, of fresh] show ?thesis unfolding f coord_same_def Let_def .
qed

theorem coordinator_survives_restart_witness:
  "let p = \<lparr>basePath = ''data''\<rparr>; st = coord_SetPersister p two_sensors; e = \<lparr>now = 0, iter = (\<lambda>ks. ks)\<rparr>;
     s = NewActorSystem \<lparr>disk = [], io = [], tasks = [], network = [], rng = (\<lambda>_. 0)\<rparr> :: (nat, unit) home_sys;
     fresh = coord_SetPersister p (NewCoordinatorActor ''coordinator'' ''logger'' ''device-ctrl'' 2 :: unit CoordinatorActor)
   in \<exists>s'. perform 0 (coord_persistState e st) s = Done s' \<and>
     roundNo (coord_OnPreStart NoFault (disk (world s')) fresh) = 1"
proof -
  let ?p = "\<lparr>basePath = ''data''\<rparr>" and ?e = "\<lparr>now = 0, iter = (\<lambda>ks. ks)\<rparr>"
  let ?st = "coord_SetPersister ?p two_sensors"
  let ?s = "NewActorSystem \<lparr>disk = [], io = [], tasks = [], network = [], rng = (\<lambda>_. 0)\<rparr> :: (nat, unit) home_sys"
  have 1: "coord_storable ?e ?st" "coordPersister ?st = Some ?p" "coordID ?st = ''coordinator''" "roundNo ?st = 1"
    by (auto simp: coord_storable_def coord_SetPersister_def two_sensors_def NewCoordinatorActor_def env_ok_def in_int64_def
        finite_f64_def split: if_splits)
  obtain s' where 2: "perform 0 (coord_persistState ?e ?st) ?s = Done s'" using 1(2) by (simp add: coord_persistState_def save_state_def)
  have "next_fault (world ?s) = NoFault" by (simp add: next_fault_def NewActorSystem_def)
  then have "roundNo (coord_OnPreStart NoFault (disk (world s')) (coord_SetPersister ?p (NewCoordinatorActor ''coordinator'' ''logger'' ''device-ctrl'' 2
      :: unit CoordinatorActor))) = 1"
    using coordinator_survives_restart [OF 1(1,2) 2, of "''logger''" "''device-ctrl''" 2] 1(3,4) unfolding Let_def by simp
  with 2 show ?thesis unfolding Let_def by blast
qed

end
