(* ===== verification/Logger.thy ===== *)
theory Logger
  imports Durable
begin

text \<open>
  The logger actor (\<^verbatim>\<open>smart-home/actors/logger.go\<close>): four append-only lists of payloads, saved after every
  change, and an append-only file of metrics.

  A list that was never appended to is a nil slice, which the saved document shows as null; loading replaces it by an
  empty slice.
\<close>

record 'f LoggerActor =
  loggerID :: ActorID
  metrics :: "'f payload slice"
  rounds :: "'f payload slice"
  events :: "'f payload slice"
  devices :: "'f payload slice"
  loggerPersister :: "Persister option"

definition NewLoggerActor :: "ActorID \<Rightarrow> 'f LoggerActor" where
  "NewLoggerActor i = \<lparr>loggerID = i, metrics = SNil, rounds = SNil, events = SNil, devices = SNil, loggerPersister = None\<rparr>"

definition logger_SetPersister :: "Persister \<Rightarrow> 'f LoggerActor \<Rightarrow> 'f LoggerActor" where
  "logger_SetPersister p st = st\<lparr>loggerPersister := Some p\<rparr>"

section \<open>Persistence\<close>

definition loggerSavedState :: gotype where
  "loggerSavedState = TStruct [(''rounds'', TSlice (TStruct (fields_of PRoundComplete))), (''metrics'', TSlice (TStruct (fields_of PLogMetrics))),
     (''events'', TSlice (TStruct (fields_of PLogEvent))), (''devices'', TSlice (TStruct (fields_of PDeviceStatus)))]"

fun structs :: "'f payload slice \<Rightarrow> goval" where
  "structs SNil = VSlice None"
| "structs (SList ps) = VSlice (Some (map (\<lambda>p. VStruct (to_fields p)) ps))"

definition logger_saved :: "'f LoggerActor \<Rightarrow> goval" where
  "logger_saved st = VStruct [structs (rounds st), structs (metrics st), structs (events st), structs (devices st)]"

text \<open>A loaded slice, with an empty slice for null.\<close>

definition payloads_of :: "ptype \<Rightarrow> goval \<Rightarrow> 'f payload slice" where
  "payloads_of t v = (case v of
     VSlice (Some vs) \<Rightarrow> SList (List.map_filter (\<lambda>x. case x of VStruct fs \<Rightarrow> of_fields t fs | _ \<Rightarrow> None) vs)
   | _ \<Rightarrow> SList [])"

definition logger_restore :: "goval \<Rightarrow> 'f LoggerActor \<Rightarrow> 'f LoggerActor" where
  "logger_restore v st = (case v of
     VStruct [r, m, e, d] \<Rightarrow> st\<lparr>rounds := payloads_of PRoundComplete r, metrics := payloads_of PLogMetrics m,
       events := payloads_of PLogEvent e, devices := payloads_of PDeviceStatus d\<rparr>
   | _ \<Rightarrow> st)"

definition logger_OnPreStart :: "fault \<Rightarrow> disk \<Rightarrow> 'f LoggerActor \<Rightarrow> 'f LoggerActor" where
  "logger_OnPreStart fl d st = load_state loggerSavedState logger_restore fl d (loggerPersister st) (loggerID st) st"

definition logger_persistState :: "'f LoggerActor \<Rightarrow> 'f eff list" where
  "logger_persistState st = save_state loggerSavedState (loggerPersister st) (loggerID st) (logger_saved st)"

section \<open>Handler\<close>

definition append_to :: "'a slice \<Rightarrow> 'a \<Rightarrow> 'a slice" where
  "append_to xs x = SList (elems xs @ [x])"

definition logger_Receive :: "'f payload message \<Rightarrow> 'f LoggerActor \<Rightarrow> ('f LoggerActor, 'f) hres" where
  "logger_Receive msg st =
    (if MsgType msg = MsgRoundComplete then (case castPayload PRoundComplete (Payload msg) of
        None \<Rightarrow> HRes st [] None
      | Some p \<Rightarrow> (let st1 = st\<lparr>rounds := append_to (rounds st) p\<rparr> in HRes st1 (logger_persistState st1) None))
     else if MsgType msg = MsgLogMetrics then (case castPayload PLogMetrics (Payload msg) of
        None \<Rightarrow> HRes st [] None
      | Some p \<Rightarrow> (let st1 = st\<lparr>metrics := append_to (metrics st) p\<rparr>
          in HRes st1 (logger_persistState st1 @ (case loggerPersister st1 of
               None \<Rightarrow> []
             | Some ps \<Rightarrow> [EAppend ps (loggerID st1 @ ''-metrics'') (TStruct (fields_of PLogMetrics)) (VStruct (to_fields p))])) None))
     else if MsgType msg = MsgLogEvent then (case castPayload PLogEvent (Payload msg) of
        None \<Rightarrow> HRes st [] None
      | Some p \<Rightarrow> (let st1 = st\<lparr>events := append_to (events st) p\<rparr> in HRes st1 (logger_persistState st1) None))
     else if MsgType msg = MsgDeviceStatus then (case castPayload PDeviceStatus (Payload msg) of
        None \<Rightarrow> HRes st [] None
      | Some p \<Rightarrow> (let st1 = st\<lparr>devices := append_to (devices st) p\<rparr> in HRes st1 (logger_persistState st1) None))
     else HRes st [] None)"

text \<open>Observers: copies of the lists, and the last round.\<close>

definition Rounds :: "'f LoggerActor \<Rightarrow> 'f payload list" where
  "Rounds st = elems (rounds st)"

definition Metrics_log :: "'f LoggerActor \<Rightarrow> 'f payload list" where
  "Metrics_log st = elems (metrics st)"

definition Events :: "'f LoggerActor \<Rightarrow> 'f payload list" where
  "Events st = elems (events st)"

definition DeviceStatuses :: "'f LoggerActor \<Rightarrow> 'f payload list" where
  "DeviceStatuses st = elems (devices st)"

definition LastRound :: "'f LoggerActor \<Rightarrow> 'f payload option" where
  "LastRound st = (if length (elems (rounds st)) = 0 then None else Some (elems (rounds st) ! (length (elems (rounds st)) - 1)))"

section \<open>Lemmas\<close>

text \<open>The specification: the payloads of the messages of one type, in the order of arrival.\<close>

definition logged :: "MessageType \<Rightarrow> ptype \<Rightarrow> 'f payload message list \<Rightarrow> 'f payload list" where
  "logged mt t ms = List.map_filter (\<lambda>m. if MsgType m = mt then castPayload t (Payload m) else None) ms"

definition log_of :: "'f LoggerActor \<Rightarrow> 'f payload list \<times> 'f payload list \<times> 'f payload list \<times> 'f payload list" where
  "log_of st = (Rounds st, Metrics_log st, Events st, DeviceStatuses st)"

lemmas log_simps = log_of_def Rounds_def Metrics_log_def Events_def DeviceStatuses_def append_to_def

lemma logged_simps [simp]: "logged mt t [] = []"
  "logged mt t (m # ms) = (if MsgType m = mt then case castPayload t (Payload m) of None \<Rightarrow> logged mt t ms | Some p \<Rightarrow> p # logged mt t ms
     else logged mt t ms)"
  unfolding logged_def by simp_all

lemma logger_Receive_log:
  "log_of (hstate (logger_Receive m st)) =
    (Rounds st @ logged MsgRoundComplete PRoundComplete [m], Metrics_log st @ logged MsgLogMetrics PLogMetrics [m],
     Events st @ logged MsgLogEvent PLogEvent [m], DeviceStatuses st @ logged MsgDeviceStatus PDeviceStatus [m])"
  by (simp add: logger_Receive_def log_simps Let_def split: option.split)

lemma logger_quiet: "hpanic (logger_Receive m st) = None" "sent (heffs (logger_Receive m st)) = []"
  by (auto simp: logger_Receive_def Let_def logger_persistState_def save_state_def split: option.split)

lemma logger_Receive_ID: "loggerID (hstate (logger_Receive m st)) = loggerID st"
  "loggerPersister (hstate (logger_Receive m st)) = loggerPersister st"
  by (simp_all add: logger_Receive_def Let_def split: option.split)

subsection \<open>Restoring\<close>

definition log_ok :: "ptype \<Rightarrow> 'f payload slice \<Rightarrow> bool" where
  "log_ok t xs \<longleftrightarrow> (\<forall>p\<in>set (elems xs). ptype_of p = Some t \<and> json_safe p)"

lemma typed_structs: "log_ok t xs \<Longrightarrow> typed (TSlice (TStruct (fields_of t))) (structs xs)"
  by (cases xs) (auto simp: log_ok_def list_all_iff json_safe_def split: option.splits)

lemma payloads_structs: "log_ok t xs \<Longrightarrow> elems (payloads_of t (structs xs)) = elems xs"
proof (cases xs)
  case (SList ps)
  have "List.map_filter (\<lambda>x. case x of VStruct fs \<Rightarrow> of_fields t fs | _ \<Rightarrow> None) (map (\<lambda>p. VStruct (to_fields p)) ps) = ps"
    if "\<forall>p\<in>set ps. ptype_of p = Some t"
    using that by (induction ps) (simp_all add: of_fields_to_fields)
  moreover assume "log_ok t xs"
  ultimately show ?thesis using SList by (simp add: log_ok_def payloads_of_def)
qed (simp add: payloads_of_def)

definition logger_storable :: "'f LoggerActor \<Rightarrow> bool" where
  "logger_storable st \<longleftrightarrow> log_ok PRoundComplete (rounds st) \<and> log_ok PLogMetrics (metrics st) \<and> log_ok PLogEvent (events st) \<and>
    log_ok PDeviceStatus (devices st)"

interpretation logger: durable loggerSavedState logger_saved logger_restore logger_storable "\<lambda>st st'. log_of st = log_of st'"
proof unfold_locales
  show "wf_type loggerSavedState" by (simp add: loggerSavedState_def fold_name_def upper_def)
  show "typed loggerSavedState (logger_saved st)" if "logger_storable st" for st :: "'f LoggerActor"
    using that unfolding loggerSavedState_def logger_saved_def logger_storable_def
    by (simp only: typed.simps typed_fields.simps typed_structs simp_thms)
  show "log_of (logger_restore (logger_saved st) init) = log_of st" if "logger_storable st" for st init :: "'f LoggerActor"
    using that by (simp add: logger_storable_def logger_restore_def logger_saved_def log_simps payloads_structs)
qed

lemma logged_append: "logged mt t (ms @ ms') = logged mt t ms @ logged mt t ms'"
  by (induction ms) (auto split: option.splits)

section \<open>Properties\<close>

text \<open>
  C36: the logger loses nothing and invents nothing. After any sequence of messages its four lists are exactly the payloads of the messages of the
  four types that have a payload of the matching struct, in the order of arrival, after what was there before; the last round it reports
  is the last of them. It never panics and sends no message.
\<close>

theorem logger_refines_log:
  fixes ms :: "'f payload message list" and st0 :: "'f LoggerActor"
  defines "st \<equiv> fold (\<lambda>m st. hstate (logger_Receive m st)) ms st0"
  shows "Rounds st = Rounds st0 @ logged MsgRoundComplete PRoundComplete ms \<and>
    Metrics_log st = Metrics_log st0 @ logged MsgLogMetrics PLogMetrics ms \<and>
    Events st = Events st0 @ logged MsgLogEvent PLogEvent ms \<and>
    DeviceStatuses st = DeviceStatuses st0 @ logged MsgDeviceStatus PDeviceStatus ms \<and>
    LastRound st = (if Rounds st = [] then None else Some (last (Rounds st))) \<and>
    hpanic (logger_Receive m st) = None \<and> sent (heffs (logger_Receive m st)) = []"
proof -
  have "log_of (fold (\<lambda>m st. hstate (logger_Receive m st)) ms st0) =
      (Rounds st0 @ logged MsgRoundComplete PRoundComplete ms, Metrics_log st0 @ logged MsgLogMetrics PLogMetrics ms,
       Events st0 @ logged MsgLogEvent PLogEvent ms, DeviceStatuses st0 @ logged MsgDeviceStatus PDeviceStatus ms)"
  proof (induction ms rule: rev_induct)
    case (snoc m ms)
    then show ?case
      using logger_Receive_log [of m "fold (\<lambda>m st. hstate (logger_Receive m st)) ms st0"]
      by (simp only: fold_append fold_simps comp_apply logged_append log_of_def prod.inject append_assoc simp_thms)
  qed (simp add: log_of_def)
  then show ?thesis by (simp add: st_def log_of_def logger_quiet LastRound_def Rounds_def last_conv_nth)
qed

text \<open>
  One metric that is not a number ends the logger's persistence. Once a recorded metric is a NaN or an infinity, no later save of the logger
  changes any saved state, since the whole document can no longer be marshalled; the error is ignored.
\<close>

theorem logger_NaN_blocks_saves:
  fixes s :: "('a, 'f) home_sys"
  assumes "LogMetricsPayload n a b c d \<in> set (Metrics_log st)" "\<not> finite_f64 a \<or> \<not> finite_f64 b \<or> \<not> finite_f64 c \<or> \<not> finite_f64 d"
    and "perform adr (logger_persistState (fold (\<lambda>m st. hstate (logger_Receive m st)) ms st)) s = Done s'"
  shows "disk (world s') = disk (world s)"
proof -
  let ?st = "fold (\<lambda>m st. hstate (logger_Receive m st)) ms st"
  have "set (Metrics_log st') \<subseteq> set (Metrics_log (hstate (logger_Receive m st')))" for m and st' :: "'f LoggerActor"
    using logger_Receive_log [of m st'] unfolding log_of_def by simp
  then have "set (Metrics_log st') \<subseteq> set (Metrics_log (fold (\<lambda>m st. hstate (logger_Receive m st)) ms st'))" for st'
    by (induction ms arbitrary: st') (auto, blast)
  then have p: "LogMetricsPayload n a b c d \<in> set (elems (metrics ?st))" using assms(1) by (auto simp: Metrics_log_def)
  have none: "marshal_list (TStruct (fields_of PLogMetrics)) (map (\<lambda>p. VStruct (to_fields p)) ps) = None"
    if "LogMetricsPayload n a b c d \<in> set ps" for ps :: "'f payload list"
    using that assms(2) by (induction ps) (auto split: bind_splits)
  have "marshal (TSlice (TStruct (fields_of PLogMetrics))) (structs (metrics ?st)) = None"
    using p none by (cases "metrics ?st") simp_all
  then have "marshal loggerSavedState (logger_saved ?st) = None"
    unfolding loggerSavedState_def logger_saved_def marshal.simps marshal_fields.simps by (simp del: fields_of.simps split: bind_split)
  then show ?thesis
    using assms(3) by (auto simp: logger_persistState_def save_state_def Save_def save_file_None split: option.splits)
qed

theorem logger_NaN_blocks_saves_witness:
  "let p = \<lparr>basePath = ''data''\<rparr>; st = (logger_SetPersister p (NewLoggerActor ''logger''))\<lparr>metrics := SList [LogMetricsPayload 1 FNaN 0 0 0 :: unit payload]\<rparr>;
     ev = mkMessage MsgLogEvent (Dyn (LogEventPayload ''coordinator'' ''started'')) '''';
     s = NewActorSystem \<lparr>disk = [], io = [], tasks = [], network = [], rng = (\<lambda>_. 0)\<rparr> :: (nat, unit) home_sys
   in \<exists>s'. perform 0 (heffs (logger_Receive ev st)) s = Done s' \<and> disk (world s') = disk (world s)"
proof -
  let ?p = "\<lparr>basePath = ''data''\<rparr>"
  let ?st = "(logger_SetPersister ?p (NewLoggerActor ''logger''))\<lparr>metrics := SList [LogMetricsPayload 1 FNaN 0 0 0 :: unit payload]\<rparr>"
  let ?ev = "mkMessage MsgLogEvent (Dyn (LogEventPayload ''coordinator'' ''started'' :: unit payload)) ''''"
  let ?s = "NewActorSystem \<lparr>disk = [], io = [], tasks = [], network = [], rng = (\<lambda>_. 0)\<rparr> :: (nat, unit) home_sys"
  have e: "heffs (logger_Receive ?ev ?st) = logger_persistState (fold (\<lambda>m st. hstate (logger_Receive m st)) [?ev] ?st)"
    by (simp add: logger_Receive_def mkMessage_def castPayload_def Let_def)
  obtain s' where s': "perform 0 (logger_persistState (fold (\<lambda>m st. hstate (logger_Receive m st)) [?ev] ?st)) ?s = Done s'"
    by (simp add: logger_persistState_def save_state_def logger_Receive_ID) (simp add: logger_SetPersister_def)
  have "LogMetricsPayload 1 FNaN 0 0 0 \<in> set (Metrics_log ?st)" "\<not> finite_f64 FNaN \<or> \<not> finite_f64 0 \<or> \<not> finite_f64 0 \<or> \<not> finite_f64 0"
    by (simp_all add: Metrics_log_def finite_f64_def)
  from logger_NaN_blocks_saves [OF this s'] show ?thesis using s' unfolding Let_def e by blast
qed

end
