(* ===== verification/DeviceController.thy ===== *)
theory DeviceController
  imports Durable
begin

text \<open>
  The device controller actor (\<^verbatim>\<open>smart-home/actors/device_controller.go\<close>): the target values of each room.

  \<open>deviceMap\<close> maps a room to its devices; the inner map is \<^const>\<open>None\<close> when it is nil, as a document with a null in it
  is loaded.
\<close>

record DeviceControllerActor =
  deviceID :: ActorID
  deviceMap :: "(string, (string, f64) gomap option) gomap"
  devicePersister :: "Persister option"

definition NewDeviceControllerActor :: "ActorID \<Rightarrow> DeviceControllerActor" where
  "NewDeviceControllerActor i = \<lparr>deviceID = i, deviceMap = [], devicePersister = None\<rparr>"

definition device_SetPersister :: "Persister \<Rightarrow> DeviceControllerActor \<Rightarrow> DeviceControllerActor" where
  "device_SetPersister p st = st\<lparr>devicePersister := Some p\<rparr>"

section \<open>Persistence\<close>

definition deviceSavedState :: gotype where
  "deviceSavedState = TStruct [(''devices'', TMap (TMap TFloat))]"

definition map_val :: "('v \<Rightarrow> goval) \<Rightarrow> (string, 'v) gomap \<Rightarrow> (string \<times> goval) list" where
  "map_val f m = map (\<lambda>kv. (fst kv, f (snd kv))) m"

definition device_saved :: "DeviceControllerActor \<Rightarrow> goval" where
  "device_saved st = VStruct [VMap (Some (map_val (\<lambda>m. VMap (map_option (map_val VFloat) m)) (deviceMap st)))]"

definition val_float :: "goval \<Rightarrow> f64" where
  "val_float v = (case v of VFloat f \<Rightarrow> f | _ \<Rightarrow> 0)"

definition val_room :: "goval \<Rightarrow> (string, f64) gomap option" where
  "val_room v = (case v of VMap (Some m) \<Rightarrow> Some (map (\<lambda>kv. (fst kv, val_float (snd kv))) m) | _ \<Rightarrow> None)"

definition device_restore :: "goval \<Rightarrow> DeviceControllerActor \<Rightarrow> DeviceControllerActor" where
  "device_restore v st = (case v of
     VStruct [VMap m] \<Rightarrow> st\<lparr>deviceMap := (case m of None \<Rightarrow> [] | Some m \<Rightarrow> map (\<lambda>kv. (fst kv, val_room (snd kv))) m)\<rparr>
   | _ \<Rightarrow> st)"

definition device_OnPreStart :: "fault \<Rightarrow> disk \<Rightarrow> DeviceControllerActor \<Rightarrow> DeviceControllerActor" where
  "device_OnPreStart fl d st = load_state deviceSavedState device_restore fl d (devicePersister st) (deviceID st) st"

definition device_persistState :: "DeviceControllerActor \<Rightarrow> 'f eff list" where
  "device_persistState st = save_state deviceSavedState (devicePersister st) (deviceID st) (device_saved st)"

section \<open>Handler\<close>

definition handleAdjustEnvironment :: "go_env \<Rightarrow> ctx \<Rightarrow> 'f payload message \<Rightarrow> DeviceControllerActor \<Rightarrow> (DeviceControllerActor, 'f) hres" where
  "handleAdjustEnvironment e c msg st = (case castPayload PAdjustEnvironment (Payload msg) of
     None \<Rightarrow> HRes st [] None
   | Some p \<Rightarrow>
       (let room = pRoomID p;
            m = (case mget (deviceMap st) room of Some (Some m) \<Rightarrow> m | _ \<Rightarrow> []);
            m = mput ''light'' (pTargetLight p) (mput ''humidity'' (pTargetHum p) (mput ''temperature'' (pTargetTemp p) m));
            st1 = st\<lparr>deviceMap := mput room (Some m) (deviceMap st)\<rparr>
        in HRes st1 (concat (map (\<lambda>device. case look c ''logger'' of
               None \<Rightarrow> []
             | Some ref \<Rightarrow> [ETell (LocalRef ref) (mkMessage MsgDeviceStatus
                 (Dyn (DeviceStatusPayload room device ''adjusted'' (Self c) (now e))) '''')]) [''ac'', ''heating'', ''blinds'', ''lights''])
             @ device_persistState st1) None))"

definition device_Receive :: "go_env \<Rightarrow> ctx \<Rightarrow> 'f payload message \<Rightarrow> DeviceControllerActor \<Rightarrow> (DeviceControllerActor, 'f) hres" where
  "device_Receive e c msg st = (if MsgType msg = MsgAdjustEnvironment then handleAdjustEnvironment e c msg st else HRes st [] None)"

text \<open>The value of a device in a room, if it has been set.\<close>

definition GetDeviceValue :: "string \<Rightarrow> string \<Rightarrow> DeviceControllerActor \<Rightarrow> f64 option" where
  "GetDeviceValue room device st = (case mget (deviceMap st) room of Some (Some m) \<Rightarrow> mget m device | _ \<Rightarrow> None)"

section \<open>Lemmas\<close>

lemma sent_device_persist [simp]: "sent (device_persistState st) = []"
  by (simp add: device_persistState_def save_state_def split: option.splits)

lemma map_val_roundtrip: "map (\<lambda>kv. (fst kv, g (snd kv))) (map_val f m) = map (\<lambda>kv. (fst kv, g (f (snd kv)))) m"
  by (simp add: map_val_def comp_def)

lemma val_room_saved: "val_room (VMap (map_option (map_val VFloat) m)) = m"
  by (cases m) (simp_all add: val_room_def map_val_roundtrip val_float_def)

definition device_storable :: "DeviceControllerActor \<Rightarrow> bool" where
  "device_storable st \<longleftrightarrow> (\<forall>m x k. (k, Some m) \<in> set (deviceMap st) \<and> x \<in> snd ` set m \<longrightarrow> finite_f64 x)"

interpretation device: durable deviceSavedState device_saved device_restore device_storable "\<lambda>st st'. deviceMap st = deviceMap st'"
proof unfold_locales
  show "wf_type deviceSavedState" by (simp add: deviceSavedState_def)
  show "typed deviceSavedState (device_saved st)" if "device_storable st" for st
  proof -
    have "typed (TMap TFloat) (VMap (map_option (map_val VFloat) m))" if "(k, m) \<in> set (deviceMap st)" for k m
      using that \<open>device_storable st\<close>
      by (cases m) (auto simp: device_storable_def map_val_def list_all_iff)
    then have "list_all (\<lambda>kv. typed (TMap TFloat) (snd kv)) (map_val (\<lambda>m. VMap (map_option (map_val VFloat) m)) (deviceMap st))"
      unfolding map_val_def [of "\<lambda>m. VMap (map_option (map_val VFloat) m)"] list_all_iff by force
    then show ?thesis by (simp add: deviceSavedState_def device_saved_def)

  qed
  show "deviceMap (device_restore (device_saved st) init) = deviceMap st" for st init
    by (simp add: device_restore_def device_saved_def map_val_roundtrip val_room_saved)
qed

section \<open>Properties\<close>

text \<open>
  The device controller does what it is told: an adjustment sets the three target values of its room, changes no other value in any
  room, and reports the four devices of the room to the logger if it can be found.
\<close>

theorem device_adjusts:
  fixes msg :: "'f payload message"
  assumes "MsgType msg = MsgAdjustEnvironment" "castPayload PAdjustEnvironment (Payload msg) = Some p"
  shows "\<exists>st' effs. device_Receive e c msg st = HRes st' effs None \<and>
    (\<forall>room device. GetDeviceValue room device st' =
      (if room = pRoomID p \<and> device = ''temperature'' then Some (pTargetTemp p)
       else if room = pRoomID p \<and> device = ''humidity'' then Some (pTargetHum p)
       else if room = pRoomID p \<and> device = ''light'' then Some (pTargetLight p)
       else GetDeviceValue room device st)) \<and>
    sent effs = (case look c ''logger'' of None \<Rightarrow> [] | Some ref \<Rightarrow> map (\<lambda>dev. (LocalRef ref, mkMessage MsgDeviceStatus
      (Dyn (DeviceStatusPayload (pRoomID p) dev ''adjusted'' (Self c) (now e))) '''')) [''ac'', ''heating'', ''blinds'', ''lights''])"
proof -
  define m where "m = (case mget (deviceMap st) (pRoomID p) of Some (Some m) \<Rightarrow> m | _ \<Rightarrow> [])"
  have m: "mget m device = GetDeviceValue (pRoomID p) device st" for device
    by (simp add: m_def GetDeviceValue_def split: option.split)
  define st' where "st' = st\<lparr>deviceMap := mput (pRoomID p) (Some (mput ''light'' (pTargetLight p) (mput ''humidity'' (pTargetHum p)
    (mput ''temperature'' (pTargetTemp p) m)))) (deviceMap st)\<rparr>"
  have "GetDeviceValue room device st' = (if room = pRoomID p then (((mget m)(''temperature'' \<mapsto> pTargetTemp p))(''humidity'' \<mapsto> pTargetHum p))
      (''light'' \<mapsto> pTargetLight p) else (\<lambda>d. GetDeviceValue room d st)) device" for room device
    by (simp add: st'_def GetDeviceValue_def)
  then have "GetDeviceValue room device st' =
      (if room = pRoomID p \<and> device = ''temperature'' then Some (pTargetTemp p)
       else if room = pRoomID p \<and> device = ''humidity'' then Some (pTargetHum p)
       else if room = pRoomID p \<and> device = ''light'' then Some (pTargetLight p)
       else GetDeviceValue room device st)" for room device using m by simp
  moreover have "device_Receive e c msg st = HRes st' (heffs (device_Receive e c msg st)) None"
    "sent (heffs (device_Receive e c msg st)) = (case look c ''logger'' of None \<Rightarrow> [] | Some ref \<Rightarrow> map (\<lambda>dev. (LocalRef ref, mkMessage MsgDeviceStatus
      (Dyn (DeviceStatusPayload (pRoomID p) dev ''adjusted'' (Self c) (now e))) '''')) [''ac'', ''heating'', ''blinds'', ''lights''])"
    using assms by (simp_all add: device_Receive_def handleAdjustEnvironment_def Let_def m_def st'_def split: option.split)
  ultimately show ?thesis by blast
qed

theorem device_adjusts_witness:
  "let msg = mkMessage MsgAdjustEnvironment (Dyn (AdjustEnvironmentPayload ''all'' (FNum 21) (FNum 45) (FNum 200) :: unit payload)) '''';
     c = \<lparr>Self = ''device-ctrl'', CtxSender = None, look = Map.empty\<rparr>
   in GetDeviceValue ''all'' ''humidity'' (hstate (device_Receive \<lparr>now = 0, iter = (\<lambda>ks. ks)\<rparr> c msg (NewDeviceControllerActor ''device-ctrl''))) = Some (FNum 45)"
  using device_adjusts [of "mkMessage MsgAdjustEnvironment (Dyn (AdjustEnvironmentPayload ''all'' (FNum 21) (FNum 45) (FNum 200) :: unit payload)) ''''"
      "AdjustEnvironmentPayload ''all'' (FNum 21) (FNum 45) (FNum 200)" "\<lparr>now = 0, iter = (\<lambda>ks. ks)\<rparr>"
      "\<lparr>Self = ''device-ctrl'', CtxSender = None, look = Map.empty\<rparr>" "NewDeviceControllerActor ''device-ctrl''"]
  by (auto simp: Let_def mkMessage_def castPayload_def)

end
