(* ===== verification/Metrics.thy ===== *)
theory Metrics
  imports Dataset
begin

text \<open>
  The regression metrics (\<^verbatim>\<open>smart-home/evaluation/metrics.go\<close>), in \<^verbatim>\<open>float64\<close> arithmetic.

  The lemmas follow the sign and the upper bound of a value through the operations; a value may always be a NaN.
\<close>

record Metrics =
  MSE :: f64
  RMSE :: f64
  MAE :: f64
  R2 :: f64

text \<open>One turn of the loop over the values: \<^verbatim>\<open>mse\<close>, \<^verbatim>\<open>mae\<close>, \<^verbatim>\<open>ssRes\<close> and \<^verbatim>\<open>ssTot\<close>.\<close>

fun add_errors :: "f64 list \<Rightarrow> f64 list \<Rightarrow> f64 \<Rightarrow> nat \<Rightarrow> f64 \<times> f64 \<times> f64 \<times> f64 \<Rightarrow> f64 \<times> f64 \<times> f64 \<times> f64" where
  "add_errors actual predicted meanActual i (mse, mae, ssRes, ssTot) =
    (let diff = actual ! i - predicted ! i;
         totDiff = actual ! i - meanActual
     in (mse + diff * diff, mae + Abs diff, ssRes + diff * diff, ssTot + totDiff * totDiff))"

definition Calculate :: "f64 list \<Rightarrow> f64 list \<Rightarrow> Metrics" where
  "Calculate actual predicted =
    (let n = length actual
     in if n = 0 \<or> n \<noteq> length predicted then \<lparr>MSE = 0, RMSE = 0, MAE = 0, R2 = 0\<rparr>
        else
          let meanActual = fold (\<lambda>v m. m + v) actual 0 / of_goint (int n);
              (mse, mae, ssRes, ssTot) = fold (add_errors actual predicted meanActual) [0..<n] (0, 0, 0, 0);
              mse = mse / of_goint (int n);
              mae = mae / of_goint (int n);
              r2 = (if ssTot > lit (1 / 10 ^ 12) then lit 1 - ssRes / ssTot else lit 1)
          in \<lparr>MSE = Round (mse * lit 1000000) / lit 1000000, RMSE = Round (Sqrt mse * lit 1000000) / lit 1000000,
              MAE = Round (mae * lit 1000000) / lit 1000000, R2 = Round (r2 * lit 1000000) / lit 1000000\<rparr>)"

record RoundResult =
  Round_of :: int
  Metrics_of :: Metrics

section \<open>Lemmas\<close>

subsection \<open>Signs\<close>

text \<open>Not negative, if a number at all.\<close>

definition nn :: "f64 \<Rightarrow> bool" where
  "nn x \<longleftrightarrow> IsNaN x \<or> fle (FZero False) x"

lemma nn_cases:
  assumes "nn x"
  obtains "x = FNaN" | "x = FInf False" | b where "x = FZero b" | q where "x = FNum q" "0 \<le> q"
  using assms by (cases x) (auto simp: nn_def)

lemma nn_simps [simp]: "nn FNaN" "nn (FInf b) = (\<not> b)" "nn (FZero b)" "nn (FNum q) = (0 \<le> q)"
  by (simp_all add: nn_def)

lemma nn_zero [simp]: "nn 0"
  by (simp add: zero_f64_def)

lemma nn_rnd: "0 \<le> q \<Longrightarrow> nn (rnd s q)"
  by (simp add: nn_def rnd_sign)

lemma nn_square: "nn (x * x)"
  by (cases x) (auto simp: times_f64_def intro: nn_rnd)

lemma nn_add: "nn x \<Longrightarrow> nn y \<Longrightarrow> nn (x + y)"
  by (elim nn_cases) (auto simp: plus_f64_def intro!: nn_rnd)

lemma nn_Abs: "nn (Abs x)"
  by (cases x) auto

lemma nn_div: "nn x \<Longrightarrow> nn y \<Longrightarrow> \<not> neg y \<Longrightarrow> nn (x / y)"
  by (elim nn_cases) (auto simp: divide_f64_def intro!: nn_rnd)

lemma nn_mult_FNum: "nn x \<Longrightarrow> 0 < q \<Longrightarrow> nn (x * FNum q)"
  by (elim nn_cases) (auto simp: times_f64_def intro!: nn_rnd)

lemma nn_Round: "nn x \<Longrightarrow> nn (Round x)"
  by (elim nn_cases) (auto simp: Let_def)

lemma isqrt_nonneg: "0 \<le> isqrt n"
proof (induction n rule: isqrt.induct)
  case (1 n)
  then show ?case by (subst isqrt.simps) (simp add: Let_def)
qed

lemma nn_Sqrt: "nn x \<Longrightarrow> nn (Sqrt x)"
  by (elim nn_cases) (auto simp: Let_def isqrt_nonneg intro!: nn_rnd divide_nonneg_pos mult_pos_pos zero_less_power_int)

lemma neg_rnd_pos: "0 < q \<Longrightarrow> \<not> neg (rnd False q)"
  using rnd_abs_nonneg [of q] by (simp add: rnd_pos)

lemma of_goint_pos: "0 < n \<Longrightarrow> nn (of_goint n) \<and> \<not> neg (of_goint n)"
  by (simp add: of_goint_def lit_def nn_rnd neg_rnd_pos)

subsection \<open>Upper bounds\<close>

lemma lit_million: "lit 1000000 = FNum 1000000"
  by (simp add: lits)

text \<open>Below a positive integer, if a number at all.\<close>

definition below :: "int \<Rightarrow> f64 \<Rightarrow> bool" where
  "below m x \<longleftrightarrow> IsNaN x \<or> fle x (FNum (of_int m))"

lemma below_simps [simp]: "below m FNaN" "below m (FInf b) = b" "0 \<le> m \<Longrightarrow> below m (FZero b)" "below m (FNum q) = (q \<le> of_int m)"
  by (simp_all add: below_def)

lemma below_rnd: "q \<le> of_int m \<Longrightarrow> 0 < m \<Longrightarrow> m < 2 ^ 53 \<Longrightarrow> below m (rnd s q)"
  using rnd_mono [of q "of_int m" s False] rnd_exact [of m 0 False] by (simp add: below_def)

lemma below_one_minus: "nn z \<Longrightarrow> below 1 (FNum 1 - z)"
  by (elim nn_cases) (auto simp: minus_f64_def intro!: below_rnd)

lemma below_million: "below 1 x \<Longrightarrow> below 1000000 (x * FNum 1000000)"
  by (cases x) (auto simp: times_f64_def intro!: below_rnd)

lemma below_Round: "below 1000000 x \<Longrightarrow> below 1000000 (Round x)"
proof (cases x)
  case (FNum q)
  let ?n = "\<lfloor>\<bar>q\<bar> + 1 / 2\<rfloor>"
  assume "below 1000000 x"
  then have "?n \<le> 1000000" if "0 \<le> q" using that FNum by (simp add: floor_le_iff)
  then have u: "rat_of_int ?n \<le> 1000000" if "0 \<le> q" using that by (simp only: of_int_le_iff [symmetric]) simp
  have "0 \<le> rat_of_int ?n" by simp
  then have "- rat_of_int ?n \<le> 1000000" by linarith
  with u show ?thesis unfolding FNum Round.simps Let_def
    by (cases "q < 0") (simp_all only: not_less if_True if_False below_simps split: if_split, simp_all)
qed auto

lemma below_div: "below 1000000 x \<Longrightarrow> below 1 (x / FNum 1000000)"
  by (cases x) (auto simp: divide_f64_def intro!: below_rnd)

lemmas nn_intros = nn_square nn_add nn_Abs nn_div nn_mult_FNum nn_Round nn_Sqrt nn_zero

text \<open>The sums of the loop.\<close>

lemma sums_nn:
  assumes "fold (add_errors a p mean) is (w, x, y, z) = (w', x', y', z')" and "nn w" "nn x" "nn y" "nn z"
  shows "nn w' \<and> nn x' \<and> nn y' \<and> nn z'"
  using assms
proof (induction "is" arbitrary: w x y z)
  case (Cons i "is")
  show ?case
    using Cons.prems(2-5) by (intro Cons.IH [OF Cons.prems(1) [unfolded fold_simps comp_apply add_errors.simps Let_def]]) (simp_all add: nn_intros)
qed simp

lemma minus_self: "finite_f64 x \<Longrightarrow> x - x = FZero False"
  by (cases x) (auto simp: minus_f64_def finite_f64_def)

lemma zero_sums:
  assumes "\<forall>i\<in>set is. finite_f64 (a ! i)" "nn z"
  shows "\<exists>z'. fold (add_errors a a mean) is (FZero False, FZero False, FZero False, z) = (FZero False, FZero False, FZero False, z') \<and> nn z'"
  using assms
proof (induction "is" arbitrary: z)
  case (Cons i "is")
  have "add_errors a a mean i (FZero False, FZero False, FZero False, z) = (FZero False, FZero False, FZero False, z + (a ! i - mean) * (a ! i - mean))"
    using Cons.prems(1) by (simp add: Let_def minus_self plus_f64_def times_f64_def)
  then show ?case using Cons by (simp add: nn_add nn_square)
qed simp

section \<open>Properties\<close>

text \<open>
  C34: the metrics have the range that their definitions promise, in \<^verbatim>\<open>float64\<close> arithmetic with all its rounding and overflow: whatever the
  values, the three errors are not negative and the coefficient of determination is at most 1, unless they are a NaN.
\<close>

theorem Calculate_ranges:
  "(IsNaN (MSE (Calculate a p)) \<or> 0 \<le> MSE (Calculate a p)) \<and> (IsNaN (RMSE (Calculate a p)) \<or> 0 \<le> RMSE (Calculate a p)) \<and>
   (IsNaN (MAE (Calculate a p)) \<or> 0 \<le> MAE (Calculate a p)) \<and> (IsNaN (R2 (Calculate a p)) \<or> R2 (Calculate a p) \<le> 1)"
proof (cases "length a = 0 \<or> length a \<noteq> length p")
  case True
  then show ?thesis by (auto simp: Calculate_def zero_f64_def one_f64_def less_eq_f64_def)
next
  case False
  let ?n = "of_goint (int (length a))"
  obtain mse mae ssRes ssTot where s: "fold (add_errors a p (fold (\<lambda>v m. m + v) a 0 / ?n)) [0..<length a] (0, 0, 0, 0) = (mse, mae, ssRes, ssTot)"
    by (metis prod_cases4)
  have nn: "nn mse" "nn mae" "nn ssRes" "nn ssTot" using sums_nn [OF s] by simp_all
  have "0 < int (length a)" using False by auto
  then have n: "nn ?n" "\<not> neg ?n" using of_goint_pos [of "int (length a)"] by blast+
  let ?r2 = "if ssTot > lit (1 / 10 ^ 12) then lit 1 - ssRes / ssTot else lit 1"
  have "below 1 ?r2"
  proof -
    have "\<not> neg ssTot" if "ssTot > lit (1 / 10 ^ 12)"
      using that nn(4) rnd_sign [of "1 / 10 ^ 12" False False] by (elim nn_cases) (auto simp: less_f64_def lit_def elim: flt.elims fle.elims)
    then show ?thesis using nn by (simp add: lit_one below_one_minus nn_div)
  qed
  then have "below 1 (Round (?r2 * lit 1000000) / lit 1000000)"
    unfolding lit_million by (intro below_div below_Round below_million)
  moreover have "nn (Round (mse / ?n * lit 1000000) / lit 1000000)" "nn (Round (Sqrt (mse / ?n) * lit 1000000) / lit 1000000)"
    "nn (Round (mae / ?n * lit 1000000) / lit 1000000)"
    unfolding lit_million using nn n by (intro nn_intros; simp add: nn_intros)+
  moreover have "Calculate a p = \<lparr>MSE = Round (mse / ?n * lit 1000000) / lit 1000000, RMSE = Round (Sqrt (mse / ?n) * lit 1000000) / lit 1000000,
      MAE = Round (mae / ?n * lit 1000000) / lit 1000000, R2 = Round (?r2 * lit 1000000) / lit 1000000\<rparr>"
    unfolding Calculate_def Let_def by (simp only: False s prod.case if_False)
  ultimately show ?thesis by (simp add: nn_def below_def less_eq_f64_def zero_f64_def one_f64_def)
qed

text \<open>
  A prediction that equals the actual values, which are finite numbers, scores exactly 0, 0, 0 and 1; value lists of different lengths, or no values,
  score 0 everywhere.
\<close>

theorem Calculate_perfect:
  assumes "a \<noteq> []" "\<forall>x\<in>set a. finite_f64 x" "length b \<noteq> length a"
  shows "Calculate a a = \<lparr>MSE = 0, RMSE = 0, MAE = 0, R2 = 1\<rparr> \<and> Calculate a b = \<lparr>MSE = 0, RMSE = 0, MAE = 0, R2 = 0\<rparr> \<and>
    Calculate [] b = \<lparr>MSE = 0, RMSE = 0, MAE = 0, R2 = 0\<rparr>"
proof -
  let ?n = "of_goint (int (length a))"
  obtain ssTot where s: "fold (add_errors a a (fold (\<lambda>v m. m + v) a (FZero False) / ?n)) [0..<length a] (FZero False, FZero False, FZero False, FZero False)
      = (FZero False, FZero False, FZero False, ssTot)" "nn ssTot"
    using zero_sums [of "[0..<length a]" a "FZero False"] assms(2) by auto
  have n: "\<exists>q. (?n = FNum q \<and> 0 < q) \<or> ?n = FInf False"
  proof -
    have "fle (FNum 1) ?n" using assms(1) rnd_mono [of 1 "of_int (int (length a))" False False] lit_one
      by (simp add: of_goint_def lit_def Suc_leI)
    then show ?thesis by (cases ?n) auto
  qed
  then have z: "FZero False / ?n = FZero False" by (auto simp: divide_f64_def)
  have z6: "Round (FZero False * FNum 1000000) / FNum 1000000 = FZero False" by (simp add: times_f64_def divide_f64_def)
  have "FNum 1 - FZero False / ssTot = FNum 1" if "ssTot > lit (1 / 10 ^ 12)"
  proof -
    have "FZero False / ssTot = FZero False"
      using that s(2) rnd_sign [of "1 / 10 ^ 12" False False]
      by (elim nn_cases) (auto simp: less_f64_def lit_def divide_f64_def elim: flt.elims fle.elims)
    then show ?thesis using lit_one by (simp add: minus_f64_def lit_def)
  qed
  then have r: "(if ssTot > lit (1 / 10 ^ 12) then lit 1 - FZero False / ssTot else lit 1) = FNum 1" by (simp add: lit_one)
  have "rnd False 1000000 = FNum 1000000" using lit_million by (simp add: lit_def)
  then have r6: "Round (FNum 1 * FNum 1000000) / FNum 1000000 = FNum 1"
    using lit_one by (simp add: times_f64_def divide_f64_def Let_def lit_def)
  show ?thesis
    using assms(1,3) s(1) z z6 r r6 by (simp add: Calculate_def Let_def zero_f64_def one_f64_def lit_million)
qed

theorem Calculate_perfect_witness:
  "Calculate [FNum 1, FZero True, FNum (1 / 2)] [FNum 1, FZero True, FNum (1 / 2)] = \<lparr>MSE = 0, RMSE = 0, MAE = 0, R2 = 1\<rparr>"
  using Calculate_perfect [of "[FNum 1, FZero True, FNum (1 / 2)]" "[]"] by (simp add: finite_f64_def)

end
