(* ===== verification/Evaluator.thy ===== *)
theory Evaluator
  imports Metrics Durable Mlp
begin

text \<open>
  The evaluator actor (\<^verbatim>\<open>smart-home/actors/evaluator.go\<close>): it measures a weight vector on a validation set, reports the
  metrics to the logger and answers the request if it was an \<^verbatim>\<open>Ask\<close>. \<open>r\<close> are the random draws of \<open>NewMLP\<close>.
\<close>

record EvaluatorActor =
  evaluatorID :: ActorID
  valSet :: "Sample list"
  results :: "RoundResult list"

definition NewEvaluatorActor :: "ActorID \<Rightarrow> Sample list \<Rightarrow> EvaluatorActor" where
  "NewEvaluatorActor i vs = \<lparr>evaluatorID = i, valSet = vs, results = []\<rparr>"

text \<open>The loop that collects the actual and the predicted values.\<close>

definition predict_all :: "f64 mlp \<Rightarrow> Sample list \<Rightarrow> (f64 list \<times> f64 list) option" where
  "predict_all m ss = for_upto (length ss) (\<lambda>k (actuals, predictions). do {
     pred \<leftarrow> Predict m (Features (ss ! k));
     Some (actuals @ Target (ss ! k), predictions @ pred)
   }) ([], [])"

definition handleEvaluateModel :: "(nat \<Rightarrow> f64) \<Rightarrow> ctx \<Rightarrow> 'f payload message \<Rightarrow> EvaluatorActor \<Rightarrow> (EvaluatorActor, 'f) hres" where
  "handleEvaluateModel r c msg st = (case castPayload PEvaluateModel (Payload msg) of
     None \<Rightarrow> HRes st [] None
   | Some p \<Rightarrow>
       (case SetWeights (NewMLP r 5 8 3) (elems (pGlobalWeights p)) of
          None \<Rightarrow> HRes st [] (Some ''slice bounds out of range'')
        | Some m \<Rightarrow>
            (case predict_all m (valSet st) of
               None \<Rightarrow> HRes st [] (Some ''index out of range'')
             | Some (actuals, predictions) \<Rightarrow>
                 (let ms = Calculate actuals predictions;
                      logEffs = (if pLoggerID p \<noteq> '''' then (case look c (pLoggerID p) of
                          Some ref \<Rightarrow> [ETell (LocalRef ref) (mkMessage MsgLogMetrics
                            (Dyn (LogMetricsPayload (pRoundID p) (MSE ms) (RMSE ms) (MAE ms) (R2 ms))) '''')]
                        | None \<Rightarrow> []) else []);
                      replyEffs = (case IsAsk msg of
                          Some (_, rch) \<Rightarrow> [EReply rch (mkMessage ''''
                            (Dyn (EvaluationResultPayload (pRoundID p) (MSE ms) (RMSE ms) (MAE ms) (R2 ms))) '''')]
                        | None \<Rightarrow> [])
                  in HRes (st\<lparr>results := results st @ [\<lparr>Round_of = pRoundID p, Metrics_of = ms\<rparr>]\<rparr>) (logEffs @ replyEffs) None))))"

definition evaluator_Receive :: "(nat \<Rightarrow> f64) \<Rightarrow> ctx \<Rightarrow> 'f payload message \<Rightarrow> EvaluatorActor \<Rightarrow> (EvaluatorActor, 'f) hres" where
  "evaluator_Receive r c msg st = (if MsgType msg = MsgEvaluateModel then handleEvaluateModel r c msg st else HRes st [] None)"

definition Results :: "EvaluatorActor \<Rightarrow> RoundResult list" where
  "Results st = results st"

section \<open>Lemmas\<close>

lemma predict_all_eq:
  assumes "wf_mlp m" "\<forall>x\<in>set ss. InputDim m \<le> length (Features x)"
  shows "predict_all m ss = Some (concat (map Target ss), concat (map (\<lambda>x. map (outp m (Features x)) [0..<OutputDim m]) ss))"
proof -
  have "\<exists>s'. predict_all m ss = Some s' \<and> s' = (concat (map Target (take (length ss) ss)),
      concat (map (\<lambda>x. map (outp m (Features x)) [0..<OutputDim m]) (take (length ss) ss)))"
    unfolding predict_all_def
    by (rule for_upto_rule [where I = "\<lambda>k s. s = (concat (map Target (take k ss)),
          concat (map (\<lambda>x. map (outp m (Features x)) [0..<OutputDim m]) (take k ss)))"])
      (use assms in \<open>simp_all add: Predict_eq take_Suc_conv_app_nth\<close>)
  then show ?thesis by simp
qed

section \<open>Properties\<close>

text \<open>
  An evaluation request is answered. For a validation set with five features per sample and a weight vector of at least 72 numbers, the evaluator
  computes the metrics of the network with these weights over the whole validation set, appends them to its results, reports them to the logger that the
  request names, if it can be found, and, when the request was sent with \<open>Ask\<close>, puts exactly one reply with the same metrics on its reply
  channel. A shorter weight vector makes the handler panic without a reply.
\<close>

theorem evaluator_answers:
  fixes msg :: "'f payload message" and c :: ctx
  assumes "MsgType msg = MsgEvaluateModel" "castPayload PEvaluateModel (Payload msg) = Some p"
    and "\<forall>x\<in>set (valSet st). 5 \<le> length (Features x)"
  shows "if length (elems (pGlobalWeights p)) < 72 then evaluator_Receive r c msg st = HRes st [] (Some ''slice bounds out of range'')
    else \<exists>m ms effs. SetWeights (NewMLP r 5 8 3) (elems (pGlobalWeights p)) = Some m \<and>
      ms = Calculate (concat (map Target (valSet st))) (concat (map (\<lambda>x. map (outp m (Features x)) [0..<3]) (valSet st))) \<and>
      evaluator_Receive r c msg st = HRes (st\<lparr>results := results st @ [\<lparr>Round_of = pRoundID p, Metrics_of = ms\<rparr>]\<rparr>) effs None \<and>
      sent effs = (if pLoggerID p = '''' then [] else case look c (pLoggerID p) of None \<Rightarrow> []
        | Some ref \<Rightarrow> [(LocalRef ref, mkMessage MsgLogMetrics (Dyn (LogMetricsPayload (pRoundID p) (MSE ms) (RMSE ms) (MAE ms) (R2 ms))) '''')]) \<and>
      filter (\<lambda>x. \<exists>rch m. x = EReply rch m) effs = (case IsAsk msg of None \<Rightarrow> [] | Some (_, rch) \<Rightarrow>
        [EReply rch (mkMessage '''' (Dyn (EvaluationResultPayload (pRoundID p) (MSE ms) (RMSE ms) (MAE ms) (R2 ms))) '''')])"
proof (cases "length (elems (pGlobalWeights p)) < 72")
  case True
  then have "SetWeights (NewMLP r 5 8 3) (elems (pGlobalWeights p)) = None" by (simp add: SetWeights_None_iff NewMLP_def Let_def)
  with True assms(1,2) show ?thesis by (simp add: evaluator_Receive_def handleEvaluateModel_def)
next
  case False
  then have "SetWeights (NewMLP r 5 8 3) (elems (pGlobalWeights p)) \<noteq> None" by (simp add: SetWeights_None_iff NewMLP_def Let_def)
  then obtain m where m: "SetWeights (NewMLP r 5 8 3) (elems (pGlobalWeights p)) = Some m" by auto
  moreover have "wf_mlp (NewMLP r 5 8 3)" by (simp add: NewMLP_def wf_mlp_def Let_def)
  ultimately have d: "wf_mlp m" "InputDim m = 5" "OutputDim m = 3" using SetWeights_wf [OF m] by (simp_all add: NewMLP_def Let_def)
  define ms where "ms = Calculate (concat (map Target (valSet st))) (concat (map (\<lambda>x. map (outp m (Features x)) [0..<3]) (valSet st)))"
  have "predict_all m (valSet st) = Some (concat (map Target (valSet st)), concat (map (\<lambda>x. map (outp m (Features x)) [0..<3]) (valSet st)))"
    using predict_all_eq [of m "valSet st"] d assms(3) by simp
  with m assms(1,2) have "evaluator_Receive r c msg st = HRes (st\<lparr>results := results st @ [\<lparr>Round_of = pRoundID p, Metrics_of = ms\<rparr>]\<rparr>)
      (heffs (evaluator_Receive r c msg st)) None"
    "heffs (evaluator_Receive r c msg st) =
      (if pLoggerID p = '''' then [] else case look c (pLoggerID p) of None \<Rightarrow> []
         | Some ref \<Rightarrow> [ETell (LocalRef ref) (mkMessage MsgLogMetrics (Dyn (LogMetricsPayload (pRoundID p) (MSE ms) (RMSE ms) (MAE ms) (R2 ms))) '''')]) @
      (case IsAsk msg of None \<Rightarrow> [] | Some (_, rch) \<Rightarrow>
         [EReply rch (mkMessage '''' (Dyn (EvaluationResultPayload (pRoundID p) (MSE ms) (RMSE ms) (MAE ms) (R2 ms))) '''')])"
    unfolding evaluator_Receive_def handleEvaluateModel_def Let_def ms_def by (simp_all split: option.split)
  then show ?thesis
    unfolding if_not_P [OF False] using m
    by (intro exI [of _ m] exI [of _ ms] exI [of _ "heffs (evaluator_Receive r c msg st)"] conjI) (simp_all add: ms_def split: option.split)
qed

theorem evaluator_answers_witness:
  "let st = NewEvaluatorActor ''evaluator'' [\<lparr>Features = replicate 5 0, Target = replicate 3 0, RoomID = ''validation''\<rparr>];
     p = EvaluateModelPayload 7 (SList (replicate 75 0)) '''' :: unit payload;
     msg = askMessage \<lparr>now = 0, iter = (\<lambda>ks. ks)\<rparr> 4 (mkMessage MsgEvaluateModel (Dyn p) '''')
   in \<exists>st' effs a b c d. evaluator_Receive (\<lambda>_. 0) undefined msg st = HRes st' effs None \<and> length (results st') = 1 \<and>
     EReply 4 (mkMessage '''' (Dyn (EvaluationResultPayload 7 a b c d)) '''') \<in> set effs"
proof -
  let ?st = "NewEvaluatorActor ''evaluator'' [\<lparr>Features = replicate 5 0, Target = replicate 3 0, RoomID = ''validation''\<rparr>]"
  let ?p = "EvaluateModelPayload 7 (SList (replicate 75 0)) '''' :: unit payload"
  let ?msg = "askMessage \<lparr>now = 0, iter = (\<lambda>ks. ks)\<rparr> 4 (mkMessage MsgEvaluateModel (Dyn ?p) '''')"
  have h: "MsgType ?msg = MsgEvaluateModel" "castPayload PEvaluateModel (Payload ?msg) = Some ?p" "\<forall>x\<in>set (valSet ?st). 5 \<le> length (Features x)"
    by (simp_all add: askMessage_def mkMessage_def castPayload_def NewEvaluatorActor_def)
  have l: "\<not> length (elems (pGlobalWeights ?p)) < 72" "IsAsk ?msg = Some (mkMessage MsgEvaluateModel (Dyn ?p) '''', 4)"
    "results ?st = []" "pRoundID ?p = 7" by (simp_all add: NewEvaluatorActor_def)
  obtain ms effs where o: "evaluator_Receive (\<lambda>_. 0) undefined ?msg ?st = HRes (?st\<lparr>results := results ?st @ [\<lparr>Round_of = 7, Metrics_of = ms\<rparr>]\<rparr>) effs None"
    "filter (\<lambda>x. \<exists>rch m. x = EReply rch m) effs = [EReply 4 (mkMessage '''' (Dyn (EvaluationResultPayload 7 (MSE ms) (RMSE ms) (MAE ms) (R2 ms))) '''')]"
    using evaluator_answers [OF h, of "\<lambda>_. 0" undefined] unfolding if_not_P [OF l(1)] l(2,4) option.case prod.case
    by (elim exE conjE) (rule that)
  have "EReply 4 (mkMessage '''' (Dyn (EvaluationResultPayload 7 (MSE ms) (RMSE ms) (MAE ms) (R2 ms))) '''') \<in> set effs"
    using Cons_eq_filterD [OF o(2) [symmetric]] by auto
  moreover have "length (results (?st\<lparr>results := results ?st @ [\<lparr>Round_of = 7, Metrics_of = ms\<rparr>]\<rparr>)) = 1" unfolding l(3) by simp
  ultimately show ?thesis using o(1) unfolding Let_def by blast
qed

end
