(* ===== verification/SmartHome.thy ===== *)
theory SmartHome
  imports Sensor Coordinator Logger DeviceController Evaluator
begin

text \<open>
  The program as a whole: all its actors in one actor system, with the goroutines they start.

  An actor is one of the six kinds of the program. \<open>home_ops\<close> implements the \<^verbatim>\<open>Actor\<close> interface for them by the handlers of the
  component theories. A restart factory is the closure that \<^verbatim>\<open>cmd/demo/main.go\<close> registers with the supervisor, given by the variables it
  captures. \<open>home_step\<close> adds to the steps of the actor system the background goroutines (training, the heartbeat ticker, a delayed restart)
  and the requests that other processes send.
\<close>

datatype sensor_factory = SensorFactory ActorID string "Sample list" Persister

datatype home_actor = ASensor SensorActor | ACoordinator "sensor_factory CoordinatorActor" | ALogger "sensor_factory LoggerActor"
  | ADevice DeviceControllerActor | AEvaluator EvaluatorActor | ASupervisor "sensor_factory SupervisorActor"

type_synonym home = "(home_actor, sensor_factory) home_sys"
type_synonym home_message = "sensor_factory payload message"

fun home_ID :: "home_actor \<Rightarrow> ActorID" where
  "home_ID (ASensor st) = sensorID st"
| "home_ID (ACoordinator st) = coordID st"
| "home_ID (ALogger st) = loggerID st"
| "home_ID (ADevice st) = deviceID st"
| "home_ID (AEvaluator st) = evaluatorID st"
| "home_ID (ASupervisor st) = supID st"

fun home_TypeName :: "home_actor \<Rightarrow> string" where
  "home_TypeName (ASensor _) = ''*actors.SensorActor''"
| "home_TypeName (ACoordinator _) = ''*actors.CoordinatorActor''"
| "home_TypeName (ALogger _) = ''*actors.LoggerActor''"
| "home_TypeName (ADevice _) = ''*actors.DeviceControllerActor''"
| "home_TypeName (AEvaluator _) = ''*actors.EvaluatorActor''"
| "home_TypeName (ASupervisor _) = ''*supervision.SupervisorActor''"

text \<open>The factory closure of the demo; \<open>r\<close> are the random draws of \<open>NewMLP\<close>.\<close>

fun build :: "(nat \<Rightarrow> f64) \<Rightarrow> sensor_factory \<Rightarrow> home_actor" where
  "build r (SensorFactory i room data p) = ASensor (SetPersister p (NewSensorActor r i room ''coordinator'' data))"

section \<open>The methods\<close>

definition set_actor :: "nat \<Rightarrow> home_actor \<Rightarrow> home \<Rightarrow> home" where
  "set_actor a x s = upd_ent a (\<lambda>en. en\<lparr>actor := x\<rparr>) s"

definition add_tasks :: "nat \<Rightarrow> sensor_factory task list \<Rightarrow> home \<Rightarrow> home" where
  "add_tasks a ts s = s\<lparr>world := (world s)\<lparr>tasks := tasks (world s) @ map (Pair a) ts\<rparr>\<rparr>"

text \<open>Loading a state reads one file, if the actor has a persister.\<close>

definition reading :: "Persister option \<Rightarrow> home \<Rightarrow> home" where
  "reading p s = (if p = None then s else s\<lparr>world := (world s)\<lparr>io := tl (io (world s))\<rparr>\<rparr>)"

fun pre_start :: "fault \<Rightarrow> disk \<Rightarrow> home_actor \<Rightarrow> home_actor" where
  "pre_start fl d (ASensor st) = ASensor (sensor_OnPreStart fl d st)"
| "pre_start fl d (ACoordinator st) = ACoordinator (coord_OnPreStart fl d st)"
| "pre_start fl d (ALogger st) = ALogger (logger_OnPreStart fl d st)"
| "pre_start fl d (ADevice st) = ADevice (device_OnPreStart fl d st)"
| "pre_start fl d x = x"

fun persister_of :: "home_actor \<Rightarrow> Persister option" where
  "persister_of (ASensor st) = persister st"
| "persister_of (ACoordinator st) = coordPersister st"
| "persister_of (ALogger st) = loggerPersister st"
| "persister_of (ADevice st) = devicePersister st"
| "persister_of _ = None"

definition home_OnPreStart :: "nat \<Rightarrow> home \<Rightarrow> string option \<times> home" where
  "home_OnPreStart a s =
    (let x = actor (ent s a);
         s1 = reading (persister_of x) (set_actor a (pre_start (next_fault (world s)) (disk (world s)) x) s)
     in (None, case x of ASupervisor st \<Rightarrow> add_tasks a (map SupervisorTask (sup_OnPreStart st)) s1 | _ \<Rightarrow> s1))"

text \<open>The supervisor only needs to know the IDs of the actors that its factories make.\<close>

definition id_ops :: "(home_actor, behavior, sensor_factory payload, sensor_factory world) actor_ops" where
  "id_ops = \<lparr>ID = home_ID, TypeName = home_TypeName, OnPreStart = (\<lambda>_ _ s. (None, s)), OnPostStop = (\<lambda>_ _ s. s),
     OnPreRestart = (\<lambda>_ _ _ s. s), Receive = (\<lambda>_ _ _ s. Done s), Behave = (\<lambda>_ _ _ _ s. Done s)\<rparr>"

definition home_Receive :: "go_env \<Rightarrow> nat \<Rightarrow> home_message \<Rightarrow> home \<Rightarrow> home outcome" where
  "home_Receive e a msg s =
    (let c = ctx_of (home_ID (actor (ent s a))) a s; r = rng (world s)
     in case actor (ent s a) of
          ASensor st \<Rightarrow> run_handler ASensor a (sensor_Receive c msg st) s
        | ACoordinator st \<Rightarrow> run_handler ACoordinator a (coord_Receive r e c msg st) s
        | ALogger st \<Rightarrow> run_handler ALogger a (logger_Receive msg st) s
        | ADevice st \<Rightarrow> run_handler ADevice a (device_Receive e c msg st) s
        | AEvaluator st \<Rightarrow> run_handler AEvaluator a (evaluator_Receive r c msg st) s
        | ASupervisor st \<Rightarrow>
            (case sup_Receive id_ops (build r) e msg st s of
               (st1, gs, out) \<Rightarrow> obind out (\<lambda>s1. Done (add_tasks a (map SupervisorTask gs) (set_actor a (ASupervisor st1) s1)))))"

definition home_Behave :: "behavior \<Rightarrow> nat \<Rightarrow> home_message \<Rightarrow> home \<Rightarrow> home outcome" where
  "home_Behave b a msg s =
    (let c = ctx_of (home_ID (actor (ent s a))) a s
     in case actor (ent s a) of
          ASensor st \<Rightarrow> run_handler ASensor a (case b of
            TrainingBehavior \<Rightarrow> trainingBehavior c msg st
          | SendingResultsBehavior \<Rightarrow> sendingResultsBehavior st) s
        | _ \<Rightarrow> Done s)"

text \<open>No actor of the program overrides \<^verbatim>\<open>OnPostStop\<close> or \<^verbatim>\<open>OnPreRestart\<close> of \<^verbatim>\<open>BaseActor\<close>.\<close>

definition home_ops :: "(home_actor, behavior, sensor_factory payload, sensor_factory world) actor_ops" where
  "home_ops = \<lparr>ID = home_ID, TypeName = home_TypeName, OnPreStart = (\<lambda>_ a s. home_OnPreStart a s), OnPostStop = (\<lambda>_ _ s. s),
     OnPreRestart = (\<lambda>_ _ _ s. s), Receive = home_Receive, Behave = (\<lambda>b _ a msg s. home_Behave b a msg s)\<rparr>"

section \<open>Steps\<close>

definition drop_task :: "nat \<Rightarrow> home \<Rightarrow> home" where
  "drop_task k s = s\<lparr>world := (world s)\<lparr>tasks := take k (tasks (world s)) @ drop (Suc k) (tasks (world s))\<rparr>\<rparr>"

datatype home_label = HSys "(home_actor, sensor_factory payload) slabel" | HTask nat | HIncoming TellRequest
  | HIncomingAsk AskRequest | HIncomingStop string | HAsk nat "sensor_factory payload message" | HDraw

text \<open>
  A training goroutine works on the model of the actor that started it and then reports to it; the heartbeat goroutine goes on after a
  tick; a delayed restart ends with its message. A request from another process is handled by the server, and the main goroutine asks an actor. The
  random source has new values whenever it likes; a handler makes at most one network. A panic of a training goroutine, which ends the process, is not a step.
\<close>

inductive home_step :: "home \<Rightarrow> home_label \<Rightarrow> home \<Rightarrow> bool" where
  sys: "sys_step home_ops s l s' \<Longrightarrow> home_step s (HSys l) s'"
| train: "k < length (tasks (world s)) \<Longrightarrow> tasks (world s) ! k = (a, SimulateTraining p) \<Longrightarrow> a < length (heap s) \<Longrightarrow>
    actor (ent s a) = ASensor st \<Longrightarrow> simulateTraining e st p = Some (st', msg) \<Longrightarrow>
    Tell a msg (set_actor a (ASensor st') (drop_task k s)) = Done s' \<Longrightarrow> home_step s (HTask k) s'"
| tick: "k < length (tasks (world s)) \<Longrightarrow> tasks (world s) ! k = (a, SupervisorTask (HeartbeatLoop d)) \<Longrightarrow> a < length (heap s) \<Longrightarrow>
    Tell a (goroutine_message (HeartbeatLoop d)) s = Done s' \<Longrightarrow> home_step s (HTask k) s'"
| delayed: "k < length (tasks (world s)) \<Longrightarrow> tasks (world s) ! k = (a, SupervisorTask (DelayedRestart d i f)) \<Longrightarrow> a < length (heap s) \<Longrightarrow>
    Tell a (goroutine_message (DelayedRestart d i f)) (drop_task k s) = Done s' \<Longrightarrow> home_step s (HTask k) s'"
| incoming: "server_Tell init_registry req s = Done s' \<Longrightarrow> home_step s (HIncoming req) s'"
| incoming_ask: "server_Ask init_registry e req s = Inr (r, Done s') \<Longrightarrow> home_step s (HIncomingAsk req) s'"
| incoming_stop: "server_Stop e i s = Done s' \<Longrightarrow> home_step s (HIncomingStop i) s'"
| ask: "a < length (heap s) \<Longrightarrow> AskSend e a msg s = (r, Done s') \<Longrightarrow> home_step s (HAsk a msg) s'"
| draw: "home_step s HDraw (s\<lparr>world := (world s)\<lparr>rng := g\<rparr>\<rparr>)"

text \<open>The options that the demo spawns and restarts its sensors with.\<close>

definition supervised :: SpawnOptions where
  "supervised = \<lparr>MailboxCapacity = 0, SpawnStrategy = DropNewest, SupervisorID = ''supervisor''\<rparr>"

text \<open>An example: a supervisor and one sensor, with messages in its mailbox.\<close>

definition crash_scene :: "home_message list \<Rightarrow> home" where
  "crash_scene ms =
    (let sup = ASupervisor \<lparr>supID = ''supervisor'', config = \<lparr>Strategy = Some (OneForOne 3 (10 * Second)), HeartbeatInterval = 0, LoggerID = ''logger''\<rparr>,
           tracker = [], factories = [(''sensor-1'', \<lparr>factory = SensorFactory ''sensor-1'' ''kitchen'' [] \<lparr>basePath = ''data''\<rparr>,
             opts = supervised\<rparr>)]\<rparr>;
         sensor = build (\<lambda>_. 0) (SensorFactory ''sensor-1'' ''kitchen'' [] \<lparr>basePath = ''data''\<rparr>);
         en = new_entry sensor supervised
     in \<lparr>heap = [(new_entry sup DefaultSpawnOptions)\<lparr>phase := Running\<rparr>, en\<lparr>phase := Running, mbox := (mbox en)\<lparr>ch := ms\<rparr>\<rparr>],
       actors = [(''supervisor'', 0), (''sensor-1'', 1)], shut = False, wg = 2, replies = [],
       world = \<lparr>disk = [], io = [], tasks = [], network = [], rng = (\<lambda>_. 0)\<rparr>\<rparr>)"

text \<open>The same after the crash, with the files \<open>d\<close> on the disk.\<close>

definition crashed_scene :: "disk \<Rightarrow> home" where
  "crashed_scene d = (finish Failed 1 (unregister ''sensor-1'' (crash_scene [])))\<lparr>world := (world (crash_scene []))\<lparr>disk := d\<rparr>\<rparr>"

section \<open>Lemmas\<close>

lemma safe_call_ID: "ID ops = ID ops' \<Longrightarrow> safe_call ops s s' = safe_call ops' s s'"
  by (simp add: safe_call_def keeps_def sys_inv_but_def)

lemma sys_inv_ID: "ID ops = ID ops' \<Longrightarrow> sys_inv_but X ops s = sys_inv_but X ops' s"
  by (simp add: sys_inv_but_def)

lemma home_ops_simps [simp]: "ID home_ops = home_ID" "ID id_ops = home_ID" "OnPreStart home_ops e a s = home_OnPreStart a s"
  "OnPostStop home_ops e a s = s" "OnPreRestart home_ops e a reason s = s" "Receive home_ops = home_Receive"
  "Behave home_ops b e a msg s = home_Behave b a msg s" "TypeName home_ops = home_TypeName"
  by (simp_all add: home_ops_def id_ops_def)

lemma set_actor_safe: "home_ID x = home_ID (actor (ent s a)) \<Longrightarrow> safe_call home_ops s (set_actor a x s)"
  unfolding set_actor_def by (rule safe_call_upd_ent) simp_all

lemma add_tasks_safe: "safe_call home_ops s (add_tasks a ts s)"
  by (simp add: add_tasks_def)

lemma reading_safe: "safe_call home_ops s (reading p s)"
  by (simp add: reading_def)

lemma drop_task_safe: "safe_call home_ops s (drop_task k s)"
  by (simp add: drop_task_def)

subsection \<open>Handlers keep the ID\<close>

lemma load_state_ID: "(\<And>v. i (restore v st) = i st) \<Longrightarrow> i (load_state ty restore fl d po x st) = i st"
  by (simp add: load_state_def split: option.split sum.split)

lemma pre_start_ID [simp]: "home_ID (pre_start fl d x) = home_ID x"
  by (cases x) (auto simp: sensor_OnPreStart_def coord_OnPreStart_def logger_OnPreStart_def device_OnPreStart_def sensor_restore_def
      coord_restore_def logger_restore_def device_restore_def split: goval.split list.split intro!: load_state_ID)

lemma sensor_Receive_ID: "sensorID (hstate (sensor_Receive c msg st)) = sensorID st"
  by (simp add: sensor_Receive_def handleStartTraining_def handleGlobalModelUpdate_def handleStatusCheck_def split: option.split)

lemma trainingBehavior_ID: "sensorID (hstate (trainingBehavior c msg st)) = sensorID st"
  using processSendResults_quiet(4) [of c msg "st\<lparr>state := ''sending''\<rparr>"]
  by (auto simp: trainingBehavior_def handleGlobalModelUpdate_def handleStatusCheck_def split: option.split prod.split)

lemma coord_Receive_ID:
  fixes st :: "'f CoordinatorActor"
  shows "coordID (hstate (coord_Receive r e c msg st)) = coordID st"
proof -
  have "coordID (hstate (aggregateAndFinalise r e c st')) = coordID st'" for st' :: "'f CoordinatorActor"
    by (simp add: aggregate_hstate split: option.split)
  moreover have "coordID (call_back fn i x st') = coordID st'" for fn i x and st' :: "'f CoordinatorActor"
    by (cases fn) (simp add: SetSensorRemoteRef_def)
  ultimately show ?thesis
    by (simp add: coord_Receive_def handleRegisterSensor_def handleStartRound_def handleModelUpdate_def handleRequestStatus_def Let_def split: option.split)
qed

lemma device_Receive_ID: "deviceID (hstate (device_Receive e c msg st)) = deviceID st"
  by (simp add: device_Receive_def handleAdjustEnvironment_def Let_def split: option.split)

lemma evaluator_Receive_ID: "evaluatorID (hstate (evaluator_Receive r c msg st)) = evaluatorID st"
  by (simp add: evaluator_Receive_def handleEvaluateModel_def Let_def split: option.split prod.split)

lemmas handler_IDs = sensor_Receive_ID trainingBehavior_ID coord_Receive_ID logger_Receive_ID device_Receive_ID evaluator_Receive_ID

subsection \<open>The program's actors honour the contract of the system\<close>

lemma run_handler_home:
  assumes "leaves (run_handler wrap a h s) s'" "home_ID (wrap (hstate h)) = home_ID (actor (ent s a))"
  shows "safe_call home_ops s s'"
  using run_handler_safe [OF assms(1), of home_ops] assms(2) by simp

lemma sup_Receive_home:
  assumes "leaves (snd (snd (sup_Receive id_ops bld e msg st s))) s'"
  shows "safe_call home_ops s s'"
  using sup_Receive_safe [OF assms] safe_call_ID [of id_ops home_ops] by simp

lemma supervisor_turn_home:
  assumes "actor (ent s a) = ASupervisor st" "a < length (heap s)"
    and "leaves (case sup_Receive id_ops bld e msg st s of
      (st1, gs, out) \<Rightarrow> obind out (\<lambda>s1. Done (add_tasks a (map SupervisorTask gs) (set_actor a (ASupervisor st1) s1)))) s'"
  shows "safe_call home_ops s s'"
proof -
  obtain st1 gs out where r: "sup_Receive id_ops bld e msg st s = (st1, gs, out)" by (metis prod_cases3)
  have out: "safe_call home_ops s s1" if "leaves out s1" for s1 using sup_Receive_home [of bld e msg st s s1] r that by simp
  show ?thesis
  proof (cases out)
    case (Done s1)
    then have s1: "safe_call home_ops s s1" using out by simp
    have "home_ID (ASupervisor st1) = home_ID (actor (ent s1 a))"
      using sup_Receive_supID [of id_ops bld e msg st s] r assms(1,2) safe_call_keeps [OF s1] by (simp add: keeps_def)
    then have "safe_call home_ops s1 (set_actor a (ASupervisor st1) s1)" by (rule set_actor_safe)
    moreover have "s' = add_tasks a (map SupervisorTask gs) (set_actor a (ASupervisor st1) s1)" using assms(3) r Done by simp
    ultimately show ?thesis using s1 add_tasks_safe by (blast intro: safe_call_trans)
  qed (use assms(3) r out in auto)
qed

interpretation home: actor_contract home_ops
proof unfold_locales
  show "safe_call home_ops s (snd (OnPreStart home_ops e a s))" for s e a
  proof -
    let ?x = "actor (ent s a)"
    let ?s = "set_actor a (pre_start (next_fault (world s)) (disk (world s)) ?x) s"
    have "safe_call home_ops s ?s" by (rule set_actor_safe) simp
    then have "safe_call home_ops s (reading (persister_of ?x) ?s)" using reading_safe by (rule safe_call_trans)
    then show ?thesis
      by (cases ?x) (auto simp: home_OnPreStart_def Let_def intro: safe_call_trans [OF _ add_tasks_safe])
  qed
next
  fix e a msg and s s' :: home
  assume "a < length (heap s)" "leaves (Receive home_ops e a msg s) s'"
  then show "safe_call home_ops s s'"
    by (cases "actor (ent s a)")
      (auto simp: home_Receive_def Let_def handler_IDs intro: run_handler_home supervisor_turn_home)
next
  fix b e a msg and s s' :: home
  assume "leaves (Behave home_ops b e a msg s) s'"
  then show "safe_call home_ops s s'"
    by (cases "actor (ent s a)"; cases b)
      (auto simp: home_Behave_def Let_def handler_IDs sendingResultsBehavior_def intro: run_handler_home)
qed simp_all

lemma AskSend_Done_safe: "AskSend e a msg s = (r, Done s') \<Longrightarrow> safe_call ops s s'"
  by (auto simp: AskSend_def Let_def intro: safe_call_trans [OF safe_call_replies] Tell_Done)

lemma home_step_inv: "home_step s l s' \<Longrightarrow> sys_inv home_ops s \<Longrightarrow> sys_inv home_ops s'"
proof (induction rule: home_step.induct)
  case (sys s l s')
  then show ?case by (blast intro: home.step_inv)
next
  case (train k s a p st e st' msg s')
  have "sensorID st' = sensorID st"
    using train.hyps(5) by (auto simp: simulateTraining_def realTraining_def split: if_splits bind_splits)
  then have "safe_call home_ops (drop_task k s) (set_actor a (ASensor st') (drop_task k s))"
    using train.hyps(4) by (intro set_actor_safe) (simp add: drop_task_def)
  then have "safe_call home_ops s s'"
    using drop_task_safe Tell_Done [OF train.hyps(6)] by (blast intro: safe_call_trans)
  then show ?case using train.prems by (rule safe_call_inv)
next
  case (tick k s a d s')
  then show ?case by (blast intro: safe_call_inv Tell_Done)
next
  case (delayed k s a d i f s')
  have "safe_call home_ops s s'" using drop_task_safe Tell_Done [OF delayed.hyps(4)] by (blast intro: safe_call_trans)
  then show ?case using delayed.prems by (rule safe_call_inv)
next
  case (incoming req s s')
  then show ?case using server_Tell_safe [of init_registry req s s' home_ops] by (simp add: safe_call_inv)
next
  case (incoming_ask e req s r s')
  then show ?case using AskSend_Done_safe [of e _ _ s r s' home_ops] by (auto simp: server_Ask_def intro: safe_call_inv split: sum.splits)
next
  case (incoming_stop e i s s')
  then show ?case by (auto simp: server_Stop_def StopRef_def intro: safe_call_inv Tell_Done split: sum.splits)
next
  case (ask a s e msg r s')
  then show ?case using AskSend_Done_safe safe_call_inv by blast
next
  case (draw s g)
  then show ?case by (rule safe_call_inv [OF safe_call_world])
qed

lemma home_reach_inv: "lrun home_step (NewActorSystem w) ls s \<Longrightarrow> sys_inv home_ops s"
  using lrun_inv [where I = "sys_inv home_ops", OF _ home.NewActorSystem_inv home_step_inv] .

lemma lrun_sys_home: "lrun (sys_step home_ops) s ls s' \<Longrightarrow> lrun home_step s (map HSys ls) s'"
proof (induction rule: lrun.induct)
  case (lrun_nil q)
  then show ?case by (simp add: lrun.lrun_nil)
next
  case (lrun_snoc q es q' e q'')
  then show ?case by (auto intro: lrun.lrun_snoc home_step.sys)
qed

subsection \<open>Crash and restart of a sensor\<close>

lemma same_actor: "actor en = x \<Longrightarrow> en\<lparr>sender := f, actor := x\<rparr> = en\<lparr>sender := f\<rparr>"
  by (cases en) simp

lemma sensor_crash_panics:
  assumes "actor (ent s a) = ASensor st" "a < length (heap s)" "behaviorStack (ent s a) \<in> {[], [TrainingBehavior]}" "MsgType msg = ''crash''"
  shows "\<exists>s' f. dispatch home_ops e a msg s = Panicked ''simulated crash for demo'' s' \<and> actors s' = actors s \<and> shut s' = shut s \<and>
    heap s' = (heap s)[a := (ent s a)\<lparr>sender := f\<rparr>] \<and> world s' = world s"
  using assms
  by (auto simp: dispatch_def Let_def handler_for_def isLifecycle_def CurrentBehavior_def home_Receive_def home_Behave_def sensor_Receive_def
      trainingBehavior_def run_handler_def upd_ent_def same_actor)

text \<open>The turn of the supervisor that handles the report.\<close>

lemma Tell_Done_frame:
  assumes "Tell r m s = Done s'"
  shows "actors s' = actors s" "world s' = world s" "length (heap s') = length (heap s)" "x \<noteq> r \<Longrightarrow> ent s' x = ent s x"
  using assms by (auto simp: Tell_def upd_ent_def split: enq.splits)

lemma supervisor_restarts_sensor:
  fixes s :: home
  assumes "sys_inv home_ops s" "\<not> shut s" "b < length (heap s)" "actor (ent s b) = ASupervisor ss"
    and "MsgType msg = MsgActorFailed" "Payload msg = ActorFailed p"
    and "mget (factories ss) (failedID p) = Some \<lparr>factory = SensorFactory (failedID p) room data ps, opts = o1\<rparr>" "MailboxCapacity o1 = 0"
    and "mget (actors s) (failedID p) = None" "LoggerID (config ss) \<noteq> failedID p"
    and "OnFailure e (the (Strategy (config ss))) (fst (Record e (failedID p) (30 * Second) (tracker ss))) = \<lparr>Action = ActionRestart, Delay = 0\<rparr>"
    and "home_Receive e b msg s = Done s1"
  defines "n \<equiv> length (heap s)"
  obtains mb where "ent s1 n = (new_entry (build (rng (world s)) (SensorFactory (failedID p) room data ps)) o1)\<lparr>mbox := mb\<rparr>"
    "n < length (heap s1)" "mget (actors s1) (failedID p) = Some n" "disk (world s1) = disk (world s)" "io (world s1) = io (world s)" "sys_inv home_ops s1"
    "\<not> bounded mb" "\<not> in_closed mb" "length (unboundedIn mb) = 1"
proof -
  let ?f = "SensorFactory (failedID p) room data ps" and ?bld = "build (rng (world s))"
  let ?en = "new_entry (?bld ?f) o1 :: (home_actor, behavior, sensor_factory payload) entry"
  have inv: "sys_inv id_ops s" using assms(1) sys_inv_ID [of home_ops id_ops] by simp
  have i: "ID id_ops (?bld (factory \<lparr>factory = ?f, opts = o1\<rparr>)) = failedID p" by (simp add: SetPersister_def NewSensorActor_def)
  have c: "0 \<le> MailboxCapacity (opts \<lparr>factory = ?f, opts = o1\<rparr>)" using assms(8) by simp
  obtain ss' s0 mb where r: "heap s0 = heap s @ [?en\<lparr>mbox := mb\<rparr>]" "sys_inv id_ops s0" "world s0 = world s"
    "actors s0 = mput (failedID p) n (actors s)"
    "handleFailure id_ops ?bld e msg ss s = (ss', [],
        case Lookup (LoggerID (config ss)) s0 of
          Inr r \<Rightarrow> if LoggerID (config ss) \<noteq> '''' then Tell r (restart_log (supID ss) (failedID p)) s0 else Done s0
        | Inl _ \<Rightarrow> Done s0)"
    "Enqueue (mbox ?en) (newMessage e MsgRestarting NilAny '''') = Sent mb"
    by (rule handleFailure_restarts [where ops = id_ops and build = ?bld, OF inv assms(2,6,7) i assms(9) c assms(11)]) (simp add: n_def)
  have mb: "\<not> bounded mb" "\<not> in_closed mb" "length (unboundedIn mb) = 1"
    using r(6) assms(8) by (auto simp: new_entry_def Enqueue_def NewUnboundedMailbox_def DefaultMailboxSize_def Let_def)
  obtain s2 where s2: "snd (snd (handleFailure id_ops ?bld e msg ss s)) = Done s2"
      "s1 = add_tasks b [] (set_actor b (ASupervisor ss') s2)"
    using assms(4,5,12) r(5) by (auto simp: home_Receive_def sup_Receive_def Let_def split: outcome.splits elim!: obind.elims)
  have lg: "r < n" if "Lookup (LoggerID (config ss)) s0 = Inr r" for r
    using that r(4) assms(1,10) by (auto simp: Lookup_def n_def split: option.splits intro: mget_live)
  have "ent s2 n = ent s0 n \<and> actors s2 = actors s0 \<and> world s2 = world s0 \<and> length (heap s2) = length (heap s0)"
  proof (cases "\<exists>r. Lookup (LoggerID (config ss)) s0 = Inr r \<and> LoggerID (config ss) \<noteq> ''''")
    case True
    then obtain r' where r': "Lookup (LoggerID (config ss)) s0 = Inr r'" "LoggerID (config ss) \<noteq> ''''" by blast
    with s2(1) r(5) have t: "Tell r' (restart_log (supID ss) (failedID p)) s0 = Done s2" by simp
    have "n \<noteq> r'" using lg [OF r'(1)] by simp
    with Tell_Done_frame [OF t] show ?thesis by simp
  next
    case False
    with s2(1) r(5) show ?thesis by (auto split: sum.splits if_splits)
  qed
  then have "ent s1 n = ?en\<lparr>mbox := mb\<rparr>" "n < length (heap s1)" "mget (actors s1) (failedID p) = Some n"
    "disk (world s1) = disk (world s)" "io (world s1) = io (world s)"
    using s2(2) r(1,3,4) assms(3) by (simp_all add: add_tasks_def set_actor_def upd_ent_def n_def)
  moreover have "sys_inv home_ops s1"
    using home.receive_law [of b s e msg s1] assms(3,12) safe_call_inv [OF _ assms(1)] by simp
  ultimately show ?thesis using that mb by blast
qed

lemma crash_scene_inv: "sys_inv home_ops (crash_scene ms)" if "length ms \<le> DefaultMailboxSize"
proof -
  have l: "live_set (crash_scene ms) = {0, 1}"
    by (auto simp: live_set_def crash_scene_def Let_def less_Suc_eq new_entry_def)
  then show ?thesis
    using that by (auto simp: sys_inv_but_def l)
      (auto simp: crash_scene_def Let_def less_Suc_eq new_entry_def mailbox_inv_def NewMailbox_def NewUnboundedMailbox_def DefaultSpawnOptions_def supervised_def gomap_inv_def SetPersister_def NewSensorActor_def split: if_splits)
qed

lemma crashed_scene_inv: "sys_inv home_ops (crashed_scene d)"
proof -
  have l: "live_set (crashed_scene d) = {0}"
    by (auto simp: live_set_def crashed_scene_def crash_scene_def finish_def unregister_def upd_ent_def Let_def less_Suc_eq new_entry_def)
  then show ?thesis
    by (auto simp: sys_inv_but_def l)
      (auto simp: crashed_scene_def crash_scene_def finish_def unregister_def upd_ent_def Let_def less_Suc_eq new_entry_def mailbox_inv_def NewMailbox_def
        NewUnboundedMailbox_def DefaultSpawnOptions_def supervised_def gomap_inv_def split: if_splits)
qed

section \<open>Properties\<close>

text \<open>
  C12: the registry of the running program is always exact. In every state that any interleaving of the actors' turns, background goroutines, spawns,
  restarts, shutdown and requests from other processes can reach, looking up an ID finds an actor exactly when an actor with that ID is alive; there
  is at most one per ID; and the wait group counts the actors that are alive.
\<close>

theorem smart_home_registry:
  assumes "lrun home_step (NewActorSystem w) ls s"
  shows "(\<forall>i a. Lookup i s = Inr a \<longleftrightarrow> a < length (heap s) \<and> live (phase (ent s a)) \<and> home_ID (actor (ent s a)) = i) \<and>
    inj_on (\<lambda>a. home_ID (actor (ent s a))) {a. a < length (heap s) \<and> live (phase (ent s a))} \<and>
    wg s = card {a. a < length (heap s) \<and> live (phase (ent s a))}"
proof -
  have inv: "sys_inv home_ops s" using assms by (rule home_reach_inv)
  then have l: "mget (actors s) i = Some a \<longleftrightarrow> a < length (heap s) \<and> live (phase (ent s a)) \<and> home_ID (actor (ent s a)) = i" for i a
    by (auto simp: sys_inv_but_def live_set_def)
  have "inj_on (\<lambda>a. home_ID (actor (ent s a))) {a. a < length (heap s) \<and> live (phase (ent s a))}"
  proof (rule inj_onI)
    fix a b assume "a \<in> {a. a < length (heap s) \<and> live (phase (ent s a))}" "b \<in> {a. a < length (heap s) \<and> live (phase (ent s a))}"
      and i: "home_ID (actor (ent s a)) = home_ID (actor (ent s b))"
    then have "mget (actors s) (home_ID (actor (ent s a))) = Some a" "mget (actors s) (home_ID (actor (ent s a))) = Some b"
      unfolding l by auto
    then show "a = b" by simp
  qed
  moreover have "wg s = card {a. a < length (heap s) \<and> live (phase (ent s a))}"
    using inv by (simp add: sys_inv_but_def live_set_def)
  moreover have "Lookup i s = Inr a \<longleftrightarrow> mget (actors s) i = Some a" for i a by (simp add: Lookup_def split: option.split)
  ultimately show ?thesis using l by simp
qed

theorem smart_home_registry_witness:
  "let w = \<lparr>disk = [], io = [], tasks = [], network = [], rng = (\<lambda>_. 0)\<rparr>; act = ALogger (NewLoggerActor ''logger'')
   in \<exists>s. lrun home_step (NewActorSystem w) [HSys (LSpawn act)] s \<and> Lookup ''logger'' s = Inr 0 \<and>
     wg s = card {a. a < length (heap s) \<and> live (phase (ent s a))}"
proof -
  let ?w = "\<lparr>disk = [], io = [], tasks = [], network = [], rng = (\<lambda>_. 0)\<rparr>" and ?act = "ALogger (NewLoggerActor ''logger'')"
  let ?r = "Spawn home_ops ?act DefaultSpawnOptions (NewActorSystem ?w)"
  have r: "?r = (Inr 0, snd ?r)" "Lookup ''logger'' (snd ?r) = Inr 0"
    by (simp_all add: Spawn_def NewActorSystem_def DefaultSpawnOptions_def NewLoggerActor_def Lookup_def Let_def)
  have "lrun home_step (NewActorSystem ?w) [HSys (LSpawn ?act)] (snd ?r)"
    by (rule lrun_one, rule home_step.sys, rule sys_step.spawn [OF r(1)])
  with smart_home_registry [OF this] r(2) show ?thesis unfolding Let_def by blast
qed



text \<open>
  C10: a crash of a supervised sensor is contained and reported. When a running sensor takes a crash message from its mailbox, idle or training, its turn
  ends with the sensor out of the registry and its goroutine finished, every other registered actor untouched, the disk and the other goroutines untouched, and a report
  that names the sensor and the reason as the newest message in its supervisor's mailbox; the invariant of the system holds again.
\<close>

theorem crashed_sensor_is_reported:
  fixes e :: go_env and s :: home
  assumes inv: "sys_inv home_ops s" and a: "a < length (heap s)" "phase (ent s a) = Running" "actor (ent s a) = ASensor st"
      "behaviorStack (ent s a) \<in> {[], [TrainingBehavior]}"
    and m: "receive (mbox (ent s a)) = Received msg mb" "MsgType msg = ''crash''"
    and v: "SupervisorID (spawnOpts (ent s a)) = v" "v \<noteq> ''''" "v \<noteq> sensorID st" "mget (actors s) v = Some b"
  defines "report \<equiv> newMessage e MsgActorFailed (ActorFailed \<lparr>failedID = sensorID st, ActorType = ''*actors.SensorActor'',
      Error = ''panic in actor '' @ sensorID st @ '': '' @ ''simulated crash for demo'', RestartCount = 0\<rparr>) ''''"
  assumes room: "Enqueue (mbox (ent s b)) report = Sent mb'"
  shows "\<exists>s'. run_receive home_ops e a s = Done s' \<and> Lookup (sensorID st) s' = Inl (NotFound (sensorID st)) \<and>
    (\<forall>i. i \<noteq> sensorID st \<longrightarrow> Lookup i s' = Lookup i s) \<and> phase (ent s' a) = Failed \<and> shut s' = shut s \<and>
    mbox (ent s' b) = mb' \<and> actor (ent s' b) = actor (ent s b) \<and> world s' = world s \<and> sys_inv home_ops s'"
proof -
  have b: "b < length (heap s)" "b \<noteq> a"
    using inv v(3,4) a(3) by (auto simp: sys_inv_but_def live_set_def)
  let ?s1 = "upd_ent a (\<lambda>en. en\<lparr>mbox := mb\<rparr>) s"
  have e1: "ent ?s1 a = (ent s a)\<lparr>mbox := mb\<rparr>" using a(1) by (simp add: ent_upd_ent)
  obtain s2 f where d: "dispatch home_ops e a msg ?s1 = Panicked ''simulated crash for demo'' s2" and s2: "actors s2 = actors s" "shut s2 = shut s"
      "heap s2 = (heap ?s1)[a := (ent ?s1 a)\<lparr>sender := f\<rparr>]" "world s2 = world s"
    using sensor_crash_panics [of ?s1 a st msg e] a e1 m(2) by (auto simp: upd_ent_def)
  have ea: "actor (ent s2 a) = ASensor st" "SupervisorID (spawnOpts (ent s2 a)) = v" "length (heap s2) = length (heap s)"
    using s2(3) a(1,3) v(1) e1 by simp_all
  have eb: "ent s2 b = ent s b" using s2(3) b by (simp add: upd_ent_def)
  let ?s3 = "upd_ent a (\<lambda>en. en\<lparr>cancelled := True\<rparr>) (unregister (sensorID st) s2)"
  have h3: "length (heap ?s3) = length (heap s)" "ent ?s3 b = ent s b" "actor (ent ?s3 a) = ASensor st" "spawnOpts (ent ?s3 a) = spawnOpts (ent s2 a)"
    using ea eb a(1) b by (simp_all add: unregister_def ent_upd_ent upd_ent_def)
  have l3: "Lookup v ?s3 = Inr b" using v(3,4) s2(1) by (simp add: Lookup_def unregister_def upd_ent_def)
  let ?s4 = "upd_ent b (\<lambda>en. en\<lparr>mbox := mb'\<rparr>) ?s3"
  have "handleActorFailure home_ops e a (''panic in actor '' @ sensorID st @ '': '' @ ''simulated crash for demo'') s2 = Tell b report ?s3"
    using ea h3 l3 v(2) by (simp add: handleActorFailure_def Let_def report_def)
  also have "\<dots> = Done ?s4" using room h3(2) by (simp add: Tell_def)
  finally have "run_recover home_ops e a ''simulated crash for demo'' s2 = Done (finish Failed a ?s4)"
    using ea(1) by (simp add: run_recover_def run_fail_def)
  then have r: "run_receive home_ops e a s = Done (finish Failed a ?s4)"
    using m d by (simp add: run_receive_def Let_def)
  moreover have "sys_inv home_ops (finish Failed a ?s4)"
    using home.run_receive_inv [OF inv _ r] a(1,2) by (simp add: live_set_def)
  moreover have "mbox (ent (finish Failed a ?s4) b) = mb'" "actor (ent (finish Failed a ?s4) b) = actor (ent s b)" "phase (ent (finish Failed a ?s4) a) = Failed"
    using b a(1) h3 by (simp_all add: finish_def upd_ent_def unregister_def ea(3))
  ultimately show ?thesis
    using s2 by (intro exI [of _ "finish Failed a ?s4"]) (simp add: finish_def upd_ent_def unregister_def Lookup_def)
qed

theorem crashed_sensor_is_reported_witness:
  "let s = crash_scene [mkMessage ''crash'' NilAny '''']; e = \<lparr>now = 0, iter = (\<lambda>ks. ks)\<rparr>
   in \<exists>s'. run_receive home_ops e 1 s = Done s' \<and> Lookup ''sensor-1'' s' = Inl (NotFound ''sensor-1'') \<and> Lookup ''supervisor'' s' = Inr 0 \<and>
     contents (mbox (ent s' 0)) = [newMessage e MsgActorFailed (ActorFailed \<lparr>failedID = ''sensor-1'', ActorType = ''*actors.SensorActor'',
       Error = ''panic in actor sensor-1: simulated crash for demo'', RestartCount = 0\<rparr>) '''']"
proof -
  let ?e = "\<lparr>now = 0, iter = (\<lambda>ks. ks)\<rparr>" and ?m = "mkMessage ''crash'' NilAny '''' :: home_message"
  let ?s = "crash_scene [?m]" and ?st = "SetPersister \<lparr>basePath = ''data''\<rparr> (NewSensorActor (\<lambda>_. 0) ''sensor-1'' ''kitchen'' ''coordinator'' [])"
  let ?report = "newMessage ?e MsgActorFailed (ActorFailed \<lparr>failedID = sensorID ?st, ActorType = ''*actors.SensorActor'',
      Error = ''panic in actor '' @ sensorID ?st @ '': '' @ ''simulated crash for demo'', RestartCount = 0\<rparr>) '''' :: home_message"
  let ?mb = "(mbox (ent ?s 1))\<lparr>ch := []\<rparr>" and ?mb' = "(mbox (ent ?s 0))\<lparr>enqueued := 1, ch := [?report]\<rparr>"
  have inv: "sys_inv home_ops ?s" by (rule crash_scene_inv) (simp add: DefaultMailboxSize_def)
  have id: "sensorID ?st = ''sensor-1''" by (simp add: SetPersister_def NewSensorActor_def)
  have s: "1 < length (heap ?s)" "phase (ent ?s 1) = Running" "actor (ent ?s 1) = ASensor ?st" "behaviorStack (ent ?s 1) \<in> {[], [TrainingBehavior]}"
    "receive (mbox (ent ?s 1)) = Received ?m ?mb" "MsgType ?m = ''crash''" "SupervisorID (spawnOpts (ent ?s 1)) = ''supervisor''"
    "mget (actors ?s) ''supervisor'' = Some 0" "Enqueue (mbox (ent ?s 0)) ?report = Sent ?mb'"
    by (simp_all add: crash_scene_def Let_def new_entry_def supervised_def NewMailbox_def NewUnboundedMailbox_def DefaultSpawnOptions_def
        receive_def mkMessage_def Enqueue_def DefaultMailboxSize_def)
  from crashed_sensor_is_reported [OF inv s(1-7) _ _ s(8,9)] id
  have "\<exists>s'. run_receive home_ops ?e 1 ?s = Done s' \<and> Lookup (sensorID ?st) s' = Inl (NotFound (sensorID ?st)) \<and>
      (\<forall>i. i \<noteq> sensorID ?st \<longrightarrow> Lookup i s' = Lookup i ?s) \<and> mbox (ent s' 0) = ?mb'" by auto
  moreover have "Lookup ''supervisor'' ?s = Inr 0" "contents ?mb' = [?report]"
    using s(8) by (simp_all add: Lookup_def contents_def crash_scene_def Let_def new_entry_def NewMailbox_def DefaultSpawnOptions_def DefaultMailboxSize_def)
  ultimately show ?thesis unfolding Let_def id by auto
qed

text \<open>
  C11: a restarted sensor goes on from what its predecessor had saved. After the supervisor's turn that handles the failure report and the first turn of
  the new instance, the failed ID is registered again, its actor runs, is idle, and has the weights, the round number and the sample count that the
  old instance last saved; the room, the data and the persister are those of the factory. Nothing was written to the disk.
\<close>

theorem restarted_sensor_resumes:
  fixes s :: home
  assumes sup: "sys_inv home_ops s" "\<not> shut s" "b < length (heap s)" "actor (ent s b) = ASupervisor ss"
      "MsgType msg = MsgActorFailed" "Payload msg = ActorFailed p"
      "mget (factories ss) (failedID p) = Some \<lparr>factory = SensorFactory (failedID p) room data ps, opts = o1\<rparr>" "MailboxCapacity o1 = 0"
      "mget (actors s) (failedID p) = None" "LoggerID (config ss) \<noteq> failedID p"
      "OnFailure e (the (Strategy (config ss))) (fst (Record e (failedID p) (30 * Second) (tracker ss))) = \<lparr>Action = ActionRestart, Delay = 0\<rparr>"
    and old: "list_all finite_f64 (elems (weights old))" "in_int64 (roundID old)" "in_int64 (samples old)"
      "Save fl ps (failedID p) sensorSavedState (sensor_saved old) d = (None, disk (world s))" "next_fault (world s) = NoFault"
    and turn: "home_Receive e b msg s = Done s1"
  shows "\<exists>s2 st. run_start home_ops e' (length (heap s)) s1 = Done s2 \<and> Lookup (failedID p) s2 = Inr (length (heap s)) \<and>
    phase (ent s2 (length (heap s))) = Running \<and> actor (ent s2 (length (heap s))) = ASensor st \<and> state st = ''idle'' \<and>
    weights st = weights old \<and> roundID st = roundID old \<and> samples st = samples old \<and> roomID st = room \<and> trainData st = data \<and>
    persister st = Some ps \<and> disk (world s2) = disk (world s) \<and> sys_inv home_ops s2"
proof -
  let ?n = "length (heap s)" and ?new = "SetPersister ps (NewSensorActor (rng (world s)) (failedID p) room ''coordinator'' data)"
  obtain mb where e1: "ent s1 ?n = (new_entry (ASensor ?new) o1)\<lparr>mbox := mb\<rparr>" and s1: "?n < length (heap s1)"
    "mget (actors s1) (failedID p) = Some ?n" "disk (world s1) = disk (world s)" "io (world s1) = io (world s)" "sys_inv home_ops s1"
    and mb: "\<not> bounded mb" "\<not> in_closed mb" "length (unboundedIn mb) = 1"
    by (rule supervisor_restarts_sensor [OF sup turn, unfolded build.simps])
  let ?st = "sensor_OnPreStart NoFault (disk (world s)) ?new"
  let ?s1 = "reading (Some ps) (set_actor ?n (ASensor ?st) s1)" and ?m = "newMessage e' MsgStarted NilAny '''' :: home_message"
  let ?mb = "mb\<lparr>enqueued := enqueued mb + 1, unboundedIn := unboundedIn mb @ [?m]\<rparr>"
  have nf: "next_fault (world s1) = NoFault" using old(5) s1(4) by (simp add: next_fault_def)
  have pre: "home_OnPreStart ?n s1 = (None, ?s1)"
    using e1 nf s1(3) by (simp add: home_OnPreStart_def Let_def new_entry_def SetPersister_def)
  have "Enqueue mb ?m = Sent ?mb" using mb by (simp add: Enqueue_def Let_def DefaultMailboxSize_def)
  moreover have "mbox (ent ?s1 ?n) = mb" using e1 s1(1) by (simp add: reading_def set_actor_def upd_ent_def)
  ultimately have run: "run_start home_ops e' ?n s1 = Done (upd_ent ?n (\<lambda>en. en\<lparr>phase := Running\<rparr>) (upd_ent ?n (\<lambda>en. en\<lparr>mbox := ?mb\<rparr>) ?s1))"
    (is "_ = Done ?s2") using pre by (simp add: run_start_def Tell_def)
  have "weights ?st = weights old \<and> roundID ?st = roundID old \<and> samples ?st = samples old"
    using sensor.restart_restores [of old fl ps "failedID p" d ?new] old
    by (simp add: sensor_OnPreStart_def SetPersister_def NewSensorActor_def)
  moreover have "state ?st = ''idle''" "roomID ?st = room" "trainData ?st = data" "persister ?st = Some ps"
    by (auto simp: sensor_OnPreStart_def SetPersister_def NewSensorActor_def load_state_def sensor_restore_def split: option.split sum.split goval.split list.split)
  moreover have "sys_inv home_ops ?s2"
    using home.run_start_inv [OF s1(5) _ run] e1 s1(1) by (simp add: live_set_def new_entry_def)
  ultimately show ?thesis
    using run s1 by (intro exI [of _ ?s2] exI [of _ ?st]) (simp add: reading_def set_actor_def upd_ent_def Lookup_def)
qed

theorem restarted_sensor_resumes_witness:
  "let old = (NewSensorActor (\<lambda>_. 0) ''sensor-1'' ''kitchen'' ''coordinator'' [])\<lparr>weights := SList [0], roundID := 4, samples := 80\<rparr>;
     ps = \<lparr>basePath = ''data''\<rparr>; s = crashed_scene (snd (Save NoFault ps ''sensor-1'' sensorSavedState (sensor_saved old) []));
     e = \<lparr>now = 0, iter = (\<lambda>ks. ks)\<rparr>;
     msg = mkMessage MsgActorFailed (ActorFailed \<lparr>failedID = ''sensor-1'', ActorType = ''*actors.SensorActor'', Error = ''panic'', RestartCount = 0\<rparr>) ''''
   in \<exists>s1 s2 st. home_Receive e 0 msg s = Done s1 \<and> run_start home_ops e 2 s1 = Done s2 \<and> Lookup ''sensor-1'' s2 = Inr 2 \<and>
     actor (ent s2 2) = ASensor st \<and> weights st = SList [0] \<and> roundID st = 4 \<and> samples st = 80"
proof -
  let ?old = "(NewSensorActor (\<lambda>_. 0) ''sensor-1'' ''kitchen'' ''coordinator'' [])\<lparr>weights := SList [0], roundID := 4, samples := 80\<rparr>"
  let ?ps = "\<lparr>basePath = ''data''\<rparr>" and ?e = "\<lparr>now = 0, iter = (\<lambda>ks. ks)\<rparr>"
  let ?save = "Save NoFault ?ps ''sensor-1'' sensorSavedState (sensor_saved ?old) []"
  let ?s = "crashed_scene (snd ?save)" and ?p = "\<lparr>failedID = ''sensor-1'', ActorType = ''*actors.SensorActor'', Error = ''panic'', RestartCount = 0\<rparr>"
  let ?msg = "mkMessage MsgActorFailed (ActorFailed ?p) '''' :: home_message"
  let ?f = "SensorFactory (failedID ?p) ''kitchen'' [] ?ps"
  let ?ss = "\<lparr>supID = ''supervisor'', config = \<lparr>Strategy = Some (OneForOne 3 (10 * Second)), HeartbeatInterval = 0, LoggerID = ''logger''\<rparr>,
     tracker = [], factories = [(''sensor-1'', \<lparr>factory = ?f, opts = supervised\<rparr>)]\<rparr>"
  have inv: "sys_inv home_ops ?s" by (rule crashed_scene_inv)
  have old: "list_all finite_f64 (elems (weights ?old))" "in_int64 (roundID ?old)" "in_int64 (samples ?old)"
    by (simp_all add: finite_f64_def zero_f64_def in_int64_def)
  have sv: "Save NoFault ?ps (failedID ?p) sensorSavedState (sensor_saved ?old) [] = (None, disk (world ?s))"
    using sensor.saved_Some [of ?old ?ps "''sensor-1''" "[]"] old by (cases ?save) (simp add: crashed_scene_def)
  have s: "\<not> shut ?s" "0 < length (heap ?s)" "actor (ent ?s 0) = ASupervisor ?ss" "MsgType ?msg = MsgActorFailed" "Payload ?msg = ActorFailed ?p"
    "mget (factories ?ss) (failedID ?p) = Some \<lparr>factory = ?f, opts = supervised\<rparr>" "MailboxCapacity supervised = 0"
    "mget (actors ?s) (failedID ?p) = None" "LoggerID (config ?ss) \<noteq> failedID ?p" "length (heap ?s) = 2" "next_fault (world ?s) = NoFault"
    "Lookup (LoggerID (config ?ss)) ?s = Inl (NotFound ''logger'')"
    by (simp_all add: crashed_scene_def crash_scene_def finish_def unregister_def upd_ent_def Let_def new_entry_def mkMessage_def supervised_def
        next_fault_def Lookup_def)
  have o1: "OnFailure ?e (the (Strategy (config ?ss))) (fst (Record ?e (failedID ?p) (30 * Second) (tracker ?ss))) = \<lparr>Action = ActionRestart, Delay = 0\<rparr>"
    by (simp add: OneForOne_OnFailure_def Record_def Second_def recorded_def Let_def)
  have "\<exists>s1. home_Receive ?e 0 ?msg ?s = Done s1"
  proof (rule handleFailure_restarts [of id_ops ?s ?msg ?p ?ss "\<lparr>factory = ?f, opts = supervised\<rparr>" "build (rng (world ?s))" ?e])
    show "sys_inv id_ops ?s" using inv sys_inv_ID [of home_ops id_ops] by simp
    fix st' s1 mb
    assume r: "actors s1 = mput (failedID ?p) (length (heap ?s)) (actors ?s)"
      "handleFailure id_ops (build (rng (world ?s))) ?e ?msg ?ss ?s = (st', [], case Lookup (LoggerID (config ?ss)) s1 of
          Inr r \<Rightarrow> if LoggerID (config ?ss) \<noteq> '''' then Tell r (restart_log (supID ?ss) (failedID ?p)) s1 else Done s1 | Inl _ \<Rightarrow> Done s1)"
    have "Lookup (LoggerID (config ?ss)) s1 = Inl (NotFound ''logger'')" using s(12) r(1) by (simp add: Lookup_def split: option.splits)
    with r(2) s(3,4) show "\<exists>s1. home_Receive ?e 0 ?msg ?s = Done s1" by (simp add: home_Receive_def sup_Receive_def Let_def)
  qed (use s o1 in \<open>simp_all add: SetPersister_def NewSensorActor_def\<close>)
  then obtain s1 where s1: "home_Receive ?e 0 ?msg ?s = Done s1" by blast
  show ?thesis
    using restarted_sensor_resumes [OF inv s(1-9) o1 old sv s(11) s1, of ?e] s1 s(10) unfolding Let_def by auto
qed

end
