(* ===== verification/Demo.thy ===== *)
theory Demo
  imports SmartHome
begin

text \<open>
  The demo program (\<^verbatim>\<open>cmd/demo/main.go\<close>): its configuration, the actors it starts, its round loop and its report.

  \<open>bootstrap\<close> is what the main goroutine itself does, in program order, from the new actor system to the start of the rounds; \<^const>\<open>None\<close> is a panic.
  The round loop reads what the other goroutines have done: \<open>obs\<close> are the values of \<^verbatim>\<open>logger.LastRound()\<close> at the polls before the
  deadline of a round, \<open>w\<close> is the value of \<^verbatim>\<open>coord.Weights()\<close> and \<open>reply\<close> the result of the \<^verbatim>\<open>Ask\<close>. The YAML
  decoder is a parameter.
\<close>

section \<open>Configuration\<close>

record DemoConfig =
  NumRounds :: int
  PersistenceDir :: string
  HeartbeatIntervalSec :: int
  Epochs :: int
  LearningRate :: f64
  Rooms :: "string list"
  SamplesPerSensor :: int
  NonIID :: bool
  StrategyName :: string
  cfgMaxRetries :: int
  WithinSec :: int
  ValidationSamples :: int

definition defaultConfig :: DemoConfig where
  "defaultConfig = \<lparr>NumRounds = 10, PersistenceDir = ''./demo-data'', HeartbeatIntervalSec = 5, Epochs = 1, LearningRate = lit (1 / 100),
     Rooms = [''kitchen'', ''livingroom'', ''bedroom'', ''bathroom'', ''garage''], SamplesPerSensor = 800, NonIID = True,
     StrategyName = '''', cfgMaxRetries = 3, WithinSec = 30, ValidationSamples = 100\<rparr>"

text \<open>
  \<open>decode\<close> stands for \<^verbatim>\<open>yaml.Unmarshal\<close>: the error, if any, and the configuration afterwards. \<open>content\<close> is the result of
  \<^verbatim>\<open>os.ReadFile\<close>. The first component of the result is whether there was an error.
\<close>

definition loadConfig :: "(string \<Rightarrow> DemoConfig \<Rightarrow> bool \<times> DemoConfig) \<Rightarrow> string option \<Rightarrow> bool \<times> DemoConfig" where
  "loadConfig decode content = (case content of
     None \<Rightarrow> (True, defaultConfig)
   | Some text \<Rightarrow> decode text defaultConfig)"

definition main_config :: "(string \<Rightarrow> DemoConfig \<Rightarrow> bool \<times> DemoConfig) \<Rightarrow> string option \<Rightarrow> DemoConfig" where
  "main_config decode content = (case loadConfig decode content of (err, cfg) \<Rightarrow> if err then defaultConfig else cfg)"

section \<open>Bootstrap\<close>

fun returned :: "'s outcome \<Rightarrow> 's option" where
  "returned (Done s) = Some s"
| "returned _ = None"

definition sensor_id :: "string \<Rightarrow> ActorID" where
  "sensor_id room = ''sensor-'' @ room"

definition data_of :: "(string, Sample list) gomap \<Rightarrow> string \<Rightarrow> Sample list" where
  "data_of datasets room = (case mget datasets room of None \<Rightarrow> [] | Some ss \<Rightarrow> ss)"

definition demo_supervision :: "DemoConfig \<Rightarrow> SupervisionConfig" where
  "demo_supervision cfg = \<lparr>Strategy = Some (OneForOne (cfgMaxRetries cfg) (wrap64 (WithinSec cfg * Second))),
     HeartbeatInterval = wrap64 (HeartbeatIntervalSec cfg * Second), LoggerID = ''logger''\<rparr>"

text \<open>One turn of the loop over the rooms; \<open>r\<close> are the random draws of \<open>NewMLP\<close>.\<close>

definition start_sensor :: "(nat \<Rightarrow> f64) \<Rightarrow> Persister \<Rightarrow> (string, Sample list) gomap \<Rightarrow> nat \<Rightarrow> nat \<Rightarrow> string \<Rightarrow> home \<Rightarrow> home option" where
  "start_sensor r p datasets coordRef supRef room s = do {
     s \<leftarrow> returned (perform1 coordRef (RegisterSensor (LocalRef coordRef) (sensor_id room) room (int (length (data_of datasets room))) '''') s);
     (_, s) \<leftarrow> MustSpawn home_ops (ASensor (SetPersister p (NewSensorActor r (sensor_id room) room ''coordinator'' (data_of datasets room)))) supervised s;
     returned (Register supRef (sensor_id room) (SensorFactory (sensor_id room) room (data_of datasets room) p) supervised s)
   }"

fun start_sensors :: "(nat \<Rightarrow> nat \<Rightarrow> f64) \<Rightarrow> Persister \<Rightarrow> (string, Sample list) gomap \<Rightarrow> nat \<Rightarrow> nat \<Rightarrow> string list \<Rightarrow> home \<Rightarrow> home option" where
  "start_sensors r p datasets coordRef supRef [] s = Some s"
| "start_sensors r p datasets coordRef supRef (room # rooms) s =
    Option.bind (start_sensor (r (length rooms)) p datasets coordRef supRef room s) (start_sensors r p datasets coordRef supRef rooms)"

text \<open>\<open>dr\<close> and \<open>vdr\<close> are the draws for the training and for the validation data.\<close>

definition bootstrap :: "(nat \<Rightarrow> nat \<Rightarrow> f64) \<Rightarrow> (nat \<Rightarrow> nat \<Rightarrow> draws) \<Rightarrow> (nat \<Rightarrow> draws) \<Rightarrow> DemoConfig \<Rightarrow> Persister \<Rightarrow> home \<Rightarrow>
    (nat \<times> nat \<times> nat \<times> home) option" where
  "bootstrap r dr vdr cfg p s = do {
     (_, s) \<leftarrow> MustSpawn home_ops (ALogger (logger_SetPersister p (NewLoggerActor ''logger''))) DefaultSpawnOptions s;
     (_, s) \<leftarrow> MustSpawn home_ops (ADevice (device_SetPersister p (NewDeviceControllerActor ''device-ctrl''))) DefaultSpawnOptions s;
     (supRef, s) \<leftarrow> MustSpawn home_ops (ASupervisor (NewSupervisorActor ''supervisor'' (demo_supervision cfg))) DefaultSpawnOptions s;
     (coordRef, s) \<leftarrow> MustSpawn home_ops (ACoordinator (coord_SetPersister p (SetTrainingConfig (Epochs cfg) (LearningRate cfg)
       (NewCoordinatorActor ''coordinator'' ''logger'' ''device-ctrl'' (5 * 8 + 8 + 8 * 3 + 3))))) DefaultSpawnOptions s;
     datasets \<leftarrow> GenerateSensors dr (Rooms cfg) (SamplesPerSensor cfg) (NonIID cfg);
     s \<leftarrow> start_sensors r p datasets coordRef supRef (Rooms cfg) s;
     vs \<leftarrow> GenerateSamples vdr ''validation'' (ValidationSamples cfg) (lit (1 / 2)) False;
     (evalRef, s) \<leftarrow> MustSpawn home_ops (AEvaluator (NewEvaluatorActor ''evaluator'' vs)) DefaultSpawnOptions s;
     Some (coordRef, supRef, evalRef, s)
   }"

section \<open>Rounds\<close>

text \<open>The message that the demo sends to the kitchen sensor in its third round.\<close>

definition crash_kitchen :: "home \<Rightarrow> home outcome" where
  "crash_kitchen s = (case Lookup ''sensor-kitchen'' s of
     Inr ref \<Rightarrow> Tell ref (mkMessage ''crash'' NilAny '''') s
   | Inl _ \<Rightarrow> Done s)"

text \<open>The loop that waits until the logger has the round, or the deadline.\<close>

fun poll :: "int \<Rightarrow> 'f payload option list \<Rightarrow> bool" where
  "poll n [] = False"
| "poll n (ob # obs) = ((case ob of Some rd \<Rightarrow> pRoundID rd = n | None \<Rightarrow> False) \<or> poll n obs)"

text \<open>The evaluation request, and the computation that replaces an answer that does not come.\<close>

definition evaluation_request :: "int \<Rightarrow> f64 slice \<Rightarrow> 'f payload message" where
  "evaluation_request n w = mkMessage MsgEvaluateModel (Dyn (EvaluateModelPayload n w ''logger'')) ''''"

definition inline_metrics :: "(nat \<Rightarrow> f64) \<Rightarrow> Sample list \<Rightarrow> f64 slice \<Rightarrow> Metrics option" where
  "inline_metrics r vs w = do {
     m \<leftarrow> SetWeights (NewMLP r 5 8 3) (elems w);
     (actuals, predictions) \<leftarrow> predict_all m vs;
     Some (Calculate actuals predictions)
   }"

text \<open>What a round adds to the results; \<^const>\<open>None\<close> is a panic.\<close>

definition round_result :: "(nat \<Rightarrow> f64) \<Rightarrow> Sample list \<Rightarrow> int \<Rightarrow> 'f payload option list \<Rightarrow> f64 slice \<Rightarrow> string + 'f payload message \<Rightarrow>
    RoundResult list option" where
  "round_result r vs n obs w reply =
    (if \<not> poll n obs then Some []
     else case reply of
       Inl _ \<Rightarrow> map_option (\<lambda>ms. [\<lparr>Round_of = n, Metrics_of = ms\<rparr>]) (inline_metrics r vs w)
     | Inr msg \<Rightarrow> (case Payload msg of
         Dyn (EvaluationResultPayload i mse rmse mae r2) \<Rightarrow> Some [\<lparr>Round_of = n, Metrics_of = \<lparr>MSE = mse, RMSE = rmse, MAE = mae, R2 = r2\<rparr>\<rparr>]
       | _ \<Rightarrow> Some []))"

text \<open>The loop over the rounds from \<open>n\<close> on, one element of the list per round.\<close>

fun demo_rounds :: "Sample list \<Rightarrow> int \<Rightarrow> ((nat \<Rightarrow> f64) \<times> 'f payload option list \<times> f64 slice \<times> (string + 'f payload message)) list \<Rightarrow>
    RoundResult list option" where
  "demo_rounds vs n [] = Some []"
| "demo_rounds vs n ((r, obs, w, reply) # ins) = do {
     x \<leftarrow> round_result r vs n obs w reply;
     xs \<leftarrow> demo_rounds vs (n + 1) ins;
     Some (x @ xs)
   }"

text \<open>\<^verbatim>\<open>results[len(results)-1].Metrics\<close> in the state that the demo saves at its end.\<close>

definition final_metrics :: "RoundResult list \<Rightarrow> Metrics option" where
  "final_metrics rs = (if length rs = 0 then None else Some (Metrics_of (rs ! (length rs - 1))))"

section \<open>Lemmas\<close>

subsection \<open>Bootstrap\<close>

text \<open>The messages that the loop sends for one room.\<close>

definition coord_msg :: "(string, Sample list) gomap \<Rightarrow> string \<Rightarrow> home_message" where
  "coord_msg datasets room = mkMessage MsgRegisterSensor
     (Dyn (RegisterSensorPayload (sensor_id room) room (int (length (data_of datasets room))) '''')) ''''"

definition sup_msg :: "Persister \<Rightarrow> (string, Sample list) gomap \<Rightarrow> string \<Rightarrow> home_message" where
  "sup_msg p datasets room = mkMessage MsgRegisterActor
     (Dyn (RegisterPayload (sensor_id room) (SensorFactory (sensor_id room) room (data_of datasets room) p) supervised)) ''''"

text \<open>A default mailbox that holds \<open>ms\<close>.\<close>

definition holds :: "home_message list \<Rightarrow> home_message mailbox \<Rightarrow> bool" where
  "holds ms mb \<longleftrightarrow> bounded mb \<and> \<not> ch_closed mb \<and> strategy mb = DropNewest \<and> cap mb = DefaultMailboxSize \<and> ch mb = ms \<and> contents mb = ms"

definition booted :: "Persister \<Rightarrow> (string, Sample list) gomap \<Rightarrow> nat \<Rightarrow> nat \<Rightarrow> string list \<Rightarrow> home \<Rightarrow> bool" where
  "booted p datasets c v rooms s \<longleftrightarrow> sys_inv home_ops s \<and> \<not> shut s \<and> c < length (heap s) \<and> v < length (heap s) \<and> c \<noteq> v \<and>
    holds (map (coord_msg datasets) rooms) (mbox (ent s c)) \<and> holds (map (sup_msg p datasets) rooms) (mbox (ent s v)) \<and>
    fst ` set (actors s) = {''logger'', ''device-ctrl'', ''supervisor'', ''coordinator''} \<union> set (map sensor_id rooms)"

lemma holds_Enqueue:
  assumes "holds ms mb" "length ms < DefaultMailboxSize"
  shows "\<exists>mb'. Enqueue mb m = Sent mb' \<and> holds (ms @ [m]) mb'"
  using assms by (auto simp: holds_def Enqueue_def Let_def contents_def)

lemma Tell_holds:
  assumes "holds ms (mbox (ent s a))" "a < length (heap s)" "length ms < DefaultMailboxSize"
  obtains s' where "Tell a m s = Done s'" "holds (ms @ [m]) (mbox (ent s' a))" "actors s' = actors s" "shut s' = shut s"
    "length (heap s') = length (heap s)" "\<And>b. b \<noteq> a \<Longrightarrow> ent s' b = ent s b"
proof -
  obtain mb' where "Enqueue (mbox (ent s a)) m = Sent mb'" "holds (ms @ [m]) mb'" using holds_Enqueue [OF assms(1,3)] by blast
  then show ?thesis
    using assms(2) by (intro that [of "upd_ent a (\<lambda>en. en\<lparr>mbox := mb'\<rparr>) s"]) (simp_all add: Tell_def upd_ent_def)
qed

lemma MustSpawn_home:
  assumes "\<not> shut s" "mget (actors s) (home_ID x) = None" "0 \<le> MailboxCapacity o1"
  shows "MustSpawn home_ops x o1 s = Some (length (heap s),
    s\<lparr>heap := heap s @ [new_entry x o1], actors := mput (home_ID x) (length (heap s)) (actors s), wg := wg s + 1\<rparr>)"
  using assms by (simp add: MustSpawn_def Spawn_def Let_def)

lemma MustSpawn_taken: "mget (actors s) (home_ID x) \<noteq> None \<Longrightarrow> MustSpawn home_ops x o1 s = None"
  by (auto simp: MustSpawn_def Spawn_def Let_def)

lemma sensor_id_simps [simp]: "sensor_id a = sensor_id b \<longleftrightarrow> a = b" "sensor_id a \<noteq> ''logger''" "sensor_id a \<noteq> ''device-ctrl''"
  "sensor_id a \<noteq> ''supervisor''" "sensor_id a \<noteq> ''coordinator''" "sensor_id a \<noteq> ''evaluator''"
  by (simp_all add: sensor_id_def)

lemma bootedD:
  assumes "booted p ds c v rooms s"
  shows "sys_inv home_ops s" "\<not> shut s" "c < length (heap s)" "v < length (heap s)" "c \<noteq> v"
    "holds (map (coord_msg ds) rooms) (mbox (ent s c))" "holds (map (sup_msg p ds) rooms) (mbox (ent s v))"
    "fst ` set (actors s) = {''logger'', ''device-ctrl'', ''supervisor'', ''coordinator''} \<union> set (map sensor_id rooms)"
  using assms by (simp_all add: booted_def)

lemma start_sensor_fresh:
  assumes "booted p ds c v rooms s" "room \<notin> set rooms" "length rooms < DefaultMailboxSize"
  shows "\<exists>s'. start_sensor r p ds c v room s = Some s' \<and> booted p ds c v (rooms @ [room]) s'"
proof -
  note b = bootedD [OF assms(1)]
  let ?x = "ASensor (SetPersister p (NewSensorActor r (sensor_id room) room ''coordinator'' (data_of ds room)))"
  have l: "length (map f rooms) < DefaultMailboxSize" for f :: "string \<Rightarrow> home_message" using assms(3) by simp
  obtain s1 where s1: "Tell c (coord_msg ds room) s = Done s1" "holds (map (coord_msg ds) rooms @ [coord_msg ds room]) (mbox (ent s1 c))"
      "actors s1 = actors s" "shut s1 = shut s" "length (heap s1) = length (heap s)" "\<And>b. b \<noteq> c \<Longrightarrow> ent s1 b = ent s b"
    using Tell_holds [OF b(6) b(3) l] by blast
  have x: "home_ID ?x = sensor_id room" by (simp add: SetPersister_def NewSensorActor_def)
  have "sensor_id room \<notin> fst ` set (actors s)" unfolding b(8) using assms(2) by auto
  then have free: "mget (actors s1) (home_ID ?x) = None" unfolding s1(3) x mget_eq_None_iff .
  let ?s2 = "s1\<lparr>heap := heap s1 @ [new_entry ?x supervised], actors := mput (home_ID ?x) (length (heap s1)) (actors s1), wg := wg s1 + 1\<rparr>"
  have m: "MustSpawn home_ops ?x supervised s1 = Some (length (heap s1), ?s2)"
    using b(2) s1(4) free by (intro MustSpawn_home) (simp_all add: supervised_def)
  have e2: "ent ?s2 c = ent s1 c" "ent ?s2 v = ent s v" using b(3-5) s1(5) s1(6) [of v] by (simp_all add: nth_append)
  have h2: "holds (map (sup_msg p ds) rooms) (mbox (ent ?s2 v))" "v < length (heap ?s2)"
    using b(4,7) s1(5) unfolding e2(2) by simp_all
  obtain s3 where s3: "Tell v (sup_msg p ds room) ?s2 = Done s3" "holds (map (sup_msg p ds) rooms @ [sup_msg p ds room]) (mbox (ent s3 v))"
      "actors s3 = actors ?s2" "shut s3 = shut ?s2" "length (heap s3) = length (heap ?s2)" "\<And>b. b \<noteq> v \<Longrightarrow> ent s3 b = ent ?s2 b"
    using Tell_holds [OF h2 l] by blast
  have "sys_inv home_ops s1" using safe_call_inv [OF Tell_Done [OF s1(1), of home_ops] b(1)] .
  then have "sys_inv home_ops ?s2" using Spawn_inv [of "{}" home_ops s1 ?x supervised] free by simp
  then have "sys_inv home_ops s3" by (rule safe_call_inv [OF Tell_Done [OF s3(1), of home_ops]])
  moreover have "start_sensor r p ds c v room s = Some s3"
    using s1(1) m s3(1) by (simp add: start_sensor_def RegisterSensor_def Register_def coord_msg_def sup_msg_def)
  moreover have "fst ` set (actors s3) = {''logger'', ''device-ctrl'', ''supervisor'', ''coordinator''} \<union> set (map sensor_id (rooms @ [room]))"
    unfolding s3(3) using b(8) s1(3) x by (simp add: insert_commute)
  moreover have "ent s3 c = ent s1 c" using s3(6) [OF b(5)] e2(1) by simp
  ultimately show ?thesis using b(2-5) s1(2,4,5) s3(2,4,5) by (intro exI [of _ s3]) (simp add: booted_def)
qed

lemma start_sensors_fresh:
  assumes "booted p ds c v old s" "distinct (old @ rooms)" "length (old @ rooms) \<le> DefaultMailboxSize"
  shows "\<exists>s'. start_sensors r p ds c v rooms s = Some s' \<and> booted p ds c v (old @ rooms) s'"
  using assms
proof (induction rooms arbitrary: old s)
  case (Cons room rooms)
  obtain s1 where s1: "start_sensor (r (length rooms)) p ds c v room s = Some s1" "booted p ds c v (old @ [room]) s1"
    using start_sensor_fresh [of p ds c v old s room "r (length rooms)"] Cons.prems by auto
  with Cons.IH [OF s1(2)] Cons.prems show ?case by simp
qed simp

text \<open>The loop panics as soon as a room comes a second time.\<close>

lemma start_sensor_registers:
  assumes "start_sensor r p ds c v room s = Some s'"
  shows "sensor_id room \<notin> fst ` set (actors s)" "fst ` set (actors s') = insert (sensor_id room) (fst ` set (actors s))"
proof -
  let ?x = "ASensor (SetPersister p (NewSensorActor r (sensor_id room) room ''coordinator'' (data_of ds room)))"
  have x: "home_ID ?x = sensor_id room" by (simp add: SetPersister_def NewSensorActor_def)
  obtain s1 a s2 where s: "Tell c (coord_msg ds room) s = Done s1" "MustSpawn home_ops ?x supervised s1 = Some (a, s2)" "Tell v (sup_msg p ds room) s2 = Done s'"
    using assms by (auto simp: start_sensor_def RegisterSensor_def Register_def coord_msg_def sup_msg_def bind_eq_Some_conv elim!: returned.elims)
  have "mget (actors s1) (home_ID ?x) = None" using s(2) MustSpawn_taken [of s1 ?x supervised] by fastforce
  moreover have "actors s2 = mput (home_ID ?x) a (actors s1)"
    using s(2) by (auto simp: MustSpawn_def Spawn_def Let_def split: if_splits option.splits)
  ultimately show "sensor_id room \<notin> fst ` set (actors s)" "fst ` set (actors s') = insert (sensor_id room) (fst ` set (actors s))"
    using Tell_Done_frame(1) [OF s(1)] Tell_Done_frame(1) [OF s(3)] by (simp_all add: mget_eq_None_iff SetPersister_def NewSensorActor_def)
qed

lemma start_sensors_distinct:
  assumes "start_sensors r p ds c v rooms s = Some s'"
  shows "distinct rooms" "set (map sensor_id rooms) \<inter> fst ` set (actors s) = {}"
  using assms
proof (induction rooms arbitrary: s)
  case (Cons room rooms)
  {
    case 1
    then obtain s1 where s1: "start_sensor (r (length rooms)) p ds c v room s = Some s1" "start_sensors r p ds c v rooms s1 = Some s'"
      by (auto simp: bind_eq_Some_conv)
    with Cons.IH [OF s1(2)] start_sensor_registers [OF s1(1)] show ?case by auto
  next
    case 2
    then obtain s1 where s1: "start_sensor (r (length rooms)) p ds c v room s = Some s1" "start_sensors r p ds c v rooms s1 = Some s'"
      by (auto simp: bind_eq_Some_conv)
    with Cons.IH [OF s1(2)] start_sensor_registers [OF s1(1)] show ?case by auto
  }
qed simp_all

lemma GenerateSensors_Some: "0 \<le> n \<Longrightarrow> \<exists>ds. GenerateSensors dr rooms n b = Some ds"
  using for_upto_rule [where I = "\<lambda>_ _. True" and n = "length rooms" and s = "[]" and
      f = "\<lambda>i result. map_option (\<lambda>ss. mput (rooms ! i) ss result) (GenerateSamples (dr i) (rooms ! i) n (skew_of i (length rooms)) b)"]
  by (simp add: GenerateSensors_def GenerateSamples_def)

lemma MustSpawn_inv: "MustSpawn home_ops x o1 s = Some (a, s') \<Longrightarrow> sys_inv home_ops s \<Longrightarrow> sys_inv home_ops s'"
  using safe_call_inv [OF Spawn_safe [of home_ops s x o1]] by (auto simp: MustSpawn_def split: prod.splits sum.splits)

lemma Lookup_keys: "{i. \<exists>a. Lookup i s = Inr a} = fst ` set (actors s)"
  by (auto simp: Lookup_def mget_eq_None_iff split: option.splits dest: map_of_SomeD)

text \<open>The four actors that are there before the sensors.\<close>

lemma boot_base:
  fixes w :: "sensor_factory world"
  obtains s where "booted p ds 3 2 [] s"
    "bootstrap r dr vdr cfg p (NewActorSystem w) = do {
       datasets \<leftarrow> GenerateSensors dr (Rooms cfg) (SamplesPerSensor cfg) (NonIID cfg);
       s \<leftarrow> start_sensors r p datasets 3 2 (Rooms cfg) s;
       vs \<leftarrow> GenerateSamples vdr ''validation'' (ValidationSamples cfg) (lit (1 / 2)) False;
       (evalRef, s) \<leftarrow> MustSpawn home_ops (AEvaluator (NewEvaluatorActor ''evaluator'' vs)) DefaultSpawnOptions s;
       Some (3, 2, evalRef, s)
     }"
proof -
  let ?xs = "[ALogger (logger_SetPersister p (NewLoggerActor ''logger'')), ADevice (device_SetPersister p (NewDeviceControllerActor ''device-ctrl'')),
    ASupervisor (NewSupervisorActor ''supervisor'' (demo_supervision cfg)), ACoordinator (coord_SetPersister p (SetTrainingConfig (Epochs cfg) (LearningRate cfg)
       (NewCoordinatorActor ''coordinator'' ''logger'' ''device-ctrl'' (5 * 8 + 8 + 8 * 3 + 3))))]"
  let ?ids = "[''logger'', ''device-ctrl'', ''supervisor'', ''coordinator'']"
  let ?s = "\<lambda>k. \<lparr>heap = map (\<lambda>x. new_entry x DefaultSpawnOptions) (take k ?xs), actors = zip (take k ?ids) [0..<k], shut = False, wg = k, replies = [],
      world = w\<rparr> :: home"
  have sp: "MustSpawn home_ops (?xs ! k) DefaultSpawnOptions (?s k) = Some (k, ?s (Suc k))" if "k < 4" for k
    using that by (auto simp: less_Suc_eq numeral_eq_Suc MustSpawn_def Spawn_def Let_def DefaultSpawnOptions_def logger_SetPersister_def
        NewLoggerActor_def device_SetPersister_def NewDeviceControllerActor_def NewSupervisorActor_def coord_SetPersister_def SetTrainingConfig_def NewCoordinatorActor_def)
  have "sys_inv home_ops (?s k)" if "k \<le> 4" for k
    using that
  proof (induction k)
    case 0
    then show ?case using home.NewActorSystem_inv [of w] by (simp add: NewActorSystem_def)
  next
    case (Suc k)
    then have "k < 4" "sys_inv home_ops (?s k)" by simp_all
    then show ?case using MustSpawn_inv [OF sp [of k]] by blast
  qed
  from this [of 4] have "booted p ds 3 2 [] (?s 4)"
    by (simp add: booted_def holds_def contents_def new_entry_def DefaultSpawnOptions_def NewMailbox_def DefaultMailboxSize_def numeral_eq_Suc)
  moreover have "bootstrap r dr vdr cfg p (NewActorSystem w) = do {
       datasets \<leftarrow> GenerateSensors dr (Rooms cfg) (SamplesPerSensor cfg) (NonIID cfg);
       s \<leftarrow> start_sensors r p datasets 3 2 (Rooms cfg) (?s 4);
       vs \<leftarrow> GenerateSamples vdr ''validation'' (ValidationSamples cfg) (lit (1 / 2)) False;
       (evalRef, s) \<leftarrow> MustSpawn home_ops (AEvaluator (NewEvaluatorActor ''evaluator'' vs)) DefaultSpawnOptions s;
       Some (3, 2, evalRef, s)
     }"
    using sp [of 0] sp [of 1] sp [of 2] sp [of 3] by (simp add: bootstrap_def NewActorSystem_def numeral_eq_Suc)
  ultimately show ?thesis by (rule that)
qed

subsection \<open>Rounds\<close>

text \<open>With enough weights nothing is left of the random initial weights.\<close>

lemma SetWeights_NewMLP:
  assumes "72 \<le> length w"
  obtains m where "\<forall>r. SetWeights (NewMLP r 5 8 3) w = Some m" "wf_mlp m" "InputDim m = 5" "OutputDim m = 3"
proof -
  have eq: "SetWeights (NewMLP r 5 8 3) w = SetWeights (NewMLP (\<lambda>_. 0) 5 8 3) w" for r
    using assms by (simp add: SetWeights_def NewMLP_def Let_def copy_from_def)
  obtain m where m: "SetWeights (NewMLP (\<lambda>_. 0) 5 8 3) w = Some m"
    using assms by (cases "SetWeights (NewMLP (\<lambda>_. 0) 5 8 3) w") (simp_all add: SetWeights_None_iff NewMLP_def Let_def)
  have "wf_mlp m" "InputDim m = 5" "OutputDim m = 3" using SetWeights_wf [OF m] wf_NewMLP [of "\<lambda>_. 0" 5 8 3] by simp_all
  moreover have "\<forall>r. SetWeights (NewMLP r 5 8 3) w = Some m" using trans [OF eq m] by blast
  ultimately show ?thesis by (intro that)
qed

text \<open>The rounds that a list of effects reports to the logger.\<close>

definition reported :: "'f eff list \<Rightarrow> 'f payload \<Rightarrow> bool" where
  "reported effs rd \<longleftrightarrow> (\<exists>ref m. (ref, m) \<in> set (sent effs) \<and> MsgType m = MsgRoundComplete \<and> Payload m = Dyn rd)"

lemma reported_append: "reported (xs @ ys) rd \<longleftrightarrow> reported xs rd \<or> reported ys rd"
  by (auto simp: reported_def)

lemma aggregate_reported:
  "reported (heffs (aggregateAndFinalise r e c st)) rd \<Longrightarrow> pRoundID rd = roundNo st"
  unfolding aggregateAndFinalise_def Let_def
  by (auto simp: reported_def mkMessage_def addressed_iff split: if_splits option.splits prod.splits)

lemma coord_Receive_reported:
  assumes "reported (heffs (coord_Receive r e c m st)) rd"
  shows "pRoundID rd = roundNo st"
proof (cases "MsgType m = MsgModelUpdate")
  case True
  then show ?thesis
    using assms aggregate_reported [of r e c _ rd]
    by (fastforce simp: coord_Receive_def handleModelUpdate_def reported_def Let_def split: if_splits option.splits)
next
  case False
  then show ?thesis
    using assms by (auto simp: coord_Receive_def handleRegisterSensor_def handleStartRound_def handleRequestStatus_def reported_def mkMessage_def addressed_iff Let_def
        split: if_splits option.splits)
qed

lemma coord_Receive_roundNo:
  fixes st :: "'f CoordinatorActor"
  shows "roundNo (hstate (coord_Receive r e c m st)) \<in> {roundNo st, wrap64 (roundNo st + 1)}"
proof -
  have "roundNo (hstate (aggregateAndFinalise r e c st')) = roundNo st'" for st' :: "'f CoordinatorActor"
    by (simp add: aggregate_hstate split: option.split)
  moreover have "roundNo (call_back fn i x st') = roundNo st'" for fn i x and st' :: "'f CoordinatorActor"
    by (cases fn) (simp add: SetSensorRemoteRef_def)
  ultimately show ?thesis
    by (simp add: coord_Receive_def handleRegisterSensor_def handleStartRound_def handleModelUpdate_def handleRequestStatus_def Let_def split: option.split)
qed

text \<open>A coordinator never reports a round that is older than the one it starts with.\<close>

lemma deliver_reported:
  assumes "reported (heffs (deliver r xs st)) rd" "0 \<le> roundNo st" "roundNo st + int (length xs) < 2 ^ 63"
  shows "roundNo st \<le> pRoundID rd"
  using assms
proof (induction xs arbitrary: st)
  case (Cons x xs)
  obtain e c m where x: "x = (e, c, m)" by (metis prod_cases3)
  obtain st1 effs pan where h: "coord_Receive r e c m st = HRes st1 effs pan" by (cases "coord_Receive r e c m st") blast
  obtain st2 effs' pan' where d: "deliver r xs st1 = HRes st2 effs' pan'" by (cases "deliver r xs st1") blast
  have r1: "roundNo st \<le> roundNo st1" "roundNo st1 + int (length xs) < 2 ^ 63"
    using coord_Receive_roundNo [of r e c m st] h Cons.prems(2,3) by (auto simp: wrap64_id in_int64_def)
  have "reported effs rd \<or> reported effs' rd"
    using Cons.prems(1) x h d by (cases pan) (auto simp: reported_append)
  then show ?case
    using coord_Receive_reported [of r e c m st rd] Cons.IH [of st1] h d r1 Cons.prems(2) by auto
qed (simp add: reported_def)

lemma poll_iff: "poll n obs \<longleftrightarrow> (\<exists>rd. Some rd \<in> set obs \<and> pRoundID rd = n)"
  by (induction obs) (auto split: option.splits)

lemma demo_rounds_missed:
  assumes "\<forall>k<length ins. \<not> poll (n + int k) (fst (snd (ins ! k)))"
  shows "demo_rounds vs n ins = Some []"
  using assms
proof (induction ins arbitrary: n)
  case (Cons x ins)
  obtain r obs w reply where x: "x = (r, obs, w, reply)" by (metis prod_cases4)
  have "\<not> poll n obs" using Cons.prems [rule_format, of 0] x by simp
  moreover have "\<not> poll (n + 1 + int k) (fst (snd (ins ! k)))" if "k < length ins" for k
    using Cons.prems [rule_format, of "Suc k"] that by (simp add: algebra_simps)
  ultimately show ?case using Cons.IH [of "n + 1"] x by (simp add: round_result_def)
qed simp

section \<open>Properties\<close>



text \<open>
  C29: it does not matter whether the evaluator answers. For the validation set of the demo and at least 72 weights, the result that a round records
  from the evaluator's reply to its request is the same as the one it computes itself when the request fails, whatever the random initial weights of either network;
  and a completed round records exactly one result, under its own number.
\<close>

theorem evaluation_fallback_agrees:
  fixes obs :: "'f payload option list" and e :: go_env
  assumes "\<forall>x\<in>set vs. 5 \<le> length (Features x)" "72 \<le> length (elems w)"
  shows "\<exists>st' effs reply ms. evaluator_Receive r' c (askMessage e rch (evaluation_request n w)) (NewEvaluatorActor i vs) = HRes st' effs None \<and>
    filter (\<lambda>x. \<exists>rch m. x = EReply rch m) effs = [EReply rch (reply :: 'f payload message)] \<and>
    round_result r vs n obs w (Inr reply) = round_result r vs n obs w (Inl err) \<and>
    (poll n obs \<longrightarrow> round_result r vs n obs w (Inr reply) = Some [\<lparr>Round_of = n, Metrics_of = ms\<rparr>])"
proof -
  obtain m where m: "\<forall>r. SetWeights (NewMLP r 5 8 3) (elems w) = Some m" "wf_mlp m" "InputDim m = 5" "OutputDim m = 3"
    by (rule SetWeights_NewMLP [OF assms(2)])
  let ?as = "concat (map Target vs)" and ?ps = "concat (map (\<lambda>x. map (outp m (Features x)) [0..<3]) vs)"
  let ?ms = "Calculate ?as ?ps"
  have p: "predict_all m vs = Some (?as, ?ps)" using predict_all_eq [OF m(2)] m(3,4) assms(1) by simp
  let ?reply = "mkMessage '''' (Dyn (EvaluationResultPayload n (MSE ?ms) (RMSE ?ms) (MAE ?ms) (R2 ?ms))) '''' :: 'f payload message"
  let ?h = "evaluator_Receive r' c (askMessage e rch (evaluation_request n w) :: 'f payload message) (NewEvaluatorActor i vs)"
  have "?h = HRes (hstate ?h) (heffs ?h) None" "filter (\<lambda>x. \<exists>rch m. x = EReply rch m) (heffs ?h) = [EReply rch ?reply]"
    using m(1) p by (simp_all add: evaluator_Receive_def handleEvaluateModel_def askMessage_def evaluation_request_def mkMessage_def castPayload_def
        NewEvaluatorActor_def Let_def IsAsk_def split: option.split)
  moreover have "round_result r vs n obs w (Inr ?reply) = round_result r vs n obs w (Inl err)"
    "poll n obs \<longrightarrow> round_result r vs n obs w (Inr ?reply) = Some [\<lparr>Round_of = n, Metrics_of = ?ms\<rparr>]"
    using m(1) p by (simp_all add: round_result_def inline_metrics_def mkMessage_def)
  ultimately show ?thesis
    by (intro exI [of _ "hstate ?h"] exI [of _ "heffs ?h"] exI [of _ ?reply] exI [of _ ?ms] conjI)
qed

theorem evaluation_fallback_agrees_witness:
  "let vs = [\<lparr>Features = replicate 5 0, Target = replicate 3 0, RoomID = ''validation''\<rparr>]; w = SList (replicate 75 0); e = \<lparr>now = 0, iter = (\<lambda>ks. ks)\<rparr>;
     obs = [Some (RoundCompletePayload 1 0 1 0)] :: unit payload option list
   in \<exists>st' effs reply ms. evaluator_Receive (\<lambda>_. 0) undefined (askMessage e 0 (evaluation_request 1 w) :: unit payload message) (NewEvaluatorActor ''evaluator'' vs) = HRes st' effs None \<and>
     round_result (\<lambda>_. 0) vs 1 obs w (Inr reply) = Some [\<lparr>Round_of = 1, Metrics_of = ms\<rparr>] \<and>
     round_result (\<lambda>_. 0) vs 1 obs w (Inl ''ask timeout'') = Some [\<lparr>Round_of = 1, Metrics_of = ms\<rparr>]"
proof -
  let ?vs = "[\<lparr>Features = replicate 5 0, Target = replicate 3 0, RoomID = ''validation''\<rparr>]" and ?w = "SList (replicate 75 0)"
  let ?obs = "[Some (RoundCompletePayload 1 0 1 0)] :: unit payload option list" and ?e = "\<lparr>now = 0, iter = (\<lambda>ks. ks)\<rparr>"
  have h: "\<forall>x\<in>set ?vs. 5 \<le> length (Features x)" "72 \<le> length (elems ?w)" "poll 1 ?obs" by simp_all
  obtain st' effs reply ms where r: "evaluator_Receive (\<lambda>_. 0) undefined (askMessage ?e 0 (evaluation_request 1 ?w) :: unit payload message) (NewEvaluatorActor ''evaluator'' ?vs)
        = HRes st' effs (None :: string option)"
      "round_result (\<lambda>_. 0) ?vs 1 ?obs ?w (Inr reply) = round_result (\<lambda>_. 0) ?vs 1 ?obs ?w (Inl ''ask timeout'')"
      "poll 1 ?obs \<longrightarrow> round_result (\<lambda>_. 0) ?vs 1 ?obs ?w (Inr reply) = Some [\<lparr>Round_of = 1, Metrics_of = ms\<rparr>]"
    using evaluation_fallback_agrees [OF h(1,2), where obs = ?obs and n = 1 and r = "\<lambda>_. 0" and r' = "\<lambda>_. 0" and c = undefined and e = ?e and rch = 0
        and i = "''evaluator''" and err = "''ask timeout''"] by (elim exE conjE) (rule that)
  show ?thesis
    unfolding Let_def using r(1,2) mp [OF r(3) h(3)]
    by (intro exI [of _ st'] exI [of _ effs] exI [of _ reply] exI [of _ ms]) (simp only: simp_thms)
qed

text \<open>
  C30: a later run of the demo panics at its end. The coordinator starts with the round number that the last run saved, and reports later numbers only, while the demo waits for
  the numbers from 1 on. When the saved number is larger than the number of rounds of this run, no round counts as completed, whatever messages the coordinator gets, the results are
  empty, and taking the last result panics.
\<close>

theorem later_demo_run_panics:
  fixes prev :: "'f CoordinatorActor" and ins :: "((nat \<Rightarrow> f64) \<times> 'f payload option list \<times> f64 slice \<times> (string + 'f payload message)) list"
    and epochs :: int and lr :: f64 and p :: Persister and d' :: disk
  defines "st \<equiv> coord_OnPreStart NoFault d' (coord_SetPersister p (SetTrainingConfig epochs lr
      (NewCoordinatorActor ''coordinator'' ''logger'' ''device-ctrl'' (5 * 8 + 8 + 8 * 3 + 3) :: 'f CoordinatorActor)))"
  assumes prev: "coord_storable e prev"
      "Save fl p ''coordinator'' coordinatorSavedState (coord_saved (iter e (keys (sensors prev))) prev) d = (None, d')"
    and rounds: "int (length ins) < roundNo prev" "roundNo prev + int (length msgs) < 2 ^ 63"
    and obs: "\<forall>k<length ins. \<forall>rd. Some rd \<in> set (fst (snd (ins ! k))) \<longrightarrow> pRoundID rd = roundNo prev \<or> reported (heffs (deliver r msgs st)) rd"
  shows "\<exists>rs. demo_rounds vs 1 ins = Some rs \<and> final_metrics rs = None"
proof -
  let ?new = "coord_SetPersister p (SetTrainingConfig epochs lr (NewCoordinatorActor ''coordinator'' ''logger'' ''device-ctrl'' (5 * 8 + 8 + 8 * 3 + 3) :: 'f CoordinatorActor))"
  have "coord_same (load_state coordinatorSavedState coord_restore NoFault d' (Some p) ''coordinator'' ?new) prev"
    using coordinator.restart_restores [OF prev(1), of fl p "''coordinator''" d ?new] prev(2) by simp
  then have st: "roundNo st = roundNo prev"
    by (simp add: st_def coord_OnPreStart_def coord_SetPersister_def SetTrainingConfig_def NewCoordinatorActor_def coord_same_def)
  have "\<not> poll (1 + int k) (fst (snd (ins ! k)))" if k: "k < length ins" for k
  proof
    assume "poll (1 + int k) (fst (snd (ins ! k)))"
    then obtain rd where rd: "Some rd \<in> set (fst (snd (ins ! k)))" "pRoundID rd = 1 + int k" by (auto simp: poll_iff)
    from obs k rd(1) consider "pRoundID rd = roundNo prev" | "reported (heffs (deliver r msgs st)) rd" by blast
    then have "roundNo prev \<le> pRoundID rd" using deliver_reported [of r msgs st rd] st rounds by cases auto
    with rd(2) k rounds(1) show False by simp
  qed
  then have "demo_rounds vs 1 ins = Some []" by (intro demo_rounds_missed) blast
  then show ?thesis by (simp add: final_metrics_def)
qed

theorem later_demo_run_panics_witness:
  "let p = \<lparr>basePath = ''demo-data''\<rparr>; e = \<lparr>now = 0, iter = (\<lambda>ks. ks)\<rparr>; prev = two_sensors\<lparr>roundNo := 10\<rparr>;
     ins = [((\<lambda>_. 0), [None, Some (RoundCompletePayload 10 0 2 0)], SNil, Inl ''ask timeout'')] ::
       ((nat \<Rightarrow> f64) \<times> unit payload option list \<times> f64 slice \<times> (string + unit payload message)) list
   in fst (Save NoFault p ''coordinator'' coordinatorSavedState (coord_saved (iter e (keys (sensors prev))) prev) []) = None \<and>
     (\<exists>rs. demo_rounds [] 1 ins = Some rs \<and> final_metrics rs = None)"
proof -
  let ?p = "\<lparr>basePath = ''demo-data''\<rparr>" and ?e = "\<lparr>now = 0, iter = (\<lambda>ks. ks)\<rparr>" and ?prev = "two_sensors\<lparr>roundNo := 10\<rparr>"
  let ?ins = "[((\<lambda>_. 0), [None, Some (RoundCompletePayload 10 0 2 0)], SNil, Inl ''ask timeout'')] ::
       ((nat \<Rightarrow> f64) \<times> unit payload option list \<times> f64 slice \<times> (string + unit payload message)) list"
  let ?save = "Save NoFault ?p ''coordinator'' coordinatorSavedState (coord_saved (iter ?e (keys (sensors ?prev))) ?prev) []"
  have st: "coord_storable ?e ?prev"
    by (auto simp: coord_storable_def two_sensors_def NewCoordinatorActor_def env_ok_def in_int64_def finite_f64_def split: if_splits)
  have sv: "fst ?save = None" using coordinator.saved_Some [OF st] .
  then have "?save = (None, snd ?save)" by (simp add: prod_eq_iff)
  then have "\<exists>rs. demo_rounds [] 1 ?ins = Some rs \<and> final_metrics rs = None"
    by (rule later_demo_run_panics [OF st, where msgs = "[]" and r = "\<lambda>_. 0" and epochs = 1 and lr = 0]) (simp_all add: two_sensors_def)
  with sv show ?thesis unfolding Let_def by blast
qed

end
