(* ===== verification/Fmt.thy ===== *)
theory Fmt
  imports GoFloat
begin

text \<open>
  The text functions of the standard library that the program calls (\<^verbatim>\<open>strconv\<close>, \<^verbatim>\<open>strings\<close>, the verbs of \<^verbatim>\<open>fmt\<close>), on byte strings as Go has
  them.

  A \<^verbatim>\<open>float64\<close> is an exact rational, so \<^verbatim>\<open>%.nf\<close> rounds that rational to \<open>n\<close> decimals, ties to even, and prints the digits of an integer. The
  lemmas read the text back: \<^verbatim>\<open>Atoi\<close> returns the integer that \<^verbatim>\<open>%d\<close> printed, and \<open>read_float\<close> the number that \<^verbatim>\<open>%.6f\<close> printed if it was rounded
  to six decimals before.
\<close>

section \<open>Integers\<close>

definition digit :: "int \<Rightarrow> char" where
  "digit d = char_of (48 + d)"

function utoa :: "int \<Rightarrow> string" where
  "utoa n = (if n < 10 then [digit n] else utoa (n div 10) @ [digit (n mod 10)])"
  by pat_completeness auto
termination
  by (relation "measure nat") auto

declare utoa.simps [simp del]

text \<open>\<^verbatim>\<open>%d\<close>.\<close>

definition Itoa :: "int \<Rightarrow> string" where
  "Itoa n = (if n < 0 then CHR ''-'' # utoa (- n) else utoa n)"

text \<open>\<^verbatim>\<open>strconv.Atoi\<close>; \<^const>\<open>None\<close> is an error.\<close>

fun digits_value :: "string \<Rightarrow> int \<Rightarrow> int option" where
  "digits_value [] acc = Some acc"
| "digits_value (d # ds) acc =
    (let v = of_char d :: int in if 48 \<le> v \<and> v \<le> 57 then digits_value ds (acc * 10 + (v - 48)) else None)"

definition Atoi :: "string \<Rightarrow> int option" where
  "Atoi s = (let (neg, ds) = (case s of x # t \<Rightarrow> if x = CHR ''-'' then (True, t) else if x = CHR ''+'' then (False, t) else (False, s) | [] \<Rightarrow> (False, s))
     in if ds = [] then None
        else case digits_value ds 0 of
          None \<Rightarrow> None
        | Some n \<Rightarrow> let v = (if neg then - n else n) in if in_int64 v then Some v else None)"

section \<open>Strings\<close>

text \<open>\<^verbatim>\<open>strings.Split\<close> and \<^verbatim>\<open>strings.SplitN(_, _, 2)\<close> for a separator of one character.\<close>

fun Split :: "char \<Rightarrow> string \<Rightarrow> string list" where
  "Split sep [] = [[]]"
| "Split sep (x # xs) = (if x = sep then [] # Split sep xs else (x # hd (Split sep xs)) # tl (Split sep xs))"

definition SplitN2 :: "char \<Rightarrow> string \<Rightarrow> string list" where
  "SplitN2 sep s = (if sep \<in> set s then [takeWhile (\<lambda>x. x \<noteq> sep) s, tl (dropWhile (\<lambda>x. x \<noteq> sep) s)] else [s])"

definition TrimPrefix :: "string \<Rightarrow> string \<Rightarrow> string" where
  "TrimPrefix s pre = (if take (length pre) s = pre then drop (length pre) s else s)"

text \<open>\<^verbatim>\<open>strings.Trim(_, " ")\<close>.\<close>

definition Trim :: "string \<Rightarrow> string" where
  "Trim s = rev (dropWhile (\<lambda>x. x = CHR '' '') (rev (dropWhile (\<lambda>x. x = CHR '' '') s)))"

text \<open>The number of characters of a string in UTF-8: the bytes that do not continue a character.\<close>

definition RuneCount :: "string \<Rightarrow> nat" where
  "RuneCount s = length (filter (\<lambda>x. (of_char x :: int) < 128 \<or> 192 \<le> (of_char x :: int)) s)"

text \<open>The flag and width of \<^verbatim>\<open>%-ws\<close>: spaces up to \<open>w\<close> characters.\<close>

definition padR :: "nat \<Rightarrow> string \<Rightarrow> string" where
  "padR w s = s @ replicate (w - RuneCount s) (CHR '' '')"

definition newline :: char where
  "newline = CHR 0x0A"

text \<open>The name of the coefficient of determination, with the two bytes of the superscript.\<close>

definition R2text :: string where
  "R2text = [CHR ''R'', CHR 0xC2, CHR 0xB2]"

section \<open>Floating point numbers\<close>

fun frac_digits :: "nat \<Rightarrow> int \<Rightarrow> string" where
  "frac_digits 0 n = []"
| "frac_digits (Suc p) n = frac_digits p (n div 10) @ [digit (n mod 10)]"

text \<open>The decimal text of \<open>n / 10 ^ p\<close>.\<close>

definition fixed :: "nat \<Rightarrow> int \<Rightarrow> string" where
  "fixed p n = utoa (n div 10 ^ p) @ (if p = 0 then [] else CHR ''.'' # frac_digits p n)"

definition sign :: "bool \<Rightarrow> string" where
  "sign s = (if s then ''-'' else [])"

text \<open>\<^verbatim>\<open>%.pf\<close>: a positive infinity has a sign, a NaN has none.\<close>

fun fmtF :: "nat \<Rightarrow> f64 \<Rightarrow> string" where
  "fmtF p FNaN = ''NaN''"
| "fmtF p (FInf s) = (if s then ''-Inf'' else ''+Inf'')"
| "fmtF p (FZero s) = sign s @ fixed p 0"
| "fmtF p (FNum q) = sign (q < 0) @ fixed p (rhe (\<bar>q\<bar> * 10 ^ p))"

text \<open>Reading the printed notation: \<^verbatim>\<open>strconv.ParseFloat\<close>, which rounds the decimal number to the nearest \<^verbatim>\<open>float64\<close>, without exponents.\<close>

definition decimal :: "string \<Rightarrow> rat option" where
  "decimal s = (case SplitN2 (CHR ''.'') s of
     [hi, lo] \<Rightarrow> (case (digits_value hi 0, digits_value lo 0) of
        (Some a, Some b) \<Rightarrow> if hi @ lo = [] then None else Some (of_int a + of_int b / 10 ^ length lo)
      | _ \<Rightarrow> None)
   | _ \<Rightarrow> if s = [] then None else map_option of_int (digits_value s 0))"

definition read_float :: "string \<Rightarrow> f64 option" where
  "read_float s = (let (neg, t) = (case s of x # t \<Rightarrow> if x = CHR ''-'' then (True, t) else if x = CHR ''+'' then (False, t) else (False, s) | [] \<Rightarrow> (False, s))
     in if s = ''NaN'' then Some FNaN
        else if t = ''Inf'' then Some (FInf neg)
        else map_option (\<lambda>q. rnd neg (if neg then - q else q)) (decimal t))"

section \<open>Lemmas\<close>

subsection \<open>Digits\<close>

lemma of_char_digit: "0 \<le> d \<Longrightarrow> d < 10 \<Longrightarrow> (of_char (digit d) :: int) = 48 + d"
  by (simp add: digit_def)

definition is_digit :: "char \<Rightarrow> bool" where
  "is_digit x \<longleftrightarrow> 48 \<le> (of_char x :: int) \<and> (of_char x :: int) \<le> 57"

lemma is_digit_digit [simp]: "0 \<le> d \<Longrightarrow> d < 10 \<Longrightarrow> is_digit (digit d)"
  by (simp add: is_digit_def of_char_digit)

lemma digits_value_append: "digits_value (xs @ ys) acc = Option.bind (digits_value xs acc) (digits_value ys)"
  by (induction xs acc rule: digits_value.induct) (simp_all add: Let_def)

lemma digits_value_digit [simp]: "0 \<le> d \<Longrightarrow> d < 10 \<Longrightarrow> digits_value [digit d] acc = Some (acc * 10 + d)"
  by (simp add: of_char_digit)

lemma digits_value_utoa: "0 \<le> n \<Longrightarrow> digits_value (utoa n) 0 = Some n"
proof (induction n rule: utoa.induct)
  case (1 n)
  then show ?case
    by (subst utoa.simps) (cases "n < 10"; simp add: digits_value_append of_char_digit)
qed

lemma digits_value_frac: "0 \<le> n \<Longrightarrow> digits_value (frac_digits p n) acc = Some (acc * 10 ^ p + n mod 10 ^ p)"
proof (induction p arbitrary: n)
  case (Suc p)
  have "n mod 10 ^ Suc p = 10 * (n div 10 mod 10 ^ p) + n mod 10"
    using zmod_zmult2_eq [of "10 ^ p" n 10] by simp
  with Suc show ?case by (simp add: digits_value_append of_char_digit algebra_simps)
qed simp

lemma length_frac_digits [simp]: "length (frac_digits p n) = p"
  by (induction p n rule: frac_digits.induct) auto

lemma utoa_digits: "0 \<le> n \<Longrightarrow> \<forall>x\<in>set (utoa n). is_digit x"
proof (induction n rule: utoa.induct)
  case (1 n)
  then show ?case by (subst utoa.simps) (cases "n < 10"; auto)
qed

lemma utoa_not_Nil [simp]: "utoa n \<noteq> []"
  by (subst utoa.simps) simp

lemma frac_digits_digits: "\<forall>x\<in>set (frac_digits p n). is_digit x"
  by (induction p n rule: frac_digits.induct) auto

text \<open>Text made of digits holds none of the characters around it.\<close>

lemma is_digit_other: "\<not> is_digit x \<Longrightarrow> 0 \<le> n \<Longrightarrow> x \<notin> set (utoa n)"
  using utoa_digits by blast

lemma not_digit [simp]: "\<not> is_digit (CHR ''-'')" "\<not> is_digit (CHR ''+'')" "\<not> is_digit (CHR ''.'')" "\<not> is_digit (CHR '' '')" "\<not> is_digit (CHR ''|'')"
  "\<not> is_digit (CHR 0x0A)" "\<not> is_digit (CHR '','')" "\<not> is_digit (CHR ''N'')" "\<not> is_digit (CHR ''I'')" "\<not> is_digit (CHR 0x22)"
  by (simp_all add: is_digit_def)

theorem Atoi_Itoa: "in_int64 n \<Longrightarrow> Atoi (Itoa n) = Some n"
proof (cases "n < 0")
  case True
  then show "in_int64 n \<Longrightarrow> ?thesis" by (simp add: Atoi_def Itoa_def digits_value_utoa)
next
  case False
  then obtain x t where u: "utoa n = x # t" "is_digit x" using utoa_digits [of n] by (cases "utoa n") auto
  then have "x \<noteq> CHR ''-''" "x \<noteq> CHR ''+''" by auto
  with u False show "in_int64 n \<Longrightarrow> ?thesis"
    using digits_value_utoa [of n] by (simp add: Atoi_def Itoa_def Let_def del: digits_value.simps)
qed

lemma Split_no_sep: "sep \<notin> set s \<Longrightarrow> Split sep s = [s]"
  by (induction s) auto

lemma Split_Cons_sep: "sep \<notin> set s \<Longrightarrow> Split sep (s @ sep # t) = s # Split sep t"
  by (induction s) auto

lemma SplitN2_eq: "sep \<notin> set k \<Longrightarrow> SplitN2 sep (k @ sep # v) = [k, v]"
  by (simp add: SplitN2_def takeWhile_append dropWhile_append)

lemma Split_lines: "\<forall>l\<in>set ls. sep \<notin> set l \<Longrightarrow> Split sep (concat (map (\<lambda>l. l @ [sep]) ls)) = ls @ [[]]"
  by (induction ls) (simp_all add: Split_Cons_sep)

lemma dropWhile_spaces: "dropWhile (\<lambda>x. x = y) (replicate k y @ s) = dropWhile (\<lambda>x. x = y) s"
  by (induction k) auto

lemma Trim_pad:
  assumes "CHR '' '' \<notin> set s"
  shows "Trim (replicate i (CHR '' '') @ s @ replicate j (CHR '' '')) = s"
proof -
  let ?P = "\<lambda>x. x = CHR '' ''"
  have d: "dropWhile ?P t = t" if "CHR '' '' \<notin> set t" for t using that by (cases t) auto
  have "dropWhile ?P (s @ replicate j (CHR '' '')) = s @ (if s = [] then [] else replicate j (CHR '' ''))"
  proof (cases s)
    case Nil
    then show ?thesis using dropWhile_spaces [of "CHR '' ''" j "[]"] by simp
  next
    case (Cons x t)
    then show ?thesis using assms by auto
  qed
  then have "Trim (replicate i (CHR '' '') @ s @ replicate j (CHR '' '')) = rev (dropWhile ?P (replicate (if s = [] then 0 else j) (CHR '' '') @ rev s))"
    by (simp add: Trim_def dropWhile_spaces)
  also have "\<dots> = s" using d [of "rev s"] assms by (simp add: dropWhile_spaces)
  finally show ?thesis .
qed

subsection \<open>Printed numbers\<close>

lemma rhe_error: "\<bar>of_int (rhe x) - x\<bar> \<le> 1 / 2"
proof -
  have "of_int \<lfloor>x\<rfloor> \<le> x" "x < of_int \<lfloor>x\<rfloor> + 1" by linarith+
  then show ?thesis by (auto simp: rhe_def Let_def abs_le_iff)
qed

lemma rhe_near: "\<bar>x - of_int n\<bar> < 1 / 2 \<Longrightarrow> rhe x = n"
proof -
  assume "\<bar>x - of_int n\<bar> < 1 / 2"
  with rhe_error [of x] have "\<bar>of_int (rhe x) - (of_int n :: rat)\<bar> < 1" by linarith
  then have "\<bar>rhe x - n\<bar> < 1" by linarith
  then show ?thesis by simp
qed

lemma rhe_nonneg: "0 \<le> x \<Longrightarrow> 0 \<le> rhe x"
  using rhe_mono [of 0 x] rhe_of_int [of 0] by simp

lemma rnd_abs_error: "\<bar>rnd_abs a - a\<bar> \<le> 2 powi ulp_exp a / 2"
proof -
  let ?u = "2 powi ulp_exp a :: rat"
  have "rnd_abs a - a = (of_int (rhe (a / ?u)) - a / ?u) * ?u" by (simp add: rnd_abs_def algebra_simps)
  then have "\<bar>rnd_abs a - a\<bar> = \<bar>of_int (rhe (a / ?u)) - a / ?u\<bar> * ?u" by (simp add: abs_mult)
  also have "\<dots> \<le> 1 / 2 * ?u" using rhe_error by (intro mult_right_mono) auto
  finally show ?thesis by simp
qed

text \<open>The characters of a printed number.\<close>

definition plain :: "string \<Rightarrow> bool" where
  "plain s \<longleftrightarrow> (\<forall>x\<in>set s. is_digit x \<or> x \<in> set ''+-.NaInf'')"

lemma plain_simps [simp]: "plain []" "plain (x # s) \<longleftrightarrow> (is_digit x \<or> x \<in> set ''+-.NaInf'') \<and> plain s" "plain (s @ t) \<longleftrightarrow> plain s \<and> plain t"
  by (auto simp: plain_def)

lemma plain_digits: "0 \<le> n \<Longrightarrow> plain (utoa n)" "plain (frac_digits p n)"
  using utoa_digits frac_digits_digits by (auto simp: plain_def)

lemma plain_Itoa: "plain (Itoa n)"
  by (simp add: Itoa_def plain_digits)

lemma plain_fixed: "0 \<le> n \<Longrightarrow> plain (fixed p n)"
  by (simp add: fixed_def plain_digits pos_imp_zdiv_nonneg_iff)

lemma plain_fmtF: "plain (fmtF p x)"
  by (cases x) (simp_all add: sign_def plain_fixed rhe_nonneg)

lemma plain_not_in: "plain s \<Longrightarrow> x \<in> {CHR '' '', CHR ''|'', CHR 0x0A, CHR '','', CHR 0x22} \<Longrightarrow> x \<notin> set s"
  by (auto simp: plain_def)

lemma plain_RuneCount: "plain s \<Longrightarrow> RuneCount s = length s"
proof -
  assume "plain s"
  then have "(of_char x :: int) < 128" if "x \<in> set s" for x
    using that unfolding plain_def is_digit_def by fastforce
  then show ?thesis by (simp add: RuneCount_def)
qed

lemma plain_padR: "plain s \<Longrightarrow> padR w s = s @ replicate (w - length s) (CHR '' '')"
  by (simp add: padR_def plain_RuneCount)

lemma fixed_digit: "0 \<le> n \<Longrightarrow> \<exists>x t. fixed p n = x # t \<and> is_digit x"
  using utoa_digits [of "n div 10 ^ p"] by (cases "utoa (n div 10 ^ p)") (auto simp: fixed_def pos_imp_zdiv_nonneg_iff)

lemma decimal_fixed:
  assumes "0 \<le> n" "0 < p"
  shows "decimal (fixed p n) = Some (of_int n / 10 ^ p)"
proof -
  have "CHR ''.'' \<notin> set (utoa (n div 10 ^ p))" using assms by (intro is_digit_other) (simp_all add: pos_imp_zdiv_nonneg_iff)
  moreover have "(of_int n :: rat) / 10 ^ p = of_int (n div 10 ^ p) + of_int (n mod 10 ^ p) / 10 ^ p"
  proof -
    have "(of_int n :: rat) = of_int (n div 10 ^ p * 10 ^ p + n mod 10 ^ p)" by (simp only: div_mult_mod_eq)
    then have "(of_int n :: rat) = of_int (n div 10 ^ p) * 10 ^ p + of_int (n mod 10 ^ p)" by (simp only: of_int_add of_int_mult of_int_power of_int_numeral)
    then show ?thesis by (simp only: add_divide_distrib) simp
  qed
  ultimately show ?thesis using assms
    by (simp add: decimal_def fixed_def SplitN2_eq digits_value_utoa digits_value_frac pos_imp_zdiv_nonneg_iff)
qed

lemma read_float_fixed:
  assumes "0 \<le> n" "0 < p"
  shows "read_float (sign s @ fixed p n) = Some (rnd s (if s then - of_int n / 10 ^ p else of_int n / 10 ^ p))"
proof -
  obtain x t where f: "fixed p n = x # t" "is_digit x" using fixed_digit [OF assms(1)] by blast
  then have "x \<noteq> CHR ''-''" "x \<noteq> CHR ''+''" "x \<noteq> CHR ''I''" "x \<noteq> CHR ''N''" by auto
  with f decimal_fixed [OF assms] show ?thesis by (simp add: read_float_def sign_def Let_def)
qed

text \<open>Reading back what was printed gives the number rounded to the printed decimals.\<close>

lemma read_float_fmtF:
  assumes "0 < p"
  shows "read_float (fmtF p (FNum q)) = Some (rnd (q < 0) (sgn q * of_int (rhe (\<bar>q\<bar> * 10 ^ p)) / 10 ^ p))"
  using read_float_fixed [of "rhe (\<bar>q\<bar> * 10 ^ p)" p "q < 0"] assms rhe_of_int [of 0]
  by (auto simp: rhe_nonneg sgn_if)

text \<open>
  A number that was rounded to six decimals and is below \<open>2 ^ 32\<close> is printed without loss: its distance to the decimal number is at most half
  a unit in the last place, less than half of the sixth decimal.
\<close>

definition micro :: "f64 \<Rightarrow> bool" where
  "micro x \<longleftrightarrow> \<not> finite_f64 x \<or> (\<exists>s n. x = rnd s (of_int n / 10 ^ 6))"

definition moderate :: "f64 \<Rightarrow> bool" where
  "moderate x \<longleftrightarrow> \<bar>val x\<bar> < 2 ^ 32"

lemma rnd_abs_big: "(2::rat) ^ 32 \<le> a \<Longrightarrow> 2 ^ 32 \<le> rnd_abs a"
  using rnd_abs_mono [of "2 ^ 32" a] rnd_abs_exact [of 1 32] by (simp add: power_int_def)

lemma six_decimals:
  assumes "0 < n" "rnd_abs (of_int n / 10 ^ 6) < 2 ^ 32"
  shows "rhe (rnd_abs (of_int n / 10 ^ 6) * 10 ^ 6) = n"
proof -
  let ?a = "of_int n / 10 ^ 6 :: rat"
  have a: "0 < ?a" using assms(1) by simp
  have "?a < 2 ^ 32" using assms(2) rnd_abs_big [of ?a] by (meson not_le)
  then have "(2::rat) powi flog2 ?a < 2 powi 32" using flog2_bounds(1) [OF a] by (simp only: power_int_numeral)
  then have "flog2 ?a < 32" by (metis not_le power_int_increasing one_le_numeral)
  then have "(2::rat) powi ulp_exp ?a \<le> 2 powi (- 21)" by (intro power_int_increasing) (auto simp: ulp_exp_def)
  moreover have "(2::rat) powi (- 21) = 1 / 2 ^ 21" by (simp add: power_int_minus)
  ultimately have "2 powi ulp_exp ?a \<le> (1 / 2 ^ 21 :: rat)" by (simp only:)
  then have "2 powi ulp_exp ?a / 2 \<le> (1 / 2 ^ 21 / 2 :: rat)" by (rule divide_right_mono) simp
  with rnd_abs_error have "\<bar>rnd_abs ?a - ?a\<bar> \<le> 1 / 2 ^ 21 / 2" by (rule order_trans)
  then have "\<bar>rnd_abs ?a - ?a\<bar> * 10 ^ 6 < 1 / 2" by simp
  moreover have "\<bar>rnd_abs ?a * 10 ^ 6 - of_int n\<bar> = \<bar>rnd_abs ?a - ?a\<bar> * 10 ^ 6"
    using abs_mult [of "rnd_abs ?a - ?a" "10 ^ 6"] by (simp add: left_diff_distrib)
  ultimately have "\<bar>rnd_abs ?a * 10 ^ 6 - of_int n\<bar> < 1 / 2" by linarith
  then show ?thesis by (rule rhe_near)
qed

lemma read_float_micro_aux:
  assumes "0 < n" "rnd s (of_int n / 10 ^ 6) = FNum q" "q < 2 ^ 32"
  shows "0 < q" and "rhe (q * 10 ^ 6) = n"
proof -
  have "q = rnd_abs (of_int n / 10 ^ 6)" "q \<noteq> 0"
    using assms(1,2) by (auto simp: rnd_pos split: if_splits)
  moreover have "0 \<le> rnd_abs (of_int n / 10 ^ 6)" using assms(1) by (intro rnd_abs_nonneg) simp
  ultimately show "0 < q" "rhe (q * 10 ^ 6) = n" using six_decimals [OF assms(1)] assms(3) by simp_all
qed

theorem read_float_micro:
  assumes "micro x" "moderate x"
  shows "read_float (fmtF 6 x) = Some x"
proof (cases x)
  case (FNum q)
  then obtain s n where r: "rnd s (of_int n / 10 ^ 6) = FNum q" using assms(1) by (auto simp: micro_def finite_f64_def)
  have q: "\<bar>q\<bar> < 2 ^ 32" using assms(2) FNum by (simp add: moderate_def)
  consider "n = 0" | "0 < n" | "n < 0" by linarith
  then have "q \<noteq> 0 \<and> sgn q * of_int (rhe (\<bar>q\<bar> * 10 ^ 6)) = of_int n"
  proof cases
    case 1
    then show ?thesis using r by (simp add: rnd_def)
  next
    case 2
    moreover have "q < 2 ^ 32" using q by linarith
    ultimately show ?thesis using read_float_micro_aux [of n s q] r by simp
  next
    case 3
    then have "fneg (rnd s (- (of_int n / 10 ^ 6))) = FNum q" using r rnd_neg [of "of_int n / 10 ^ 6" s] by simp
    then have "rnd s (of_int (- n) / 10 ^ 6) = FNum (- q)" by (cases "rnd s (- (of_int n / 10 ^ 6))") auto
    moreover have "- q < 2 ^ 32" using q by linarith
    ultimately show ?thesis using read_float_micro_aux [of "- n" s "- q"] 3 by simp
  qed
  then have "read_float (fmtF 6 x) = Some (rnd (q < 0) (of_int n / 10 ^ 6))" "n \<noteq> 0"
    using read_float_fmtF [of 6 q] FNum r by (simp_all add: rnd_def split: if_splits)
  moreover have "rnd (q < 0) (of_int n / 10 ^ 6) = rnd s (of_int n / 10 ^ 6)" if "n \<noteq> 0"
    using that by (simp add: rnd_def)
  ultimately show ?thesis using r FNum by simp
next
  case (FZero b)
  then show ?thesis using read_float_fixed [of 0 6 b] by (simp add: rnd_def split: if_splits)
next
  case FNaN
  then show ?thesis by (simp add: read_float_def)
next
  case (FInf b)
  then show ?thesis by (simp add: read_float_def)
qed

text \<open>Ties go to the even digit; signs of zeros and infinities are printed.\<close>

lemma fmtF_examples:
  "fmtF 6 (FNum (1 / 8)) = ''0.125000''" "fmtF 2 (FNum (1 / 8)) = ''0.12''" "fmtF 2 (FNum (- 3 / 8)) = ''-0.38''" "fmtF 1 (FNum (1999 / 2)) = ''999.5''"
  "fmtF 1 (FNum (9999 / 100)) = ''100.0''" "fmtF 6 (FZero True) = ''-0.000000''" "fmtF 6 (FInf False) = ''+Inf''" "Itoa (- 120) = ''-120''"
  by code_simp+

text \<open>Rounding to decimals keeps a value between two integers.\<close>

lemma fmtF_between:
  assumes "of_int lo \<le> q" "q \<le> of_int hi" "0 < lo" "0 < p"
  shows "\<exists>r. read_float (fmtF p (FNum q)) = Some (rnd False r) \<and> of_int lo \<le> r \<and> r \<le> of_int hi"
proof -
  have q: "0 < q" using assms(1,3) by (meson less_le_trans of_int_0_less_iff)
  let ?n = "rhe (q * 10 ^ p)"
  have "of_int (lo * 10 ^ p) \<le> q * 10 ^ p" "q * 10 ^ p \<le> of_int (hi * 10 ^ p)" using assms(1,2) by simp_all
  then have "lo * 10 ^ p \<le> ?n" "?n \<le> hi * 10 ^ p" using rhe_mono rhe_of_int by metis+
  then have "(of_int (lo * 10 ^ p) :: rat) \<le> of_int ?n" "(of_int ?n :: rat) \<le> of_int (hi * 10 ^ p)" by (simp_all only: of_int_le_iff)
  then have "of_int lo \<le> (of_int ?n / 10 ^ p :: rat)" "(of_int ?n / 10 ^ p :: rat) \<le> of_int hi" by (simp_all add: le_divide_eq divide_le_eq)
  moreover have "read_float (fmtF p (FNum q)) = Some (rnd False (of_int ?n / 10 ^ p))" using read_float_fmtF [OF assms(4), of q] q by simp
  ultimately show ?thesis by blast
qed

end
