(* ===== verification/Services.thy ===== *)
theory Services
  imports Demo Fmt
begin

text \<open>
  The distributed program: the coordinator service and the sensor services (\<^verbatim>\<open>cmd/coordinator-service/main.go\<close>,
  \<^verbatim>\<open>cmd/sensor-service/main.go\<close>), processes that only share the network.

  The environment of a process is a map. What the main goroutines do to their actor systems is \<open>coordinator_service\<close>, \<open>register_manual\<close> and
  \<open>sensor_service\<close>; \<^const>\<open>None\<close> is a panic. \<open>CoordinatorService\<close> has the rest of the coordinator service.
\<close>

section \<open>Environment variables\<close>

definition env_or :: "(string \<rightharpoonup> string) \<Rightarrow> string \<Rightarrow> string \<Rightarrow> string" where
  "env_or E key fallback = (case E key of Some v \<Rightarrow> if v \<noteq> '''' then v else fallback | None \<Rightarrow> fallback)"

definition envInt :: "(string \<rightharpoonup> string) \<Rightarrow> string \<Rightarrow> int \<Rightarrow> int" where
  "envInt E key fallback = (case E key of
     Some v \<Rightarrow> if v \<noteq> '''' then (case Atoi v of Some n \<Rightarrow> n | None \<Rightarrow> fallback) else fallback
   | None \<Rightarrow> fallback)"

definition manualSensors :: "string \<Rightarrow> (string, string) gomap" where
  "manualSensors sensorAddrs = (if sensorAddrs = '''' then []
     else fold (\<lambda>part m. case SplitN2 (CHR ''='') part of [k, v] \<Rightarrow> mput k v m | _ \<Rightarrow> m) (Split (CHR '','') sensorAddrs) [])"

section \<open>The coordinator service\<close>

text \<open>A method that the main goroutine calls on the coordinator.\<close>

definition on_coordinator :: "nat \<Rightarrow> (sensor_factory CoordinatorActor \<Rightarrow> sensor_factory CoordinatorActor) \<Rightarrow> home \<Rightarrow> home" where
  "on_coordinator a f s = (case actor (ent s a) of ACoordinator st \<Rightarrow> set_actor a (ACoordinator (f st)) s | _ \<Rightarrow> s)"

definition coordinator_service :: "int \<Rightarrow> f64 \<Rightarrow> int \<Rightarrow> (nat \<Rightarrow> draws) \<Rightarrow> home \<Rightarrow> (nat \<times> nat \<times> home) option" where
  "coordinator_service epochs lr valSamples vdr s = do {
     (_, s) \<leftarrow> MustSpawn home_ops (ALogger (NewLoggerActor ''logger'')) DefaultSpawnOptions s;
     (_, s) \<leftarrow> MustSpawn home_ops (ADevice (NewDeviceControllerActor ''device-ctrl'')) DefaultSpawnOptions s;
     (coordRef, s) \<leftarrow> MustSpawn home_ops (ACoordinator (SetTrainingConfig epochs lr
       (NewCoordinatorActor ''coordinator'' ''logger'' ''device-ctrl'' (5 * 8 + 8 + 8 * 3 + 3)))) DefaultSpawnOptions s;
     let s = on_coordinator coordRef (OnRemoteSensor CreateRemoteRef) s;
     vs \<leftarrow> GenerateSamples vdr ''validation'' valSamples (lit (1 / 2)) False;
     (evalRef, s) \<leftarrow> MustSpawn home_ops (AEvaluator (NewEvaluatorActor ''evaluator'' vs)) DefaultSpawnOptions s;
     Some (coordRef, evalRef, s)
   }"

text \<open>The loop over the sensors of \<^verbatim>\<open>SENSOR_ADDRS\<close>, in the order that the map is visited in.\<close>

fun register_manual :: "nat \<Rightarrow> int \<Rightarrow> (string \<times> string) list \<Rightarrow> home \<Rightarrow> home outcome" where
  "register_manual coordRef n [] s = Done s"
| "register_manual coordRef n ((i, addr) # kvs) s =
    obind (perform1 coordRef (RegisterSensor (LocalRef coordRef) i (TrimPrefix i ''sensor-'') n '''')
        (on_coordinator coordRef (SetSensorRemoteRef i (RemoteRef i addr)) s))
      (register_manual coordRef n kvs)"

text \<open>Both services register payload types again that the package initialiser has registered.\<close>

definition coordinator_registry :: payload_registry where
  "coordinator_registry = fold RegisterPayloadType
    [PStartTraining, PModelUpdate, PGlobalModelUpdate, PRoundComplete, PAdjustEnvironment, PDeviceStatus, PLogMetrics, PLogEvent, PRegisterSensor,
     PStartRound, PTrainingComplete, PRequestStatus, PStatusResponse, PEvaluateModel, PEvaluationResult] init_registry"

definition sensor_registry :: payload_registry where
  "sensor_registry = fold RegisterPayloadType [PStartTraining, PModelUpdate, PGlobalModelUpdate, PTrainingComplete, PRegisterSensor] init_registry"

section \<open>The sensor service\<close>

text \<open>\<open>addr\<close> is the address that the service advertises: \<^verbatim>\<open>MY_ADDR\<close>, or the one it listens on.\<close>

definition advertised :: "(string \<rightharpoonup> string) \<Rightarrow> string \<Rightarrow> string" where
  "advertised E listening = (let myAddr = env_or E ''MY_ADDR'' '''' in if myAddr = '''' then listening else myAddr)"

definition sensor_service :: "(nat \<Rightarrow> f64) \<Rightarrow> (nat \<Rightarrow> nat \<Rightarrow> draws) \<Rightarrow> (string \<rightharpoonup> string) \<Rightarrow> string \<Rightarrow> home \<Rightarrow> home option" where
  "sensor_service r dr E listening s = do {
     let sensorID = env_or E ''SENSOR_ID'' ''sensor-kitchen'';
     let room = env_or E ''ROOM_ID'' ''kitchen'';
     let coordID = env_or E ''COORD_ID'' ''coordinator'';
     let coordRef = RemoteRef coordID (env_or E ''COORD_ADDR'' ''coordinator:50051'');
     datasets \<leftarrow> GenerateSensors dr [room] (envInt E ''SAMPLES'' 800) (env_or E ''NON_IID'' ''true'' = ''true'');
     let sensor = SetCoordinatorRef coordRef (NewSensorActor r sensorID room coordID (data_of datasets room));
     (a, s) \<leftarrow> MustSpawn home_ops (ASensor sensor) DefaultSpawnOptions s;
     returned (perform1 a (RegisterSensor coordRef sensorID room (int (length (data_of datasets room))) (advertised E listening)) s)
   }"

section \<open>Lemmas\<close>

text \<open>The text that lists sensors with their addresses.\<close>

fun addrs_text :: "(string \<times> string) list \<Rightarrow> string" where
  "addrs_text [] = []"
| "addrs_text [(k, v)] = k @ CHR ''='' # v"
| "addrs_text ((k, v) # kvs) = k @ CHR ''='' # v @ CHR '','' # addrs_text kvs"

lemma Split_addrs_text:
  assumes "kvs \<noteq> []" "\<forall>(k, v)\<in>set kvs. CHR '','' \<notin> set k \<and> CHR '','' \<notin> set v"
  shows "Split (CHR '','') (addrs_text kvs) = map (\<lambda>(k, v). k @ CHR ''='' # v) kvs"
  using assms
proof (induction kvs rule: addrs_text.induct)
  case (2 k v)
  then show ?case by (simp add: Split_no_sep)
next
  case (3 k v kv kvs)
  then have "CHR '','' \<notin> set (k @ CHR ''='' # v)" by simp
  from Split_Cons_sep [OF this, of "addrs_text (kv # kvs)"] 3 show ?case by simp
qed simp

lemma fold_mput_distinct: "distinct (keys m @ keys kvs) \<Longrightarrow> fold (\<lambda>(k, v). mput k v) kvs m = m @ kvs"
  by (induction kvs arbitrary: m) (auto simp: mput_fresh image_Un)

text \<open>The service reads back every list of sensors and addresses that is written this way.\<close>

lemma manualSensors_roundtrip:
  assumes "distinct (keys kvs)" "\<forall>(k, v)\<in>set kvs. CHR ''='' \<notin> set k \<and> CHR '','' \<notin> set k \<and> CHR '','' \<notin> set v"
  shows "manualSensors (addrs_text kvs) = kvs"
proof (cases kvs rule: addrs_text.cases)
  case (1)
  then show ?thesis by (simp add: manualSensors_def)
next
  have "fold (\<lambda>part m. case SplitN2 (CHR ''='') part of [k, v] \<Rightarrow> mput k v m | _ \<Rightarrow> m) (map (\<lambda>(k, v). k @ CHR ''='' # v) xs) m = fold (\<lambda>(k, v). mput k v) xs m"
    if "\<forall>(k, v)\<in>set xs. CHR ''='' \<notin> set k" for xs m
    using that by (induction xs arbitrary: m) (auto simp: SplitN2_eq)
  then have *: "fold (\<lambda>part m. case SplitN2 (CHR ''='') part of [k, v] \<Rightarrow> mput k v m | _ \<Rightarrow> m) (map (\<lambda>(k, v). k @ CHR ''='' # v) kvs) [] = kvs"
    using assms fold_mput_distinct [of "[]" kvs] by fastforce
  have **: "Split (CHR '','') (addrs_text kvs) = map (\<lambda>(k, v). k @ CHR ''='' # v) kvs" if "kvs \<noteq> []"
    using assms(2) that by (intro Split_addrs_text) auto
  {
    case (2 k v)
    then show ?thesis using * ** by (simp add: manualSensors_def)
  next
    case (3 k v kv kvs')
    then show ?thesis using * ** by (simp add: manualSensors_def)
  }
qed

lemma service_registries: "coordinator_registry = init_registry" "sensor_registry = init_registry"
  by (simp_all add: coordinator_registry_def sensor_registry_def init_registry_def RegisterPayloadType_def)

subsection \<open>Numbers of samples\<close>

lemma envInt_int64: "in_int64 n \<Longrightarrow> in_int64 (envInt E key n)"
  by (auto simp: envInt_def Atoi_def Let_def split: option.splits if_splits list.splits)

lemma GenerateSensors_one:
  "GenerateSensors dr [room] n b = Some ds \<Longrightarrow> int (length (data_of ds room)) = n"
  by (auto simp: GenerateSensors_def GenerateSamples_def data_of_def split: if_splits)

subsection \<open>Joining over the network\<close>

lemma request_message_marshalTell:
  assumes "json_safe p" "Payload msg = Dyn p"
  shows "request_message init_registry (marshalTell i msg) = Message (MsgType msg) (Dyn p) (Sender msg) (wrap64 (Timestamp msg))"
  using assms decode_registered [OF assms(1)] by (simp add: request_message_def marshalTell_def)

lemma sensor_service_start:
  assumes "sensor_service r dr E listening s = Some s'"
  defines "i \<equiv> env_or E ''SENSOR_ID'' ''sensor-kitchen''" and "room \<equiv> env_or E ''ROOM_ID'' ''kitchen''" and "n \<equiv> envInt E ''SAMPLES'' 800"
    and "cid \<equiv> env_or E ''COORD_ID'' ''coordinator''" and "caddr \<equiv> env_or E ''COORD_ADDR'' ''coordinator:50051''"
  shows "\<exists>x. actor (ent s' (length (heap s))) = ASensor x \<and> sensorID x = i \<and> state x = ''idle''"
    "network (world s') = network (world s) @ [(caddr, marshalTell cid (mkMessage MsgRegisterSensor
       (Dyn (RegisterSensorPayload i room n (advertised E listening))) '''' :: home_message))]"
    "Lookup i s' = Inr (length (heap s))" "in_int64 n"
proof -
  note [simp] = i_def [symmetric] room_def [symmetric] n_def [symmetric] cid_def [symmetric] caddr_def [symmetric]
  obtain ds a s1 where ds: "GenerateSensors dr [room] n (env_or E ''NON_IID'' ''true'' = ''true'') = Some ds"
    and m: "MustSpawn home_ops (ASensor (SetCoordinatorRef (RemoteRef cid caddr) (NewSensorActor r i room cid (data_of ds room)))) DefaultSpawnOptions s = Some (a, s1)"
    and s': "returned (perform1 a (RegisterSensor (RemoteRef cid caddr) i room (int (length (data_of ds room))) (advertised E listening)) s1) = Some s'"
    using assms(1) by (auto simp: sensor_service_def Let_def bind_eq_Some_conv)
  have s1: "a = length (heap s)" "heap s1 = heap s @ [new_entry (ASensor (SetCoordinatorRef (RemoteRef cid caddr) (NewSensorActor r i room cid (data_of ds room)))) DefaultSpawnOptions]"
      "actors s1 = mput i a (actors s)" "world s1 = world s"
    using m by (auto simp: MustSpawn_def Spawn_def Let_def SetCoordinatorRef_def NewSensorActor_def split: if_splits option.splits)
  have s2: "s' = s1\<lparr>world := (world s1)\<lparr>network := network (world s1) @ [(caddr, marshalTell cid (mkMessage MsgRegisterSensor
       (Dyn (RegisterSensorPayload i room n (advertised E listening))) '''' :: home_message))]\<rparr>\<rparr>"
    using s' GenerateSensors_one [OF ds] by (simp add: RegisterSensor_def)
  show "\<exists>x. actor (ent s' (length (heap s))) = ASensor x \<and> sensorID x = i \<and> state x = ''idle''"
    unfolding s2 using s1 by (simp add: new_entry_def SetCoordinatorRef_def NewSensorActor_def)
  show "network (world s') = network (world s) @ [(caddr, marshalTell cid (mkMessage MsgRegisterSensor
       (Dyn (RegisterSensorPayload i room n (advertised E listening))) '''' :: home_message))]"
    unfolding s2 using s1(4) by simp
  show "Lookup i s' = Inr (length (heap s))" unfolding s2 using s1 by (simp add: Lookup_def)
  show "in_int64 n" unfolding n_def by (rule envInt_int64) (simp add: in_int64_def)
qed

text \<open>The coordinator registers a remote sensor and keeps a reference to its address.\<close>

lemma handleRegisterSensor_remote:
  assumes "castPayload PRegisterSensor (Payload msg) = Some (RegisterSensorPayload i room n addr)" "addr \<noteq> ''''"
    and "onRemoteSensor st = Some CreateRemoteRef" "0 \<le> numWeights st"
  defines "h \<equiv> handleRegisterSensor msg st"
  shows "hpanic h = None" "mget (sensors (hstate h)) i = Some \<lparr>infoRoomID = room, infoNumSamples = n\<rparr>" "lookupRef c (hstate h) i = Some (RemoteRef i addr)"
    "roundNo (hstate h) = roundNo st" "learningRate (hstate h) = learningRate st" "numEpochs (hstate h) = numEpochs st"
  using assms by (simp_all add: handleRegisterSensor_def Let_def SetSensorRemoteRef_def lookupRef_def)

lemma handleStartRound_reaches:
  assumes "env_ok e" "mget (sensors st) i = Some info" "lookupRef c st i = Some ref"
  shows "hpanic (handleStartRound e c st) = None"
    "(ref, mkMessage MsgStartTraining (Dyn (StartTrainingPayload (wrap64 (roundNo st + 1)) (globalWeights st) (learningRate st) (numEpochs st))) (Self c))
       \<in> set (sent (heffs (handleStartRound e c st)))"
proof -
  have "i \<in> fst ` set (sensors st)" using assms(2) mget_eq_None_iff [of "sensors st" i] by fastforce
  then have i: "i \<in> set (iter e (keys (sensors st)))" using assms(1) by simp
  then have "iter e (keys (sensors st)) \<noteq> []" by auto
  then show "hpanic (handleStartRound e c st) = None" "(ref, mkMessage MsgStartTraining (Dyn (StartTrainingPayload (wrap64 (roundNo st + 1)) (globalWeights st) (learningRate st) (numEpochs st))) (Self c))
       \<in> set (sent (heffs (handleStartRound e c st)))"
    using i assms(3) by (auto simp: handleStartRound_def Let_def addressed_iff lookupRef_def)
qed

lemma sensor_takes_remote_request:
  "list_all finite_f64 (elems w) \<and> finite_f64 lr \<and> in_int64 n \<longrightarrow> (let y = hstate (sensor_Receive cs (request_message init_registry (marshalTell i
      (mkMessage MsgStartTraining (Dyn (StartTrainingPayload (wrap64 k) w lr n)) src :: home_message)) :: home_message) x)
    in state y = ''training'' \<and> roundID y = wrap64 k \<and> weights y = w)"
proof
  assume fin: "list_all finite_f64 (elems w) \<and> finite_f64 lr \<and> in_int64 n"
  let ?t = "StartTrainingPayload (wrap64 k) w lr n :: sensor_factory payload"
  let ?train = "mkMessage MsgStartTraining (Dyn ?t) src :: home_message"
  have "typed TFloats (floats w)" using fin by (cases w) (simp_all add: list_all_length)
  then have "json_safe ?t" using fin by (simp add: json_safe_def)
  then have "request_message init_registry (marshalTell i ?train) = (Message MsgStartTraining (Dyn ?t) src (wrap64 zero_time) :: home_message)"
    using request_message_marshalTell [of ?t ?train i] by (simp add: mkMessage_def)
  then show "let y = hstate (sensor_Receive cs (request_message init_registry (marshalTell i ?train) :: home_message) x)
    in state y = ''training'' \<and> roundID y = wrap64 k \<and> weights y = w"
    by (simp add: sensor_Receive_def handleStartTraining_def castPayload_def Let_def)
qed

section \<open>Properties\<close>

text \<open>
  C15: a sensor in another process takes part in the next round. The sensor service, once started, has put one request on the network, to the coordinator's address. Delivered to
  a coordinator that has the callback of the coordinator service, it registers the sensor with its room, its number of samples and a reference to the address
  that the service advertises; the next round sends this reference a request to train; and that, delivered to the sensor's process and handled by the
  sensor, puts it into training for the new round with the global weights of the coordinator, if these, the learning rate and the epochs can be transmitted.
\<close>

theorem remote_sensor_joins:
  fixes st :: "sensor_factory CoordinatorActor" and s s' :: home
  assumes "sensor_service r dr E listening s = Some s'" "advertised E listening \<noteq> ''''"
    and st: "onRemoteSensor st = Some CreateRemoteRef" "0 \<le> numWeights st" "env_ok e'"
  defines "i \<equiv> env_or E ''SENSOR_ID'' ''sensor-kitchen''"
  shows "\<exists>req x. network (world s') = network (world s) @ [(env_or E ''COORD_ADDR'' ''coordinator:50051'', req)] \<and>
    ActorId req = env_or E ''COORD_ID'' ''coordinator'' \<and> Lookup i s' = Inr (length (heap s)) \<and> actor (ent s' (length (heap s))) = ASensor x \<and>
    (let h1 = coord_Receive q e c (request_message coordinator_registry req) st;
         h2 = coord_Receive q' e' c' (mkMessage MsgStartRound (Dyn StartRoundPayload) '''') (hstate h1)
     in hpanic h1 = None \<and> mget (sensors (hstate h1)) i = Some \<lparr>infoRoomID = env_or E ''ROOM_ID'' ''kitchen'', infoNumSamples = envInt E ''SAMPLES'' 800\<rparr> \<and>
       hpanic h2 = None \<and>
       (\<exists>train. (RemoteRef i (advertised E listening), train) \<in> set (sent (heffs h2)) \<and>
         (list_all finite_f64 (elems (globalWeights (hstate h1))) \<and> finite_f64 (learningRate st) \<and> in_int64 (numEpochs st) \<longrightarrow>
           (let y = hstate (sensor_Receive cs (request_message sensor_registry (marshalTell i train) :: home_message) x)
            in state y = ''training'' \<and> roundID y = wrap64 (roundNo st + 1) \<and> weights y = globalWeights (hstate h1)))))"
proof -
  let ?room = "env_or E ''ROOM_ID'' ''kitchen''" and ?n = "envInt E ''SAMPLES'' 800" and ?addr = "advertised E listening"
  let ?p = "RegisterSensorPayload i ?room ?n ?addr :: sensor_factory payload"
  let ?msg = "mkMessage MsgRegisterSensor (Dyn ?p) '''' :: home_message"
  let ?req = "marshalTell (env_or E ''COORD_ID'' ''coordinator'') ?msg"
  note start = sensor_service_start [OF assms(1), folded i_def]
  obtain x where x: "actor (ent s' (length (heap s))) = ASensor x" "sensorID x = i" "state x = ''idle''" using start(1) by blast
  have safe: "json_safe ?p" using start(4) by (simp add: json_safe_def)
  have msg: "request_message init_registry ?req = (Message MsgRegisterSensor (Dyn ?p) '''' (wrap64 zero_time) :: home_message)"
    using request_message_marshalTell [OF safe, of ?msg] by (simp add: mkMessage_def)
  let ?m1 = "request_message init_registry ?req :: home_message"
  have cp: "castPayload PRegisterSensor (Payload ?m1) = Some ?p" unfolding msg by (simp add: castPayload_def)
  let ?h1 = "coord_Receive q e c ?m1 st"
  have h1: "?h1 = handleRegisterSensor ?m1 st" by (simp add: coord_Receive_def msg)
  note reg = handleRegisterSensor_remote [OF cp assms(2) st(1,2), folded h1]
  let ?h2 = "coord_Receive q' e' c' (mkMessage MsgStartRound (Dyn StartRoundPayload) '''') (hstate ?h1)"
  have h2: "?h2 = handleStartRound e' c' (hstate ?h1)" by (simp add: coord_Receive_def mkMessage_def)
  note go = handleStartRound_reaches [OF st(3) reg(2) reg(3) [of c'], folded h2, unfolded reg(4-6)]
  let ?t = "StartTrainingPayload (wrap64 (roundNo st + 1)) (globalWeights (hstate ?h1)) (learningRate st) (numEpochs st) :: sensor_factory payload"
  let ?train = "mkMessage MsgStartTraining (Dyn ?t) (Self c') :: home_message"
  note y = sensor_takes_remote_request [of "globalWeights (hstate ?h1)" "learningRate st" "numEpochs st" cs i "roundNo st + 1" "Self c'" x, unfolded Let_def]
  have a: "ActorId ?req = env_or E ''COORD_ID'' ''coordinator''" by (simp add: marshalTell_def)
  show ?thesis
    unfolding Let_def service_registries
    by (intro exI [of _ ?req] exI [of _ x] conjI start(2,3) a x(1) reg(1,2) go(1) exI [of _ ?train] go(2) y)
qed

theorem remote_sensor_joins_witness:
  "let E = (\<lambda>_. None)(''SAMPLES'' \<mapsto> ''0''); s = NewActorSystem \<lparr>disk = [], io = [], tasks = [], network = [], rng = (\<lambda>_. 0)\<rparr> :: home;
     st = OnRemoteSensor CreateRemoteRef (NewCoordinatorActor ''coordinator'' ''logger'' ''device-ctrl'' 75 :: sensor_factory CoordinatorActor);
     e = \<lparr>now = 0, iter = (\<lambda>ks. ks)\<rparr>; c = \<lparr>Self = ''coordinator'', CtxSender = None, look = (\<lambda>_. None)\<rparr>
   in \<exists>s' req train. sensor_service (\<lambda>_. 0) (\<lambda>_ _. undefined) E ''localhost:5051'' s = Some s' \<and>
     network (world s') = [(''coordinator:50051'', req)] \<and>
     (RemoteRef ''sensor-kitchen'' ''localhost:5051'', train) \<in> set (sent (heffs (coord_Receive (\<lambda>_. 0) e c (mkMessage MsgStartRound (Dyn StartRoundPayload) '''')
       (hstate (coord_Receive (\<lambda>_. 0) e c (request_message coordinator_registry req) st)))))"
proof -
  let ?E = "(\<lambda>_. None)(''SAMPLES'' \<mapsto> ''0'')" and ?s = "NewActorSystem \<lparr>disk = [], io = [], tasks = [], network = [], rng = (\<lambda>_. 0)\<rparr> :: home"
  let ?st = "OnRemoteSensor CreateRemoteRef (NewCoordinatorActor ''coordinator'' ''logger'' ''device-ctrl'' 75 :: sensor_factory CoordinatorActor)"
  let ?e = "\<lparr>now = 0, iter = (\<lambda>ks. ks)\<rparr>" and ?c = "\<lparr>Self = ''coordinator'', CtxSender = None, look = (\<lambda>_. None)\<rparr>"
  have E: "env_or ?E ''SENSOR_ID'' ''sensor-kitchen'' = ''sensor-kitchen''" "env_or ?E ''ROOM_ID'' ''kitchen'' = ''kitchen''"
    "env_or ?E ''COORD_ID'' ''coordinator'' = ''coordinator''" "env_or ?E ''COORD_ADDR'' ''coordinator:50051'' = ''coordinator:50051''"
    "advertised ?E ''localhost:5051'' = ''localhost:5051''" "envInt ?E ''SAMPLES'' 800 = 0"
    by (simp_all add: env_or_def advertised_def envInt_def Atoi_def in_int64_def Let_def)
  have "\<exists>s'. sensor_service (\<lambda>_. 0) (\<lambda>_ _. undefined) ?E ''localhost:5051'' ?s = Some s'"
    by (simp add: sensor_service_def E Let_def GenerateSensors_def GenerateSamples_def MustSpawn_def Spawn_def NewActorSystem_def DefaultSpawnOptions_def RegisterSensor_def)
  then obtain s' where s': "sensor_service (\<lambda>_. 0) (\<lambda>_ _. undefined) ?E ''localhost:5051'' ?s = Some s'" by blast
  have st: "onRemoteSensor ?st = Some CreateRemoteRef" "0 \<le> numWeights ?st" "env_ok ?e" "advertised ?E ''localhost:5051'' \<noteq> ''''" "network (world ?s) = []"
    by (simp_all add: OnRemoteSensor_def NewCoordinatorActor_def env_ok_def E NewActorSystem_def)
  obtain req train where "network (world s') = network (world ?s) @ [(env_or ?E ''COORD_ADDR'' ''coordinator:50051'', req)]"
    "(RemoteRef (env_or ?E ''SENSOR_ID'' ''sensor-kitchen'') (advertised ?E ''localhost:5051''), train) \<in> set (sent (heffs (coord_Receive (\<lambda>_. 0) ?e ?c (mkMessage MsgStartRound (Dyn StartRoundPayload) '''')
       (hstate (coord_Receive (\<lambda>_. 0) ?e ?c (request_message coordinator_registry req) ?st)))))"
    using remote_sensor_joins [OF s' st(4) st(1-3), where q = "\<lambda>_. 0" and q' = "\<lambda>_. 0" and c = ?c and c' = ?c and e = ?e and cs = ?c] unfolding Let_def by (elim exE conjE) (rule that)
  then show ?thesis using s' st(5) unfolding Let_def E by (intro exI [of _ s'] exI [of _ req] exI [of _ train]) simp
qed

end
