(* ===== verification/Report.thy ===== *)
theory Report
  imports Metrics Fmt
begin

text \<open>
  The convergence table and the summary on the standard output (\<^verbatim>\<open>smart-home/evaluation/metrics.go\<close>), as the bytes that are printed; a line is what
  one \<^verbatim>\<open>Println\<close> or \<^verbatim>\<open>Printf\<close> writes.

  The table is read back without loss (\<open>read_table\<close>): the metrics are rounded to six decimals when they are computed, and printed with six.
\<close>

section \<open>The output\<close>

definition Println :: "string \<Rightarrow> string" where
  "Println l = l @ [newline]"

text \<open>The characters outside ASCII, in UTF-8: the line-drawing characters and the superscript two.\<close>

definition "hbar = [CHR 0xE2, CHR 0x95, CHR 0x90]"
definition "vbar = [CHR 0xE2, CHR 0x95, CHR 0x91]"
definition "topLeft = [CHR 0xE2, CHR 0x95, CHR 0x94]"
definition "topRight = [CHR 0xE2, CHR 0x95, CHR 0x97]"
definition "botLeft = [CHR 0xE2, CHR 0x95, CHR 0x9A]"
definition "botRight = [CHR 0xE2, CHR 0x95, CHR 0x9D]"

lemmas utf8 = hbar_def vbar_def topLeft_def topRight_def botLeft_def botRight_def R2text_def

definition bars :: "nat \<Rightarrow> string" where
  "bars n = concat (replicate n hbar)"

definition columns :: "string list \<Rightarrow> string" where
  "columns cs = hd cs @ concat (map (\<lambda>t. '' | '' @ t) (tl cs))"

definition header :: string where
  "header = columns [padR 6 ''Round'', padR 10 ''MSE'', padR 10 ''RMSE'', padR 10 ''MAE'', padR 10 R2text]"

definition table_row :: "RoundResult \<Rightarrow> string" where
  "table_row r = columns [padR 6 (Itoa (Round_of r)), padR 10 (fmtF 6 (MSE (Metrics_of r))), padR 10 (fmtF 6 (RMSE (Metrics_of r))),
     padR 10 (fmtF 6 (MAE (Metrics_of r))), padR 10 (fmtF 6 (R2 (Metrics_of r)))]"

definition title :: string where
  "title = vbar @ ''         Convergence Table (per round)           '' @ vbar"

definition PrintConvergenceTable :: "RoundResult list \<Rightarrow> string" where
  "PrintConvergenceTable results =
    (if length results = 0 then Println ''(no data)''
     else let sep = replicate (length header) (CHR ''-'')
       in Println (newline # topLeft @ bars 50 @ topRight) @ Println title @ Println (botLeft @ bars 50 @ botRight) @
          Println header @ Println sep @ concat (map (\<lambda>r. Println (table_row r)) results) @ Println [])"

definition PrintSummary :: "int \<Rightarrow> Metrics \<Rightarrow> string" where
  "PrintSummary rounds m =
    Println (bars 42) @ Println (''Training complete after '' @ Itoa rounds @ '' rounds'') @ Println (bars 42) @
    Println (''  MSE:  '' @ fmtF 6 (MSE m)) @ Println (''  RMSE: '' @ fmtF 6 (RMSE m)) @ Println (''  MAE:  '' @ fmtF 6 (MAE m)) @
    Println (''  '' @ R2text @ '':   '' @ fmtF 6 (R2 m)) @ Println []"

text \<open>What both programs print about their results at the end.\<close>

definition final_report :: "RoundResult list \<Rightarrow> string" where
  "final_report results = PrintConvergenceTable results @
    (if length results > 0 then PrintSummary (int (length results)) (Metrics_of (results ! (length results - 1))) else [])"

section \<open>Reading the output\<close>

definition read_row :: "string \<Rightarrow> RoundResult option" where
  "read_row l = (case map Trim (Split (CHR ''|'') l) of
     [n, a, b, c, d] \<Rightarrow> (case (Atoi n, read_float a, read_float b, read_float c, read_float d) of
        (Some n, Some a, Some b, Some c, Some d) \<Rightarrow> Some \<lparr>Round_of = n, Metrics_of = \<lparr>MSE = a, RMSE = b, MAE = c, R2 = d\<rparr>\<rparr>
      | _ \<Rightarrow> None)
   | _ \<Rightarrow> None)"

text \<open>Four lines of title, the header and the rule come first, an empty line and what follows it last.\<close>

definition read_table :: "string \<Rightarrow> RoundResult list option" where
  "read_table out = those (map read_row (butlast (butlast (drop 6 (Split newline out)))))"

definition read_summary :: "string \<Rightarrow> (int \<times> Metrics) option" where
  "read_summary out = (case Split newline out of
     [_, t, _, a, b, c, d, _, _] \<Rightarrow>
       (case (Atoi (take (length t - 31) (drop 24 t)), read_float (drop 8 a), read_float (drop 8 b), read_float (drop 8 c), read_float (drop 9 d)) of
          (Some n, Some a, Some b, Some c, Some d) \<Rightarrow> Some (n, \<lparr>MSE = a, RMSE = b, MAE = c, R2 = d\<rparr>)
        | _ \<Rightarrow> None)
   | _ \<Rightarrow> None)"

section \<open>Lemmas\<close>

text \<open>Every metric is a quotient by a million of a rounded value, so a decimal number with six decimals, rounded.\<close>

lemma micro_Round: "micro (Round x / FNum 1000000)"
proof (cases "Round x")
  case (FNum q)
  then have "\<exists>n. q = of_int n" by (cases x) (auto simp: Let_def simp flip: of_int_minus split: if_splits)
  then obtain n where "q = of_int n" ..
  then show ?thesis using FNum by (auto simp: micro_def divide_f64_def)
next
  case (FZero b)
  have "FZero b = rnd b (of_int 0 / 10 ^ 6)" by (simp add: rnd_def)
  then have "micro (FZero b)" unfolding micro_def by blast
  then show ?thesis using FZero by (simp add: divide_f64_def)
qed (auto simp: micro_def divide_f64_def finite_f64_def)

lemma micro_zero: "micro 0"
  using micro_Round [of 0] by (simp add: zero_f64_def divide_f64_def)

lemma Calculate_micro: "micro (MSE (Calculate a p)) \<and> micro (RMSE (Calculate a p)) \<and> micro (MAE (Calculate a p)) \<and> micro (R2 (Calculate a p))"
  by (simp add: Calculate_def Let_def micro_Round micro_zero lit_million split: prod.split)

text \<open>One row: five columns without a bar or a line break.\<close>

lemma padR_no: "plain s \<Longrightarrow> x \<in> {CHR ''|'', CHR 0x0A} \<Longrightarrow> x \<notin> set (padR w s)"
  by (auto simp: plain_padR dest: plain_not_in)

lemma Trim_padR: "plain s \<Longrightarrow> Trim (replicate i (CHR '' '') @ padR w s @ replicate j (CHR '' '')) = s"
  using Trim_pad [of s i "w - length s + j"] plain_not_in [of s "CHR '' ''"] by (simp add: plain_padR replicate_add)

lemma columns_five: "columns [a, b, c, d, e] = (a @ '' '') @ CHR ''|'' # ('' '' @ b @ '' '') @ CHR ''|'' # ('' '' @ c @ '' '') @ CHR ''|'' # ('' '' @ d @ '' '') @ CHR ''|'' # '' '' @ e"
  by (simp add: columns_def)

lemma Split_columns:
  assumes "plain a" "plain b" "plain c" "plain d" "plain e"
  shows "map Trim (Split (CHR ''|'') (columns [padR 6 a, padR 10 b, padR 10 c, padR 10 d, padR 10 e])) = [a, b, c, d, e]"
proof -
  have "CHR ''|'' \<notin> set ('' '' @ padR w t @ '' '')" "CHR ''|'' \<notin> set (padR w t @ '' '')" "CHR ''|'' \<notin> set ('' '' @ padR w t)" if "plain t" for w t
    using padR_no [OF that, of "CHR ''|''" w] by simp_all
  note s = Split_Cons_sep [OF this(1)] Split_Cons_sep [OF this(2)] Split_no_sep [OF this(3)]
  have t: "Trim (padR 6 a @ '' '') = a" "Trim ('' '' @ padR 10 e) = e" "\<And>t. plain t \<Longrightarrow> Trim ('' '' @ padR 10 t @ '' '') = t"
    using Trim_padR [OF assms(1), of 0 6 1] Trim_padR [OF assms(5), of 1 10 0] Trim_padR [of _ 1 10 1] by simp_all
  show ?thesis unfolding columns_five s(2) [OF assms(1)] s(1) [OF assms(2)] s(1) [OF assms(3)] s(1) [OF assms(4)] s(3) [OF assms(5)] list.map t
    by (simp only: t(3) assms)
qed

text \<open>The metrics that the table shows exactly.\<close>

definition printable :: "RoundResult \<Rightarrow> bool" where
  "printable r \<longleftrightarrow> in_int64 (Round_of r) \<and> moderate (MSE (Metrics_of r)) \<and> moderate (RMSE (Metrics_of r)) \<and> moderate (MAE (Metrics_of r)) \<and> moderate (R2 (Metrics_of r))"

lemma read_table_row:
  assumes "printable r" "Metrics_of r = Calculate a p"
  shows "read_row (table_row r) = Some r"
proof -
  have "read_float (fmtF 6 (MSE (Metrics_of r))) = Some (MSE (Metrics_of r))" "read_float (fmtF 6 (RMSE (Metrics_of r))) = Some (RMSE (Metrics_of r))"
    "read_float (fmtF 6 (MAE (Metrics_of r))) = Some (MAE (Metrics_of r))" "read_float (fmtF 6 (R2 (Metrics_of r))) = Some (R2 (Metrics_of r))"
    using assms Calculate_micro [of a p] by (auto simp: printable_def intro!: read_float_micro)
  moreover have "Atoi (Itoa (Round_of r)) = Some (Round_of r)" using assms(1) by (intro Atoi_Itoa) (simp add: printable_def)
  ultimately show ?thesis
    by (simp only: read_row_def table_row_def Split_columns plain_Itoa plain_fmtF list.case prod.case option.case) simp
qed

lemma not_in_bars: "newline \<notin> set (bars n)"
  by (simp add: bars_def newline_def utf8)

lemma newline_not_in: "newline \<notin> set (table_row r)" "newline \<notin> set header" "newline \<notin> set title"
proof -
  have p: "CHR 0x0A \<notin> set (padR w t)" if "plain t" for w t using padR_no [OF that] by simp
  show "newline \<notin> set (table_row r)" by (simp add: table_row_def columns_def newline_def p plain_Itoa plain_fmtF)
  show "newline \<notin> set header" "newline \<notin> set title" by (simp_all add: header_def title_def columns_def newline_def padR_def utf8)
qed

lemma Split_Println: "newline \<notin> set l \<Longrightarrow> Split newline (Println l @ s) = l # Split newline s"
  by (simp add: Println_def Split_Cons_sep)

lemma Split_rows: "\<forall>r\<in>set rs. newline \<notin> set (f r) \<Longrightarrow> Split newline (concat (map (\<lambda>r. Println (f r)) rs) @ s) = map f rs @ Split newline s"
  by (induction rs) (simp_all add: Split_Println)

lemma those_map_Some: "\<forall>x\<in>set xs. f (g x) = Some x \<Longrightarrow> those (map f (map g xs)) = Some xs"
  by (induction xs) auto

lemma table_lines:
  assumes "results \<noteq> []"
  shows "\<exists>top title rule. Split newline (PrintConvergenceTable results) = [[], top, title, rule] @ [header, replicate (length header) (CHR ''-'')] @ map table_row results @ [[], []]"
proof -
  have "Split newline (Println (newline # topLeft @ bars 50 @ topRight) @ s) = [] # (topLeft @ bars 50 @ topRight) # Split newline s" for s
    using Split_Println [of "topLeft @ bars 50 @ topRight" s] not_in_bars by (simp add: Println_def newline_def utf8)
  moreover have "Split newline (Println (botLeft @ bars 50 @ botRight) @ s) = (botLeft @ bars 50 @ botRight) # Split newline s" for s
    using Split_Println [of "botLeft @ bars 50 @ botRight" s] not_in_bars by (simp add: newline_def utf8)
  moreover have "newline \<noteq> CHR ''-''" by (simp add: newline_def)
  moreover have "Split newline (Println []) = [[], []]" by (simp add: Println_def)
  ultimately show ?thesis using assms
    by (simp add: PrintConvergenceTable_def Split_Println Split_rows newline_not_in Let_def)
qed

section \<open>Properties\<close>

text \<open>
  C40: the convergence table shows the results without loss: whatever the rounds and their metrics, as long as these are below \<open>2 ^ 32\<close> or not finite,
  the printed text determines them. Splitting the output into lines and columns and reading the numbers with \<^verbatim>\<open>strconv.Atoi\<close> and
  \<^verbatim>\<open>strconv.ParseFloat\<close> gives back every round, in order, with the same four \<^verbatim>\<open>float64\<close> values.
\<close>

theorem convergence_table_roundtrip:
  assumes "\<forall>r\<in>set results. printable r \<and> (\<exists>actual predicted. Metrics_of r = Calculate actual predicted)"
  shows "read_table (PrintConvergenceTable results) = Some results"
proof (cases "results = []")
  case True
  then show ?thesis by (simp add: PrintConvergenceTable_def read_table_def Println_def newline_def)
next
  case False
  have "\<forall>r\<in>set results. read_row (table_row r) = Some r" using assms read_table_row by blast
  then have "those (map read_row (map table_row results)) = Some results" by (rule those_map_Some)
  moreover obtain top t rule where "Split newline (PrintConvergenceTable results) =
      [[], top, t, rule] @ [header, replicate (length header) (CHR ''-'')] @ map table_row results @ [[], []]"
    using table_lines [OF False] by blast
  ultimately show ?thesis by (simp add: read_table_def butlast_append del: map_map)
qed

theorem convergence_table_roundtrip_witness:
  "let rs = [\<lparr>Round_of = 1, Metrics_of = Calculate [FNum 1, FNum 2] [FNum 1]\<rparr>, \<lparr>Round_of = 2, Metrics_of = Calculate [FNum 1] [FNum 1]\<rparr>]
   in read_table (PrintConvergenceTable rs) = Some rs \<and> table_row (rs ! 1) = ''2      | 0.000000   | 0.000000   | 0.000000   | 1.000000  ''"
proof -
  have c: "Calculate [FNum 1, FNum 2] [FNum 1] = \<lparr>MSE = 0, RMSE = 0, MAE = 0, R2 = 0\<rparr>" by (simp add: Calculate_def)
  have d: "Calculate [FNum 1] [FNum 1] = \<lparr>MSE = 0, RMSE = 0, MAE = 0, R2 = 1\<rparr>"
    using Calculate_perfect [of "[FNum 1]" "[]"] by (simp add: finite_f64_def)
  have "table_row \<lparr>Round_of = 2, Metrics_of = \<lparr>MSE = 0, RMSE = 0, MAE = 0, R2 = 1\<rparr>\<rparr> = ''2      | 0.000000   | 0.000000   | 0.000000   | 1.000000  ''"
    by code_simp
  moreover have "printable \<lparr>Round_of = 1, Metrics_of = Calculate [FNum 1, FNum 2] [FNum 1]\<rparr>" "printable \<lparr>Round_of = 2, Metrics_of = Calculate [FNum 1] [FNum 1]\<rparr>"
    by (simp_all add: printable_def moderate_def c d in_int64_def zero_f64_def one_f64_def)
  then have "read_table (PrintConvergenceTable rs) = Some rs"
    if "rs = [\<lparr>Round_of = 1, Metrics_of = Calculate [FNum 1, FNum 2] [FNum 1]\<rparr>, \<lparr>Round_of = 2, Metrics_of = Calculate [FNum 1] [FNum 1]\<rparr>]" for rs
    unfolding that by (intro convergence_table_roundtrip) auto
  ultimately show ?thesis by (simp add: d)
qed

text \<open>The summary, in the same way.\<close>

theorem summary_roundtrip:
  assumes "in_int64 rounds" "m = Calculate actual predicted" "moderate (MSE m)" "moderate (RMSE m)" "moderate (MAE m)" "moderate (R2 m)"
  shows "read_summary (PrintSummary rounds m) = Some (rounds, m)"
proof -
  have n: "newline \<notin> set (Itoa rounds)" "newline \<notin> set (fmtF 6 x)" for x
    using plain_not_in [OF plain_Itoa] plain_not_in [OF plain_fmtF] by (simp_all add: newline_def)
  have c: "newline \<notin> set ''Training complete after ''" "newline \<notin> set '' rounds''" "newline \<notin> set ''  MSE:  ''" "newline \<notin> set ''  RMSE: ''"
    "newline \<notin> set ''  MAE:  ''" "newline \<notin> set (''  '' @ R2text @ '':   '')" by (simp_all add: newline_def utf8)
  have "Split newline (PrintSummary rounds m) = [bars 42, ''Training complete after '' @ Itoa rounds @ '' rounds'', bars 42,
      ''  MSE:  '' @ fmtF 6 (MSE m), ''  RMSE: '' @ fmtF 6 (RMSE m), ''  MAE:  '' @ fmtF 6 (MAE m), (''  '' @ R2text @ '':   '') @ fmtF 6 (R2 m), [], []]"
    unfolding PrintSummary_def using n c by (simp add: Split_Println not_in_bars) (simp add: Println_def)
  moreover have "Atoi (Itoa rounds) = Some rounds" using assms(1) by (rule Atoi_Itoa)
  moreover have "read_float (fmtF 6 (MSE m)) = Some (MSE m)" "read_float (fmtF 6 (RMSE m)) = Some (RMSE m)"
    "read_float (fmtF 6 (MAE m)) = Some (MAE m)" "read_float (fmtF 6 (R2 m)) = Some (R2 m)"
    using assms(3-6) Calculate_micro [of actual predicted] unfolding assms(2) by (blast intro: read_float_micro)+
  ultimately show ?thesis by (simp add: read_summary_def utf8)
qed

text \<open>
  The rule below the header is one character longer than the header, because \<^verbatim>\<open>len\<close> counts the two bytes of the superscript; the title line is one
  character shorter than the box around it.
\<close>

theorem table_alignment:
  "length header = RuneCount header + 1 \<and> RuneCount title + 1 = RuneCount (topLeft @ bars 50 @ topRight)"
  by code_simp

end
