(* ===== verification/Svg.thy ===== *)
theory Svg
  imports Metrics
begin

text \<open>
  The convergence chart (\<^verbatim>\<open>smart-home/evaluation/svg.go\<close>): the numbers that are written into the picture, in \<^verbatim>\<open>float64\<close> arithmetic. The text
  around them and the decimal formatting are not modelled.
\<close>

section \<open>Geometry\<close>

definition width :: int where "width = 800"
definition height :: int where "height = 400"
definition marginL :: int where "marginL = 60"
definition marginR :: int where "marginR = 30"
definition marginT :: int where "marginT = 30"
definition marginB :: int where "marginB = 50"
definition plotW :: int where "plotW = width - marginL - marginR"
definition plotH :: int where "plotH = height - marginT - marginB"

lemmas geometry = width_def height_def marginL_def marginR_def marginT_def marginB_def plotW_def plotH_def

text \<open>One turn of the loop that finds the extreme values.\<close>

fun widen :: "RoundResult \<Rightarrow> f64 \<times> f64 \<times> f64 \<times> f64 \<Rightarrow> f64 \<times> f64 \<times> f64 \<times> f64" where
  "widen r (maxMSE, minMSE, maxR2, minR2) =
    (if MSE (Metrics_of r) > maxMSE then MSE (Metrics_of r) else maxMSE,
     if MSE (Metrics_of r) < minMSE then MSE (Metrics_of r) else minMSE,
     if R2 (Metrics_of r) > maxR2 then R2 (Metrics_of r) else maxR2,
     if R2 (Metrics_of r) < minR2 then R2 (Metrics_of r) else minR2)"

text \<open>\<^verbatim>\<open>==\<close> on \<^verbatim>\<open>float64\<close> holds for the two zeros and never for a NaN.\<close>

definition feq :: "f64 \<Rightarrow> f64 \<Rightarrow> bool" where
  "feq x y \<longleftrightarrow> x \<le> y \<and> y \<le> x"

definition extremes :: "RoundResult list \<Rightarrow> f64 \<times> f64 \<times> f64 \<times> f64" where
  "extremes rs =
    (let (maxMSE, minMSE, maxR2, minR2) = fold widen rs (FInf True, FInf False, FInf True, FInf False)
     in (if feq maxMSE minMSE then minMSE + lit (1 / 10) else maxMSE, minMSE, maxR2, minR2))"

definition chart_x :: "nat \<Rightarrow> nat \<Rightarrow> f64" where
  "chart_x n i = of_goint marginL + of_goint (int i) * of_goint plotW / of_goint (int n - 1)"

text \<open>Both closures \<^verbatim>\<open>yMSE\<close> and \<^verbatim>\<open>yR2\<close>, with the extreme values they capture.\<close>

definition chart_y :: "f64 \<Rightarrow> f64 \<Rightarrow> f64 \<Rightarrow> f64" where
  "chart_y lo hi v = of_goint (marginT + plotH) - (v - lo) / (hi - lo) * of_goint plotH"

definition grid_y :: "nat \<Rightarrow> f64" where
  "grid_y i = of_goint marginT + of_goint plotH * (of_goint (int i) / lit 4)"

text \<open>The loop \<^verbatim>\<open>for i := 0; i < n; i += step\<close>; the step is at least 1.\<close>

function label_indices :: "nat \<Rightarrow> nat \<Rightarrow> nat \<Rightarrow> nat list" where
  "label_indices n step i = (if i < n \<and> 0 < step then i # label_indices n step (i + step) else [])"
  by pat_completeness auto
termination
  by (relation "measure (\<lambda>(n, step, i). n - i)") auto

declare label_indices.simps [simp del]

definition label_step :: "nat \<Rightarrow> nat" where
  "label_step n = (let step = n div 10 in if step < 1 then 1 else step)"

text \<open>The integers of the frame, in the order of the arguments of the last \<^verbatim>\<open>Sprintf\<close>: the page with the titles, the axes, the legend.\<close>

definition pageArgs :: "int list" where
  "pageArgs = [width, height, width, height, width div 2,
    marginT div 2 + plotH div 2, marginT div 2 + plotH div 2,
    width - marginR + 10, marginT div 2 + plotH div 2, width - marginR + 10, marginT div 2 + plotH div 2]"

definition axisArgs :: "int list" where
  "axisArgs = [marginL, marginT + plotH, width - marginR, marginT + plotH,
    marginL, marginT, marginL, marginT + plotH]"

definition legendArgs :: "int list" where
  "legendArgs = [width - 140, marginT + 10, width - 125, marginT + 20,
    width - 140, marginT + 40, width - 125, marginT + 50,
    width - 140, marginT + 50]"

record chart =
  msePoints :: "(f64 \<times> f64) list"
  r2Points :: "(f64 \<times> f64) list"
  gridLines :: "f64 list"
  xAxisLabels :: "(f64 \<times> int) list"
  frame :: "int list \<times> int list \<times> int list"

text \<open>Without results no file is written (\<^const>\<open>None\<close>).\<close>

definition GenerateSVG :: "RoundResult list \<Rightarrow> chart option" where
  "GenerateSVG rs = (if length rs = 0 then None
     else let (maxMSE, minMSE, maxR2, minR2) = extremes rs; n = length rs
       in Some \<lparr>msePoints = map (\<lambda>i. (chart_x n i, chart_y minMSE maxMSE (MSE (Metrics_of (rs ! i))))) [0..<n],
            r2Points = map (\<lambda>i. (chart_x n i, chart_y minR2 maxR2 (R2 (Metrics_of (rs ! i))))) [0..<n],
            gridLines = map grid_y [0..<5],
            xAxisLabels = map (\<lambda>i. (chart_x n i, Round_of (rs ! i))) (label_indices n (label_step n) 0), frame = (pageArgs, axisArgs, legendArgs)\<rparr>)"

section \<open>Lemmas\<close>

text \<open>A value between two integers.\<close>

definition inside :: "int \<Rightarrow> int \<Rightarrow> f64 \<Rightarrow> bool" where
  "inside lo hi x \<longleftrightarrow> of_goint lo \<le> x \<and> x \<le> of_goint hi"

lemma of_goint_simps [simp]: "of_goint 0 = FZero False" "of_goint 1 = FNum 1"
  "numeral k < (2 ^ 53 :: int) \<Longrightarrow> of_goint (numeral k) = FNum (numeral k)"
  using of_goint_exact [of "numeral k"] of_goint_exact [of 1] by (simp_all add: of_goint_def lit_def)

text \<open>A fraction of a positive integer, added to or taken from an integer.\<close>

lemma fraction_times:
  assumes "fle (FZero False) x" "fle x (FNum 1)" "0 < m" "m < 2 ^ 53"
  shows "fle (FZero False) (x * FNum (of_int m)) \<and> fle (x * FNum (of_int m)) (FNum (of_int m))"
proof (cases x)
  case (FNum q)
  then have "0 \<le> q * of_int m" "q * of_int m \<le> of_int m" using assms(1-3) by (simp_all add: mult_le_cancel_right2)
  then show ?thesis using FNum rnd_between [of "q * of_int m" m] assms(3,4) by (simp add: times_f64_def)
qed (use assms in \<open>auto simp: times_f64_def\<close>)

lemma minus_fraction:
  assumes "fle (FZero False) y" "fle y (FNum (of_int m))" "0 < l" "0 < m" "l + m < 2 ^ 53"
  shows "fle (FNum (of_int l)) (FNum (of_int (l + m)) - y) \<and> fle (FNum (of_int (l + m)) - y) (FNum (of_int (l + m)))"
proof -
  have r: "fle (FNum (of_int l)) (rnd s q) \<and> fle (rnd s q) (FNum (of_int (l + m)))" if "of_int l \<le> q" "q \<le> of_int (l + m)" for s q
    using rnd_mono [OF that(1), of s s] rnd_mono [OF that(2), of s s] rnd_exact [of l 0 s] rnd_exact [of "l + m" 0 s] assms(3-5) by simp
  show ?thesis
  proof (cases y)
    case (FNum q)
    then show ?thesis using assms(1,2) r [of "of_int (l + m) - q"] by (simp add: minus_f64_def)
  next
    case (FZero b)
    then show ?thesis using assms(4) r [of "of_int (l + m)"] by (simp add: minus_f64_def)
  qed (use assms in auto)
qed

lemma plus_fraction:
  assumes "fle (FZero False) y" "fle y (FNum (of_int m))" "0 < l" "0 < m" "l + m < 2 ^ 53"
  shows "fle (FNum (of_int l)) (FNum (of_int l) + y) \<and> fle (FNum (of_int l) + y) (FNum (of_int (l + m)))"
proof -
  have r: "fle (FNum (of_int l)) (rnd s q) \<and> fle (rnd s q) (FNum (of_int (l + m)))" if "of_int l \<le> q" "q \<le> of_int (l + m)" for s q
    using rnd_mono [OF that(1), of s s] rnd_mono [OF that(2), of s s] rnd_exact [of l 0 s] rnd_exact [of "l + m" 0 s] assms(3-5) by simp
  show ?thesis
  proof (cases y)
    case (FNum q)
    then show ?thesis using assms(1,2) r [of "of_int l + q"] by (simp add: plus_f64_def)
  next
    case (FZero b)
    then show ?thesis using assms(4) r [of "of_int l"] by (simp add: plus_f64_def)
  qed (use assms in auto)
qed

subsection \<open>Scales\<close>

lemma finite_le: "finite_f64 x \<Longrightarrow> finite_f64 y \<Longrightarrow> x \<le> y \<longleftrightarrow> val x \<le> val y" "finite_f64 x \<Longrightarrow> finite_f64 y \<Longrightarrow> x < y \<longleftrightarrow> val x < val y"
  by (cases x; cases y; simp add: f64_ops finite_f64_def)+

lemma finite_minus: "finite_f64 x \<Longrightarrow> finite_f64 y \<Longrightarrow> \<exists>s. x - y = rnd s (val x - val y)"
  by (cases x; cases y) (auto simp: minus_f64_def finite_f64_def)

lemma chart_x_inside:
  assumes "2 \<le> n" "i < n" "n < 2 ^ 40"
  shows "inside 60 770 (chart_x n i)"
proof -
  let ?y = "of_goint (int i) * of_goint plotW / of_goint (int n - 1)"
  have n: "of_goint (int n - 1) = FNum (of_int (int n - 1))" using assms by (intro of_goint_exact) auto
  have "fle (FZero False) ?y \<and> fle ?y (FNum (of_int 710))"
  proof (cases "i = 0")
    case True
    then show ?thesis using n assms(1) by (simp add: geometry times_f64_def divide_f64_def)
  next
    case False
    then have i: "of_goint (int i) = FNum (of_int (int i))" using assms by (intro of_goint_exact) auto
    have "rnd s (of_int (int i * 710)) = FNum (of_int (int i * 710))" for s using rnd_exact [of "int i * 710" 0 s] False assms by simp
    then have "of_goint (int i) * of_goint plotW = FNum (of_int (int i * 710))" using i by (simp add: geometry times_f64_def)
    moreover have "0 \<le> of_int (int i * 710) / (of_int (int n - 1) :: rat)" using assms by simp
    moreover have "of_int (int i * 710) / (of_int (int n - 1) :: rat) \<le> of_int 710" using assms by (simp add: divide_le_eq)
    ultimately show ?thesis using n rnd_between [of "of_int (int i * 710) / of_int (int n - 1)" 710] by (simp add: divide_f64_def)
  qed
  then show ?thesis using plus_fraction [of ?y 710 60] by (simp add: inside_def chart_x_def geometry less_eq_f64_def)
qed

lemma chart_y_inside:
  assumes "finite_f64 v" "finite_f64 lo" "finite_f64 hi" "lo \<le> v" "v \<le> hi" "0 < hi - lo" "hi - lo < FInf False"
  shows "inside 30 350 (chart_y lo hi v)"
proof -
  obtain s1 s2 where d: "v - lo = rnd s1 (val v - val lo)" "hi - lo = rnd s2 (val hi - val lo)" using assms finite_minus by metis
  have "val lo \<le> val v" "val v \<le> val hi" using assms(1-5) by (simp_all add: finite_le)
  then have le: "fle (FZero False) (v - lo)" "fle (v - lo) (hi - lo)" unfolding d by (auto intro: rnd_sign rnd_mono)
  obtain q where q: "hi - lo = FNum q" "0 < q" using assms(6,7) by (cases "hi - lo") (auto simp: f64_ops)
  have "fle (FZero False) ((v - lo) / (hi - lo)) \<and> fle ((v - lo) / (hi - lo)) (FNum 1)"
  proof (cases "v - lo")
    case (FNum p)
    then have "0 \<le> p / q" "p / q \<le> of_int 1" using le q by (simp_all add: divide_le_eq)
    then show ?thesis using FNum q rnd_between [of "p / q" 1] by (simp add: divide_f64_def)
  qed (use le q in \<open>auto simp: divide_f64_def\<close>)
  then have "fle (FZero False) ((v - lo) / (hi - lo) * FNum (of_int 320)) \<and> fle ((v - lo) / (hi - lo) * FNum (of_int 320)) (FNum (of_int 320))"
    by (intro fraction_times) simp_all
  then show ?thesis using minus_fraction [of "(v - lo) / (hi - lo) * FNum 320" 320 30] by (simp add: inside_def chart_y_def geometry less_eq_f64_def)
qed

lemma times_commute: "x * y = y * (x :: f64)"
proof -
  have "((a :: bool) = (\<not> b)) = (b = (\<not> a))" for a b by auto
  then show ?thesis by (cases x; cases y) (auto simp: times_f64_def mult.commute)
qed

lemma grid_y_inside:
  assumes "i < 5"
  shows "inside 30 350 (grid_y i)"
proof -
  let ?x = "of_goint (int i) / lit 4"
  have "fle (FZero False) ?x \<and> fle ?x (FNum 1)"
  proof (cases "i = 0")
    case False
    then have "of_goint (int i) = FNum (of_int (int i))" using assms by (intro of_goint_exact) auto
    then show ?thesis using rnd_between [of "of_int (int i) / 4" 1] assms by (simp add: lits divide_f64_def)
  qed (simp add: lits divide_f64_def)
  then have "fle (FZero False) (?x * FNum (of_int 320)) \<and> fle (?x * FNum (of_int 320)) (FNum (of_int 320))" by (intro fraction_times) simp_all
  then show ?thesis
    using plus_fraction [of "?x * FNum 320" 320 30] by (simp add: inside_def grid_y_def geometry less_eq_f64_def times_commute [of "FNum 320"])
qed

subsection \<open>Extreme values\<close>

abbreviation fmax :: "f64 \<Rightarrow> f64 \<Rightarrow> f64" where "fmax v m \<equiv> if v > m then v else m"
abbreviation fmin :: "f64 \<Rightarrow> f64 \<Rightarrow> f64" where "fmin v m \<equiv> if v < m then v else m"

lemma fold_widen:
  "fold widen rs (a, b, c, d) = (fold fmax (map (\<lambda>r. MSE (Metrics_of r)) rs) a, fold fmin (map (\<lambda>r. MSE (Metrics_of r)) rs) b,
     fold fmax (map (\<lambda>r. R2 (Metrics_of r)) rs) c, fold fmin (map (\<lambda>r. R2 (Metrics_of r)) rs) d)"
  by (induction rs arbitrary: a b c d) simp_all

lemma fold_fmax_finite:
  "list_all finite_f64 vs \<Longrightarrow> finite_f64 a \<Longrightarrow> finite_f64 (fold fmax vs a) \<and> a \<le> fold fmax vs a \<and> (\<forall>v\<in>set vs. v \<le> fold fmax vs a)"
  by (induction vs arbitrary: a) (fastforce simp: finite_le)+

lemma fold_fmin_finite:
  "list_all finite_f64 vs \<Longrightarrow> finite_f64 a \<Longrightarrow> finite_f64 (fold fmin vs a) \<and> fold fmin vs a \<le> a \<and> (\<forall>v\<in>set vs. fold fmin vs a \<le> v)"
  by (induction vs arbitrary: a) (fastforce simp: finite_le)+

lemma fold_extremes:
  assumes "list_all finite_f64 vs" "vs \<noteq> []"
  shows "finite_f64 (fold fmax vs (FInf True))" "finite_f64 (fold fmin vs (FInf False))"
    "\<forall>v\<in>set vs. fold fmin vs (FInf False) \<le> v \<and> v \<le> fold fmax vs (FInf True)"
proof -
  obtain v ws where vs: "vs = v # ws" using assms(2) by (cases vs) auto
  then have v: "finite_f64 v" "list_all finite_f64 ws" using assms(1) by simp_all
  then have "v > FInf True" "v < FInf False" by (cases v; simp add: f64_ops finite_f64_def)+
  then have "fold fmax vs (FInf True) = fold fmax ws v" "fold fmin vs (FInf False) = fold fmin ws v" unfolding vs by simp_all
  then show "finite_f64 (fold fmax vs (FInf True))" "finite_f64 (fold fmin vs (FInf False))"
    "\<forall>v\<in>set vs. fold fmin vs (FInf False) \<le> v \<and> v \<le> fold fmax vs (FInf True)"
    using fold_fmax_finite [OF v(2,1)] fold_fmin_finite [OF v(2,1)] vs by auto
qed

lemma finite_upper: "finite_f64 lo \<Longrightarrow> 0 < hi - lo \<Longrightarrow> hi - lo < FInf False \<Longrightarrow> finite_f64 hi"
  by (cases lo; cases hi) (auto simp: f64_ops finite_f64_def)

lemma positive_difference:
  assumes "finite_f64 lo" "finite_f64 hi" "0 < hi - lo"
  shows "val lo < val hi"
proof (rule ccontr)
  assume "\<not> val lo < val hi"
  then have "val hi - val lo \<le> 0" by simp
  moreover obtain s where "hi - lo = rnd s (val hi - val lo)" using finite_minus [OF assms(2,1)] by blast
  ultimately have "fle (hi - lo) (rnd s 0)" using rnd_mono [of "val hi - val lo" 0 s s] by simp
  with assms(3) show False by (cases "hi - lo") (auto simp: f64_ops)
qed

lemma extremes_bound:
  assumes "list_all (\<lambda>r. finite_f64 (MSE (Metrics_of r)) \<and> finite_f64 (R2 (Metrics_of r))) rs" "rs \<noteq> []"
    and "extremes rs = (maxMSE, minMSE, maxR2, minR2)" "0 < maxMSE - minMSE" "maxMSE - minMSE < FInf False"
  shows "finite_f64 minMSE" "finite_f64 maxMSE" "finite_f64 minR2" "finite_f64 maxR2"
    "r \<in> set rs \<Longrightarrow> minMSE \<le> MSE (Metrics_of r) \<and> MSE (Metrics_of r) \<le> maxMSE \<and> minR2 \<le> R2 (Metrics_of r) \<and> R2 (Metrics_of r) \<le> maxR2"
proof -
  let ?m = "map (\<lambda>r. MSE (Metrics_of r)) rs" and ?r = "map (\<lambda>r. R2 (Metrics_of r)) rs"
  have "list_all finite_f64 ?m" "list_all finite_f64 ?r" "?m \<noteq> []" "?r \<noteq> []" using assms(1,2) by (simp_all add: list_all_iff)
  note m = fold_extremes [OF this(1,3)] and r = fold_extremes [OF this(2,4)]
  have eq: "minMSE = fold fmin ?m (FInf False)" "maxR2 = fold fmax ?r (FInf True)" "minR2 = fold fmin ?r (FInf False)"
    "maxMSE = (if feq (fold fmax ?m (FInf True)) minMSE then minMSE + lit (1 / 10) else fold fmax ?m (FInf True))"
    using assms(3) by (auto simp: extremes_def fold_widen)
  show fin: "finite_f64 minMSE" "finite_f64 minR2" "finite_f64 maxR2" using m r eq by simp_all
  then show fin': "finite_f64 maxMSE" using finite_upper assms(4,5) by blast
  have "fold fmax ?m (FInf True) \<le> maxMSE"
    using positive_difference [OF fin(1) fin' assms(4)] m(1) fin(1) fin' eq(4) by (auto simp: finite_le feq_def split: if_splits)
  moreover assume "r \<in> set rs"
  ultimately show "minMSE \<le> MSE (Metrics_of r) \<and> MSE (Metrics_of r) \<le> maxMSE \<and> minR2 \<le> R2 (Metrics_of r) \<and> R2 (Metrics_of r) \<le> maxR2"
    using m r eq(1-3) assms(1) fin fin' by (auto simp: finite_le list_all_iff)
qed

subsection \<open>Labels\<close>

lemma label_indices_bounds:
  assumes "0 < step"
  shows "\<forall>j\<in>set (label_indices n step i). j < n" "i \<le> n \<Longrightarrow> length (label_indices n step i) * step < n - i + step"
  using assms
proof (induction n step i rule: label_indices.induct)
  case (1 n step i)
  {
    case 1
    then show ?case using "1.IH"(1) by (subst label_indices.simps) auto
  next
    case 2
    show ?case
    proof (cases "i < n")
      case True
      then show ?thesis
        using "1.IH"(2) 2 label_indices.simps [of n step "i + step"] by (subst label_indices.simps) (cases "i + step \<le> n", auto)
    qed (use 2 in \<open>subst label_indices.simps, simp\<close>)
  }
qed

lemma label_step_bounds: "0 < label_step n" "n < 10 * label_step n + 10"
  by (simp_all add: label_step_def Let_def) linarith

lemma label_count: "length (label_indices n (label_step n) 0) < 20"
proof -
  have "length (label_indices n (label_step n) 0) * label_step n < n + label_step n"
    using label_indices_bounds(2) [of "label_step n" 0 n] label_step_bounds(1) by simp
  also have "\<dots> < 11 * label_step n + 10" using label_step_bounds(2) [of n] by simp
  finally have "length (label_indices n (label_step n) 0) * label_step n < 20 * label_step n \<or> label_step n = 1"
    using label_step_bounds(1) [of n] by linarith
  then show ?thesis
  proof
    assume s: "label_step n = 1"
    then have "n < 20" using label_step_bounds(2) [of n] by simp
    then show ?thesis using label_indices_bounds(2) [of "label_step n" 0 n] s by simp
  qed simp
qed

section \<open>The chart lies inside its axes\<close>

text \<open>
  The chart is drawn inside its axes. For at least two rounds with finite metrics that differ by an amount that \<^verbatim>\<open>float64\<close> can represent, every point of both curves,
  every grid line and every label lies inside the area between the axes that are drawn, with all the rounding of the scales; there is one point per round on each curve, and there are at
  most 19 labels, the first one for the first round. Without results no chart is drawn.
\<close>

theorem chart_inside:
  assumes "2 \<le> length rs" "length rs < 2 ^ 40" "list_all (\<lambda>r. finite_f64 (MSE (Metrics_of r)) \<and> finite_f64 (R2 (Metrics_of r))) rs"
    and "extremes rs = (maxMSE, minMSE, maxR2, minR2)"
    and "0 < maxMSE - minMSE" "maxMSE - minMSE < FInf False" "0 < maxR2 - minR2" "maxR2 - minR2 < FInf False"
  shows "GenerateSVG [] = None \<and> (\<exists>c. GenerateSVG rs = Some c \<and> length (msePoints c) = length rs \<and> length (r2Points c) = length rs \<and>
    list_all (\<lambda>(x, y). inside 60 770 x \<and> inside 30 350 y) (msePoints c @ r2Points c) \<and> list_all (inside 30 350) (gridLines c) \<and>
    list_all (\<lambda>(x, k). inside 60 770 x) (xAxisLabels c) \<and> length (xAxisLabels c) \<le> 19 \<and> snd (hd (xAxisLabels c)) = Round_of (rs ! 0) \<and>
    fst (snd (frame c)) = [60, 350, 770, 350, 60, 30, 60, 350])"
proof -
  let ?n = "length rs"
  have ne: "rs \<noteq> []" using assms(1) by auto
  note b = extremes_bound [OF assms(3) ne assms(4-6)]
  have f: "finite_f64 (MSE (Metrics_of (rs ! i)))" "finite_f64 (R2 (Metrics_of (rs ! i)))" if "i < ?n" for i
    using assms(3) that by (simp_all add: list_all_length)
  have y: "inside 30 350 (chart_y minMSE maxMSE (MSE (Metrics_of (rs ! i))))" "inside 30 350 (chart_y minR2 maxR2 (R2 (Metrics_of (rs ! i))))" if "i < ?n" for i
    using b(5) [of "rs ! i"] that f [OF that] b(1-4) assms(5-8) by (simp_all add: chart_y_inside)
  have j: "\<forall>j\<in>set (label_indices ?n (label_step ?n) 0). j < ?n" using label_indices_bounds(1) label_step_bounds(1) by blast
  have h: "label_indices ?n (label_step ?n) 0 = 0 # label_indices ?n (label_step ?n) (label_step ?n)"
    using ne label_step_bounds(1) [of ?n] by (subst label_indices.simps) simp
  let ?c = "\<lparr>msePoints = map (\<lambda>i. (chart_x ?n i, chart_y minMSE maxMSE (MSE (Metrics_of (rs ! i))))) [0..<?n],
            r2Points = map (\<lambda>i. (chart_x ?n i, chart_y minR2 maxR2 (R2 (Metrics_of (rs ! i))))) [0..<?n],
            gridLines = map grid_y [0..<5],
            xAxisLabels = map (\<lambda>i. (chart_x ?n i, Round_of (rs ! i))) (label_indices ?n (label_step ?n) 0), frame = (pageArgs, axisArgs, legendArgs)\<rparr>"
  have "GenerateSVG rs = Some ?c" using ne assms(4) by (simp add: GenerateSVG_def Let_def)
  moreover have "list_all (\<lambda>(x, y). inside 60 770 x \<and> inside 30 350 y) (msePoints ?c @ r2Points ?c)"
    using y chart_x_inside [OF assms(1) _ assms(2)] by (auto simp: list_all_iff)
  moreover have "list_all (inside 30 350) (gridLines ?c)" by (auto simp: list_all_iff intro: grid_y_inside)
  moreover have "list_all (\<lambda>(x, k). inside 60 770 x) (xAxisLabels ?c)"
    using j chart_x_inside [OF assms(1) _ assms(2)] by (auto simp: list_all_iff)
  moreover have "length (xAxisLabels ?c) \<le> 19" using label_count [of ?n] by simp
  moreover have "snd (hd (xAxisLabels ?c)) = Round_of (rs ! 0)" by (simp add: h)
  moreover have "fst (snd (frame ?c)) = [60, 350, 770, 350, 60, 30, 60, 350]" by (simp add: axisArgs_def geometry)
  moreover have "GenerateSVG [] = None" by (simp add: GenerateSVG_def)
  ultimately show ?thesis by (intro conjI exI [of _ ?c]) simp_all
qed

theorem chart_inside_witness:
  "\<exists>c. GenerateSVG [\<lparr>Round_of = 1, Metrics_of = \<lparr>MSE = FNum 2, RMSE = FNum 1, MAE = FNum 1, R2 = FNum (1 / 4)\<rparr>\<rparr>,
      \<lparr>Round_of = 2, Metrics_of = \<lparr>MSE = FNum 1, RMSE = FNum 1, MAE = FNum 1, R2 = FNum (1 / 2)\<rparr>\<rparr>] = Some c \<and>
    length (msePoints c) = 2 \<and> list_all (\<lambda>(x, y). inside 60 770 x \<and> inside 30 350 y) (msePoints c @ r2Points c)"
proof -
  let ?rs = "[\<lparr>Round_of = 1, Metrics_of = \<lparr>MSE = FNum 2, RMSE = FNum 1, MAE = FNum 1, R2 = FNum (1 / 4)\<rparr>\<rparr>,
      \<lparr>Round_of = 2, Metrics_of = \<lparr>MSE = FNum 1, RMSE = FNum 1, MAE = FNum 1, R2 = FNum (1 / 2)\<rparr>\<rparr>]"
  have d: "FNum 2 - FNum 1 = FNum 1" "FNum (1 / 2) - FNum (1 / 4) = FNum (1 / 4)"
    using rnd_exact [of 1 0] rnd_exact [of 1 "- 2"] by (simp_all add: minus_f64_def)
  moreover have "extremes ?rs = (FNum 2, FNum 1, FNum (1 / 2), FNum (1 / 4))" by (simp add: extremes_def feq_def f64_ops)
  ultimately show ?thesis using chart_inside [of ?rs "FNum 2" "FNum 1" "FNum (1 / 2)" "FNum (1 / 4)"]
    by (auto simp: finite_f64_def f64_ops simp del: of_goint_simps)
qed

text \<open>With a single round every abscissa is \<^verbatim>\<open>0/0\<close>, and with equal coefficients of determination every ordinate of their curve.\<close>

lemma chart_degenerate:
  assumes "length rs = 1"
  shows "\<exists>c y1 y2. GenerateSVG rs = Some c \<and> msePoints c = [(FNaN, y1)] \<and> r2Points c = [(FNaN, y2)]"
proof -
  have "chart_x 1 0 = FNaN" by (simp add: chart_x_def geometry times_f64_def divide_f64_def)
  then show ?thesis using assms by (cases "extremes rs") (simp add: GenerateSVG_def Let_def)
qed

lemma chart_flat:
  assumes "finite_f64 v"
  shows "chart_y v v v = FNaN"
proof -
  obtain s where "v - v = FZero s" using finite_minus [OF assms assms] by (auto simp: rnd_def)
  then show ?thesis by (simp add: chart_y_def geometry divide_f64_def times_f64_def minus_f64_def)
qed

end
