(* ===== verification/SvgText.thy ===== *)
theory SvgText
  imports Svg Fmt
begin

text \<open>
  The file that \<^verbatim>\<open>GenerateSVG\<close> writes (\<^verbatim>\<open>smart-home/evaluation/svg.go\<close>), byte for byte: the numbers of \<open>Svg\<close> printed into the markup.

  The lemmas read the points of the curves back from their attribute: printed with one decimal they still lie inside the axes.
\<close>

section \<open>Markup\<close>

text \<open>An attribute \<^verbatim>\<open>name="value"\<close> with the space before it.\<close>

definition attr :: "string \<Rightarrow> string \<Rightarrow> string" where
  "attr name v = '' '' @ name @ ''='' @ [CHR 0x22] @ v @ [CHR 0x22]"

definition emdash :: string where
  "emdash = [CHR 0xE2, CHR 0x80, CHR 0x94]"

section \<open>The parts\<close>

definition points_text :: "(f64 \<times> f64) list \<Rightarrow> string" where
  "points_text ps = concat (map (\<lambda>(x, y). fmtF 1 x @ '','' @ fmtF 1 y @ '' '') ps)"

definition grid_text :: "f64 list \<Rightarrow> string" where
  "grid_text gs = concat (map (\<lambda>gy. ''<line'' @ attr ''x1'' (Itoa marginL) @ attr ''y1'' (fmtF 1 gy) @ attr ''x2'' (Itoa (width - marginR)) @
     attr ''y2'' (fmtF 1 gy) @ attr ''stroke'' ''#eee'' @ attr ''stroke-width'' ''1'' @ ''/>'') gs)"

definition labels_text :: "(f64 \<times> int) list \<Rightarrow> string" where
  "labels_text ls = concat (map (\<lambda>(x, k). ''<text'' @ attr ''x'' (fmtF 1 x) @ attr ''y'' (Itoa (height - marginB + 20)) @
     attr ''text-anchor'' ''middle'' @ attr ''font-size'' ''12'' @ attr ''fill'' ''#666'' @ ''>'' @ Itoa k @ ''</text>'') ls)"

definition polyline :: "string \<Rightarrow> string" where
  "polyline pts = ''  <polyline'' @ attr ''points'' pts @ attr ''fill'' ''none''"

text \<open>The template: \<open>p\<close>, \<open>a\<close> and \<open>l\<close> are its integer arguments.\<close>

definition head_text :: "int list \<Rightarrow> string list" where
  "head_text p = (let d = (\<lambda>i. Itoa (p ! i)) in
    [''<svg'' @ attr ''xmlns'' ''http://www.w3.org/2000/svg'' @ attr ''viewBox'' (''0 0 '' @ d 0 @ '' '' @ d 1) @ ''>'',
     ''  <rect'' @ attr ''width'' (d 2) @ attr ''height'' (d 3) @ attr ''fill'' ''#fff'' @ ''/>'',
     ''  <text'' @ attr ''x'' (d 4) @ attr ''y'' ''20'' @ attr ''text-anchor'' ''middle'' @ attr ''font-size'' ''16'' @ attr ''font-weight'' ''bold'' @
       attr ''fill'' ''#333'' @ ''>Convergence '' @ emdash @ '' MSE and '' @ R2text @ '' per FL Round</text>'',
     [],
     ''  <!-- MSE axis label -->'',
     ''  <text'' @ attr ''x'' ''15'' @ attr ''y'' (d 5) @ attr ''text-anchor'' ''middle'' @ attr ''font-size'' ''12'' @ attr ''fill'' ''#d32f2f'' @
       attr ''transform'' (''rotate(-90,15,'' @ d 6 @ '')'') @ ''>MSE</text>'',
     ''  <!-- '' @ R2text @ '' axis label -->'',
     ''  <text'' @ attr ''x'' (d 7) @ attr ''y'' (d 8) @ attr ''text-anchor'' ''middle'' @ attr ''font-size'' ''12'' @ attr ''fill'' ''#388e3c'' @
       attr ''transform'' (''rotate(-90,'' @ d 9 @ '','' @ d 10 @ '')'') @ ''>'' @ R2text @ ''</text>'',
     []])"

definition axes_text :: "int list \<Rightarrow> string list" where
  "axes_text a = (let d = (\<lambda>i. Itoa (a ! i)); axis = (\<lambda>i. ''  <line'' @ attr ''x1'' (d i) @ attr ''y1'' (d (i + 1)) @ attr ''x2'' (d (i + 2)) @
       attr ''y2'' (d (i + 3)) @ attr ''stroke'' ''#333'' @ attr ''stroke-width'' ''1'' @ ''/>'')
    in [''  <!-- axes -->'', axis 0, axis 4, []])"

definition legend_text :: "int list \<Rightarrow> string list" where
  "legend_text l = (let d = (\<lambda>i. Itoa (l ! i)) in
    [[],
     ''  <!-- legend -->'',
     ''  <rect'' @ attr ''x'' (d 0) @ attr ''y'' (d 1) @ attr ''width'' ''12'' @ attr ''height'' ''12'' @ attr ''fill'' ''#d32f2f'' @ ''/>'',
     ''  <text'' @ attr ''x'' (d 2) @ attr ''y'' (d 3) @ attr ''font-size'' ''12'' @ attr ''fill'' ''#333'' @ ''>MSE</text>'',
     ''  <line'' @ attr ''x1'' (d 4) @ attr ''y1'' (d 5) @ attr ''x2'' (d 6) @ attr ''y2'' (d 7) @ attr ''stroke'' ''#388e3c'' @ attr ''stroke-width'' ''2'' @
       attr ''stroke-dasharray'' ''5,3'' @ ''/>'',
     ''  <text'' @ attr ''x'' (d 8) @ attr ''y'' (d 9) @ attr ''font-size'' ''12'' @ attr ''fill'' ''#333'' @ ''>'' @ R2text @ ''</text>''])"

fun svg_lines :: "chart \<Rightarrow> string list" where
  "svg_lines c = (let (p, a, l) = frame c in
    head_text p @
    [''  <!-- grid -->'', grid_text (gridLines c) @ ''  ''] @
    axes_text a @
    [''  <!-- x-axis labels -->'', labels_text (xAxisLabels c),
     ''  <!-- MSE line -->'',
     polyline (points_text (msePoints c)) @ attr ''stroke'' ''#d32f2f'' @ attr ''stroke-width'' ''2'' @ ''/>'',
     ''  <!-- '' @ R2text @ '' line -->'',
     polyline (points_text (r2Points c)) @ attr ''stroke'' ''#388e3c'' @ attr ''stroke-width'' ''2'' @ attr ''stroke-dasharray'' ''5,3'' @ ''/>''] @
    legend_text l)"

definition svg_text :: "chart \<Rightarrow> string" where
  "svg_text c = concat (map (\<lambda>l. l @ [newline]) (svg_lines c)) @ ''</svg>''"

text \<open>
  What the call leaves in the file and whether it returns an error, given whether the write succeeds; without results nothing is written. A failing
  \<^verbatim>\<open>os.WriteFile\<close> may leave any prefix, of which nothing is said.
\<close>

definition write_chart :: "RoundResult list \<Rightarrow> bool \<Rightarrow> (unit + string option)" where
  "write_chart rs ok = (case GenerateSVG rs of None \<Rightarrow> Inr None | Some c \<Rightarrow> if ok then Inr (Some (svg_text c)) else Inl ())"

section \<open>Reading the file\<close>

text \<open>The points of the curve in a line of the file: the text between the first pair of quotes, split at spaces and commas.\<close>

definition read_point :: "string \<Rightarrow> (f64 \<times> f64) option" where
  "read_point s = (case Split (CHR '','') s of
     [a, b] \<Rightarrow> (case (read_float a, read_float b) of (Some x, Some y) \<Rightarrow> Some (x, y) | _ \<Rightarrow> None)
   | _ \<Rightarrow> None)"

definition read_points :: "string \<Rightarrow> (f64 \<times> f64) list option" where
  "read_points l = those (map read_point (butlast (Split (CHR '' '') (Split (CHR 0x22) l ! 1))))"

text \<open>The lines of the two curves, after the labels.\<close>

definition read_curves :: "string \<Rightarrow> ((f64 \<times> f64) list \<times> (f64 \<times> f64) list) option" where
  "read_curves s = (let ls = Split newline s in
     case (read_points (ls ! 18), read_points (ls ! 20)) of (Some a, Some b) \<Rightarrow> Some (a, b) | _ \<Rightarrow> None)"

section \<open>Lemmas\<close>

text \<open>The lines of the file hold no line break, the points no quote.\<close>

lemma number_chars [simp]:
  "CHR '' '' \<notin> set (fmtF p y)" "CHR 0x0A \<notin> set (fmtF p y)" "CHR '','' \<notin> set (fmtF p y)" "CHR 0x22 \<notin> set (fmtF p y)" "CHR 0x0A \<notin> set (Itoa n)"
  by (rule plain_not_in [OF plain_fmtF] plain_not_in [OF plain_Itoa], simp)+

lemma break_attr [simp]: "CHR 0x0A \<in> set (attr n v) \<longleftrightarrow> CHR 0x0A \<in> set n \<or> CHR 0x0A \<in> set v"
  by (auto simp: attr_def)

lemma break_texts [simp]: "CHR 0x0A \<notin> set R2text" "CHR 0x0A \<notin> set emdash"
  by (simp_all add: R2text_def emdash_def)

lemma no_break_parts:
  "CHR 0x0A \<notin> set (points_text ps)" "CHR 0x0A \<notin> set (grid_text gs)" "CHR 0x0A \<notin> set (labels_text ls)" "CHR 0x22 \<notin> set (points_text ps)"
  by (auto simp: points_text_def grid_text_def labels_text_def)

definition unbroken :: "string list \<Rightarrow> bool" where
  "unbroken ls \<longleftrightarrow> (\<forall>l\<in>set ls. CHR 0x0A \<notin> set l)"

lemma unbroken_simps [simp]: "unbroken []" "unbroken (l # ls) \<longleftrightarrow> CHR 0x0A \<notin> set l \<and> unbroken ls" "unbroken (ls @ ks) \<longleftrightarrow> unbroken ls \<and> unbroken ks"
  by (auto simp: unbroken_def)

lemma unbroken_frame [simp]: "unbroken (head_text p)" "unbroken (axes_text a)" "unbroken (legend_text g)"
  by (simp_all add: head_text_def axes_text_def legend_text_def Let_def)

lemma unbroken_svg_lines: "unbroken (svg_lines c)"
  using no_break_parts by (cases "frame c") (simp add: polyline_def)

lemma svg_lines_no_break: "\<forall>l\<in>set (svg_lines c). newline \<notin> set l"
  using unbroken_svg_lines by (simp only: unbroken_def newline_def)

lemma Split_svg_text: "Split newline (svg_text c) = svg_lines c @ [''</svg>'']"
proof -
  have "Split sep (concat (map (\<lambda>l. l @ [sep]) ls) @ t) = ls @ Split sep t" if "\<forall>l\<in>set ls. sep \<notin> set l" for ls sep t
    using that by (induction ls) (simp_all add: Split_Cons_sep)
  from this [OF svg_lines_no_break] show ?thesis unfolding svg_text_def by (simp add: newline_def)
qed

lemma curve_lines:
  "\<exists>r. svg_lines c ! 18 = polyline (points_text (msePoints c)) @ r" "\<exists>r. svg_lines c ! 20 = polyline (points_text (r2Points c)) @ r" "20 < length (svg_lines c)"
  by (auto simp: head_text_def axes_text_def legend_text_def Let_def nth_append split: prod.split)

text \<open>Reading the points of a curve.\<close>

definition point_text :: "f64 \<times> f64 \<Rightarrow> string" where
  "point_text p = fmtF 1 (fst p) @ '','' @ fmtF 1 (snd p)"

lemma points_split: "butlast (Split (CHR '' '') (points_text ps)) = map point_text ps"
proof -
  have "points_text ps = concat (map (\<lambda>l. l @ [CHR '' '']) (map point_text ps))"
    by (induction ps) (auto simp: points_text_def point_text_def)
  moreover have "\<forall>l\<in>set (map point_text ps). CHR '' '' \<notin> set l" by (simp add: point_text_def)
  ultimately show ?thesis by (simp only: Split_lines butlast_snoc)
qed

lemma read_polyline: "read_points (polyline (points_text ps) @ r) = those (map read_point (map point_text ps))"
proof -
  have "polyline (points_text ps) @ r = ''  <polyline points='' @ CHR 0x22 # points_text ps @ CHR 0x22 # (attr ''fill'' ''none'' @ r)"
    by (simp add: polyline_def attr_def [of "''points''"])
  moreover have "CHR 0x22 \<notin> set ''  <polyline points=''" by simp
  ultimately have "Split (CHR 0x22) (polyline (points_text ps) @ r) = ''  <polyline points='' # points_text ps # Split (CHR 0x22) (attr ''fill'' ''none'' @ r)"
    using no_break_parts(4) [of ps] Split_Cons_sep [of "CHR 0x22"] by metis
  then show ?thesis by (simp only: read_points_def nth_Cons_Suc One_nat_def nth_Cons_0 points_split)
qed

lemma read_float_inside:
  assumes "inside lo hi x" "0 < lo" "lo \<le> hi" "hi < 2 ^ 53"
  shows "\<exists>x'. read_float (fmtF 1 x) = Some x' \<and> inside lo hi x'"
proof -
  have g: "of_goint lo = FNum (of_int lo)" "of_goint hi = FNum (of_int hi)"
    using assms(2-4) by (intro of_goint_exact; simp)+
  with assms(1-3) obtain q where q: "x = FNum q" "of_int lo \<le> q" "q \<le> of_int hi"
    by (cases x) (auto simp: inside_def less_eq_f64_def)
  obtain r where r: "read_float (fmtF 1 (FNum q)) = Some (rnd False r)" "of_int lo \<le> r" "r \<le> of_int hi"
    using fmtF_between [OF q(2,3) assms(2), of 1] by auto
  have "inside lo hi (rnd False r)"
    using rnd_mono [OF r(2)] rnd_mono [OF r(3)] by (simp add: inside_def of_goint_def lit_def less_eq_f64_def)
  then show ?thesis using r(1) q(1) by blast
qed

lemma read_point_text:
  assumes "read_float (fmtF 1 x) = Some x'" "read_float (fmtF 1 y) = Some y'"
  shows "read_point (point_text (x, y)) = Some (x', y')"
proof -
  have "Split (CHR '','') (point_text (x, y)) = [fmtF 1 x, fmtF 1 y]"
    by (simp add: point_text_def Split_Cons_sep Split_no_sep)
  then show ?thesis using assms by (simp add: read_point_def)
qed

text \<open>All points of a curve.\<close>

definition in_axes :: "f64 \<times> f64 \<Rightarrow> bool" where
  "in_axes p \<longleftrightarrow> inside 60 770 (fst p) \<and> inside 30 350 (snd p)"

lemma read_points_inside:
  assumes "list_all in_axes ps"
  shows "\<exists>ps'. those (map read_point (map point_text ps)) = Some ps' \<and> length ps' = length ps \<and> list_all in_axes ps'"
  using assms
proof (induction ps)
  case (Cons p ps)
  obtain x y where p: "p = (x, y)" by (cases p)
  obtain x' y' where "read_float (fmtF 1 x) = Some x'" "inside 60 770 x'" "read_float (fmtF 1 y) = Some y'" "inside 30 350 y'"
    using read_float_inside [of 60 770 x] read_float_inside [of 30 350 y] Cons.prems by (auto simp: p in_axes_def)
  then have "read_point (point_text p) = Some (x', y')" "in_axes (x', y')" by (simp_all add: p in_axes_def read_point_text)
  then show ?case using Cons by auto
qed simp

section \<open>Properties\<close>



end
