(* ===== verification/Client.thy ===== *)
theory Client
  imports Remote
begin

text \<open>
  The two ends of the transport as objects with a state: the remote reference with its lazily made connection
  (\<^verbatim>\<open>actor-framework/remote/remote_ref.go\<close>) and the server with its listener (\<^verbatim>\<open>server.go\<close>).

  What gRPC and the network do is an argument of each call: \<open>dial\<close> is the result of \<^verbatim>\<open>grpc.NewClient\<close> (an error or a fresh connection),
  \<open>answer\<close> the result of the remote procedure call. What a call does to the network is a list of events, one for each call of the gRPC library.
\<close>

section \<open>The remote reference\<close>

record RemoteActorRef =
  ref_id :: ActorID
  ref_target :: string
  ref_conn :: "nat option"
  ref_client :: "nat option"

datatype wire_event = Dialled string nat | SentTell nat TellRequest | SentAsk nat AskRequest | SentStop nat string | Closed nat

definition NewRemoteActorRef :: "ActorID \<Rightarrow> string \<Rightarrow> RemoteActorRef" where
  "NewRemoteActorRef i target = \<lparr>ref_id = i, ref_target = target, ref_conn = None, ref_client = None\<rparr>"

text \<open>The stub \<^verbatim>\<open>NewRemoteActorClient(conn)\<close> is known by its connection.\<close>

definition getClient :: "string + nat \<Rightarrow> RemoteActorRef \<Rightarrow> (string + nat) \<times> RemoteActorRef \<times> wire_event list" where
  "getClient dial r = (case ref_client r of
     Some c \<Rightarrow> (Inr c, r, [])
   | None \<Rightarrow>
       (case dial of
          Inl err \<Rightarrow> (Inl err, r, [])
        | Inr c \<Rightarrow> (Inr c, r\<lparr>ref_conn := Some c, ref_client := Some c\<rparr>, [Dialled (ref_target r) c])))"

definition remote_Tell :: "string + nat \<Rightarrow> 'f payload message \<Rightarrow> RemoteActorRef \<Rightarrow> RemoteActorRef \<times> wire_event list" where
  "remote_Tell dial msg r = (let req = marshalTell (ref_id r) msg
     in case getClient dial r of
          (Inl _, r', evs) \<Rightarrow> (r', evs)
        | (Inr c, r', evs) \<Rightarrow> (r', evs @ [SentTell c req]))"

text \<open>\<^verbatim>\<open>Duration.Milliseconds\<close>: integer division truncates towards zero.\<close>

definition Milliseconds :: "int \<Rightarrow> int" where
  "Milliseconds d = (if d < 0 then - (- d div 1000000) else d div 1000000)"

text \<open>
  \<open>remaining\<close> is \<^verbatim>\<open>time.Until(deadline)\<close> in nanoseconds, if the context has a deadline; \<open>ctx_err\<close> is the value of \<^verbatim>\<open>ctx.Err()\<close>.
  A pair of a message and a nil error is \<^const>\<open>Inr\<close>.
\<close>

definition remote_Ask :: "payload_registry \<Rightarrow> go_env \<Rightarrow> string + nat \<Rightarrow> int option \<Rightarrow> string option \<Rightarrow> string + AskResponse \<Rightarrow>
    'f payload message \<Rightarrow> RemoteActorRef \<Rightarrow> (string + 'f payload message) \<times> RemoteActorRef \<times> wire_event list" where
  "remote_Ask reg e dial remaining ctx_err answer msg r =
    (case remote_Ask_request (map_option Milliseconds remaining) (ref_id r) msg of
       None \<Rightarrow> (case ctx_err of Some err \<Rightarrow> Inl err | None \<Rightarrow> Inr (Message '''' NilAny '''' zero_time), r, [])
     | Some req \<Rightarrow>
         (case getClient dial r of
            (Inl err, r', evs) \<Rightarrow> (Inl (''remote: cannot dial '' @ ref_target r @ '': '' @ err), r', evs)
          | (Inr c, r', evs) \<Rightarrow>
              (case answer of
                 Inl err \<Rightarrow> Inl (''remote ask to '' @ ref_target r @ ''/'' @ ref_id r @ '' failed: '' @ err)
               | Inr resp \<Rightarrow> remote_Ask_result reg e resp,
               r', evs @ [SentAsk c req])))"

definition remote_Stop :: "string + nat \<Rightarrow> RemoteActorRef \<Rightarrow> RemoteActorRef \<times> wire_event list" where
  "remote_Stop dial r = (case getClient dial r of
     (Inl _, r', evs) \<Rightarrow> (r', evs)
   | (Inr c, r', evs) \<Rightarrow> (r', evs @ [SentStop c (ref_id r)]))"

text \<open>\<open>err\<close> is the result of closing the connection.\<close>

definition remote_Close :: "string option \<Rightarrow> RemoteActorRef \<Rightarrow> string option \<times> RemoteActorRef \<times> wire_event list" where
  "remote_Close err r = (case ref_conn r of
     Some c \<Rightarrow> (err, r\<lparr>ref_conn := None, ref_client := None\<rparr>, [Closed c])
   | None \<Rightarrow> (None, r, []))"

section \<open>The server\<close>

record ActorServer =
  srv_lis :: "string option"
  srv_server :: bool
  srv_addr :: string

datatype server_event = Serving string | GracefulStop

definition NewActorServer :: ActorServer where
  "NewActorServer = \<lparr>srv_lis = None, srv_server = False, srv_addr = ''''\<rparr>"

text \<open>\<open>listen\<close> is the result of \<^verbatim>\<open>net.Listen\<close>: an error, or the address that was bound.\<close>

definition server_Start :: "string + string \<Rightarrow> string \<Rightarrow> ActorServer \<Rightarrow> string option \<times> ActorServer \<times> server_event list" where
  "server_Start listen addr s = (case listen of
     Inl err \<Rightarrow> (Some (''remote: cannot listen on '' @ addr @ '': '' @ err), s, [])
   | Inr bound \<Rightarrow> (None, s\<lparr>srv_lis := Some bound, srv_addr := bound, srv_server := True\<rparr>, [Serving bound]))"

definition Addr :: "ActorServer \<Rightarrow> string" where
  "Addr s = srv_addr s"

definition server_Shutdown :: "ActorServer \<Rightarrow> server_event list" where
  "server_Shutdown s = (if srv_server s then [GracefulStop] else [])"

section \<open>Specification\<close>

text \<open>
  The protocol of a connection: closed or open. Only a closed one is dialled, at the address of the reference; requests go over the open connection and name
  the actor of the reference; only the open connection is closed. \<^const>\<open>None\<close> is a violation of the protocol.
\<close>

fun wire_step :: "ActorID \<Rightarrow> string \<Rightarrow> nat option \<Rightarrow> wire_event \<Rightarrow> nat option option" where
  "wire_step i target None (Dialled t c) = (if t = target then Some (Some c) else None)"
| "wire_step i target (Some c) (SentTell c' req) = (if c' = c \<and> ActorId req = i then Some (Some c) else None)"
| "wire_step i target (Some c) (SentAsk c' req) = (if c' = c \<and> ActorId req = i \<and> 0 < TimeoutMs req then Some (Some c) else None)"
| "wire_step i target (Some c) (SentStop c' j) = (if c' = c \<and> j = i then Some (Some c) else None)"
| "wire_step i target (Some c) (Closed c') = (if c' = c then Some None else None)"
| "wire_step i target _ _ = None"

fun wire_run :: "ActorID \<Rightarrow> string \<Rightarrow> nat option \<Rightarrow> wire_event list \<Rightarrow> nat option option" where
  "wire_run i target w [] = Some w"
| "wire_run i target w (ev # evs) = (case wire_step i target w ev of None \<Rightarrow> None | Some w' \<Rightarrow> wire_run i target w' evs)"

text \<open>Calls of the methods of a reference, which its mutex puts into some order.\<close>

datatype 'f method_call = CallTell "string + nat" "'f payload message"
  | CallAsk payload_registry go_env "string + nat" "int option" "string option" "string + AskResponse" "'f payload message"
  | CallStop "string + nat" | CallClose "string option"

fun client_call :: "'f method_call \<Rightarrow> RemoteActorRef \<Rightarrow> RemoteActorRef \<times> wire_event list" where
  "client_call (CallTell dial msg) r = remote_Tell dial msg r"
| "client_call (CallAsk reg e dial remaining ctx_err answer msg) r = snd (remote_Ask reg e dial remaining ctx_err answer msg r)"
| "client_call (CallStop dial) r = remote_Stop dial r"
| "client_call (CallClose err) r = snd (remote_Close err r)"

fun client_run :: "'f method_call list \<Rightarrow> RemoteActorRef \<Rightarrow> RemoteActorRef \<times> wire_event list" where
  "client_run [] r = (r, [])"
| "client_run (k # ks) r = (case client_call k r of (r', evs) \<Rightarrow> case client_run ks r' of (r'', evs') \<Rightarrow> (r'', evs @ evs'))"

section \<open>Lemmas\<close>

lemmas client_defs = remote_Tell_def remote_Ask_def remote_Stop_def remote_Close_def getClient_def marshalTell_def marshalAsk_def remote_Ask_request_def Let_def

lemma wire_run_append:
  "wire_run i t w (evs @ evs') = (case wire_run i t w evs of None \<Rightarrow> None | Some w' \<Rightarrow> wire_run i t w' evs')"
  by (induction evs arbitrary: w) (auto split: option.splits)

definition client_inv :: "RemoteActorRef \<Rightarrow> bool" where
  "client_inv r \<longleftrightarrow> ref_conn r = ref_client r"

text \<open>One call simulates a run of the protocol.\<close>

lemma client_call_simulates:
  assumes "client_call k r = (r', evs)" "client_inv r"
  shows "client_inv r'" "ref_id r' = ref_id r" "ref_target r' = ref_target r"
    "wire_run (ref_id r) (ref_target r) (ref_client r) evs = Some (ref_client r')"
  using assms by (cases k; cases "ref_client r"; auto simp: client_defs client_inv_def split: option.splits sum.splits if_splits)+

lemma client_run_simulates:
  assumes "client_run ks r = (r', evs)" "client_inv r"
  shows "client_inv r' \<and> ref_id r' = ref_id r \<and> ref_target r' = ref_target r \<and>
    wire_run (ref_id r) (ref_target r) (ref_client r) evs = Some (ref_client r')"
  using assms
proof (induction ks arbitrary: r evs)
  case (Cons k ks)
  obtain r1 evs1 evs2 where s: "client_call k r = (r1, evs1)" "client_run ks r1 = (r', evs2)" "evs = evs1 @ evs2"
    using Cons.prems(1) by (auto split: prod.splits)
  note c = client_call_simulates [OF s(1) Cons.prems(2)]
  from Cons.IH [OF s(2) c(1)] c s(3) show ?case by (simp add: wire_run_append)
qed simp

text \<open>In a run of the protocol at most one connection is open: dials and closes alternate.\<close>

fun is_dial :: "wire_event \<Rightarrow> bool" where
  "is_dial (Dialled _ _) = True"
| "is_dial _ = False"

fun is_close :: "wire_event \<Rightarrow> bool" where
  "is_close (Closed _) = True"
| "is_close _ = False"

lemma wire_run_alternates:
  "wire_run i t w evs = Some w' \<Longrightarrow>
    length (filter is_dial evs) + (if w = None then 0 else 1) = length (filter is_close evs) + (if w' = None then 0 else (1::nat))"
proof (induction evs arbitrary: w)
  case (Cons ev evs)
  then obtain w1 where w1: "wire_step i t w ev = Some w1" "wire_run i t w1 evs = Some w'" by (auto split: option.splits)
  from w1(1) Cons.IH [OF w1(2)] show ?case by (cases "(i, t, w, ev)" rule: wire_step.cases) (auto split: if_splits)
qed simp

section \<open>Properties\<close>


text \<open>
  The outcomes of a remote \<^verbatim>\<open>Ask\<close>: with less than a millisecond left nothing is sent, and if the deadline itself has not passed yet, the caller gets
  an empty message and no error.
\<close>

lemma Milliseconds_simps: "Milliseconds d \<le> 0 \<longleftrightarrow> d < 1000000" "1000000 \<le> d \<Longrightarrow> Milliseconds d = d div 1000000"
  by (auto simp: Milliseconds_def)

lemma remote_Ask_late:
  "d < 1000000 \<Longrightarrow> remote_Ask reg e dial (Some d) ctx_err answer msg r =
    (case ctx_err of Some err \<Rightarrow> Inl err | None \<Rightarrow> Inr (Message '''' NilAny '''' zero_time), r, [])"
  by (simp add: client_defs Milliseconds_simps)

lemma remote_Ask_no_connection:
  "\<lbrakk>case remaining of Some d \<Rightarrow> 1000000 \<le> d | None \<Rightarrow> True; ref_client r = None\<rbrakk> \<Longrightarrow> remote_Ask reg e (Inl err) remaining ctx_err answer msg r =
    (Inl (''remote: cannot dial '' @ ref_target r @ '': '' @ err), r, [])"
  using Milliseconds_simps(1) by (auto simp: client_defs not_less [symmetric] split: option.splits)

lemma remote_Ask_sent:
  fixes msg :: "'f payload message"
  assumes "case remaining of Some d \<Rightarrow> 1000000 \<le> d | None \<Rightarrow> True" "getClient dial r = (Inr c, r1, evs)"
  defines "req \<equiv> (marshalAsk (ref_id r) msg)\<lparr>TimeoutMs := case remaining of Some d \<Rightarrow> d div 1000000 | None \<Rightarrow> 30000\<rparr>"
  shows "remote_Ask reg e dial remaining ctx_err (Inr resp) msg r = (remote_Ask_result reg e resp, r1, evs @ [SentAsk c req])"
proof (cases remaining)
  case (Some d)
  then have "0 < Milliseconds d" "Milliseconds d = d div 1000000" using assms(1) Milliseconds_simps(1) [of d] Milliseconds_simps(2) [of d] by simp_all
  then show ?thesis using assms(2) Some by (simp add: remote_Ask_def remote_Ask_request_def req_def)
qed (use assms(2) in \<open>simp add: remote_Ask_def remote_Ask_request_def req_def\<close>)



end
