(* ===== verification/CoordinatorService.thy ===== *)
theory CoordinatorService
  imports Services Report SvgText Client
begin

text \<open>
  The main function of the coordinator service (\<^verbatim>\<open>cmd/coordinator-service/main.go\<close>) from its settings to its report: reading the environment,
  starting the server and the actors, registering or waiting for sensors, the round loop, the summary.

  \<open>listen\<close> is the result of \<^verbatim>\<open>net.Listen\<close>, \<open>ParseFloat\<close> stands for \<^verbatim>\<open>strconv.ParseFloat\<close>. The loops read what other goroutines have
  done: \<open>obs\<close> are the values that a loop sees, one element for each of its turns.
\<close>

section \<open>Settings\<close>

record CoordinatorSettings =
  svcAddr :: string
  svcRounds :: int
  svcEpochs :: int
  svcLR :: f64
  svcSensorAddrs :: string
  svcRooms :: "string list"
  svcSamples :: int
  svcValSamples :: int

definition coordinator_settings :: "(string \<Rightarrow> f64 option) \<Rightarrow> (string \<rightharpoonup> string) \<Rightarrow> CoordinatorSettings" where
  "coordinator_settings ParseFloat E = \<lparr>
     svcAddr = env_or E ''COORD_ADDR'' '':50051'',
     svcRounds = envInt E ''NUM_ROUNDS'' 5,
     svcEpochs = envInt E ''EPOCHS'' 1,
     svcLR = (let v = env_or E ''LEARNING_RATE'' ''''
           in if v \<noteq> '''' then (case ParseFloat v of Some f \<Rightarrow> f | None \<Rightarrow> lit (1 / 100)) else lit (1 / 100)),
     svcSensorAddrs = env_or E ''SENSOR_ADDRS'' '''',
     svcRooms = Split (CHR '','') (env_or E ''ROOMS'' ''kitchen,livingroom,bedroom,bathroom,garage''),
     svcSamples = envInt E ''SAMPLES_PER_SENSOR'' 800,
     svcValSamples = envInt E ''VAL_SAMPLES'' 100\<rparr>"

section \<open>Start\<close>

text \<open>
  From the new actor system to the rounds, with the sensors of \<^verbatim>\<open>SENSOR_ADDRS\<close> in the order \<open>e\<close> of the iteration over their map; \<^const>\<open>None\<close> is a panic, also
  the one for a server that cannot start, which ends the process, so that it does not matter that three actors have been spawned before it. The flag says whether the service goes on to wait for sensors.
\<close>

definition coordinator_main :: "(string \<Rightarrow> f64 option) \<Rightarrow> (string \<rightharpoonup> string) \<Rightarrow> string + string \<Rightarrow> (nat \<Rightarrow> draws) \<Rightarrow> go_env \<Rightarrow> home \<Rightarrow>
    (nat \<times> nat \<times> bool \<times> home) option" where
  "coordinator_main ParseFloat E listen vdr e s = (let cfg = coordinator_settings ParseFloat E
     in case server_Start listen (svcAddr cfg) NewActorServer of
          (Some err, _, _) \<Rightarrow> None
        | (None, _, _) \<Rightarrow> do {
            (coordRef, evalRef, s) \<leftarrow> coordinator_service (svcEpochs cfg) (svcLR cfg) (svcValSamples cfg) vdr s;
            let manual = manualSensors (svcSensorAddrs cfg);
            if 0 < length manual
            then do {
              s \<leftarrow> returned (register_manual coordRef (svcSamples cfg)
                (map (\<lambda>i. (i, the (mget manual i))) (iter e (keys manual))) s);
              Some (coordRef, evalRef, False, s)
            }
            else Some (coordRef, evalRef, True, s)
          })"

section \<open>Loops\<close>

text \<open>
  Waiting for sensors: each turn sees the number of sensors and the time. The result is the number of the turn that leaves the loop;
  \<^const>\<open>None\<close>: none of the given ones does.
\<close>

fun wait_sensors :: "int \<Rightarrow> int \<Rightarrow> (int \<times> int) list \<Rightarrow> nat option" where
  "wait_sensors minSensors deadline [] = None"
| "wait_sensors minSensors deadline ((n, t) # obs) =
    (if n \<ge> minSensors then Some 0
     else if t > deadline then Some 0
     else map_option Suc (wait_sensors minSensors deadline obs))"

text \<open>The round loop from round \<open>n\<close> on, with the results so far; \<^const>\<open>None\<close> is a panic.\<close>

fun service_rounds :: "Sample list \<Rightarrow> int \<Rightarrow> ((nat \<Rightarrow> f64) \<times> 'f payload option list \<times> f64 slice \<times> (string + 'f payload message)) list \<Rightarrow>
    RoundResult list \<Rightarrow> RoundResult list option" where
  "service_rounds vs n [] rs = Some rs"
| "service_rounds vs n ((r, obs, coordWeights, reply) # ins) rs =
    (if \<not> poll n obs then service_rounds vs (n + 1) ins rs
     else case reply of
       Inl _ \<Rightarrow> do {
         evalMLP \<leftarrow> SetWeights (NewMLP r 5 8 3) (elems coordWeights);
         (actuals, predictions) \<leftarrow> predict_all evalMLP vs;
         service_rounds vs (n + 1) ins (rs @ [\<lparr>Round_of = n, Metrics_of = Calculate actuals predictions\<rparr>])
       }
     | Inr msg \<Rightarrow> (case Payload msg of
         Dyn (EvaluationResultPayload i mse rmse mae r2) \<Rightarrow>
           service_rounds vs (n + 1) ins (rs @ [\<lparr>Round_of = n, Metrics_of = \<lparr>MSE = mse, RMSE = rmse, MAE = mae, R2 = r2\<rparr>\<rparr>])
       | _ \<Rightarrow> service_rounds vs (n + 1) ins rs))"

text \<open>What the service reports at its end: the printed table and summary, and the file with the chart; \<open>ok\<close> says whether the file can be written.\<close>

definition coordinator_report :: "bool \<Rightarrow> RoundResult list \<Rightarrow> string \<times> (unit + string option)" where
  "coordinator_report ok rs = (final_report rs, write_chart rs ok)"

section \<open>Lemmas\<close>

subsection \<open>Manual sensors\<close>

definition manual_msg :: "int \<Rightarrow> string \<Rightarrow> home_message" where
  "manual_msg n i = mkMessage MsgRegisterSensor (Dyn (RegisterSensorPayload i (TrimPrefix i ''sensor-'') n '''')) ''''"

lemma on_coordinator_safe:
  assumes "\<And>st. coordID (f st) = coordID st"
  shows "safe_call home_ops s (on_coordinator c f s)"
proof (cases "actor (ent s c)")
  case (ACoordinator st)
  then have "on_coordinator c f s = upd_ent c (\<lambda>en. en\<lparr>actor := ACoordinator (f st)\<rparr>) s" by (simp add: on_coordinator_def set_actor_def)
  then show ?thesis using ACoordinator assms by (auto intro: safe_call_upd_ent)
qed (simp_all add: on_coordinator_def)

text \<open>The coordinator with its remote references and the registrations in its mailbox.\<close>

definition listed :: "nat \<Rightarrow> int \<Rightarrow> (string \<times> string) list \<Rightarrow> home \<Rightarrow> bool" where
  "listed c n kvs s \<longleftrightarrow> sys_inv home_ops s \<and> c < length (heap s) \<and> holds (map (\<lambda>kv. manual_msg n (fst kv)) kvs) (mbox (ent s c)) \<and>
    (\<exists>st. actor (ent s c) = ACoordinator st \<and> coordID st = ''coordinator'' \<and> onRemoteSensor st = Some CreateRemoteRef \<and>
      (\<forall>i addr. (i, addr) \<in> set kvs \<longrightarrow> mget (sensorRemoteRefs st) i = Some (RemoteRef i addr)))"

lemma listed_step:
  assumes "listed c n kvs s" "i \<notin> set (keys kvs)" "length kvs < DefaultMailboxSize"
  shows "\<exists>s'. Tell c (manual_msg n i) (on_coordinator c (SetSensorRemoteRef i (RemoteRef i addr)) s) = Done s' \<and> listed c n (kvs @ [(i, addr)]) s' \<and> actors s' = actors s"
proof -
  obtain st where st: "actor (ent s c) = ACoordinator st" "coordID st = ''coordinator''" "onRemoteSensor st = Some CreateRemoteRef"
      "\<And>i addr. (i, addr) \<in> set kvs \<Longrightarrow> mget (sensorRemoteRefs st) i = Some (RemoteRef i addr)"
    using assms(1) by (auto simp: listed_def)
  let ?st = "SetSensorRemoteRef i (RemoteRef i addr) st"
  let ?s = "on_coordinator c (SetSensorRemoteRef i (RemoteRef i addr)) s"
  have c: "c < length (heap s)" "holds (map (\<lambda>kv. manual_msg n (fst kv)) kvs) (mbox (ent s c))" "sys_inv home_ops s" using assms(1) by (simp_all add: listed_def)
  have s: "?s = set_actor c (ACoordinator ?st) s" using st(1) by (simp add: on_coordinator_def)
  have e: "ent ?s c = (ent s c)\<lparr>actor := ACoordinator ?st\<rparr>" "length (heap ?s) = length (heap s)" "actors ?s = actors s"
    unfolding s set_actor_def using c(1) by (simp_all add: ent_upd_ent)
  have "safe_call home_ops s ?s" by (intro on_coordinator_safe) (simp add: SetSensorRemoteRef_def)
  then have inv: "sys_inv home_ops ?s" using c(3) by (rule safe_call_inv)
  have h: "holds (map (\<lambda>kv. manual_msg n (fst kv)) kvs) (mbox (ent ?s c))" "c < length (heap ?s)" using c e by simp_all
  obtain s' where s': "Tell c (manual_msg n i) ?s = Done s'" "holds (map (\<lambda>kv. manual_msg n (fst kv)) kvs @ [manual_msg n i]) (mbox (ent s' c))"
      "actors s' = actors ?s" "length (heap s') = length (heap ?s)"
    using Tell_holds [OF h, of "manual_msg n i"] assms(3) by auto
  have a: "actor (ent s' c) = ACoordinator ?st" using s'(1) e(1) h(2) by (auto simp: Tell_def ent_upd_ent split: enq.splits)
  have "sys_inv home_ops s'" by (rule safe_call_inv [OF Tell_Done [OF s'(1)] inv])
  moreover have "mget (sensorRemoteRefs ?st) j = Some (RemoteRef j x)" if "(j, x) \<in> set (kvs @ [(i, addr)])" for j x
    using that st(4) [of j x] assms(2) by (force simp: SetSensorRemoteRef_def)
  ultimately have "listed c n (kvs @ [(i, addr)]) s'"
    unfolding listed_def using s'(2,4) a h(2) st(2,3) by (intro conjI exI [of _ ?st] allI impI) (simp_all add: SetSensorRemoteRef_def)
  then show ?thesis using s'(1,3) e(3) by (intro exI [of _ s'] conjI) simp_all
qed

lemma register_manual_listed:
  assumes "listed c n old s" "distinct (keys (old @ kvs))" "length (old @ kvs) \<le> DefaultMailboxSize"
  shows "\<exists>s'. register_manual c n kvs s = Done s' \<and> listed c n (old @ kvs) s' \<and> actors s' = actors s"
  using assms
proof (induction kvs arbitrary: old s)
  case (Cons kv kvs)
  obtain i addr where kv: "kv = (i, addr)" by (cases kv)
  obtain s1 where s1: "Tell c (manual_msg n i) (on_coordinator c (SetSensorRemoteRef i (RemoteRef i addr)) s) = Done s1" "listed c n (old @ [(i, addr)]) s1" "actors s1 = actors s"
    using listed_step [OF Cons.prems(1), of i addr] Cons.prems(2,3) kv by auto
  with Cons.IH [OF s1(2)] Cons.prems kv show ?case by (simp add: RegisterSensor_def manual_msg_def)
qed simp

subsection \<open>Start\<close>

lemma coordinator_service_starts:
  fixes w :: "sensor_factory world"
  assumes "0 \<le> vn"
  obtains s where "coordinator_service ep rate vn vdr (NewActorSystem w) = Some (2, 3, s)" "listed 2 n [] s"
    "actors s = [(''logger'', 0), (''device-ctrl'', 1), (''coordinator'', 2), (''evaluator'', 3)]"
proof -
  let ?c = "SetTrainingConfig ep rate (NewCoordinatorActor ''coordinator'' ''logger'' ''device-ctrl'' (5 * 8 + 8 + 8 * 3 + 3)) :: sensor_factory CoordinatorActor"
  let ?l = "ALogger (NewLoggerActor ''logger'') :: home_actor" and ?d = "ADevice (NewDeviceControllerActor ''device-ctrl'') :: home_actor"
  obtain vs where vs: "GenerateSamples vdr ''validation'' vn (lit (1 / 2)) False = Some vs" using assms by (simp add: GenerateSamples_def)
  let ?ev = "AEvaluator (NewEvaluatorActor ''evaluator'' vs) :: home_actor"
  let ?n = "\<lambda>x :: home_actor. new_entry x DefaultSpawnOptions"
  let ?s = "\<lambda>h as. \<lparr>heap = h, actors = as, shut = False, wg = length as, replies = [], world = w\<rparr> :: home"
  let ?s1 = "?s [?n ?l] [(''logger'', 0)]" and ?s2 = "?s [?n ?l, ?n ?d] [(''logger'', 0), (''device-ctrl'', 1)]"
  let ?s3 = "?s [?n ?l, ?n ?d, ?n (ACoordinator ?c)] [(''logger'', 0), (''device-ctrl'', 1), (''coordinator'', 2)]"
  let ?s4 = "on_coordinator 2 (OnRemoteSensor CreateRemoteRef) ?s3"
  let ?s5 = "?s4\<lparr>heap := heap ?s4 @ [?n ?ev], actors := [(''logger'', 0), (''device-ctrl'', 1), (''coordinator'', 2), (''evaluator'', 3)], wg := 4\<rparr>"
  have m1: "MustSpawn home_ops ?l DefaultSpawnOptions (NewActorSystem w) = Some (0, ?s1)"
    using MustSpawn_home [of "NewActorSystem w" ?l DefaultSpawnOptions] by (simp add: NewActorSystem_def NewLoggerActor_def DefaultSpawnOptions_def)
  have m2: "MustSpawn home_ops ?d DefaultSpawnOptions ?s1 = Some (1, ?s2)"
    using MustSpawn_home [of ?s1 ?d DefaultSpawnOptions] by (simp add: NewDeviceControllerActor_def DefaultSpawnOptions_def)
  have m3: "MustSpawn home_ops (ACoordinator ?c) DefaultSpawnOptions ?s2 = Some (2, ?s3)"
    using MustSpawn_home [of ?s2 "ACoordinator ?c" DefaultSpawnOptions] by (simp add: SetTrainingConfig_def NewCoordinatorActor_def DefaultSpawnOptions_def)
  have s4: "?s4 = ?s [?n ?l, ?n ?d, ?n (ACoordinator (OnRemoteSensor CreateRemoteRef ?c))] [(''logger'', 0), (''device-ctrl'', 1), (''coordinator'', 2)]"
    by (simp add: on_coordinator_def set_actor_def upd_ent_def new_entry_def)
  have m5: "MustSpawn home_ops ?ev DefaultSpawnOptions ?s4 = Some (3, ?s5)"
    unfolding s4 using MustSpawn_home [of "?s [?n ?l, ?n ?d, ?n (ACoordinator (OnRemoteSensor CreateRemoteRef ?c))] [(''logger'', 0), (''device-ctrl'', 1), (''coordinator'', 2)]" ?ev DefaultSpawnOptions]
    by (simp add: NewEvaluatorActor_def DefaultSpawnOptions_def)
  have "sys_inv home_ops ?s3" using MustSpawn_inv [OF m3 MustSpawn_inv [OF m2 MustSpawn_inv [OF m1 home.NewActorSystem_inv]]] .
  moreover have "safe_call home_ops ?s3 ?s4" by (intro on_coordinator_safe) (simp add: OnRemoteSensor_def)
  ultimately have "sys_inv home_ops ?s4" by (rule safe_call_inv [rotated])
  then have inv: "sys_inv home_ops ?s5" by (rule MustSpawn_inv [OF m5])
  have "listed 2 n [] ?s5"
    using inv unfolding listed_def s4
    by (simp add: new_entry_def holds_def contents_def DefaultSpawnOptions_def NewMailbox_def DefaultMailboxSize_def OnRemoteSensor_def SetTrainingConfig_def NewCoordinatorActor_def)
  moreover have "coordinator_service ep rate vn vdr (NewActorSystem w) = Some (2, 3, ?s5)"
    unfolding coordinator_service_def m1 using m2 m3 m5 vs by (simp add: Let_def)
  ultimately show ?thesis by (intro that [of ?s5]) simp_all
qed

lemma manualSensors_inv: "gomap_inv (manualSensors x)"
proof -
  have "gomap_inv (fold (\<lambda>part m. case SplitN2 (CHR ''='') part of [k, v] \<Rightarrow> mput k v m | _ \<Rightarrow> m) ps m)" if "gomap_inv m" for ps and m :: "(string, string) gomap"
    using that by (induction ps arbitrary: m) (auto split: list.split)
  from this [of "[]"] show ?thesis by (simp add: manualSensors_def gomap_inv_def)
qed

subsection \<open>Loops\<close>

definition leaves_wait :: "int \<Rightarrow> int \<Rightarrow> int \<times> int \<Rightarrow> bool" where
  "leaves_wait m deadline ob \<longleftrightarrow> m \<le> fst ob \<or> deadline < snd ob"

lemma wait_sensors_first:
  assumes "k < length obs" "leaves_wait m deadline (obs ! k)"
  shows "\<exists>j\<le>k. wait_sensors m deadline obs = Some j \<and> leaves_wait m deadline (obs ! j) \<and> (\<forall>i<j. \<not> leaves_wait m deadline (obs ! i))"
  using assms
proof (induction obs arbitrary: k)
  case (Cons ob obs)
  show ?case
  proof (cases "leaves_wait m deadline ob")
    case True
    then show ?thesis by (cases ob) (auto simp: leaves_wait_def intro!: exI [of _ 0])
  next
    case False
    then obtain k' where k': "k = Suc k'" using Cons.prems by (cases k) auto
    then obtain j where j: "j \<le> k'" "wait_sensors m deadline obs = Some j" "leaves_wait m deadline (obs ! j)" "\<forall>i<j. \<not> leaves_wait m deadline (obs ! i)"
      using Cons.IH [of k'] Cons.prems by auto
    then show ?thesis using False k'
      by (intro exI [of _ "Suc j"]) (cases ob; auto simp: leaves_wait_def nth_Cons split: nat.splits)
  qed
qed simp

text \<open>The clock at a turn of a loop that sleeps \<open>d\<close> between its turns.\<close>

lemma spaced_clock:
  assumes "\<forall>k. Suc k < length obs \<longrightarrow> snd (obs ! k) + d \<le> snd (obs ! Suc k)" "k < length obs"
  shows "snd (obs ! 0) + int k * d \<le> snd (obs ! k)"
  using assms(2)
proof (induction k)
  case (Suc k)
  then have "snd (obs ! k) + d \<le> snd (obs ! Suc k)" "snd (obs ! 0) + int k * d \<le> snd (obs ! k)" using assms(1) by simp_all
  then show ?case by (simp add: algebra_simps)
qed simp

text \<open>The loop is that of the demo, which collects the results of a round first.\<close>

lemma service_rounds_eq: "service_rounds vs n ins rs = map_option ((@) rs) (demo_rounds vs n ins)"
proof (induction vs n ins rs rule: service_rounds.induct)
  case (2 vs n r obs w reply ins rs)
  show ?case
  proof (cases "poll n obs")
    case False
    then show ?thesis using 2(1) by (simp add: round_result_def)
  next
    case True
    show ?thesis
    proof (cases reply)
      case (Inl err)
      then show ?thesis using True 2(2) by (cases "demo_rounds vs (n + 1) ins")
          (auto simp: round_result_def inline_metrics_def split: bind_splits prod.splits)
    next
      case (Inr msg)
      then show ?thesis using True 2(3-) by (cases "demo_rounds vs (n + 1) ins")
          (auto simp: round_result_def split: any.splits payload.splits)
    qed
  qed
qed simp

lemma round_result_round: "round_result r vs n obs w reply = Some xs \<Longrightarrow> xs = [] \<or> (\<exists>ms. xs = [\<lparr>Round_of = n, Metrics_of = ms\<rparr>]) \<and> poll n obs"
  by (auto simp: round_result_def split: if_splits sum.splits any.splits payload.splits)

lemma demo_rounds_sorted:
  assumes "demo_rounds vs n ins = Some rs"
  shows "sorted_wrt (<) (map Round_of rs) \<and> (\<forall>x\<in>set rs. n \<le> Round_of x \<and> Round_of x < n + int (length ins) \<and> poll (Round_of x) (fst (snd (ins ! nat (Round_of x - n)))))"
  using assms
proof (induction ins arbitrary: n rs)
  case (Cons x ins)
  obtain r obs w reply where x: "x = (r, obs, w, reply)" by (metis prod_cases4)
  obtain xs ys where s: "round_result r vs n obs w reply = Some xs" "demo_rounds vs (n + 1) ins = Some ys" "rs = xs @ ys"
    using Cons.prems x by (auto simp: bind_eq_Some_conv)
  have ys: "n < Round_of y \<and> Round_of y < n + int (length (x # ins)) \<and> poll (Round_of y) (fst (snd ((x # ins) ! nat (Round_of y - n))))"
    if "y \<in> set ys" for y
  proof -
    have "n + 1 \<le> Round_of y" "Round_of y < n + 1 + int (length ins)" "poll (Round_of y) (fst (snd (ins ! nat (Round_of y - (n + 1)))))"
      using Cons.IH [OF s(2)] that by blast+
    moreover then have "nat (Round_of y - n) = Suc (nat (Round_of y - (n + 1)))" by simp
    ultimately show ?thesis by simp
  qed
  have so: "sorted_wrt (<) (map Round_of ys)" using Cons.IH [OF s(2)] by blast
  from round_result_round [OF s(1)] show ?case
  proof
    assume "xs = []"
    then show ?thesis using so ys s(3) by force
  next
    assume "(\<exists>ms. xs = [\<lparr>Round_of = n, Metrics_of = ms\<rparr>]) \<and> poll n obs"
    then show ?thesis using so ys s(3) x by force
  qed
qed simp

section \<open>Properties\<close>

text \<open>
  C16: the coordinator service comes up. If the server can listen and the number of validation samples is not negative, the service has started exactly its four actors; every
  sensor of \<^verbatim>\<open>SENSOR_ADDRS\<close> is reached under its address from then on, and its registration waits in the mailbox of the coordinator, in the order of
  the iteration; the service waits for other sensors exactly if none is listed. If the server cannot listen, the service panics.
\<close>

theorem coordinator_service_ready:
  fixes w :: "sensor_factory world"
    and E :: "string \<rightharpoonup> string"
  defines "manual \<equiv> manualSensors (env_or E ''SENSOR_ADDRS'' '''')"
  assumes asm: "0 \<le> envInt E ''VAL_SAMPLES'' 100" "env_ok e" "length manual \<le> DefaultMailboxSize"
  shows "coordinator_main ParseFloat E (Inl err) vdr e (NewActorSystem w) = None \<and>
    (\<exists>c ev s st. coordinator_main ParseFloat E (Inr bound) vdr e (NewActorSystem w) = Some (c, ev, manual = [], s) \<and> sys_inv home_ops s \<and>
      {i. \<exists>a. Lookup i s = Inr a} = {''logger'', ''device-ctrl'', ''coordinator'', ''evaluator''} \<and>
      Lookup ''coordinator'' s = Inr c \<and> actor (ent s c) = ACoordinator st \<and>
      (\<forall>i addr x. mget manual i = Some addr \<longrightarrow> lookupRef x st i = Some (RemoteRef i addr)) \<and>
      contents (mbox (ent s c)) = map (manual_msg (envInt E ''SAMPLES_PER_SENSOR'' 800)) (iter e (keys manual)))"
proof -
  let ?cfg = "coordinator_settings ParseFloat E" and ?n = "envInt E ''SAMPLES_PER_SENSOR'' 800"
  let ?kvs = "map (\<lambda>i. (i, the (mget manual i))) (iter e (keys manual))"
  have cfg: "svcValSamples ?cfg = envInt E ''VAL_SAMPLES'' 100" "svcSamples ?cfg = ?n" "manualSensors (svcSensorAddrs ?cfg) = manual"
    by (simp_all add: coordinator_settings_def manual_def)
  have d: "distinct (keys manual)" using manualSensors_inv [of "env_or E ''SENSOR_ADDRS'' ''''"] by (simp only: gomap_inv_def manual_def)
  obtain s0 where s0: "coordinator_service (svcEpochs ?cfg) (svcLR ?cfg) (svcValSamples ?cfg) vdr (NewActorSystem w) = Some (2, 3, s0)" "listed 2 ?n [] s0"
      "actors s0 = [(''logger'', 0), (''device-ctrl'', 1), (''coordinator'', 2), (''evaluator'', 3)]"
    by (rule coordinator_service_starts [where w = w and vn = "svcValSamples ?cfg" and ep = "svcEpochs ?cfg" and rate = "svcLR ?cfg" and vdr = vdr and n = ?n])
      (use asm(1) cfg in simp)
  have keys: "keys ?kvs = iter e (keys manual)" by (simp add: comp_def)
  then have "distinct (keys ([] @ ?kvs))" using d asm(2) by simp
  moreover have "length ([] @ ?kvs) \<le> DefaultMailboxSize" using asm(2,3) by simp
  ultimately obtain s where s: "register_manual 2 ?n ?kvs s0 = Done s" "listed 2 ?n ([] @ ?kvs) s" "actors s = actors s0"
    using register_manual_listed [OF s0(2)] by blast
  have main: "coordinator_main ParseFloat E (Inr bound) vdr e (NewActorSystem w) = Some (2, 3, manual = [], s)"
  proof (cases "manual = []")
    case True
    then have "iter e (keys manual) = []" using env_ok_length [OF asm(2), of "[]"] by simp
    then show ?thesis using True s0(1) s(1) cfg by (simp add: coordinator_main_def server_Start_def Let_def)
  next
    case False
    then show ?thesis using s0(1) s(1) cfg by (simp add: coordinator_main_def server_Start_def Let_def)
  qed
  obtain st where st: "sys_inv home_ops s" "holds (map (\<lambda>kv. manual_msg ?n (fst kv)) ?kvs) (mbox (ent s 2))" "actor (ent s 2) = ACoordinator st"
      "\<And>i addr. (i, addr) \<in> set ?kvs \<Longrightarrow> mget (sensorRemoteRefs st) i = Some (RemoteRef i addr)"
    using s(2) by (auto simp: listed_def)
  have "lookupRef x st i = Some (RemoteRef i addr)" if "mget manual i = Some addr" for x i addr
  proof -
    have "i \<in> set (keys manual)" using map_of_SomeD [OF that] by force
    then have "(i, addr) \<in> set ?kvs" using that asm(2) by (auto intro!: image_eqI [of _ _ i])
    then show ?thesis by (simp add: lookupRef_def st(4))
  qed
  moreover have "{i. \<exists>a. Lookup i s = Inr a} = {''logger'', ''device-ctrl'', ''coordinator'', ''evaluator''}" "Lookup ''coordinator'' s = Inr 2"
    using s(3) s0(3) by (auto simp: Lookup_keys) (simp add: Lookup_def)
  moreover have "contents (mbox (ent s 2)) = map (manual_msg ?n) (iter e (keys manual))" using st(2) by (simp add: holds_def comp_def)
  moreover have "coordinator_main ParseFloat E (Inl err) vdr e (NewActorSystem w) = None" by (simp add: coordinator_main_def server_Start_def)
  ultimately show ?thesis using main st(1,3) by (intro conjI exI [of _ 2] exI [of _ 3] exI [of _ s] exI [of _ st] allI impI)
qed

theorem coordinator_service_ready_witness:
  "\<exists>c ev s st. coordinator_main (\<lambda>_. None) [''SENSOR_ADDRS'' \<mapsto> ''sensor-a=h:1''] (Inr '':50051'') (\<lambda>_. undefined) \<lparr>now = 0, iter = (\<lambda>ks. ks)\<rparr>
      (NewActorSystem \<lparr>disk = [], io = [], tasks = [], network = [], rng = (\<lambda>_. 0)\<rparr>) = Some (c, ev, False, s) \<and>
    actor (ent s c) = ACoordinator st \<and> lookupRef undefined st ''sensor-a'' = Some (RemoteRef ''sensor-a'' ''h:1'') \<and>
    contents (mbox (ent s c)) = [manual_msg 800 ''sensor-a'']"
proof -
  let ?E = "[''SENSOR_ADDRS'' \<mapsto> ''sensor-a=h:1''] :: string \<rightharpoonup> string" and ?e = "\<lparr>now = 0, iter = (\<lambda>ks. ks)\<rparr>"
  let ?w = "\<lparr>disk = [], io = [], tasks = [], network = [], rng = (\<lambda>_. 0)\<rparr> :: sensor_factory world"
  have m: "manualSensors (env_or ?E ''SENSOR_ADDRS'' '''') = [(''sensor-a'', ''h:1'')]" by (simp add: env_or_def manualSensors_def SplitN2_def)
  have "0 \<le> envInt ?E ''VAL_SAMPLES'' 100" "envInt ?E ''SAMPLES_PER_SENSOR'' 800 = 800" "env_ok ?e" "length (manualSensors (env_or ?E ''SENSOR_ADDRS'' '''')) \<le> DefaultMailboxSize"
    unfolding m by (simp_all add: envInt_def env_ok_def DefaultMailboxSize_def)
  note n = this(2) and r = coordinator_service_ready [OF this(1,3,4), where w = ?w and ParseFloat = "\<lambda>_. None" and vdr = "\<lambda>_. undefined" and bound = "'':50051''" and err = "[]"]
  then obtain c ev s st where s: "coordinator_main (\<lambda>_. None) ?E (Inr '':50051'') (\<lambda>_. undefined) ?e (NewActorSystem ?w) = Some (c, ev, manualSensors (env_or ?E ''SENSOR_ADDRS'' '''') = [], s)"
      "actor (ent s c) = ACoordinator st"
      "\<forall>i addr x. mget (manualSensors (env_or ?E ''SENSOR_ADDRS'' '''')) i = Some addr \<longrightarrow> lookupRef x st i = Some (RemoteRef i addr)"
      "contents (mbox (ent s c)) = map (manual_msg (envInt ?E ''SAMPLES_PER_SENSOR'' 800)) (iter ?e (keys (manualSensors (env_or ?E ''SENSOR_ADDRS'' ''''))))"
    by (elim exE conjE) (rule that)
  show ?thesis using s unfolding m n by (intro exI [of _ c] exI [of _ ev] exI [of _ s] exI [of _ st]) simp
qed

text \<open>
  The service does not wait for sensors forever. With at least half a second between two turns of the loop, it leaves the loop at the 62nd turn at the latest,
  and exactly at the first turn at which enough sensors are registered or thirty seconds are over.
\<close>

theorem registration_wait_ends:
  assumes "62 \<le> length obs" "t0 \<le> snd (obs ! 0)" "\<forall>k. Suc k < length obs \<longrightarrow> snd (obs ! k) + 500000000 \<le> snd (obs ! Suc k)"
  shows "\<exists>k<62. wait_sensors m (t0 + 30 * Second) obs = Some k \<and> (m \<le> fst (obs ! k) \<or> t0 + 30 * Second < snd (obs ! k)) \<and>
    (\<forall>j<k. fst (obs ! j) < m \<and> snd (obs ! j) \<le> t0 + 30 * Second)"
proof -
  have "snd (obs ! 0) + int 61 * 500000000 \<le> snd (obs ! 61)" using spaced_clock [OF assms(3), of 61] assms(1) by simp
  then have "leaves_wait m (t0 + 30 * Second) (obs ! 61)" using assms(2) by (simp add: leaves_wait_def Second_def)
  then obtain j where "j \<le> 61" "wait_sensors m (t0 + 30 * Second) obs = Some j" "leaves_wait m (t0 + 30 * Second) (obs ! j)"
      "\<forall>i<j. \<not> leaves_wait m (t0 + 30 * Second) (obs ! i)"
    using wait_sensors_first [of 61 obs m "t0 + 30 * Second"] assms(1) by auto
  then show ?thesis by (intro exI [of _ j]) (simp add: leaves_wait_def not_le not_less)
qed

theorem registration_wait_ends_witness:
  "\<exists>k<62. wait_sensors 1 (30 * Second) (map (\<lambda>k. (0, int k * 500000000)) [0..<62]) = Some k"
proof -
  let ?obs = "map (\<lambda>k. (0, int k * 500000000)) [0..<62] :: (int \<times> int) list"
  have "\<forall>k. Suc k < length ?obs \<longrightarrow> snd (?obs ! k) + 500000000 \<le> snd (?obs ! Suc k)"
  proof (intro allI impI)
    fix k assume "Suc k < length ?obs"
    then have "k < 62" "Suc k < 62" by simp_all
    then show "snd (?obs ! k) + 500000000 \<le> snd (?obs ! Suc k)" by (simp del: upt_rec_numeral)
  qed
  moreover have "0 \<le> snd (?obs ! 0)" by simp
  ultimately show ?thesis using registration_wait_ends [of ?obs 0 1] by (auto simp del: upt_rec_numeral)
qed

text \<open>
  What the service reports. The results are those of the demo's loop for the same observations; each belongs to a round of this run that the logger has seen complete, and no
  round has two; the summary after the table counts them and shows the last one, and the chart has a point for each. Without a result the service prints that there is
  no data, and does not panic.
\<close>

theorem service_reports_rounds:
  assumes "service_rounds vs 1 ins [] = Some rs"
  shows "demo_rounds vs 1 ins = Some rs \<and> sorted_wrt (<) (map Round_of rs) \<and>
    (\<forall>x\<in>set rs. 1 \<le> Round_of x \<and> Round_of x \<le> int (length ins) \<and> poll (Round_of x) (fst (snd (ins ! nat (Round_of x - 1))))) \<and>
    (if rs = [] then coordinator_report ok rs = (Println ''(no data)'', Inr None)
     else \<exists>c. coordinator_report True rs = (PrintConvergenceTable rs @ PrintSummary (int (length rs)) (Metrics_of (last rs)), Inr (Some (svg_text c))) \<and>
       length (msePoints c) = length rs \<and> length (r2Points c) = length rs)"
proof -
  have d: "demo_rounds vs 1 ins = Some rs" using assms by (simp add: service_rounds_eq)
  have "if rs = [] then coordinator_report ok rs = (Println ''(no data)'', Inr None)
     else \<exists>c. coordinator_report True rs = (PrintConvergenceTable rs @ PrintSummary (int (length rs)) (Metrics_of (last rs)), Inr (Some (svg_text c))) \<and>
       length (msePoints c) = length rs \<and> length (r2Points c) = length rs"
  proof (cases "rs = []")
    case True
    then show ?thesis by (simp add: coordinator_report_def final_report_def write_chart_def PrintConvergenceTable_def GenerateSVG_def)
  next
    case False
    then obtain c where "GenerateSVG rs = Some c" "length (msePoints c) = length rs" "length (r2Points c) = length rs"
      by (cases "extremes rs") (simp add: GenerateSVG_def Let_def)
    then have "coordinator_report True rs = (PrintConvergenceTable rs @ PrintSummary (int (length rs)) (Metrics_of (last rs)), Inr (Some (svg_text c)))"
      using False by (simp add: coordinator_report_def final_report_def write_chart_def last_conv_nth)
    with False \<open>length (msePoints c) = length rs\<close> \<open>length (r2Points c) = length rs\<close> show ?thesis by auto
  qed
  with demo_rounds_sorted [OF d] d show ?thesis by force
qed

theorem service_reports_rounds_witness:
  "let ms = \<lparr>MSE = FNum 1, RMSE = FNum 1, MAE = FNum 1, R2 = FNum 1\<rparr>;
     ins = [((\<lambda>_. 0), [], SNil, Inl ''late''),
       ((\<lambda>_. 0), [Some (RoundCompletePayload 2 0 2 0)], SNil, Inr (mkMessage '''' (Dyn (EvaluationResultPayload 2 (FNum 1) (FNum 1) (FNum 1) (FNum 1))) ''''))] ::
       ((nat \<Rightarrow> f64) \<times> unit payload option list \<times> f64 slice \<times> (string + unit payload message)) list
   in service_rounds [] 1 ins [] = Some [\<lparr>Round_of = 2, Metrics_of = ms\<rparr>] \<and>
     fst (coordinator_report True [\<lparr>Round_of = 2, Metrics_of = ms\<rparr>]) = PrintConvergenceTable [\<lparr>Round_of = 2, Metrics_of = ms\<rparr>] @ PrintSummary 1 ms"
proof -
  let ?ms = "\<lparr>MSE = FNum 1, RMSE = FNum 1, MAE = FNum 1, R2 = FNum 1\<rparr>"
  let ?ins = "[((\<lambda>_. 0), [], SNil, Inl ''late''),
       ((\<lambda>_. 0), [Some (RoundCompletePayload 2 0 2 0)], SNil, Inr (mkMessage '''' (Dyn (EvaluationResultPayload 2 (FNum 1) (FNum 1) (FNum 1) (FNum 1))) ''''))] ::
       ((nat \<Rightarrow> f64) \<times> unit payload option list \<times> f64 slice \<times> (string + unit payload message)) list"
  have r: "service_rounds [] 1 ?ins [] = Some [\<lparr>Round_of = 2, Metrics_of = ?ms\<rparr>]" by (simp add: mkMessage_def)
  then show ?thesis using service_reports_rounds [OF r, of True] by (auto simp: Let_def)
qed

end
