(* ===== verification/SensorService.thy ===== *)
theory SensorService
  imports Services Client
begin

text \<open>
  The main function of the sensor service (\<^verbatim>\<open>cmd/sensor-service/main.go\<close>): its settings and its start with the server. \<open>listen\<close> is the result of \<^verbatim>\<open>net.Listen\<close>,
  \<open>ParseFloat\<close> stands for \<^verbatim>\<open>strconv.ParseFloat\<close>. After that the main goroutine waits forever.
\<close>

record SensorSettings =
  setCoordAddr :: string
  setAddr :: string
  setID :: string
  setRoom :: string
  setSamples :: int
  setNonIID :: bool
  setEpochs :: int
  setLR :: f64
  setCoordID :: string
  setMyAddr :: string

definition sensor_settings :: "(string \<Rightarrow> f64 option) \<Rightarrow> (string \<rightharpoonup> string) \<Rightarrow> SensorSettings" where
  "sensor_settings ParseFloat E = \<lparr>
     setCoordAddr = env_or E ''COORD_ADDR'' ''coordinator:50051'',
     setAddr = env_or E ''SENSOR_ADDR'' '':5051'',
     setID = env_or E ''SENSOR_ID'' ''sensor-kitchen'',
     setRoom = env_or E ''ROOM_ID'' ''kitchen'',
     setSamples = envInt E ''SAMPLES'' 800,
     setNonIID = (env_or E ''NON_IID'' ''true'' = ''true''),
     setEpochs = envInt E ''EPOCHS'' 1,
     setLR = (let v = env_or E ''LEARNING_RATE'' ''''
           in if v \<noteq> '''' then (case ParseFloat v of Some f \<Rightarrow> f | None \<Rightarrow> lit (1 / 100)) else lit (1 / 100)),
     setCoordID = env_or E ''COORD_ID'' ''coordinator'',
     setMyAddr = env_or E ''MY_ADDR'' ''''\<rparr>"

text \<open>From the server to the registration; \<^const>\<open>None\<close> is a panic, also the one for a server that cannot start.\<close>

definition sensor_main :: "(string \<Rightarrow> f64 option) \<Rightarrow> (nat \<Rightarrow> f64) \<Rightarrow> (nat \<Rightarrow> nat \<Rightarrow> draws) \<Rightarrow> (string \<rightharpoonup> string) \<Rightarrow> string + string \<Rightarrow> home \<Rightarrow> home option" where
  "sensor_main ParseFloat r dr E listen s =
    (case server_Start listen (setAddr (sensor_settings ParseFloat E)) NewActorServer of
       (Some err, _, _) \<Rightarrow> None
     | (None, server, _) \<Rightarrow> sensor_service r dr E (Addr server) s)"

section \<open>Lemmas\<close>

text \<open>What the service does depends on its settings only, and on neither the epochs nor the learning rate among them.\<close>

lemma sensor_service_settings:
  "sensor_service r dr E listening s = do {
     let cfg = sensor_settings ParseFloat E;
     let coordRef = RemoteRef (setCoordID cfg) (setCoordAddr cfg);
     datasets \<leftarrow> GenerateSensors dr [setRoom cfg] (setSamples cfg) (setNonIID cfg);
     let trainData = data_of datasets (setRoom cfg);
     let sensor = SetCoordinatorRef coordRef (NewSensorActor r (setID cfg) (setRoom cfg) (setCoordID cfg) trainData);
     (a, s) \<leftarrow> MustSpawn home_ops (ASensor sensor) DefaultSpawnOptions s;
     let advertiseAddr = (if setMyAddr cfg = '''' then listening else setMyAddr cfg);
     returned (perform1 a (RegisterSensor coordRef (setID cfg) (setRoom cfg) (int (length trainData)) advertiseAddr) s)
   }"
  by (simp add: sensor_service_def sensor_settings_def advertised_def Let_def)

lemma server_Start_bound:
  "sensor_main ParseFloat r dr E (Inl err) s = None" "sensor_main ParseFloat r dr E (Inr bound) s = sensor_service r dr E bound s"
  by (simp_all add: sensor_main_def server_Start_def Addr_def)

lemma GenerateSensors_single: "GenerateSensors dr [room] n b = None \<longleftrightarrow> n < 0"
  by (simp add: GenerateSensors_def GenerateSamples_def)

section \<open>Properties\<close>

text \<open>
  C17: the sensor service comes up. It panics if the server cannot listen or the number of samples is negative. Otherwise it runs exactly one actor, the sensor, idle, with as many samples as
  asked for and a remote reference to the coordinator; and one request has been sent to the coordinator, which registers the sensor under the address that is advertised. The
  settings \<^verbatim>\<open>EPOCHS\<close> and \<^verbatim>\<open>LEARNING_RATE\<close> have no effect.
\<close>

theorem sensor_service_ready:
  fixes w :: "sensor_factory world" and E :: "string \<rightharpoonup> string" and ParseFloat :: "string \<Rightarrow> f64 option"
  defines "cfg \<equiv> sensor_settings ParseFloat E"
  shows "sensor_main ParseFloat r dr E (Inl err) (NewActorSystem w) = None \<and>
    (case sensor_main ParseFloat r dr E (Inr bound) (NewActorSystem w) of
       None \<Rightarrow> setSamples cfg < 0
     | Some s \<Rightarrow> sys_inv home_ops s \<and> actors s = [(setID cfg, 0)] \<and>
         (\<exists>x. heap s = [new_entry (ASensor x) DefaultSpawnOptions] \<and> sensorID x = setID cfg \<and> state x = ''idle'' \<and>
           coordinatorRef x = Some (RemoteRef (setCoordID cfg) (setCoordAddr cfg)) \<and> int (length (trainData x)) = setSamples cfg) \<and>
         network (world s) = network w @ [(setCoordAddr cfg, marshalTell (setCoordID cfg) (mkMessage MsgRegisterSensor
           (Dyn (RegisterSensorPayload (setID cfg) (setRoom cfg) (setSamples cfg) (if setMyAddr cfg = '''' then bound else setMyAddr cfg))) '''' :: home_message))]) \<and>
    sensor_main ParseFloat' r dr (E(''EPOCHS'' := a, ''LEARNING_RATE'' := b)) (Inr bound) s0 = sensor_main ParseFloat r dr E (Inr bound) s0"
proof (intro conjI)
  show "sensor_main ParseFloat' r dr (E(''EPOCHS'' := a, ''LEARNING_RATE'' := b)) (Inr bound) s0 = sensor_main ParseFloat r dr E (Inr bound) s0"
    by (simp add: server_Start_bound sensor_service_def advertised_def env_or_def envInt_def)
  let ?res = "sensor_main ParseFloat r dr E (Inr bound) (NewActorSystem w)"
  note svc = sensor_service_settings [of r dr E bound "NewActorSystem w" ParseFloat, unfolded Let_def, folded cfg_def]
  let ?adv = "if setMyAddr cfg = '''' then bound else setMyAddr cfg"
  show "case ?res of None \<Rightarrow> setSamples cfg < 0
     | Some s \<Rightarrow> sys_inv home_ops s \<and> actors s = [(setID cfg, 0)] \<and>
         (\<exists>x. heap s = [new_entry (ASensor x) DefaultSpawnOptions] \<and> sensorID x = setID cfg \<and> state x = ''idle'' \<and>
           coordinatorRef x = Some (RemoteRef (setCoordID cfg) (setCoordAddr cfg)) \<and> int (length (trainData x)) = setSamples cfg) \<and>
         network (world s) = network w @ [(setCoordAddr cfg, marshalTell (setCoordID cfg) (mkMessage MsgRegisterSensor
           (Dyn (RegisterSensorPayload (setID cfg) (setRoom cfg) (setSamples cfg) ?adv)) '''' :: home_message))]"
  proof (cases "GenerateSensors dr [setRoom cfg] (setSamples cfg) (setNonIID cfg)")
    case None
    then show ?thesis using GenerateSensors_single [of dr "setRoom cfg" "setSamples cfg" "setNonIID cfg"] by (simp add: server_Start_bound svc)
  next
    case (Some ds)
    let ?d = "data_of ds (setRoom cfg)"
    let ?x = "SetCoordinatorRef (RemoteRef (setCoordID cfg) (setCoordAddr cfg)) (NewSensorActor r (setID cfg) (setRoom cfg) (setCoordID cfg) ?d)"
    let ?s1 = "\<lparr>heap = [new_entry (ASensor ?x) DefaultSpawnOptions], actors = [(setID cfg, 0)], shut = False, wg = 1, replies = [], world = w\<rparr> :: home"
    let ?s2 = "?s1\<lparr>world := w\<lparr>network := network w @ [(setCoordAddr cfg, marshalTell (setCoordID cfg) (mkMessage MsgRegisterSensor
           (Dyn (RegisterSensorPayload (setID cfg) (setRoom cfg) (int (length ?d)) ?adv)) '''' :: home_message))]\<rparr>\<rparr>"
    have m: "MustSpawn home_ops (ASensor ?x) DefaultSpawnOptions (NewActorSystem w) = Some (0, ?s1)"
      using MustSpawn_home [of "NewActorSystem w" "ASensor ?x" DefaultSpawnOptions]
      by (simp add: NewActorSystem_def SetCoordinatorRef_def NewSensorActor_def DefaultSpawnOptions_def)
    have "?res = Some ?s2"
      using Some m by (simp add: server_Start_bound svc RegisterSensor_def)
    moreover have "sys_inv home_ops ?s2" by (rule safe_call_inv [OF safe_call_world MustSpawn_inv [OF m home.NewActorSystem_inv]])
    moreover have "int (length ?d) = setSamples cfg" by (rule GenerateSensors_one [OF Some])
    moreover have "sensorID ?x = setID cfg" "state ?x = ''idle''" "coordinatorRef ?x = Some (RemoteRef (setCoordID cfg) (setCoordAddr cfg))" "trainData ?x = ?d"
      by (simp_all add: SetCoordinatorRef_def NewSensorActor_def)
    ultimately show ?thesis by (auto intro!: exI [of _ ?x])
  qed
qed (simp add: server_Start_bound)

end
