(* ===== verification/DemoReport.thy ===== *)
theory DemoReport
  imports Demo Report SvgText
begin

text \<open>
  The rest of the main function of the demo (\<^verbatim>\<open>cmd/demo/main.go\<close>): how it starts a round, with the crash that it causes in the third one, and what it does after the
  last one: the summary, the chart, and a file with the final metrics that it saves and loads again.
\<close>

section \<open>Starting a round\<close>

definition crash_round :: "int \<Rightarrow> int \<Rightarrow> bool" where
  "crash_round numRounds n \<longleftrightarrow> (let crashRound = 3 in n = crashRound \<and> numRounds \<ge> crashRound)"

text \<open>
  From the head of the loop to the wait. In the crash round the main goroutine sleeps between the two messages, and the other goroutines go on; the result says whether the
  kitchen sensor was sent the crash message.
\<close>

inductive launch :: "int \<Rightarrow> int \<Rightarrow> nat \<Rightarrow> home \<Rightarrow> bool \<Rightarrow> home \<Rightarrow> bool" where
  normal: "\<not> crash_round numRounds n \<Longrightarrow> perform1 coordRef (StartRound (LocalRef coordRef)) s = Done s' \<Longrightarrow> launch numRounds n coordRef s False s'"
| crash: "crash_round numRounds n \<Longrightarrow> perform1 coordRef (StartRound (LocalRef coordRef)) s = Done s1 \<Longrightarrow> lrun home_step s1 ls s2 \<Longrightarrow>
    crash_kitchen s2 = Done s' \<Longrightarrow> launch numRounds n coordRef s (\<exists>ref. Lookup ''sensor-kitchen'' s2 = Inr ref) s'"

section \<open>Report\<close>

text \<open>The printed table and summary, and the file with the chart; \<open>ok\<close> says whether the file can be written.\<close>

definition demo_report :: "bool \<Rightarrow> RoundResult list \<Rightarrow> string \<times> (unit + string option)" where
  "demo_report ok rs = (final_report rs, write_chart rs ok)"

text \<open>The value of type \<^verbatim>\<open>map[string]any\<close> that is saved; \<^const>\<open>None\<close> is the panic of an index out of range.\<close>

definition demo_state :: "string \<Rightarrow> string \<Rightarrow> RoundResult list \<Rightarrow> (string \<times> json) list option" where
  "demo_state timestamp configPath rs = do {
     m \<leftarrow> final_metrics rs;
     Some [(''rounds_completed'', JInt (int (length rs))), (''final_mse'', JNum (MSE m)), (''final_rmse'', JNum (RMSE m)),
       (''final_mae'', JNum (MAE m)), (''final_r2'', JNum (R2 m)), (''timestamp'', JStr timestamp), (''config'', JStr configPath)]
   }"

text \<open>\<^verbatim>\<open>json.Unmarshal\<close> into a \<^verbatim>\<open>map[string]any\<close>.\<close>

definition decode_map :: "json \<Rightarrow> (string \<times> json) list option" where
  "decode_map j = (case to_any j of JNull \<Rightarrow> Some [] | JObj kvs \<Rightarrow> Some kvs | _ \<Rightarrow> None)"

text \<open>The error of the save, the result of the load that follows a save without error, and the disk.\<close>

definition demo_persistence :: "fault \<Rightarrow> fault \<Rightarrow> Persister \<Rightarrow> string \<Rightarrow> string \<Rightarrow> RoundResult list \<Rightarrow> disk \<Rightarrow>
    (persist_error option \<times> (persist_error + (string \<times> json) list) option \<times> disk) option" where
  "demo_persistence fl fl' p timestamp configPath rs d = do {
     st \<leftarrow> demo_state timestamp configPath rs;
     Some (case save_file fl p ''demo-state'' (marshal_any_map st) d of
       (Some err, d1) \<Rightarrow> (Some err, None, d1)
     | (None, d1) \<Rightarrow> (None, Some (load_file fl' p ''demo-state'' decode_map d1), d1))
   }"

section \<open>Lemmas\<close>

lemma mget_sort_key:
  assumes "distinct (keys m)"
  shows "mget (sort_key fst m) k = mget m k"
proof -
  have "mset (keys (sort_key fst m)) = mset (keys m)" by simp
  then have "distinct (keys (sort_key fst m))" using assms by (metis mset_eq_imp_distinct_iff)
  then have "mget (sort_key fst m) = mget m" using assms by (subst map_of_inject_set) (simp_all del: distinct_map)
  then show ?thesis by simp
qed

lemma mget_map_snd: "mget (map (\<lambda>kv. (fst kv, f (snd kv))) m) k = map_option f (mget m k)"
  by (induction m) auto

lemma demo_state_Nil: "demo_state timestamp configPath [] = None"
  by (simp add: demo_state_def final_metrics_def)

lemma demo_state_finite:
  assumes "demo_state timestamp configPath rs = Some st"
  defines "m \<equiv> Metrics_of (last rs)"
  shows "distinct (keys st)" "json_finite (JObj st) \<longleftrightarrow> list_all finite_f64 [MSE m, RMSE m, MAE m, R2 m]"
    "mget st ''rounds_completed'' = Some (JInt (int (length rs)))"
    "map (mget st) [''final_mse'', ''final_rmse'', ''final_mae'', ''final_r2''] = map (Some \<circ> JNum) [MSE m, RMSE m, MAE m, R2 m]"
  using assms by (auto simp: demo_state_def final_metrics_def last_conv_nth m_def split: if_splits)

text \<open>What the demo reads back from the document that it writes.\<close>

lemma decode_map_marshal:
  assumes "marshal_any_map st = Some j" "distinct (keys st)"
  shows "\<exists>kvs. decode_map j = Some kvs \<and> (\<forall>k. mget kvs k = map_option to_any (mget st k))"
  using assms by (auto simp: marshal_any_map_def decode_map_def mget_map_snd mget_sort_key split: if_splits)

text \<open>However the main goroutine starts a round, the registry stays exact.\<close>

lemma launch_inv:
  assumes "launch numRounds n coordRef s b s'" "sys_inv home_ops s"
  shows "sys_inv home_ops s'"
  using assms
proof (induction rule: launch.induct)
  case (normal numRounds n coordRef s s')
  then show ?case by (auto intro: safe_call_inv Tell_Done simp: StartRound_def)
next
  case (crash numRounds n coordRef s s1 ls s2 s')
  have "sys_inv home_ops s1" using crash.hyps(2) crash.prems by (auto intro: safe_call_inv Tell_Done simp: StartRound_def)
  with crash.hyps(3) have "sys_inv home_ops s2" by (induction rule: lrun.induct) (simp_all add: home_step_inv)
  then show ?case using crash.hyps(4) by (auto simp: crash_kitchen_def intro: safe_call_inv Tell_Done split: sum.splits)
qed

section \<open>Properties\<close>

text \<open>
  The summary of the demo. Without results the demo panics. If one of the last metrics is a NaN or an infinity nothing is written. Otherwise, unless a
  system call fails, the demo loads what it has saved: the last metrics as they were, and the number of results as a \<^verbatim>\<open>float64\<close>; no saved state of an actor is touched.
\<close>

theorem demo_summary:
  "case demo_persistence NoFault NoFault p timestamp configPath rs d of
     None \<Rightarrow> rs = []
   | Some (err, loaded, d') \<Rightarrow> rs \<noteq> [] \<and>
       (let m = Metrics_of (last rs); ms = [MSE m, RMSE m, MAE m, R2 m]
        in if list_all finite_f64 ms
           then err = None \<and> (\<forall>i. i \<noteq> ''demo-state'' \<longrightarrow> mget d' (filePath p i) = mget d (filePath p i)) \<and>
             (\<exists>kvs. loaded = Some (Inr kvs) \<and> mget kvs ''rounds_completed'' = Some (JNum (of_goint (int (length rs)))) \<and>
               map (mget kvs) [''final_mse'', ''final_rmse'', ''final_mae'', ''final_r2''] = map (Some \<circ> JNum) ms)
           else err = Some (MarshalFailed ''demo-state'') \<and> loaded = None \<and> d' = d)"
proof (cases "demo_state timestamp configPath rs")
  case None
  then show ?thesis by (simp add: demo_persistence_def) (simp add: demo_state_def final_metrics_def split: if_splits)
next
  case (Some st)
  let ?m = "Metrics_of (last rs)"
  let ?ms = "[MSE ?m, RMSE ?m, MAE ?m, R2 ?m]"
  note st = demo_state_finite [OF Some]
  have rs: "rs \<noteq> []" using Some demo_state_Nil [of timestamp configPath] by auto
  show ?thesis
  proof (cases "list_all finite_f64 ?ms")
    case False
    then have "marshal_any_map st = None" using st(2) by (simp add: marshal_any_map_def)
    then show ?thesis using False rs Some by (simp add: demo_persistence_def save_file_None)
  next
    case True
    then obtain j where j: "marshal_any_map st = Some j" using st(2) by (simp add: marshal_any_map_def)
    obtain kvs where kvs: "decode_map j = Some kvs" "\<And>k. mget kvs k = map_option to_any (mget st k)"
      using decode_map_marshal [OF j st(1)] by blast
    let ?S = "save_file NoFault p ''demo-state'' (Some j) d"
    have S: "fst ?S = None" by (simp add: save_file_error)
    note files = save_file_files [of NoFault p "''demo-state''" "Some j" d]
    have "load_file NoFault p ''demo-state'' decode_map (snd ?S) = Inr kvs" using files [of "''demo-state''"] S kvs(1) by (simp add: load_file_def)
    then have "demo_persistence NoFault NoFault p timestamp configPath rs d = Some (None, Some (Inr kvs), snd ?S)"
      using Some j S by (auto simp: demo_persistence_def split: prod.split)
    moreover have "mget kvs ''rounds_completed'' = Some (JNum (of_goint (int (length rs))))" using kvs(2) st(3) by simp
    moreover have "map (mget kvs) [''final_mse'', ''final_rmse'', ''final_mae'', ''final_r2''] = map (Some \<circ> JNum) ?ms"
      using kvs(2) st(4) by simp
    ultimately show ?thesis using True rs files S by simp
  qed
qed

end
