(* ===== verification/Turns.thy ===== *)
theory Turns
  imports SmartHome
begin

text \<open>
  Turns of running actors, seen from outside: an abstract configuration keeps, for each address, the state of the actor, its behaviour stack and the messages that wait
  for it, and the goroutines that are under way. \<open>models\<close> relates it to a state of the actor system in which every actor runs. A turn of the receive loop, a
  training goroutine and the pump of a mailbox are simulated by functions on configurations.
\<close>

section \<open>Open mailboxes\<close>

text \<open>A mailbox of the default size that is open and holds \<open>ms\<close>.\<close>

definition ready :: "'m list \<Rightarrow> 'm mailbox \<Rightarrow> bool" where
  "ready ms mb \<longleftrightarrow> mailbox_inv mb \<and> \<not> in_closed mb \<and> \<not> ch_closed mb \<and> (bounded mb \<or> \<not> pump_done mb) \<and>
    cap mb = DefaultMailboxSize \<and> strategy mb = DropNewest \<and> contents mb = ms"

text \<open>What the pump still has to do.\<close>

definition pump_work :: "'m mailbox \<Rightarrow> nat" where
  "pump_work mb = length (unboundedBuf mb) + 2 * length (unboundedIn mb)"

lemma ready_Enqueue:
  assumes "ready ms mb" "length ms < DefaultMailboxSize"
  shows "\<exists>mb'. Enqueue mb m = Sent mb' \<and> ready (ms @ [m]) mb'"
  using assms by (cases "bounded mb") (auto simp: ready_def Enqueue_def Let_def contents_def mailbox_inv_def)

lemma ready_pump: "pump_step mb mb' \<Longrightarrow> ready ms mb \<Longrightarrow> ready ms mb' \<and> pump_work mb' < pump_work mb"
  by (induction rule: pump_step.induct) (auto simp: ready_def contents_def mailbox_inv_def pump_work_def)

lemma ready_receive: "receive mb = Received m mb' \<Longrightarrow> ready ms mb \<Longrightarrow> \<exists>q. ms = m # q \<and> ready q mb'"
  by (auto simp: receive_def ready_def contents_def mailbox_inv_def split: list.splits if_splits)

lemma ready_not_closed: "ready ms mb \<Longrightarrow> receive mb \<noteq> ChanClosed"
  by (auto simp: receive_def ready_def split: list.splits)

text \<open>A message that waits can be received, or the pump can move on.\<close>

lemma ready_progress:
  assumes "ready (m # q) mb"
  shows "(\<exists>mb'. receive mb = Received m mb') \<or> (\<exists>mb'. pump_step mb mb')"
proof (cases "ch mb")
  case (Cons x xs)
  then have "x = m" using assms by (simp add: ready_def contents_def)
  then show ?thesis using Cons by (simp add: receive_def)
next
  case Nil
  then have b: "\<not> bounded mb" "\<not> pump_done mb" "length (ch mb) < cap mb" "unboundedBuf mb @ unboundedIn mb = m # q"
    using assms by (auto simp: ready_def contents_def mailbox_inv_def DefaultMailboxSize_def)
  show ?thesis
  proof (cases "unboundedBuf mb")
    case (Cons x xs)
    then show ?thesis using pump_step.forward [OF b(1,2) Cons b(3)] by blast
  next
    case Nil
    then show ?thesis using pump_step.first [OF b(1,2) Nil, of m q] b(4) by auto
  qed
qed

section \<open>Configurations\<close>

record config =
  cact :: "nat \<Rightarrow> home_actor"
  cstk :: "nat \<Rightarrow> behavior list"
  cq :: "nat \<Rightarrow> home_message list"
  cgo :: "(nat \<times> sensor_factory task) list"

definition models :: "nat \<Rightarrow> (ActorID, nat) gomap \<Rightarrow> home \<Rightarrow> config \<Rightarrow> bool" where
  "models n reg s c \<longleftrightarrow> length (heap s) = n \<and> actors s = reg \<and> tasks (world s) = cgo c \<and>
    (\<forall>a<n. phase (ent s a) = Running \<and> actor (ent s a) = cact c a \<and> behaviorStack (ent s a) = cstk c a \<and> ready (cq c a) (mbox (ent s a)))"

text \<open>The effects of a handler: the messages for one address, and the goroutines.\<close>

definition inbox :: "nat \<Rightarrow> (actor_ref \<times> home_message) list \<Rightarrow> home_message list" where
  "inbox b xs = map snd (filter (\<lambda>x. fst x = LocalRef b) xs)"

fun goes :: "'f eff list \<Rightarrow> 'f task list" where
  "goes [] = []"
| "goes (EGo t # xs) = t # goes xs"
| "goes (_ # xs) = goes xs"

definition after_effs :: "nat \<Rightarrow> sensor_factory eff list \<Rightarrow> config \<Rightarrow> config" where
  "after_effs a effs c = c\<lparr>cstk := (cstk c)(a := stack_after effs (cstk c a)), cq := (\<lambda>b. cq c b @ inbox b (sent effs)),
     cgo := cgo c @ map (Pair a) (goes effs)\<rparr>"

text \<open>What goes onto the network.\<close>

fun outbox :: "(actor_ref \<times> home_message) list \<Rightarrow> (string \<times> TellRequest) list" where
  "outbox [] = []"
| "outbox ((LocalRef r, m) # xs) = outbox xs"
| "outbox ((RemoteRef i target, m) # xs) = (target, marshalTell i m) # outbox xs"

lemma outbox_append [simp]: "outbox (xs @ ys) = outbox xs @ outbox ys"
  by (induction xs rule: outbox.induct) simp_all

text \<open>No reply channels, and only references to actors of the system.\<close>

fun local_eff :: "nat \<Rightarrow> 'f eff \<Rightarrow> bool" where
  "local_eff n (ETell (LocalRef r) m) = (r < n)"
| "local_eff n (EReply _ _) = False"
| "local_eff n _ = True"

lemma inbox_simps [simp]: "inbox b [] = []" "inbox b ((r, m) # xs) = (if r = LocalRef b then m # inbox b xs else inbox b xs)"
  "inbox b (xs @ ys) = inbox b xs @ inbox b ys"
  by (simp_all add: inbox_def)

lemma modelsD:
  assumes "models n reg s c"
  shows "length (heap s) = n" "actors s = reg" "tasks (world s) = cgo c"
    "a < n \<Longrightarrow> phase (ent s a) = Running" "a < n \<Longrightarrow> actor (ent s a) = cact c a" "a < n \<Longrightarrow> behaviorStack (ent s a) = cstk c a"
    "a < n \<Longrightarrow> ready (cq c a) (mbox (ent s a))"
  using assms by (simp_all add: models_def)

lemma models_Tell:
  assumes "models n reg s c" "r < n" "length (cq c r) < DefaultMailboxSize"
  shows "\<exists>s'. Tell r m s = Done s' \<and> models n reg s' (c\<lparr>cq := (cq c)(r := cq c r @ [m])\<rparr>) \<and> world s' = world s"
proof -
  obtain mb where mb: "Enqueue (mbox (ent s r)) m = Sent mb" "ready (cq c r @ [m]) mb"
    using ready_Enqueue [OF modelsD(7) [OF assms(1,2)] assms(3)] by blast
  have "models n reg (upd_ent r (\<lambda>en. en\<lparr>mbox := mb\<rparr>) s) (c\<lparr>cq := (cq c)(r := cq c r @ [m])\<rparr>)"
    using assms(1) mb(2) by (simp add: models_def ent_upd_ent)
  then show ?thesis using mb(1) by (simp add: Tell_def)
qed

lemma models_perform1:
  assumes "models n reg s c" "a < n" "local_eff n x" "\<forall>b<n. length (cq c b @ inbox b (sent [x])) \<le> DefaultMailboxSize"
  shows "\<exists>s'. perform1 a x s = Done s' \<and> models n reg s' (after_effs a [x] c) \<and> network (world s') = network (world s) @ outbox (sent [x])"
proof (cases x)
  case (ETell r m)
  show ?thesis
  proof (cases r)
    case (LocalRef b)
    then have "length (cq c b) < DefaultMailboxSize" "b < n" using assms(3,4) ETell by auto
    then obtain s' where "Tell b m s = Done s'" "models n reg s' (c\<lparr>cq := (cq c)(b := cq c b @ [m])\<rparr>)" "world s' = world s"
      using models_Tell [OF assms(1)] by blast
    moreover have "c\<lparr>cq := (cq c)(b := cq c b @ [m])\<rparr> = after_effs a [x] c"
      using ETell LocalRef by (auto simp: after_effs_def fun_eq_iff)
    ultimately show ?thesis using ETell LocalRef by simp
  next
    case (RemoteRef i t)
    then show ?thesis using ETell assms(1) by (simp add: models_def after_effs_def)
  qed
qed (use assms in \<open>auto simp: models_def after_effs_def ent_upd_ent\<close>)

lemma after_effs_Cons: "after_effs a (x # xs) c = after_effs a xs (after_effs a [x] c)"
  by (cases x) (auto simp: after_effs_def fun_eq_iff)

lemma models_perform:
  assumes "models n reg s c" "a < n" "list_all (local_eff n) effs" "\<forall>b<n. length (cq c b @ inbox b (sent effs)) \<le> DefaultMailboxSize"
  shows "\<exists>s'. perform a effs s = Done s' \<and> models n reg s' (after_effs a effs c) \<and> network (world s') = network (world s) @ outbox (sent effs)"
  using assms
proof (induction effs arbitrary: s c)
  case Nil
  then show ?case by (simp add: after_effs_def)
next
  case (Cons x xs)
  have split: "sent (x # xs) = sent [x] @ sent xs" by (cases x) simp_all
  then have "\<forall>b<n. length (cq c b @ inbox b (sent [x])) \<le> DefaultMailboxSize" using Cons.prems(4) by fastforce
  then obtain s1 where s1: "perform1 a x s = Done s1" "models n reg s1 (after_effs a [x] c)" "network (world s1) = network (world s) @ outbox (sent [x])"
    using models_perform1 [OF Cons.prems(1,2), of x] Cons.prems(3) by auto
  have "\<forall>b<n. length (cq (after_effs a [x] c) b @ inbox b (sent xs)) \<le> DefaultMailboxSize"
    using Cons.prems(4) unfolding split by (simp add: after_effs_def add.assoc)
  then show ?case using Cons.IH [OF s1(2) Cons.prems(2)] Cons.prems(3) s1 unfolding split by (simp add: after_effs_Cons [of a x xs])
qed

section \<open>Turns\<close>

definition turn_ctx :: "(ActorID, nat) gomap \<Rightarrow> home_message \<Rightarrow> home_actor \<Rightarrow> ctx" where
  "turn_ctx reg m x = \<lparr>Self = home_ID x,
     CtxSender = map_option LocalRef (if Sender m \<noteq> '''' then mget reg (Sender m) else None), look = mget reg\<rparr>"

text \<open>The handler call of one turn, for the actors that take part in a round; \<^const>\<open>None\<close> is a panic.\<close>

fun completed :: "('st \<Rightarrow> home_actor) \<Rightarrow> ('st, sensor_factory) hres \<Rightarrow> (home_actor \<times> sensor_factory eff list) option" where
  "completed wrap (HRes st effs None) = Some (wrap st, effs)"
| "completed wrap (HRes st effs (Some p)) = None"

definition turn :: "(nat \<Rightarrow> f64) \<Rightarrow> go_env \<Rightarrow> (ActorID, nat) gomap \<Rightarrow> home_message \<Rightarrow> home_actor \<Rightarrow> behavior list \<Rightarrow>
    (home_actor \<times> sensor_factory eff list) option" where
  "turn r e reg m x stk = (let c = turn_ctx reg m x in case x of
     ASensor st \<Rightarrow> completed ASensor (sensor_handle c stk m st)
   | ACoordinator st \<Rightarrow> if stk = [] then completed ACoordinator (coord_Receive r e c m st) else None
   | ALogger st \<Rightarrow> if stk = [] then completed ALogger (logger_Receive m st) else None
   | ADevice st \<Rightarrow> if stk = [] then completed ADevice (device_Receive e c m st) else None
   | _ \<Rightarrow> None)"

lemma completed_Some: "completed wrap h = Some (x, effs) \<Longrightarrow> \<exists>st. h = HRes st effs None \<and> x = wrap st"
  by (induction wrap h rule: completed.induct) auto

lemma completed_ok: "hpanic h = None \<Longrightarrow> completed wrap h = Some (wrap (hstate h), heffs h)"
  by (cases h) auto

text \<open>The state in which the handler runs: the message is out of the mailbox and its sender is known.\<close>

definition popped :: "nat \<Rightarrow> config \<Rightarrow> config" where
  "popped a c = c\<lparr>cq := (cq c)(a := tl (cq c a))\<rparr>"

definition with_actor :: "nat \<Rightarrow> home_actor \<Rightarrow> config \<Rightarrow> config" where
  "with_actor a x c = c\<lparr>cact := (cact c)(a := x)\<rparr>"

lemma models_popped:
  assumes "models n reg s c" "a < n" "receive (mbox (ent s a)) = Received m mb"
  shows "models n reg (upd_ent a (\<lambda>en. en\<lparr>sender := f\<rparr>) (upd_ent a (\<lambda>en. en\<lparr>mbox := mb\<rparr>) s)) (popped a c)" "cq c a = m # tl (cq c a)"
proof -
  obtain q where q: "cq c a = m # q" "ready q mb" using ready_receive [OF assms(3) modelsD(7) [OF assms(1,2)]] by blast
  then show "cq c a = m # tl (cq c a)" by simp
  show "models n reg (upd_ent a (\<lambda>en. en\<lparr>sender := f\<rparr>) (upd_ent a (\<lambda>en. en\<lparr>mbox := mb\<rparr>) s)) (popped a c)"
    using assms(1) q by (simp add: models_def ent_upd_ent popped_def)
qed

lemma models_with_actor: "models n reg s c \<Longrightarrow> models n reg (upd_ent a (\<lambda>en. en\<lparr>actor := x\<rparr>) s) (with_actor a x c)"
  by (simp add: models_def ent_upd_ent with_actor_def)

lemma models_run_handler:
  assumes "models n reg s c" "a < n" "completed wrap h = Some (x, effs)" "list_all (local_eff n) effs"
    and "\<forall>b<n. length (cq c b @ inbox b (sent effs)) \<le> DefaultMailboxSize"
  shows "\<exists>s'. run_handler wrap a h s = Done s' \<and> models n reg s' (after_effs a effs (with_actor a x c)) \<and>
    network (world s') = network (world s) @ outbox (sent effs)"
proof -
  obtain st where h: "h = HRes st effs None" "x = wrap st" using completed_Some [OF assms(3)] by blast
  have "\<forall>b<n. length (cq (with_actor a x c) b @ inbox b (sent effs)) \<le> DefaultMailboxSize" using assms(5) by (simp add: with_actor_def)
  then obtain s' where "perform a effs (upd_ent a (\<lambda>en. en\<lparr>actor := x\<rparr>) s) = Done s'" "models n reg s' (after_effs a effs (with_actor a x c))"
      "network (world s') = network (world s) @ outbox (sent effs)"
    using models_perform [OF models_with_actor [OF assms(1), of a x] assms(2,4)] by auto
  then show ?thesis using h by (simp add: run_handler_def)
qed

text \<open>One turn of the receive loop.\<close>

lemma models_turn:
  assumes "models n reg s c" "a < n" "receive (mbox (ent s a)) = Received m mb" "MsgType m \<noteq> MsgStopping"
    and "turn (rng (world s)) e reg m (cact c a) (cstk c a) = Some (x, effs)" "list_all (local_eff n) effs"
    and "\<forall>b<n. length (cq (popped a c) b @ inbox b (sent effs)) \<le> DefaultMailboxSize"
  shows "\<exists>s'. run_receive home_ops e a s = Done s' \<and> models n reg s' (after_effs a effs (with_actor a x (popped a c))) \<and>
    network (world s') = network (world s) @ outbox (sent effs)"
proof -
  let ?f = "if Sender m \<noteq> '''' then mget reg (Sender m) else None"
  let ?s1 = "upd_ent a (\<lambda>en. en\<lparr>mbox := mb\<rparr>) s" and ?s2 = "upd_ent a (\<lambda>en. en\<lparr>sender := ?f\<rparr>) (upd_ent a (\<lambda>en. en\<lparr>mbox := mb\<rparr>) s)"
  have m2: "models n reg ?s2 (popped a c)" by (rule models_popped(1) [OF assms(1-3)])
  have e2: "actor (ent ?s2 a) = cact c a" "behaviorStack (ent ?s2 a) = cstk c a" "sender (ent ?s2 a) = ?f" "actors ?s2 = reg" "rng (world ?s2) = rng (world s)"
    using modelsD(5,6) [OF m2 assms(2)] modelsD(1,2) [OF assms(1)] assms(2) by (simp_all add: popped_def ent_upd_ent)
  have ctx: "ctx_of (home_ID (actor (ent ?s2 a))) a ?s2 = turn_ctx reg m (cact c a)" using e2 by (simp add: ctx_of_def turn_ctx_def)
  have "\<exists>s'. dispatch home_ops e a m ?s1 = Done s' \<and> models n reg s' (after_effs a effs (with_actor a x (popped a c))) \<and>
    network (world s') = network (world s) @ outbox (sent effs)"
  proof -
    have "Lookup (Sender m) ?s1 = (case mget reg (Sender m) of None \<Rightarrow> Inl (NotFound (Sender m)) | Some a \<Rightarrow> Inr a)"
      using modelsD(2) [OF assms(1)] by (simp add: Lookup_def)
    then have d: "dispatch home_ops e a m ?s1 = (case handler_for (cstk c a) (MsgType m) of Some b \<Rightarrow> home_Behave b a m ?s2 | None \<Rightarrow> home_Receive e a m ?s2)"
      using e2(2) by (auto simp: dispatch_def Let_def split: option.splits)
    have "network (world ?s2) = network (world s)" by simp
    note run = models_run_handler [OF m2 assms(2) _ assms(6,7), unfolded this]
    show ?thesis
    proof (cases "cact c a")
      case (ASensor st)
      then have c: "completed ASensor (sensor_handle (turn_ctx reg m (cact c a)) (cstk c a) m st) = Some (x, effs)" using assms(5) by (simp add: turn_def)
      have d': "dispatch home_ops e a m ?s1 = run_handler ASensor a (sensor_handle (turn_ctx reg m (cact c a)) (cstk c a) m st) ?s2"
        unfolding d using ASensor ctx e2(1) by (auto simp: home_Behave_def home_Receive_def sensor_handle_def split: option.splits behavior.splits)
      show ?thesis unfolding d' by (rule run [OF c(1)])
    next
      case (ACoordinator st)
      then have c: "completed ACoordinator (coord_Receive (rng (world s)) e (turn_ctx reg m (cact c a)) m st) = Some (x, effs)" "cstk c a = []"
        using assms(5) by (auto simp: turn_def split: if_splits)
      have d': "dispatch home_ops e a m ?s1 = run_handler ACoordinator a (coord_Receive (rng (world s)) e (turn_ctx reg m (cact c a)) m st) ?s2"
        unfolding d using ACoordinator ctx e2(1,5) c(2) by (simp add: home_Receive_def handler_for_def)
      show ?thesis unfolding d' by (rule run [OF c(1)])
    next
      case (ALogger st)
      then have c: "completed ALogger (logger_Receive m st) = Some (x, effs)" "cstk c a = []"
        using assms(5) by (auto simp: turn_def split: if_splits)
      have d': "dispatch home_ops e a m ?s1 = run_handler ALogger a (logger_Receive m st) ?s2"
        unfolding d using ALogger e2(1) c(2) by (simp add: home_Receive_def handler_for_def)
      show ?thesis unfolding d' by (rule run [OF c(1)])
    next
      case (ADevice st)
      then have c: "completed ADevice (device_Receive e (turn_ctx reg m (cact c a)) m st) = Some (x, effs)" "cstk c a = []"
        using assms(5) by (auto simp: turn_def split: if_splits)
      have d': "dispatch home_ops e a m ?s1 = run_handler ADevice a (device_Receive e (turn_ctx reg m (cact c a)) m st) ?s2"
        unfolding d using ADevice ctx e2(1) c(2) by (simp add: home_Receive_def handler_for_def)
      show ?thesis unfolding d' by (rule run [OF c(1)])
    qed (use assms(5) in \<open>simp_all add: turn_def\<close>)
  qed
  then show ?thesis using assms(3,4) by (auto simp: run_receive_def Let_def)
qed

section \<open>Handlers that only send and save\<close>

fun plain_eff :: "'f eff \<Rightarrow> bool" where
  "plain_eff (ETell _ _) = True"
| "plain_eff (ESave _ _ _ _) = True"
| "plain_eff (EAppend _ _ _ _) = True"
| "plain_eff _ = False"

lemma plain_effs:
  assumes "list_all plain_eff effs"
  shows "stack_after effs stk = stk" "goes effs = []"
  using assms by (induction effs rule: goes.induct) auto

lemma plain_local:
  assumes "list_all plain_eff effs" "\<forall>(ref, m)\<in>set (sent effs). \<forall>b. ref = LocalRef b \<longrightarrow> b < n"
  shows "list_all (local_eff n) effs"
  using assms
proof (induction effs)
  case (Cons x xs)
  show ?case
  proof (cases x)
    case (ETell r m)
    then show ?thesis using Cons by (cases r) auto
  qed (use Cons in auto)
qed simp

lemma plain_save_state: "list_all plain_eff (save_state t p i v)"
  by (simp add: save_state_def split: option.splits)

lemma plain_tell_sensors: "list_all plain_eff (tell_sensors c st msg ids)"
  by (induction ids) (auto simp: tell_sensors_def split: option.splits)

lemma plain_aggregate: "list_all plain_eff (heffs (aggregateAndFinalise r e c st))"
  by (simp add: aggregateAndFinalise_def Let_def plain_tell_sensors coord_persistState_def plain_save_state split: option.split)

lemma plain_coord: "list_all plain_eff (heffs (coord_Receive r e c m st))"
  by (simp add: coord_Receive_def handleRegisterSensor_def handleStartRound_def handleModelUpdate_def handleRequestStatus_def Let_def
      plain_tell_sensors plain_aggregate split: option.split)

lemma plain_logger: "list_all plain_eff (heffs (logger_Receive m st))"
  by (simp add: logger_Receive_def Let_def logger_persistState_def plain_save_state split: option.split)

lemma plain_device: "list_all plain_eff (heffs (device_Receive e c m st))"
  by (simp add: device_Receive_def handleAdjustEnvironment_def Let_def device_persistState_def plain_save_state split: option.split)

text \<open>A turn of an actor whose handler only sends and saves.\<close>

lemma after_plain:
  assumes "list_all plain_eff effs"
  shows "after_effs a effs c = c\<lparr>cq := (\<lambda>b. cq c b @ inbox b (sent effs))\<rparr>"
  using plain_effs [OF assms] by (simp add: after_effs_def)

end
