(* ===== verification/RoundParts.thy ===== *)
theory RoundParts
  imports Turns
begin

text \<open>
  What a round of federated learning consists of, whether its sensors run in the process of the coordinator (\<open>Round\<close>) or in processes of their own
  (\<open>ClusterRound\<close>): the training of a sensor, the update that it sends, the turns of the coordinator that file an update and finish the round, the turns of the logger and
  the device controller at its end, and the steps that a process can make of itself.
\<close>

section \<open>The parts\<close>

definition next_round :: "'f CoordinatorActor \<Rightarrow> int" where
  "next_round st = wrap64 (roundNo st + 1)"

definition request :: "'f CoordinatorActor \<Rightarrow> 'f payload" where
  "request st = StartTrainingPayload (next_round st) (globalWeights st) (learningRate st) (numEpochs st)"

text \<open>The sensor when it trains, and what its goroutine leaves behind: the sensor, and the payload of the message.\<close>

definition in_training :: "sensor_factory CoordinatorActor \<Rightarrow> SensorActor \<Rightarrow> SensorActor" where
  "in_training st x = x\<lparr>state := ''training'', roundID := next_round st, weights := globalWeights st\<rparr>"

definition result :: "sensor_factory CoordinatorActor \<Rightarrow> SensorActor \<Rightarrow> SensorActor \<times> home_message" where
  "result st x = the (realTraining (in_training st x) (request st))"

definition result_payload :: "sensor_factory CoordinatorActor \<Rightarrow> SensorActor \<Rightarrow> sensor_factory payload" where
  "result_payload st x = the (castPayload PTrainingComplete (Payload (snd (result st x))))"

definition reported_state :: "sensor_factory CoordinatorActor \<Rightarrow> SensorActor \<Rightarrow> SensorActor" where
  "reported_state st x = (fst (result st x))\<lparr>samples := pNumSamples (result_payload st x), state := ''idle''\<rparr>"

definition update_of :: "sensor_factory CoordinatorActor \<Rightarrow> SensorActor \<Rightarrow> sensor_factory payload" where
  "update_of st x = ModelUpdatePayload (sensorID x) (next_round st) (sanitise_weights (pWeights (result_payload st x)))
     (pNumSamples (result_payload st x)) (sanitise (pLoss (result_payload st x)))"

definition is_training :: "nat \<times> sensor_factory task \<Rightarrow> bool" where
  "is_training t \<longleftrightarrow> (case snd t of SimulateTraining _ \<Rightarrow> True | _ \<Rightarrow> False)"

text \<open>An idle sensor with data, whose network has as many weights as the global model.\<close>

definition sensor_fit :: "sensor_factory CoordinatorActor \<Rightarrow> SensorActor \<Rightarrow> bool" where
  "sensor_fit st x \<longleftrightarrow> state x = ''idle'' \<and> trainData x \<noteq> [] \<and>
    (\<exists>m. mlp_of x = Some m \<and> wf_mlp m \<and> fits m (trainData x) \<and> NumWeights m = length (elems (globalWeights st)))"

definition view :: "config \<Rightarrow> nat \<Rightarrow> home_actor \<times> behavior list \<times> home_message list" where
  "view c a = (cact c a, cstk c a, cq c a)"

definition update_msg :: "sensor_factory CoordinatorActor \<Rightarrow> SensorActor \<Rightarrow> home_message" where
  "update_msg st x = mkMessage MsgModelUpdate (Dyn (update_of st x)) (sensorID x)"

definition started :: "sensor_factory CoordinatorActor \<Rightarrow> int \<Rightarrow> sensor_factory CoordinatorActor" where
  "started st t = st\<lparr>roundNo := next_round st, pendingRound := next_round st, pendingUpdates := [], roundStart := t\<rparr>"

text \<open>\<open>us\<close> are the updates in the order of the aggregation, \<open>agg\<close> their average, \<open>ms\<close> the time that the round took.\<close>

definition report :: "sensor_factory CoordinatorActor \<Rightarrow> sensor_factory payload list \<Rightarrow> int \<Rightarrow> sensor_factory payload" where
  "report st us ms = RoundCompletePayload (next_round st) (avg_loss (sum_samples (map pNumSamples us)) us) (int (length us)) ms"

definition global_msg :: "sensor_factory CoordinatorActor \<Rightarrow> sensor_factory payload list \<Rightarrow> f64 list \<Rightarrow> home_message" where
  "global_msg st us agg = mkMessage MsgGlobalModelUpdate
     (Dyn (GlobalModelUpdatePayload (next_round st) (SList agg) (avg_loss (sum_samples (map pNumSamples us)) us))) (coordID st)"

definition averages :: "sensor_factory payload list \<Rightarrow> f64 list \<Rightarrow> bool" where
  "averages us agg \<longleftrightarrow> FedAvg lit (map (\<lambda>u. elems (pWeights u)) us) (map pNumSamples us) = Some (SList agg)"

text \<open>What the coordinator sends at the end of the round: the new weights to each sensor, the report to the logger, the targets to the device controller.\<close>

definition final_msgs :: "ctx \<Rightarrow> go_env \<Rightarrow> nat \<Rightarrow> nat \<Rightarrow> sensor_factory CoordinatorActor \<Rightarrow> sensor_factory payload list \<Rightarrow> f64 list \<Rightarrow> int \<Rightarrow> f64 \<times> f64 \<times> f64 \<Rightarrow>
    (actor_ref \<times> home_message) list" where
  "final_msgs x e l d st us agg ms tg = addressed x st (global_msg st us agg) (iter e (keys (sensors st))) @
     [(LocalRef l, mkMessage MsgRoundComplete (Dyn (report st us ms)) ''''),
      (LocalRef d, case tg of (tt, th, tb) \<Rightarrow> mkMessage MsgAdjustEnvironment (Dyn (AdjustEnvironmentPayload ''all'' tt th tb)) '''')]"

text \<open>
  The sensors of a round, \<open>X i\<close> with the identifier \<open>i\<close>; and where the coordinator finds the logger and the device controller.
\<close>

definition crew :: "sensor_factory CoordinatorActor \<Rightarrow> (string \<Rightarrow> SensorActor) \<Rightarrow> bool" where
  "crew st X \<longleftrightarrow> sensors st \<noteq> [] \<and> distinct (keys (sensors st)) \<and> (\<forall>i\<in>set (keys (sensors st)). sensorID (X i) = i \<and> sensor_fit st (X i)) \<and>
    (\<Sum>i\<leftarrow>keys (sensors st). int (length (trainData (X i)))) < 2 ^ 63"

definition office :: "(ActorID, nat) gomap \<Rightarrow> nat \<Rightarrow> nat \<Rightarrow> sensor_factory CoordinatorActor \<Rightarrow> bool" where
  "office reg l d st \<longleftrightarrow> 72 \<le> length (elems (globalWeights st)) \<and> loggerRef st = ''logger'' \<and> mget reg ''logger'' = Some l \<and>
    deviceRef st \<noteq> '''' \<and> mget reg (deviceRef st) = Some d"

lemma officeD:
  assumes "office reg l d st"
  shows "72 \<le> length (elems (globalWeights st))" "loggerRef st = ''logger''" "mget reg ''logger'' = Some l" "deviceRef st \<noteq> ''''" "mget reg (deviceRef st) = Some d"
  using assms by (simp_all add: office_def)

section \<open>Training\<close>

text \<open>The training goroutine of each sensor returns.\<close>

lemma result_returns:
  assumes "sensor_fit st x"
  shows "\<exists>m' w loss. realTraining (in_training st x) (request st) = Some (result st x) \<and>
    result st x = ((in_training st x)\<lparr>mlp_of := Some m'\<rparr>, mkMessage MsgTrainingComplete (Dyn (TrainingCompletePayload (SList w) loss (int (length (trainData x))))) '''') \<and>
    length w = length (elems (globalWeights st)) \<and> result_payload st x = TrainingCompletePayload (SList w) loss (int (length (trainData x)))"
proof -
  obtain m where m: "mlp_of x = Some m" "wf_mlp m" "fits m (trainData x)" "NumWeights m = length (elems (globalWeights st))" using assms by (auto simp: sensor_fit_def)
  obtain m' w loss where r: "realTraining (in_training st x) (request st) = Some ((in_training st x)\<lparr>mlp_of := Some m'\<rparr>,
      mkMessage MsgTrainingComplete (Dyn (TrainingCompletePayload (SList w) loss (int (length (trainData (in_training st x)))))) '''')"
      "length w = length (elems (pWeights (request st)))"
    using realTraining_total [of "in_training st x" m "request st"] m by (auto simp: in_training_def request_def)
  then show ?thesis by (auto simp: result_def result_payload_def request_def in_training_def mkMessage_def castPayload_def)
qed

subsection \<open>Turns of the sensors\<close>

lemma turn_asked:
  "turn r e reg (Message MsgStartTraining (Dyn (request st)) from time) (ASensor x) [] =
    Some (ASensor (in_training st x), [EBecome TrainingBehavior, EGo (SimulateTraining (request st))])"
  by (simp add: turn_def sensor_handle_def handler_for_def sensor_Receive_def handleStartTraining_def castPayload_def request_def in_training_def)

lemma turn_global:
  "turn r e reg (Message MsgGlobalModelUpdate (Dyn (GlobalModelUpdatePayload k (SList agg) loss)) from time) (ASensor x) [] =
    Some (ASensor (x\<lparr>weights := SList agg, roundID := k\<rparr>), [])"
  by (simp add: turn_def sensor_handle_def handler_for_def sensor_Receive_def handleGlobalModelUpdate_def castPayload_def)

text \<open>The reference that a sensor sends its update to.\<close>

definition home_ref :: "(ActorID, nat) gomap \<Rightarrow> SensorActor \<Rightarrow> actor_ref option" where
  "home_ref reg x = (case coordinatorRef x of Some ref \<Rightarrow> Some ref | None \<Rightarrow> map_option LocalRef (mget reg (coordinator x)))"

lemma turn_trained:
  assumes "sensor_fit st x" "home_ref reg x = Some ref" "\<And>b. ref = LocalRef b \<Longrightarrow> b < n"
  shows "\<exists>effs. turn r e reg (snd (result st x)) (ASensor (fst (result st x))) [TrainingBehavior] = Some (ASensor (reported_state st x), effs) \<and>
    sent effs = [(ref, update_msg st x)] \<and> stack_after effs [TrainingBehavior] = [] \<and> goes effs = [] \<and> list_all (local_eff n) effs"
proof -
  obtain m' w loss where res: "result st x = ((in_training st x)\<lparr>mlp_of := Some m'\<rparr>,
        mkMessage MsgTrainingComplete (Dyn (TrainingCompletePayload (SList w) loss (int (length (trainData x))))) '''')"
      "result_payload st x = TrainingCompletePayload (SList w) loss (int (length (trainData x)))"
    using result_returns [OF assms(1)] by blast
  let ?y = "(fst (result st x))\<lparr>state := ''sending'', samples := int (length (trainData x))\<rparr>"
  let ?c = "turn_ctx reg (snd (result st x)) (ASensor (fst (result st x)))"
  have f: "coordinatorRef (fst (result st x)) = coordinatorRef x" "coordinator (fst (result st x)) = coordinator x" "sensorID (fst (result st x)) = sensorID x"
      "roundID (fst (result st x)) = next_round st"
    using res(1) by (simp_all add: in_training_def)
  have p: "processSendResults ?c (snd (result st x)) ((fst (result st x))\<lparr>state := ''sending''\<rparr>) =
      (?y, ETell ref (update_msg st x) # sensor_persistState ?y)"
    using assms(2) f res
    by (auto simp: home_ref_def processSendResults_def Let_def turn_ctx_def mkMessage_def castPayload_def update_msg_def update_of_def split: option.splits)
  let ?effs = "EBecome SendingResultsBehavior # (ETell ref (update_msg st x) # sensor_persistState ?y) @ [EUnbecome, EUnbecome]"
  have per: "list_all plain_eff (sensor_persistState ?y)" by (simp add: sensor_persistState_def plain_save_state)
  have "MsgType (snd (result st x)) = MsgTrainingComplete" using res(1) by (simp add: mkMessage_def)
  then have "turn r e reg (snd (result st x)) (ASensor (fst (result st x))) [TrainingBehavior] = Some (ASensor (reported_state st x), ?effs)"
    using p res(2) by (simp add: turn_def sensor_handle_def handler_for_def isLifecycle_def CurrentBehavior_def training_complete reported_state_def)
  moreover have "goes ?effs = []" using plain_effs(2) [OF per] by (induction "sensor_persistState ?y") (simp_all add: sensor_persistState_def save_state_def split: option.splits)
  moreover have "list_all (local_eff n) ?effs" using assms(3) plain_local [OF per] by (cases ref) simp_all
  ultimately show ?thesis by (intro exI [of _ ?effs]) (simp add: stack_after_append persist_quiet Become_def Unbecome_def)
qed

lemma simulateTraining_result:
  assumes "sensor_fit st x"
  shows "simulateTraining e (in_training st x) (request st) = Some (result st x)"
  using result_returns [OF assms] assms by (auto simp: simulateTraining_def sensor_fit_def in_training_def)

lemma drop_task_mset:
  assumes "k < length xs" "P (xs ! k)"
  shows "mset (filter P xs) = add_mset (xs ! k) (mset (filter P (take k xs @ drop (Suc k) xs)))"
  using assms(2) by (subst id_take_nth_drop [OF assms(1)]) simp

lemma models_drop_task:
  "models n reg s c \<Longrightarrow> models n reg (drop_task k s) (c\<lparr>cgo := take k (cgo c) @ drop (Suc k) (cgo c)\<rparr>)"
  by (simp add: models_def drop_task_def)

section \<open>Turns\<close>

lemma viewD: "view c a = (x, stk, q) \<Longrightarrow> cact c a = x \<and> cstk c a = stk \<and> cq c a = q"
  by (simp add: view_def)

text \<open>What a turn of the actor at \<open>a\<close> does to each address.\<close>

lemma view_after:
  "view (after_effs a effs (with_actor a x (popped a c))) b =
    (if b = a then (x, stack_after effs (cstk c a), tl (cq c a) @ inbox a (sent effs)) else (cact c b, cstk c b, cq c b @ inbox b (sent effs)))"
  by (simp add: view_def after_effs_def with_actor_def popped_def)

lemma cgo_after: "cgo (after_effs a effs (with_actor a x (popped a c))) = cgo c @ map (Pair a) (goes effs)"
  by (simp add: after_effs_def with_actor_def popped_def)

section \<open>The coordinator\<close>

lemma update_carried: "carries (update_msg st x) (update_of st x)" "pRoundID (update_of st x) = next_round st" "pSensorID (update_of st x) = sensorID x"
  by (simp_all add: carries_def update_msg_def update_of_def mkMessage_def castPayload_def)

lemma update_shape:
  assumes "sensor_fit st x"
  shows "pNumSamples (update_of st x) = int (length (trainData x))" "length (elems (pWeights (update_of st x))) = length (elems (globalWeights st))"
  using result_returns [OF assms] by (auto simp: update_of_def sanitise_weights_def)

text \<open>The updates of all sensors can be averaged.\<close>

lemma crewD:
  assumes "crew st X"
  shows "sensors st \<noteq> []" "distinct (keys (sensors st))" "i \<in> set (keys (sensors st)) \<Longrightarrow> sensorID (X i) = i" "i \<in> set (keys (sensors st)) \<Longrightarrow> sensor_fit st (X i)"
    "(\<Sum>i\<leftarrow>keys (sensors st). int (length (trainData (X i)))) < 2 ^ 63"
  using assms unfolding crew_def by blast+

lemma updates_average:
  assumes R: "crew st X" and "mset gi = mset (keys (sensors st))" "mset us = mset (map (\<lambda>i. update_of st (X i)) gi)"
  shows "\<exists>agg. averages us agg \<and> length agg = length (elems (globalWeights st)) \<and> sum_samples (map pNumSamples us) \<noteq> 0"
proof -
  let ?ids = "keys (sensors st)" and ?u = "\<lambda>i. update_of st (X i)"
  note sen = crewD [OF R]
  have sh: "pNumSamples (?u i) = int (length (trainData (X i)))" "length (elems (pWeights (?u i))) = length (elems (globalWeights st))" if "i \<in> set ?ids" for i
    using update_shape [OF sen(4) [OF that]] .
  have ns: "map pNumSamples (map ?u ?ids) = map (\<lambda>i. int (length (trainData (X i)))) ?ids"
  proof -
    have "map pNumSamples (map ?u xs) = map (\<lambda>i. int (length (trainData (X i)))) xs" if "set xs \<subseteq> set ?ids" for xs
      using that sh(1) by (induction xs) (auto simp del: set_map)
    then show ?thesis by blast
  qed
  have "samples_ok (map pNumSamples (map ?u ?ids))" unfolding ns samples_ok_def using sen(5) by (auto simp: comp_def)
  moreover have "0 < sum_list (map pNumSamples (map ?u ?ids))"
  proof -
    have pos: "0 < int (length (trainData (X i)))" if "i \<in> set ?ids" for i using sen(4) [OF that] by (simp add: sensor_fit_def)
    have "0 < sum_list (map (\<lambda>i. int (length (trainData (X i)))) xs)" if "xs \<noteq> []" "set xs \<subseteq> set ?ids" for xs
      using that by (induction xs rule: list_nonempty_induct) (use pos in \<open>auto simp del: set_map intro: add_pos_pos\<close>)
    then show ?thesis unfolding ns using sen(1) by blast
  qed
  moreover have "\<forall>u\<in>set (map ?u ?ids). length (elems (pWeights u)) = length (elems (globalWeights st))" using sh(2) by (auto simp del: map_map)
  moreover have "mset us = mset (map ?u ?ids)" using assms(2,3) by (metis mset_map)
  ultimately show ?thesis using FedAvg_lit_updates [of "map ?u ?ids" "length (elems (globalWeights st))" us] by (auto simp: averages_def)
qed

lemma infer_targets_rng: "infer_targets r w = infer_targets (\<lambda>_. 0) w"
  by (simp only: infer_targets_eq)

text \<open>A turn of the coordinator: it files the update, or finishes the round.\<close>

lemma coordinator_files:
  assumes "\<And>j. j \<in> set (gi @ [i]) \<Longrightarrow> sensorID (X j) = j" "i \<notin> set gi" "carries m (update_of st (X i))"
  shows "coord_Receive r e x m ((started st t)\<lparr>pendingUpdates := filed (map (\<lambda>i. update_of st (X i)) gi)\<rparr>) =
    (let st1 = (started st t)\<lparr>pendingUpdates := filed (map (\<lambda>i. update_of st (X i)) (gi @ [i]))\<rparr>
     in if length (gi @ [i]) < length (sensors st) then HRes st1 [] None else aggregateAndFinalise r e x st1)"
proof -
  define u where "u = (\<lambda>i. update_of st (X i))"
  have "pSensorID (u j) = j" if "j \<in> set (gi @ [i])" for j using assms(1) [OF that] by (simp add: u_def update_carried(3))
  then have "map pSensorID (map u gi) = gi" "pSensorID (u i) = i" by (simp_all add: map_idI)
  then have u: "pSensorID (u i) \<notin> fst ` set (filed (map u gi))" using assms(2) by (simp add: filed_def comp_def image_image flip: set_map)
  have v: "pRoundID (u i) = next_round st" "carries m (u i)" using assms(3) by (simp_all add: u_def update_carried(2))
  have "coord_Receive r e x m ((started st t)\<lparr>pendingUpdates := filed (map u gi)\<rparr>) =
    (let st1 = (started st t)\<lparr>pendingUpdates := filed (map u (gi @ [i]))\<rparr>
     in if length (gi @ [i]) < length (sensors st) then HRes st1 [] None else aggregateAndFinalise r e x st1)"
    using Receive_update [OF v(2), of "(started st t)\<lparr>pendingUpdates := filed (map u gi)\<rparr>" r e x] u v(1)
    by (simp add: started_def Let_def not_le)
  then show ?thesis unfolding u_def .
qed

lemma coordinator_finishes:
  fixes t :: int
  assumes R: "crew st X" and O: "office reg l d st" and "mset gi = mset (keys (sensors st))" "distinct gi" and e: "env_ok e" and x: "look x = mget reg" "Self x = coordID st"
  defines "st1 \<equiv> (started st t)\<lparr>pendingUpdates := filed (map (\<lambda>i. update_of st (X i)) gi)\<rparr>"
  shows "\<exists>effs us agg tg. aggregateAndFinalise r e x st1 = HRes (st1\<lparr>globalWeights := SList agg\<rparr>) effs None \<and> list_all plain_eff effs \<and>
    sent effs = final_msgs x e l d st us agg (elapsed_ms (now e) t) tg \<and> mset us = mset (map (\<lambda>i. update_of st (X i)) (keys (sensors st))) \<and> averages us agg \<and>
    length agg = length (elems (globalWeights st)) \<and> infer_targets (\<lambda>_. 0) agg = Some tg"
proof -
  note sen = crewD [OF R] and b = officeD [OF O]
  let ?u = "\<lambda>i. update_of st (X i)" and ?ids = "keys (sensors st)"
  define us where "us = updates_of e st1"
  have id: "pSensorID (?u j) = j" if "j \<in> set ?ids" for j using sen(3) [OF that] by (simp add: update_carried(3))
  have "map pSensorID (map ?u xs) = xs" if "set xs \<subseteq> set ?ids" for xs using that id by (induction xs) (auto simp del: set_map)
  then have "map pSensorID (map ?u gi) = gi" using mset_eq_setD [OF assms(3)] by blast
  then have gm: "gomap_inv (pendingUpdates st1)" using assms(4) by (simp add: st1_def gomap_inv_def del: map_map)
  have us: "mset us = mset (map ?u gi)" using mset_updates_of [OF e gm] by (simp add: us_def st1_def)
  then have us': "mset us = mset (map ?u ?ids)" using assms(3) by (metis mset_map)
  have lus: "length us = length (pendingUpdates st1)" using mset_eq_length [OF us] by (simp add: st1_def)
  obtain agg where agg: "averages us agg" "length agg = length (elems (globalWeights st))" "sum_samples (map pNumSamples us) \<noteq> 0"
    using updates_average [OF R assms(3) us] by blast
  have gw: "elems (globalWeights st1) \<noteq> []" "72 \<le> length agg" using b(1) agg(2) by (auto simp: st1_def started_def)
  let ?loss = "avg_loss (sum_samples (map pNumSamples us)) us"
  obtain effs where ag: "aggregateAndFinalise r e x st1 = HRes (st1\<lparr>globalWeights := SList agg\<rparr>) effs None"
    "sent effs = addressed x st1 (mkMessage MsgGlobalModelUpdate (Dyn (GlobalModelUpdatePayload (roundNo st1) (SList agg) ?loss)) (Self x))
        (iter e (keys (sensors st1))) @ round_log e x st1 ?loss @ round_targets r x st1 agg"
    using aggregate_eq [OF e, of st1 agg x r] agg(1,3) gw unfolding us_def averages_def by blast
  obtain tg where tg: "infer_targets (\<lambda>_. 0) agg = Some tg" using gw(2) by (simp add: infer_targets_eq Let_def)
  have "round_log e x st1 ?loss = [(LocalRef l, mkMessage MsgRoundComplete (Dyn (report st us (elapsed_ms (now e) t))) '''')]"
    using b(2,3) lus x(1) by (simp add: round_log_def st1_def started_def report_def)
  moreover have "round_targets r x st1 agg = [(LocalRef d, case tg of (tt, th, tb) \<Rightarrow> mkMessage MsgAdjustEnvironment (Dyn (AdjustEnvironmentPayload ''all'' tt th tb)) '''')]"
    using b(4,5) tg infer_targets_rng [of r agg] x(1) by (simp add: round_targets_def st1_def started_def split: prod.split)
  moreover have "addressed x st1 msg ids = addressed x st msg ids" for msg ids by (rule addressed_cong) (simp add: st1_def started_def)
  ultimately have "sent effs = final_msgs x e l d st us agg (elapsed_ms (now e) t) tg"
    unfolding ag(2) using x(2) by (simp add: final_msgs_def global_msg_def st1_def started_def)
  moreover have "list_all plain_eff effs" using plain_aggregate [of r e x st1] ag(1) by simp
  ultimately show ?thesis using ag(1) us' agg(1,2) tg by blast
qed

section \<open>The end of a round\<close>

text \<open>The logger has the report, or finds it in its mailbox; the device controller has set the devices, or is told to.\<close>

abbreviation logging :: "config \<Rightarrow> nat \<Rightarrow> sensor_factory payload \<Rightarrow> config \<Rightarrow> bool" where
  "logging c0 l rp c \<equiv> \<exists>lg lg'. cact c0 l = ALogger lg \<and> cact c l = ALogger lg' \<and> cstk c l = [] \<and>
    Rounds lg' @ logged MsgRoundComplete PRoundComplete (cq c l) = Rounds lg @ [rp]"

abbreviation adjusting :: "nat \<Rightarrow> f64 list \<Rightarrow> config \<Rightarrow> bool" where
  "adjusting d agg c \<equiv> \<exists>dv tt th tb. cact c d = ADevice dv \<and> cstk c d = [] \<and> infer_targets (\<lambda>_. 0) agg = Some (tt, th, tb) \<and>
    (cq c d = [mkMessage MsgAdjustEnvironment (Dyn (AdjustEnvironmentPayload ''all'' tt th tb)) ''''] \<or>
     cq c d = [] \<and> GetDeviceValue ''all'' ''temperature'' dv = Some tt \<and> GetDeviceValue ''all'' ''humidity'' dv = Some th \<and>
       GetDeviceValue ''all'' ''light'' dv = Some tb)"

definition closing :: "nat \<Rightarrow> nat \<Rightarrow> config \<Rightarrow> sensor_factory payload \<Rightarrow> f64 list \<Rightarrow> config \<Rightarrow> bool" where
  "closing l d c0 rp agg c \<longleftrightarrow> logging c0 l rp c \<and> (\<forall>m\<in>set (cq c l). MsgType m \<noteq> MsgStopping) \<and> length (cq c l) + 4 * length (cq c d) \<le> 5 \<and> adjusting d agg c"

definition closing_work :: "nat \<Rightarrow> nat \<Rightarrow> config \<Rightarrow> nat" where
  "closing_work l d c = length (cq c l) + 5 * length (cq c d)"

lemma closingD:
  assumes "closing l d c0 rp agg c"
  shows "logging c0 l rp c" "m \<in> set (cq c l) \<Longrightarrow> MsgType m \<noteq> MsgStopping" "length (cq c l) + 4 * length (cq c d) \<le> 5" "adjusting d agg c"
  using assms unfolding closing_def by blast+

lemma closing_same:
  "view c' l = view c l \<Longrightarrow> view c' d = view c d \<Longrightarrow> closing l d c0 rp agg c' = closing l d c0 rp agg c"
  "view c' l = view c l \<Longrightarrow> view c' d = view c d \<Longrightarrow> closing_work l d c' = closing_work l d c"
  by (simp_all add: closing_def closing_work_def view_def)

lemma logged_Cons: "logged mt t (m # ms) = logged mt t [m] @ logged mt t ms"
  by (simp split: option.splits)

text \<open>The device controller sets the values and reports its four devices.\<close>

lemma device_turn_adjusts:
  fixes e :: go_env and c :: ctx and dv :: DeviceControllerActor and tt th tb :: f64
  assumes "look c ''logger'' = Some l"
  defines "h \<equiv> device_Receive e c (mkMessage MsgAdjustEnvironment (Dyn (AdjustEnvironmentPayload ''all'' tt th tb)) '''' :: home_message) dv"
  shows "hpanic h = None" "\<exists>ms. sent (heffs h) = map (Pair (LocalRef l)) ms \<and> length ms = 4 \<and> (\<forall>m\<in>set ms. MsgType m = MsgDeviceStatus)"
    "GetDeviceValue ''all'' ''temperature'' (hstate h) = Some tt" "GetDeviceValue ''all'' ''humidity'' (hstate h) = Some th" "GetDeviceValue ''all'' ''light'' (hstate h) = Some tb"
proof -
  let ?m = "\<lambda>dev. mkMessage MsgDeviceStatus (Dyn (DeviceStatusPayload ''all'' dev ''adjusted'' (Self c) (now e))) '''' :: home_message"
  have "sent (heffs h) = map (Pair (LocalRef l)) (map ?m [''ac'', ''heating'', ''blinds'', ''lights''])"
    using assms(1) by (simp add: h_def device_Receive_def handleAdjustEnvironment_def mkMessage_def castPayload_def Let_def)
  then show "\<exists>ms. sent (heffs h) = map (Pair (LocalRef l)) ms \<and> length ms = 4 \<and> (\<forall>m\<in>set ms. MsgType m = MsgDeviceStatus)"
    by (intro exI [of _ "map ?m [''ac'', ''heating'', ''blinds'', ''lights'']"]) (simp add: mkMessage_def)
qed (simp_all add: h_def device_Receive_def handleAdjustEnvironment_def mkMessage_def castPayload_def Let_def GetDeviceValue_def)

lemma inbox_map_Pair: "inbox a (map (Pair (LocalRef l)) ms) = (if a = l then ms else [])"
  by (induction ms) auto

lemma logged_others: "\<forall>m\<in>set ms. MsgType m \<noteq> mt \<Longrightarrow> logged mt t ms = []"
  by (induction ms) auto

lemma closing_starts:
  assumes "\<exists>lg. cact c0 l = ALogger lg" "\<exists>dv. cact c0 d = ADevice dv" "view c l = (cact c0 l, [], [mkMessage MsgRoundComplete (Dyn (report st us ms)) ''''])"
    and "view c d = (cact c0 d, [], [mkMessage MsgAdjustEnvironment (Dyn (AdjustEnvironmentPayload ''all'' tt th tb)) ''''])" "infer_targets (\<lambda>_. 0) agg = Some (tt, th, tb)"
  shows "closing l d c0 (report st us ms) agg c"
  using assms by (auto simp: closing_def view_def mkMessage_def castPayload_def report_def)

text \<open>A turn of the logger or the device controller.\<close>

lemma closing_room:
  assumes "\<forall>a<n. length (cq c a) \<le> 5" "\<And>a. length (inbox a msgs) \<le> 4"
  shows "\<forall>a<n. length (cq (popped b c) a @ inbox a msgs) \<le> DefaultMailboxSize"
proof (intro allI impI)
  fix a assume "a < n"
  with assms(1) assms(2) [of a] show "length (cq (popped b c) a @ inbox a msgs) \<le> DefaultMailboxSize"
    by (cases "a = b") (fastforce simp: popped_def DefaultMailboxSize_def)+
qed

lemma closing_logger:
  assumes M: "models n reg s c" and C: "closing l d c0 rp agg c" and ld: "l < n" "l \<noteq> d" and q5: "\<forall>a<n. length (cq c a) \<le> 5"
    and rc: "receive (mbox (ent s l)) = Received m mb"
  shows "\<exists>s' c'. run_receive home_ops e l s = Done s' \<and> models n reg s' c' \<and> closing l d c0 rp agg c' \<and> (\<forall>a. a \<noteq> l \<longrightarrow> a \<noteq> d \<longrightarrow> view c' a = view c a) \<and>
    cgo c' = cgo c \<and> closing_work l d c' < closing_work l d c \<and> network (world s') = network (world s)"
proof -
  note D = closingD [OF C]
  obtain lg lg' where lg: "cact c0 l = ALogger lg" "cact c l = ALogger lg'" "cstk c l = []"
      "Rounds lg' @ logged MsgRoundComplete PRoundComplete (cq c l) = Rounds lg @ [rp]" using D(1) by blast
  have q: "cq c l = m # tl (cq c l)" by (rule models_popped(2) [OF M ld(1) rc])
  let ?h = "logger_Receive m lg'"
  have h: "hpanic ?h = None" "sent (heffs ?h) = []" by (rule logger_quiet)+
  have pl: "list_all plain_eff (heffs ?h)" by (rule plain_logger)
  have t: "turn (rng (world s)) e reg m (cact c l) (cstk c l) = Some (ALogger (hstate ?h), heffs ?h)"
    using completed_ok [OF h(1)] by (simp add: lg(2,3) turn_def)
  have room: "\<forall>a<n. length (cq (popped l c) a @ inbox a (sent (heffs ?h))) \<le> DefaultMailboxSize"
    by (rule closing_room [OF q5]) (simp add: h(2))
  let ?c = "after_effs l (heffs ?h) (with_actor l (ALogger (hstate ?h)) (popped l c))"
  have lc: "list_all (local_eff n) (heffs ?h)" using h(2) by (intro plain_local [OF pl]) simp
  have "MsgType m \<noteq> MsgStopping" using D(2) [of m] q by (metis list.set_intros(1))
  from models_turn [OF M ld(1) rc this t lc room] obtain s' where s': "run_receive home_ops e l s = Done s'" "models n reg s' ?c"
      "network (world s') = network (world s)" using h(2) by auto
  have o: "view ?c a = view c a" if "a \<noteq> l" for a unfolding view_after using that h(2) by (simp add: view_def)
  have self: "view ?c l = (ALogger (hstate ?h), [], tl (cq c l))" unfolding view_after using h(2) lg(3) plain_effs(1) [OF pl] by simp
  have dd: "cact ?c d = cact c d" "cstk ?c d = cstk c d" "cq ?c d = cq c d" using o [of d] ld(2) by (simp_all add: view_def)
  have "Rounds (hstate ?h) = Rounds lg' @ logged MsgRoundComplete PRoundComplete [m]" using logger_Receive_log [of m lg'] by (simp add: log_of_def)
  then have "Rounds (hstate ?h) @ logged MsgRoundComplete PRoundComplete (tl (cq c l)) = Rounds lg @ [rp]"
    using lg(4) q logged_Cons [of MsgRoundComplete PRoundComplete m "tl (cq c l)"] by simp
  then have L: "logging c0 l rp ?c" using self lg(1) by (simp add: view_def)
  have "set (cq ?c l) \<subseteq> set (cq c l)" using self q by (metis list.set_sel(2) list.simps(3) prod.inject subsetI view_def)
  then have S: "\<forall>m\<in>set (cq ?c l). MsgType m \<noteq> MsgStopping" using D(2) by blast
  have len: "length (cq c l) = Suc (length (cq ?c l))" using q self by (metis length_Cons prod.inject view_def)
  have "adjusting d agg ?c" unfolding dd by (rule D(4))
  then have "closing l d c0 rp agg ?c" unfolding closing_def using L S D(3) len dd(3) by (intro conjI) simp_all
  moreover have "closing_work l d ?c < closing_work l d c" using len dd(3) by (simp add: closing_work_def)
  moreover have "cgo ?c = cgo c" using plain_effs(2) [OF pl] by (simp add: cgo_after)
  ultimately show ?thesis using s' o by (intro exI [of _ s'] exI [of _ ?c] conjI) simp_all
qed

lemma closing_device:
  assumes M: "models n reg s c" and C: "closing l d c0 rp agg c" and ld: "d < n" "l < n" "l \<noteq> d" "mget reg ''logger'' = Some l" and q5: "\<forall>a<n. length (cq c a) \<le> 5"
    and rc: "receive (mbox (ent s d)) = Received m mb"
  shows "\<exists>s' c'. run_receive home_ops e d s = Done s' \<and> models n reg s' c' \<and> closing l d c0 rp agg c' \<and> (\<forall>a. a \<noteq> l \<longrightarrow> a \<noteq> d \<longrightarrow> view c' a = view c a) \<and>
    cgo c' = cgo c \<and> closing_work l d c' < closing_work l d c \<and> network (world s') = network (world s)"
proof -
  note D = closingD [OF C]
  have q: "cq c d = m # tl (cq c d)" by (rule models_popped(2) [OF M ld(1) rc])
  obtain dv tt th tb where dv: "cact c d = ADevice dv" "cstk c d = []" "infer_targets (\<lambda>_. 0) agg = Some (tt, th, tb)"
      "cq c d = [mkMessage MsgAdjustEnvironment (Dyn (AdjustEnvironmentPayload ''all'' tt th tb)) '''']"
    using D(4) q by (metis list.discI)
  then have m: "m = mkMessage MsgAdjustEnvironment (Dyn (AdjustEnvironmentPayload ''all'' tt th tb)) ''''" using q by simp
  let ?h = "device_Receive e (turn_ctx reg m (cact c d)) m dv"
  have look: "look (turn_ctx reg m (cact c d)) ''logger'' = Some l" using ld(4) by (simp add: turn_ctx_def)
  note dev = device_turn_adjusts [OF look, of e tt th tb dv, folded m]
  obtain ds where ds: "sent (heffs ?h) = map (Pair (LocalRef l)) ds" "length ds = 4" "\<forall>m\<in>set ds. MsgType m = MsgDeviceStatus" using dev(2) by blast
  have pl: "list_all plain_eff (heffs ?h)" by (rule plain_device)
  have t: "turn (rng (world s)) e reg m (cact c d) (cstk c d) = Some (ADevice (hstate ?h), heffs ?h)"
    using completed_ok [OF dev(1)] by (simp add: dv(1,2) turn_def)
  have room: "\<forall>a<n. length (cq (popped d c) a @ inbox a (sent (heffs ?h))) \<le> DefaultMailboxSize"
    using ds by (intro closing_room [OF q5]) (auto simp: inbox_map_Pair)
  let ?c = "after_effs d (heffs ?h) (with_actor d (ADevice (hstate ?h)) (popped d c))"
  have lc: "list_all (local_eff n) (heffs ?h)" using ds(1) ld(2) by (intro plain_local [OF pl]) auto
  have out: "outbox (sent (heffs ?h)) = []" unfolding ds(1) by (induction ds) simp_all
  have "MsgType m \<noteq> MsgStopping" using m by (simp add: mkMessage_def)
  from models_turn [OF M ld(1) rc this t lc room] obtain s' where s': "run_receive home_ops e d s = Done s'" "models n reg s' ?c"
      "network (world s') = network (world s)" using out by auto
  have o: "view ?c a = view c a" if "a \<noteq> d" "a \<noteq> l" for a unfolding view_after using that ds(1) by (simp add: view_def inbox_map_Pair)
  have self: "view ?c d = (ADevice (hstate ?h), [], [])" unfolding view_after using ds(1) dv(2,4) ld(3) plain_effs(1) [OF pl] by (simp add: inbox_map_Pair)
  have ll: "cact ?c l = cact c l" "cstk ?c l = cstk c l" "cq ?c l = cq c l @ ds"
    using view_after [of d "heffs ?h" "ADevice (hstate ?h)" c l] ds(1) ld(3) by (simp_all add: view_def inbox_map_Pair)
  have "logged MsgRoundComplete PRoundComplete (cq ?c l) = logged MsgRoundComplete PRoundComplete (cq c l)"
    unfolding ll(3) logged_append using ds(3) by (simp add: logged_others)
  then have L: "logging c0 l rp ?c" using D(1) ll(1,2) by simp
  have A: "adjusting d agg ?c"
    using self dv(3) dev(3-5) by (intro exI [of _ "hstate ?h"] exI [of _ tt] exI [of _ th] exI [of _ tb]) (simp add: view_def)
  have S: "\<forall>m\<in>set (cq ?c l). MsgType m \<noteq> MsgStopping" unfolding ll(3) using D(2) ds(3) by auto
  have len: "length (cq ?c l) = length (cq c l) + 4" "length (cq ?c d) = 0" "length (cq c d) = 1" using ll(3) ds(2) self dv(4) by (simp_all add: view_def)
  have "closing l d c0 rp agg ?c" unfolding closing_def using L S A D(3) len by (intro conjI) simp_all
  moreover have "closing_work l d ?c < closing_work l d c" using len by (simp add: closing_work_def)
  moreover have "cgo ?c = cgo c" using plain_effs(2) [OF pl] by (simp add: cgo_after)
  ultimately show ?thesis using s' o by (intro exI [of _ s'] exI [of _ ?c] conjI) simp_all
qed

section \<open>Runs that a measure bounds\<close>

text \<open>
  If every step keeps an invariant and lowers a measure that is well-founded, there is no infinite run, and some run comes to a state without steps. The invariant and the
  measure may depend on a parameter that changes with the steps.
\<close>

lemma measured_ends:
  assumes wf: "wf R" and step: "\<And>x s t. I x s \<Longrightarrow> rel s t \<Longrightarrow> \<exists>y. I y t \<and> (m y t, m x s) \<in> R" and "I x s"
  shows "\<not> (\<exists>f. f 0 = s \<and> (\<forall>k. rel (f k) (f (Suc k)))) \<and> (\<exists>t. rel\<^sup>*\<^sup>* s t \<and> (\<nexists>u. rel t u))"
  using assms(3)
proof (induction "m x s" arbitrary: x s rule: wf_induct_rule [OF wf])
  case 1
  have IH: "\<not> (\<exists>f. f 0 = t \<and> (\<forall>k. rel (f k) (f (Suc k)))) \<and> (\<exists>u. rel\<^sup>*\<^sup>* t u \<and> (\<nexists>v. rel u v))" if "rel s t" for t
    using step [OF 1(2) that] 1(1) by blast
  have "\<not> (\<exists>f. f 0 = s \<and> (\<forall>k. rel (f k) (f (Suc k))))"
  proof
    assume "\<exists>f. f 0 = s \<and> (\<forall>k. rel (f k) (f (Suc k)))"
    then obtain f where f: "f 0 = s" "\<And>k. rel (f k) (f (Suc k))" by blast
    then have "rel s (f 1)" using f(2) [of 0] by simp
    moreover have "\<exists>g. g 0 = f 1 \<and> (\<forall>k. rel (g k) (g (Suc k)))" using f(2) by (intro exI [of _ "\<lambda>k. f (Suc k)"]) simp
    ultimately show False using IH by blast
  qed
  moreover have "\<exists>t. rel\<^sup>*\<^sup>* s t \<and> (\<nexists>u. rel t u)"
  proof (cases "\<exists>t. rel s t")
    case True
    then obtain t where "rel s t" by blast
    then show ?thesis using IH converse_rtranclp_into_rtranclp [of rel s t] by blast
  next
    case False
    then show ?thesis using rtranclp.rtrancl_refl [of rel s] by blast
  qed
  ultimately show ?case by blast
qed

text \<open>A measure that sums over the sensors, when one of them moves on.\<close>

lemma sum_upd:
  fixes f :: "'b \<Rightarrow> nat"
  assumes "i \<in> set ids"
  shows "(\<Sum>j\<in>set ids. f ((g(i := q)) j)) + f (g i) = (\<Sum>j\<in>set ids. f (g j)) + f q"
proof -
  have "(\<Sum>j\<in>set ids - {i}. f ((g(i := q)) j)) = (\<Sum>j\<in>set ids - {i}. f (g j))" by (rule sum.cong) auto
  then show ?thesis using sum.remove [OF finite_set assms, of "\<lambda>j. f ((g(i := q)) j)"] sum.remove [OF finite_set assms, of "\<lambda>j. f (g j)"] by simp
qed

section \<open>Steps of a process\<close>

text \<open>The steps of the program itself, without messages from outside and without timers.\<close>

fun internal :: "home \<Rightarrow> home_label \<Rightarrow> bool" where
  "internal s (HSys (LReceive a)) = True"
| "internal s (HSys (LPump a)) = True"
| "internal s (HTask k) = (k < length (tasks (world s)) \<and> is_training (tasks (world s) ! k))"
| "internal s _ = False"

definition round_step :: "home \<Rightarrow> home \<Rightarrow> bool" where
  "round_step s s' \<longleftrightarrow> (\<exists>lb. internal s lb \<and> home_step s lb s')"

definition pumping :: "home \<Rightarrow> nat" where
  "pumping s = (\<Sum>a<length (heap s). pump_work (mbox (ent s a)))"

text \<open>A step of a pump changes nothing that the invariant sees.\<close>

lemma models_pump:
  assumes "models n reg s c" "a < n" "pump_step (mbox (ent s a)) mb"
  shows "models n reg (upd_ent a (\<lambda>en. en\<lparr>mbox := mb\<rparr>) s) c" "pumping (upd_ent a (\<lambda>en. en\<lparr>mbox := mb\<rparr>) s) < pumping s"
proof -
  let ?s = "upd_ent a (\<lambda>en. en\<lparr>mbox := mb\<rparr>) s"
  have r: "ready (cq c a) mb" "pump_work mb < pump_work (mbox (ent s a))" using ready_pump [OF assms(3) modelsD(7) [OF assms(1,2)]] by blast+
  then show "models n reg ?s c" using assms(1) by (simp add: models_def ent_upd_ent)
  have n: "length (heap s) = n" using modelsD(1) [OF assms(1)] .
  show "pumping ?s < pumping s"
    unfolding pumping_def upd_ent_simps n
  proof (rule sum_strict_mono_ex1)
    show "\<forall>b\<in>{..<n}. pump_work (mbox (ent ?s b)) \<le> pump_work (mbox (ent s b))" using r(2) n by (auto simp: ent_upd_ent)
    show "\<exists>b\<in>{..<n}. pump_work (mbox (ent ?s b)) < pump_work (mbox (ent s b))" using r(2) n assms(2) by (intro bexI [of _ a]) (auto simp: ent_upd_ent)
  qed simp
qed

lemma round_step_cases:
  assumes M: "models n reg s c" and "round_step s s'"
  obtains (turn) a m mb e where "a < n" "receive (mbox (ent s a)) = Received m mb" "env_ok e" "run_receive home_ops e a s = Done s'"
  | (pump) a mb where "a < n" "pump_step (mbox (ent s a)) mb" "s' = upd_ent a (\<lambda>en. en\<lparr>mbox := mb\<rparr>) s"
  | (training) k a p x e x' msg where "k < length (tasks (world s))" "tasks (world s) ! k = (a, SimulateTraining p)" "a < n" "actor (ent s a) = ASensor x"
      "simulateTraining e x p = Some (x', msg)" "Tell a msg (set_actor a (ASensor x') (drop_task k s)) = Done s'"
proof -
  note n = modelsD(1) [OF M]
  obtain lb where lb: "internal s lb" "home_step s lb s'" using assms(2) by (auto simp: round_step_def)
  from lb(2,1) show ?thesis
  proof (cases rule: home_step.cases)
    case (sys sl)
    from sys(2) show ?thesis
    proof (cases rule: sys_step.cases)
      case (receive a e)
      then have an: "a < n" using n by simp
      have "receive (mbox (ent s a)) \<noteq> ChanClosed" using ready_not_closed modelsD(7) [OF M an] by blast
      moreover have "receive (mbox (ent s a)) \<noteq> WouldBlock" using receive(5) by (auto simp: run_receive_def)
      ultimately obtain m mb where "receive (mbox (ent s a)) = Received m mb" by (cases "receive (mbox (ent s a))") auto
      then show ?thesis using turn [OF an _ receive(4,5)] by blast
    next
      case (pump a mb)
      then show ?thesis using that(2) n by simp
    qed (use lb(1) sys(1) in simp_all)
  next
    case (train k a p x e x' msg)
    then show ?thesis using training [OF train(2,3)] n by simp
  qed (use lb(1) in \<open>auto simp: is_training_def\<close>)
qed

lemma turn_possible:
  assumes "models n reg s c" "a < n" "run_receive home_ops e a s = Done s'" "env_ok e"
  shows "round_step s s'"
proof -
  have "home_step s (HSys (LReceive a)) s'"
    using sys_step.receive [OF _ _ assms(4,3)] modelsD(1,4) [OF assms(1)] assms(2) by (intro home_step.sys) simp_all
  then show ?thesis unfolding round_step_def by (intro exI [of _ "HSys (LReceive a)"]) simp
qed

lemma training_possible:
  assumes "models n reg s c" "k < length (tasks (world s))" "tasks (world s) ! k = (a, SimulateTraining p)" "a < n" "actor (ent s a) = ASensor x"
    and "simulateTraining e x p = Some (x', msg)" "Tell a msg (set_actor a (ASensor x') (drop_task k s)) = Done s'"
  shows "round_step s s'"
proof -
  have "home_step s (HTask k) s'" using home_step.train [OF assms(2,3) _ assms(5-7)] modelsD(1) [OF assms(1)] assms(4) by simp
  then show ?thesis unfolding round_step_def using assms(2,3) by (intro exI [of _ "HTask k"]) (simp add: is_training_def)
qed

text \<open>A message that waits can be received, or the pump can move on.\<close>

lemma waiting_possible:
  assumes M: "models n reg s c" and a: "a < n" "cq c a \<noteq> []"
  shows "(\<exists>m mb. receive (mbox (ent s a)) = Received m mb) \<or> (\<exists>s'. round_step s s')"
proof -
  obtain m q where "cq c a = m # q" using a(2) by (cases "cq c a") auto
  then have "ready (m # q) (mbox (ent s a))" using modelsD(7) [OF M a(1)] by simp
  from ready_progress [OF this] show ?thesis
  proof
    assume "\<exists>mb. pump_step (mbox (ent s a)) mb"
    then obtain mb where "pump_step (mbox (ent s a)) mb" by blast
    then have "home_step s (HSys (LPump a)) (upd_ent a (\<lambda>en. en\<lparr>mbox := mb\<rparr>) s)"
      using sys_step.pump modelsD(1) [OF M] a(1) by (intro home_step.sys) blast
    then show ?thesis unfolding round_step_def by (intro disjI2 exI [of _ "upd_ent a (\<lambda>en. en\<lparr>mbox := mb\<rparr>) s"] exI [of _ "HSys (LPump a)"]) simp
  qed blast
qed

text \<open>The configuration of a state, and that all its actors run and are open for messages.\<close>

definition config_of :: "home \<Rightarrow> config" where
  "config_of s = \<lparr>cact = (\<lambda>a. actor (ent s a)), cstk = (\<lambda>a. behaviorStack (ent s a)), cq = (\<lambda>a. contents (mbox (ent s a))), cgo = tasks (world s)\<rparr>"

definition all_running :: "home \<Rightarrow> bool" where
  "all_running s \<longleftrightarrow> (\<forall>a<length (heap s). phase (ent s a) = Running \<and> ready (contents (mbox (ent s a))) (mbox (ent s a)))"

lemma models_config_of: "all_running s \<Longrightarrow> models (length (heap s)) (actors s) s (config_of s)"
  by (simp add: all_running_def models_def config_of_def)

end
