(* ===== verification/Round.thy ===== *)
theory Round
  imports RoundParts
begin

text \<open>
  A whole round of federated learning as a run of the program: from the \<^verbatim>\<open>StartRound\<close> message in the mailbox of the coordinator to the last message that the
  round causes, over all interleavings of the coordinator, the sensors, their training goroutines, the logger, the device controller and the pumps of the mailboxes.

  \<open>round_step\<close> are the steps of the program itself: no message from outside, no timer, no new actor. \<open>round_begins\<close> says what a round starts from. The invariant has three phases:
  before the coordinator's first turn; collecting, where each sensor is in one of four stages; and finishing. Every step lowers a
  measure, and as long as the round is not over some step is possible.
\<close>

section \<open>What a round starts from\<close>

definition sensor_of :: "(ActorID, nat) gomap \<Rightarrow> config \<Rightarrow> string \<Rightarrow> SensorActor" where
  "sensor_of reg c i = (case cact c (the (mget reg i)) of ASensor x \<Rightarrow> x)"

definition round_begins :: "nat \<Rightarrow> (ActorID, nat) gomap \<Rightarrow> nat \<Rightarrow> nat \<Rightarrow> nat \<Rightarrow> sensor_factory CoordinatorActor \<Rightarrow> config \<Rightarrow> bool" where
  "round_begins n reg ca l d st c \<longleftrightarrow>
    cact c ca = ACoordinator st \<and> cstk c ca = [] \<and> cq c ca = [mkMessage MsgStartRound (Dyn StartRoundPayload) ''''] \<and> ca < n \<and> mget reg (coordID st) = Some ca \<and>
    sensors st \<noteq> [] \<and> distinct (keys (sensors st)) \<and> length (sensors st) \<le> DefaultMailboxSize \<and> sensorRemoteRefs st = [] \<and> 72 \<le> length (elems (globalWeights st)) \<and>
    loggerRef st = ''logger'' \<and> mget reg ''logger'' = Some l \<and> l < n \<and> (\<exists>lg. cact c l = ALogger lg) \<and> cstk c l = [] \<and>
    deviceRef st \<noteq> '''' \<and> mget reg (deviceRef st) = Some d \<and> d < n \<and> (\<exists>dv. cact c d = ADevice dv) \<and> cstk c d = [] \<and>
    (\<forall>i\<in>set (keys (sensors st)). \<exists>a x. mget reg i = Some a \<and> a < n \<and> cact c a = ASensor x \<and> cstk c a = [] \<and> sensorID x = i \<and> sensor_fit st x \<and>
      coordinatorRef x = None \<and> coordinator x = coordID st) \<and>
    (\<Sum>i\<leftarrow>keys (sensors st). int (length (trainData (sensor_of reg c i)))) < 2 ^ 63 \<and>
    (\<forall>a<n. a \<noteq> ca \<longrightarrow> cq c a = []) \<and> filter is_training (cgo c) = []"

section \<open>Phases\<close>

datatype stage = Asked | InTraining | Trained | Reported

fun stage_view :: "sensor_factory CoordinatorActor \<Rightarrow> SensorActor \<Rightarrow> stage \<Rightarrow> home_actor \<times> behavior list \<times> home_message list" where
  "stage_view st x Asked = (ASensor x, [], [mkMessage MsgStartTraining (Dyn (request st)) (coordID st)])"
| "stage_view st x InTraining = (ASensor (in_training st x), [TrainingBehavior], [])"
| "stage_view st x Trained = (ASensor (fst (result st x)), [TrainingBehavior], [snd (result st x)])"
| "stage_view st x Reported = (ASensor (reported_state st x), [], [])"

fun stage_work :: "stage \<Rightarrow> nat" where
  "stage_work Asked = 4"
| "stage_work InTraining = 3"
| "stage_work Trained = 2"
| "stage_work Reported = 0"

text \<open>
  Collecting: \<open>sg\<close> is the stage of each sensor, \<open>gi\<close> are the sensors whose update the coordinator has filed, \<open>qi\<close> those whose update waits in its mailbox.
\<close>

definition collecting :: "nat \<Rightarrow> (ActorID, nat) gomap \<Rightarrow> nat \<Rightarrow> sensor_factory CoordinatorActor \<Rightarrow> config \<Rightarrow>
    int \<Rightarrow> (string \<Rightarrow> stage) \<Rightarrow> string list \<Rightarrow> string list \<Rightarrow> config \<Rightarrow> bool" where
  "collecting n reg ca st c0 t sg gi qi c \<longleftrightarrow> (let ids = keys (sensors st); addr = (\<lambda>i. the (mget reg i)); X = sensor_of reg c0 in
    view c ca = (ACoordinator ((started st t)\<lparr>pendingUpdates := filed (map (\<lambda>i. update_of st (X i)) gi)\<rparr>), [], map (\<lambda>i. update_msg st (X i)) qi) \<and>
    (\<forall>i\<in>set ids. view c (addr i) = stage_view st (X i) (sg i)) \<and>
    (\<forall>a<n. a \<noteq> ca \<and> a \<notin> addr ` set ids \<longrightarrow> view c a = view c0 a) \<and>
    distinct (gi @ qi) \<and> set (gi @ qi) = {i \<in> set ids. sg i = Reported} \<and> length gi < length ids \<and>
    mset (filter is_training (cgo c)) = image_mset (\<lambda>i. (addr i, SimulateTraining (request st))) (filter_mset (\<lambda>i. sg i = InTraining) (mset ids)))"

text \<open>
  A sensor that has the new weights or finds them in its mailbox; a logger that has the report, or finds it there; a device controller that has set the devices, or is told to.
\<close>

abbreviation told :: "sensor_factory CoordinatorActor \<Rightarrow> sensor_factory payload list \<Rightarrow> f64 list \<Rightarrow> SensorActor \<Rightarrow>
    home_actor \<times> behavior list \<times> home_message list \<Rightarrow> bool" where
  "told st us agg x v \<equiv> v = (ASensor (reported_state st x), [], [global_msg st us agg]) \<or>
    v = (ASensor ((reported_state st x)\<lparr>weights := SList agg, roundID := next_round st\<rparr>), [], [])"

definition finishing :: "nat \<Rightarrow> (ActorID, nat) gomap \<Rightarrow> nat \<Rightarrow> nat \<Rightarrow> nat \<Rightarrow> sensor_factory CoordinatorActor \<Rightarrow> config \<Rightarrow>
    sensor_factory payload list \<Rightarrow> f64 list \<Rightarrow> int \<Rightarrow> config \<Rightarrow> bool" where
  "finishing n reg ca l d st c0 us agg ms c \<longleftrightarrow> (let ids = keys (sensors st); addr = (\<lambda>i. the (mget reg i)); X = sensor_of reg c0 in
    mset us = mset (map (\<lambda>i. update_of st (X i)) ids) \<and> averages us agg \<and> length agg = length (elems (globalWeights st)) \<and>
    (\<exists>t gi. mset gi = mset ids \<and> view c ca =
      (ACoordinator ((started st t)\<lparr>pendingUpdates := filed (map (\<lambda>i. update_of st (X i)) gi), globalWeights := SList agg\<rparr>), [], [])) \<and>
    (\<forall>i\<in>set ids. told st us agg (X i) (view c (addr i))) \<and>
    closing l d c0 (report st us ms) agg c \<and>
    (\<forall>a<n. a \<noteq> ca \<and> a \<notin> addr ` set ids \<and> a \<noteq> l \<and> a \<noteq> d \<longrightarrow> cq c a = []) \<and>
    filter is_training (cgo c) = [])"

section \<open>Lemmas\<close>

subsection \<open>The start\<close>

lemma round_beginsD:
  assumes "round_begins n reg ca l d st c"
  shows "cact c ca = ACoordinator st" "cstk c ca = []" "cq c ca = [mkMessage MsgStartRound (Dyn StartRoundPayload) '''']" "ca < n" "mget reg (coordID st) = Some ca"
    "sensors st \<noteq> []" "distinct (keys (sensors st))" "length (sensors st) \<le> DefaultMailboxSize" "sensorRemoteRefs st = []" "72 \<le> length (elems (globalWeights st))"
    "loggerRef st = ''logger''" "mget reg ''logger'' = Some l" "l < n" "\<exists>lg. cact c l = ALogger lg" "cstk c l = []"
    "deviceRef st \<noteq> ''''" "mget reg (deviceRef st) = Some d" "d < n" "\<exists>dv. cact c d = ADevice dv" "cstk c d = []"
    "(\<Sum>i\<leftarrow>keys (sensors st). int (length (trainData (sensor_of reg c i)))) < 2 ^ 63"
    "a < n \<Longrightarrow> a \<noteq> ca \<Longrightarrow> cq c a = []" "filter is_training (cgo c) = []"
  using assms unfolding round_begins_def by (simp_all del: distinct_map)

lemma round_begins_sensor:
  assumes "round_begins n reg ca l d st c" "i \<in> set (keys (sensors st))"
  shows "mget reg i = Some (the (mget reg i))" "the (mget reg i) < n" "cact c (the (mget reg i)) = ASensor (sensor_of reg c i)" "cstk c (the (mget reg i)) = []"
    "sensorID (sensor_of reg c i) = i" "sensor_fit st (sensor_of reg c i)" "home_ref reg (sensor_of reg c i) = Some (LocalRef ca)"
proof -
  obtain a x where "mget reg i = Some a" "a < n" "cact c a = ASensor x" "cstk c a = []" "sensorID x = i" "sensor_fit st x"
      "coordinatorRef x = None" "coordinator x = coordID st" "mget reg (coordID st) = Some ca"
    using assms unfolding round_begins_def by blast
  then show "mget reg i = Some (the (mget reg i))" "the (mget reg i) < n" "cact c (the (mget reg i)) = ASensor (sensor_of reg c i)" "cstk c (the (mget reg i)) = []"
    "sensorID (sensor_of reg c i) = i" "sensor_fit st (sensor_of reg c i)" "home_ref reg (sensor_of reg c i) = Some (LocalRef ca)"
    by (simp_all add: sensor_of_def home_ref_def)
qed

lemma round_begins_parts:
  assumes R: "round_begins n reg ca l d st c"
  shows "crew st (sensor_of reg c)" "office reg l d st"
proof -
  note b = round_beginsD [OF R] and s = round_begins_sensor [OF R]
  show "office reg l d st" using b(10-12,16,17) by (simp add: office_def)
  show "crew st (sensor_of reg c)" unfolding crew_def using b(6,7,21) s(5,6) by blast
qed

lemma addresses_differ:
  assumes "round_begins n reg ca l d st c"
  shows "ca \<noteq> l" "ca \<noteq> d" "l \<noteq> d" "i \<in> set (keys (sensors st)) \<Longrightarrow> the (mget reg i) \<noteq> ca \<and> the (mget reg i) \<noteq> l \<and> the (mget reg i) \<noteq> d"
    "inj_on (\<lambda>i. the (mget reg i)) (set (keys (sensors st)))"
proof -
  note b = round_beginsD [OF assms] and s = round_begins_sensor [OF assms]
  show "ca \<noteq> l" "ca \<noteq> d" "l \<noteq> d" using b(1,14,19) by auto
  show "the (mget reg i) \<noteq> ca \<and> the (mget reg i) \<noteq> l \<and> the (mget reg i) \<noteq> d" if "i \<in> set (keys (sensors st))"
    using s(3) [OF that] b(1,14,19) by auto
  show "inj_on (\<lambda>i. the (mget reg i)) (set (keys (sensors st)))"
    by (rule inj_onI) (metis s(3,5) home_actor.inject(1))
qed

subsection \<open>Broadcasts\<close>

lemma inbox_addressed:
  assumes "sensorRemoteRefs st = []" "look c = mget reg" "distinct ids" "inj_on (\<lambda>i. the (mget reg i)) (set ids)" "\<forall>i\<in>set ids. mget reg i \<noteq> None"
  shows "inbox b (addressed c st msg ids) = (if b \<in> (\<lambda>i. the (mget reg i)) ` set ids then [msg] else [])"
  using assms(3-)
proof (induction ids)
  case (Cons i ids)
  then obtain a where a: "mget reg i = Some a" by auto
  have IH: "inbox b (addressed c st msg ids) = (if b \<in> (\<lambda>i. the (mget reg i)) ` set ids then [msg] else [])"
    using Cons.prems by (intro Cons.IH) (auto intro: inj_on_subset)
  have "a \<notin> (\<lambda>i. the (mget reg i)) ` set ids" using Cons.prems(1,2) a by (force simp: inj_on_def)
  then show ?case using IH a assms(1,2) by (auto simp: addressed_def List.map_filter_simps lookupRef_def)
qed (simp add: addressed_def List.map_filter_simps)

lemma addressed_local:
  assumes "sensorRemoteRefs st = []" "look c = mget reg" "(LocalRef b, m) \<in> set (addressed c st msg ids)"
  shows "\<exists>i\<in>set ids. mget reg i = Some b"
  using assms by (auto simp: addressed_iff lookupRef_def)

text \<open>The messages of a round reach every sensor once, and nobody else.\<close>

lemma inbox_sensors:
  assumes "round_begins n reg ca l d st c" "env_ok e" "sensorRemoteRefs st' = []" "look x = mget reg"
  shows "inbox b (addressed x st' msg (iter e (keys (sensors st)))) = (if b \<in> (\<lambda>i. the (mget reg i)) ` set (keys (sensors st)) then [msg] else [])"
proof -
  have "mget reg i \<noteq> None" if "i \<in> set (keys (sensors st))" for i using round_begins_sensor(1) [OF assms(1) that] by (metis option.distinct(1))
  then show ?thesis
    using inbox_addressed [OF assms(3,4), of "iter e (keys (sensors st))"] round_beginsD(7) [OF assms(1)] addresses_differ(5) [OF assms(1)] assms(2)
    by (simp del: distinct_map set_map)
qed

subsection \<open>The first turn of the coordinator\<close>

lemma tell_sensors_local:
  assumes R: "round_begins n reg ca l d st c0" and "env_ok e" and x: "sensorRemoteRefs st' = []" "look x = mget reg"
  shows "list_all (local_eff n) (tell_sensors x st' msg (iter e (keys (sensors st))))"
proof (rule plain_local [OF plain_tell_sensors], clarify)
  fix m a assume "(LocalRef a, m) \<in> set (sent (tell_sensors x st' msg (iter e (keys (sensors st)))))"
  then have "\<exists>i\<in>set (iter e (keys (sensors st))). mget reg i = Some a" unfolding sent_tell_sensors by (rule addressed_local [OF x])
  then obtain i where "i \<in> set (keys (sensors st))" "mget reg i = Some a" using assms(2) by (auto simp del: set_map)
  then show "a < n" using round_begins_sensor(2) [OF R] by force
qed

lemma start_turn:
  assumes R: "round_begins n reg ca l d st c0" and M: "models n reg s c0" and "receive (mbox (ent s ca)) = Received m mb" "env_ok e"
  shows "\<exists>s' c'. run_receive home_ops e ca s = Done s' \<and> models n reg s' c' \<and> collecting n reg ca st c0 (now e) (\<lambda>_. Asked) [] [] c'"
proof -
  note b = round_beginsD [OF R] and sen = round_begins_sensor [OF R] and df = addresses_differ [OF R]
  have m: "m = mkMessage MsgStartRound (Dyn StartRoundPayload) ''''" using models_popped(2) [OF M b(4) assms(3)] b(3) by simp
  let ?x = "turn_ctx reg m (ACoordinator st)" and ?st = "started st (now e)"
  let ?msg = "mkMessage MsgStartTraining (Dyn (request st)) (coordID st) :: home_message" and ?ids = "iter e (keys (sensors st))"
  let ?effs = "tell_sensors ?x ?st ?msg ?ids"
  let ?A = "(\<lambda>i. the (mget reg i)) ` set (keys (sensors st))"
  have "handleStartRound e ?x st = HRes ?st ?effs None"
    by (simp add: handleStartRound_def Let_def started_def next_round_def request_def turn_ctx_def tell_sensors_def)
  then have t: "turn (rng (world s)) e reg m (cact c0 ca) (cstk c0 ca) = Some (ACoordinator ?st, ?effs)"
    using b(1,2) m by (simp add: turn_def coord_Receive_def mkMessage_def)
  have st: "sensorRemoteRefs ?st = []" "look ?x = mget reg" using b(9) by (simp_all add: started_def turn_ctx_def)
  have inb: "inbox a (sent ?effs) = (if a \<in> ?A then [?msg] else [])" for a
    unfolding sent_tell_sensors by (rule inbox_sensors [OF R assms(4) st])
  have lc: "list_all (local_eff n) ?effs" by (rule tell_sensors_local [OF R assms(4) st])
  have pq: "cq (popped ca c0) a = []" if "a < n" for a using that b(3,22) by (cases "a = ca") (simp_all add: popped_def)
  have room: "\<forall>a<n. length (cq (popped ca c0) a @ inbox a (sent ?effs)) \<le> DefaultMailboxSize"
    unfolding inb using pq by (simp add: DefaultMailboxSize_def)
  have "MsgType m \<noteq> MsgStopping" using m by (simp add: mkMessage_def)
  from models_turn [OF M b(4) assms(3) this t lc room] obtain s' where
    s': "run_receive home_ops e ca s = Done s'" "models n reg s' (after_effs ca ?effs (with_actor ca (ACoordinator ?st) (popped ca c0)))" by blast
  let ?c = "after_effs ca ?effs (with_actor ca (ACoordinator ?st) (popped ca c0))"
  have c: "view ?c a = (if a = ca then ACoordinator ?st else cact c0 a, cstk c0 a, inbox a (sent ?effs))" if "a < n" for a
    unfolding after_plain [OF plain_tell_sensors] using pq [OF that] by (simp add: view_def with_actor_def popped_def)
  have "collecting n reg ca st c0 (now e) (\<lambda>_. Asked) [] [] ?c"
    unfolding collecting_def Let_def
  proof (intro conjI ballI allI impI)
    show "view ?c ca = (ACoordinator ((started st (now e))\<lparr>pendingUpdates := filed (map (\<lambda>i. update_of st (sensor_of reg c0 i)) [])\<rparr>), [],
        map (\<lambda>i. update_msg st (sensor_of reg c0 i)) [])"
      using c [OF b(4)] df(4) b(2) inb [of ca] by (auto simp: started_def simp del: set_map)
    show "view ?c (the (mget reg i)) = stage_view st (sensor_of reg c0 i) Asked" if "i \<in> set (keys (sensors st))" for i
      using c [OF sen(2) [OF that]] sen(3,4) [OF that] df(4) [OF that] inb [of "the (mget reg i)"] that by (simp del: set_map)
    show "view ?c a = view c0 a" if "a < n" "a \<noteq> ca \<and> a \<notin> ?A" for a
      using c [OF that(1)] that inb [of a] b(22) by (simp add: view_def del: set_map)
    show "mset (filter is_training (cgo ?c)) = image_mset (\<lambda>i. (the (mget reg i), SimulateTraining (request st))) {#i \<in># mset (keys (sensors st)). Asked = InTraining#}"
      unfolding after_plain [OF plain_tell_sensors] using b(23) by (simp add: with_actor_def popped_def)
  qed (use b(6) in simp_all)
  with s' show ?thesis by blast
qed

subsection \<open>Collecting\<close>

lemma collectingD:
  assumes "collecting n reg ca st c0 t sg gi qi c"
  shows "view c ca = (ACoordinator ((started st t)\<lparr>pendingUpdates := filed (map (\<lambda>i. update_of st (sensor_of reg c0 i)) gi)\<rparr>), [],
      map (\<lambda>i. update_msg st (sensor_of reg c0 i)) qi)"
    "i \<in> set (keys (sensors st)) \<Longrightarrow> view c (the (mget reg i)) = stage_view st (sensor_of reg c0 i) (sg i)"
    "a < n \<Longrightarrow> a \<noteq> ca \<Longrightarrow> a \<notin> (\<lambda>i. the (mget reg i)) ` set (keys (sensors st)) \<Longrightarrow> view c a = view c0 a"
    "distinct (gi @ qi)" "set (gi @ qi) = {i \<in> set (keys (sensors st)). sg i = Reported}" "length gi < length (sensors st)"
    "mset (filter is_training (cgo c)) = image_mset (\<lambda>i. (the (mget reg i), SimulateTraining (request st))) (filter_mset (\<lambda>i. sg i = InTraining) (mset (keys (sensors st))))"
  using assms unfolding collecting_def Let_def by (blast, blast, blast, blast, blast, simp, blast)

text \<open>One sensor goes to its next stage.\<close>

lemma collecting_next:
  assumes R: "round_begins n reg ca l d st c0" and C: "collecting n reg ca st c0 t sg gi qi c" and i: "i \<in> set (keys (sensors st))"
    and v: "view c' (the (mget reg i)) = stage_view st (sensor_of reg c0 i) g" "\<And>a. a < n \<Longrightarrow> a \<noteq> the (mget reg i) \<Longrightarrow> a \<noteq> ca \<Longrightarrow> view c' a = view c a"
    and q: "view c' ca = (ACoordinator ((started st t)\<lparr>pendingUpdates := filed (map (\<lambda>i. update_of st (sensor_of reg c0 i)) gi)\<rparr>), [],
      map (\<lambda>i. update_msg st (sensor_of reg c0 i)) qi')" "distinct (gi @ qi')" "set (gi @ qi') = {j \<in> set (keys (sensors st)). (sg(i := g)) j = Reported}"
    and T: "mset (filter is_training (cgo c')) = image_mset (\<lambda>i. (the (mget reg i), SimulateTraining (request st)))
      (filter_mset (\<lambda>j. (sg(i := g)) j = InTraining) (mset (keys (sensors st))))"
  shows "collecting n reg ca st c0 t (sg(i := g)) gi qi' c'"
proof -
  note df = addresses_differ [OF R] and sen = round_begins_sensor [OF R] and D = collectingD [OF C]
  have "view c' (the (mget reg j)) = stage_view st (sensor_of reg c0 j) ((sg(i := g)) j)" if j: "j \<in> set (keys (sensors st))" for j
  proof (cases "j = i")
    case True
    then show ?thesis using v(1) by simp
  next
    case False
    then have "the (mget reg j) \<noteq> the (mget reg i)" using df(5) i j by (auto simp: inj_on_def simp del: set_map)
    then show ?thesis using v(2) [OF sen(2) [OF j]] df(4) [OF j] D(2) [OF j] False by simp
  qed
  moreover have "view c' a = view c0 a" if "a < n" "a \<noteq> ca" "a \<notin> (\<lambda>i. the (mget reg i)) ` set (keys (sensors st))" for a
    using v(2) [OF that(1) _ that(2)] D(3) [OF that] that(3) i by (metis imageI)
  ultimately show ?thesis unfolding collecting_def Let_def using q T D(6) by (intro conjI ballI allI impI) simp_all
qed

lemma filter_stage:
  assumes "distinct ids"
  shows "filter_mset P (mset ids) = mset_set {i \<in> set ids. P i}"
proof -
  have "mset ids = mset_set (set ids)" using mset_set_set [OF assms] by simp
  then show ?thesis using filter_mset_mset_set [of "set ids" P] by simp
qed

lemma stage_ins:
  assumes "distinct ids" "i \<in> set ids" "sg i \<noteq> g"
  shows "filter_mset (\<lambda>j. (sg(i := g)) j = g) (mset ids) = add_mset i (filter_mset (\<lambda>j. sg j = g) (mset ids))"
proof -
  have "{j \<in> set ids. (sg(i := g)) j = g} = insert i {j \<in> set ids. sg j = g}" using assms(2) by auto
  then show ?thesis unfolding filter_stage [OF assms(1)] using assms(3) by simp
qed

lemma stage_del:
  assumes "distinct ids" "i \<in> set ids" "sg i = g" "g' \<noteq> g"
  shows "filter_mset (\<lambda>j. sg j = g) (mset ids) = add_mset i (filter_mset (\<lambda>j. (sg(i := g')) j = g) (mset ids))"
proof -
  have "{j \<in> set ids. sg j = g} = insert i {j \<in> set ids. (sg(i := g')) j = g}" "i \<notin> {j \<in> set ids. (sg(i := g')) j = g}" using assms(2-4) by auto
  then show ?thesis unfolding filter_stage [OF assms(1)] by simp
qed

lemma stage_same:
  assumes "sg i \<noteq> g" "g' \<noteq> g"
  shows "filter_mset (\<lambda>j. (sg(i := g')) j = g) M = filter_mset (\<lambda>j. sg j = g) M"
  using assms by (intro filter_mset_cong) auto

text \<open>The mailboxes have room: besides the coordinator's, where each sensor has at most one update, none holds more than one message.\<close>

lemma collecting_room:
  assumes R: "round_begins n reg ca l d st c0" and C: "collecting n reg ca st c0 t sg gi qi c" and "a < n"
  shows "length (cq c a) \<le> (if a = ca then length qi else 1)" "length (gi @ qi) \<le> length (sensors st)"
proof -
  note D = collectingD [OF C]
  show "length (cq c a) \<le> (if a = ca then length qi else 1)"
  proof (cases "a = ca")
    case True
    then show ?thesis using viewD [OF D(1)] by simp
  next
    case False
    then show ?thesis
    proof (cases "a \<in> (\<lambda>i. the (mget reg i)) ` set (keys (sensors st))")
      case True
      then obtain i where "i \<in> set (keys (sensors st))" "a = the (mget reg i)" by blast
      then have "view c a = stage_view st (sensor_of reg c0 i) (sg i)" using D(2) by simp
      then show ?thesis using False by (cases "sg i") (auto simp: view_def)
    next
      case other: False
      then have "cq c a = []" using D(3) [OF assms(3) False other] round_beginsD(22) [OF R assms(3) False] by (simp add: view_def)
      then show ?thesis by simp
    qed
  qed
  have "length (gi @ qi) = card (set (gi @ qi))" using D(4) by (metis distinct_card)
  also have "\<dots> \<le> card (set (keys (sensors st)))" unfolding D(5) by (intro card_mono) auto
  also have "\<dots> \<le> length (sensors st)" by (metis card_length length_map)
  finally show "length (gi @ qi) \<le> length (sensors st)" .
qed

lemma collect_asked:
  assumes R: "round_begins n reg ca l d st c0" and M: "models n reg s c" and C: "collecting n reg ca st c0 t sg gi qi c"
    and i: "i \<in> set (keys (sensors st))" "sg i = Asked" and rc: "receive (mbox (ent s (the (mget reg i)))) = Received m mb"
  shows "\<exists>s' c'. run_receive home_ops e (the (mget reg i)) s = Done s' \<and> models n reg s' c' \<and> collecting n reg ca st c0 t (sg(i := InTraining)) gi qi c'"
proof -
  note df = addresses_differ [OF R] and sen = round_begins_sensor [OF R i(1)] and D = collectingD [OF C]
  let ?a = "the (mget reg i)" and ?x = "sensor_of reg c0 i"
  let ?effs = "[EBecome TrainingBehavior, EGo (SimulateTraining (request st))]"
  have v: "cact c ?a = ASensor ?x" "cstk c ?a = []" "cq c ?a = [mkMessage MsgStartTraining (Dyn (request st)) (coordID st)]"
    using viewD [of c ?a] D(2) [OF i(1)] i(2) by auto
  have m: "m = mkMessage MsgStartTraining (Dyn (request st)) (coordID st)" using models_popped(2) [OF M sen(2) rc] v(3) by simp
  have t: "turn (rng (world s)) e reg m (cact c ?a) (cstk c ?a) = Some (ASensor (in_training st ?x), ?effs)" unfolding m v(1,2) mkMessage_def by (rule turn_asked)
  have room: "\<forall>b<n. length (cq (popped ?a c) b @ inbox b (sent ?effs)) \<le> DefaultMailboxSize"
  proof (intro allI impI)
    fix b assume "b < n"
    from collecting_room [OF R C this] round_beginsD(8) [OF R] show "length (cq (popped ?a c) b @ inbox b (sent ?effs)) \<le> DefaultMailboxSize"
      by (auto simp: popped_def DefaultMailboxSize_def split: if_splits)
  qed
  let ?c = "after_effs ?a ?effs (with_actor ?a (ASensor (in_training st ?x)) (popped ?a c))"
  have "MsgType m \<noteq> MsgStopping" using m by (simp add: mkMessage_def)
  from models_turn [OF M sen(2) rc this t _ room] obtain s' where
    s': "run_receive home_ops e ?a s = Done s'" "models n reg s' ?c" by auto
  have "collecting n reg ca st c0 t (sg(i := InTraining)) gi qi ?c"
  proof (rule collecting_next [OF R C i(1)])
    show "view ?c ?a = stage_view st ?x InTraining" unfolding view_after using v by (simp add: Become_def)
    show "view ?c b = view c b" if "b \<noteq> ?a" for b unfolding view_after using that by (simp add: view_def)
    show "view ?c ca = (ACoordinator ((started st t)\<lparr>pendingUpdates := filed (map (\<lambda>i. update_of st (sensor_of reg c0 i)) gi)\<rparr>), [],
        map (\<lambda>i. update_msg st (sensor_of reg c0 i)) qi)"
      unfolding view_after using df(4) [OF i(1)] D(1) by (simp add: view_def)
    show "set (gi @ qi) = {j \<in> set (keys (sensors st)). (sg(i := InTraining)) j = Reported}" unfolding D(5) using i(2) by auto
    show "mset (filter is_training (cgo ?c)) = image_mset (\<lambda>i. (the (mget reg i), SimulateTraining (request st)))
        {#j \<in># mset (keys (sensors st)). (sg(i := InTraining)) j = InTraining#}"
      unfolding cgo_after stage_ins [OF round_beginsD(7) [OF R] i(1), of sg InTraining, unfolded i(2), OF stage.distinct(1)]
      using D(7) by (simp add: is_training_def)
  qed (rule D(4))
  with s' show ?thesis by blast
qed

lemma collect_task:
  assumes R: "round_begins n reg ca l d st c0" and M: "models n reg s c" and C: "collecting n reg ca st c0 t sg gi qi c"
    and k: "k < length (cgo c)" "cgo c ! k = (a, SimulateTraining p)"
  shows "\<exists>i s' c'. i \<in> set (keys (sensors st)) \<and> sg i = InTraining \<and> a < n \<and> p = request st \<and> actor (ent s a) = ASensor (in_training st (sensor_of reg c0 i)) \<and>
    (\<forall>e. simulateTraining e (in_training st (sensor_of reg c0 i)) p = Some (result st (sensor_of reg c0 i))) \<and>
    Tell a (snd (result st (sensor_of reg c0 i))) (set_actor a (ASensor (fst (result st (sensor_of reg c0 i)))) (drop_task k s)) = Done s' \<and>
    models n reg s' c' \<and> collecting n reg ca st c0 t (sg(i := Trained)) gi qi c'"
proof -
  note df = addresses_differ [OF R] and D = collectingD [OF C]
  have tr: "is_training (cgo c ! k)" using k(2) by (simp add: is_training_def)
  then have "cgo c ! k \<in> set (filter is_training (cgo c))" using k(1) by simp
  then have "cgo c ! k \<in># mset (filter is_training (cgo c))" unfolding set_mset_mset .
  then obtain i where "i \<in># {#i \<in># mset (keys (sensors st)). sg i = InTraining#}" "cgo c ! k = (the (mget reg i), SimulateTraining (request st))"
    unfolding D(7) set_image_mset by (elim imageE)
  then have i: "i \<in> set (keys (sensors st))" "sg i = InTraining" "a = the (mget reg i)" "p = request st"
    using k(2) by (simp_all only: set_mset_filter set_mset_mset mem_Collect_eq prod.inject task.inject)
  note sen = round_begins_sensor [OF R i(1)]
  let ?x = "sensor_of reg c0 i"
  have v: "cact c a = ASensor (in_training st ?x)" "cstk c a = [TrainingBehavior]" "cq c a = []" using viewD [of c a] D(2) [OF i(1)] i(2,3) by auto
  let ?c1 = "with_actor a (ASensor (fst (result st ?x))) (c\<lparr>cgo := take k (cgo c) @ drop (Suc k) (cgo c)\<rparr>)"
  have an: "a < n" using sen(2) i(3) by simp
  have m1: "models n reg (set_actor a (ASensor (fst (result st ?x))) (drop_task k s)) ?c1"
    unfolding set_actor_def by (rule models_with_actor [OF models_drop_task [OF M]])
  have "length (cq ?c1 a) < DefaultMailboxSize" using v(3) by (simp add: with_actor_def DefaultMailboxSize_def)
  then obtain s' where s': "Tell a (snd (result st ?x)) (set_actor a (ASensor (fst (result st ?x))) (drop_task k s)) = Done s'"
      "models n reg s' (?c1\<lparr>cq := (cq ?c1)(a := cq ?c1 a @ [snd (result st ?x)])\<rparr>)"
    using models_Tell [OF m1 an] by blast
  let ?c = "?c1\<lparr>cq := (cq ?c1)(a := cq ?c1 a @ [snd (result st ?x)])\<rparr>"
  have "collecting n reg ca st c0 t (sg(i := Trained)) gi qi ?c"
  proof (rule collecting_next [OF R C i(1)])
    show "view ?c (the (mget reg i)) = stage_view st ?x Trained" unfolding i(3) [symmetric] using v by (simp add: view_def with_actor_def)
    show "view ?c b = view c b" if "b \<noteq> the (mget reg i)" for b using that i(3) by (simp add: view_def with_actor_def)
    show "view ?c ca = (ACoordinator ((started st t)\<lparr>pendingUpdates := filed (map (\<lambda>i. update_of st (sensor_of reg c0 i)) gi)\<rparr>), [],
        map (\<lambda>i. update_msg st (sensor_of reg c0 i)) qi)"
      using df(4) [OF i(1)] D(1) i(3) by (simp add: view_def with_actor_def)
    show "set (gi @ qi) = {j \<in> set (keys (sensors st)). (sg(i := Trained)) j = Reported}" unfolding D(5) using i(2) by auto
    have "add_mset (cgo c ! k) (mset (filter is_training (cgo ?c))) = mset (filter is_training (cgo c))"
      using drop_task_mset [OF k(1), of is_training] tr by (simp add: with_actor_def)
    then show "mset (filter is_training (cgo ?c)) = image_mset (\<lambda>i. (the (mget reg i), SimulateTraining (request st)))
        {#j \<in># mset (keys (sensors st)). (sg(i := Trained)) j = InTraining#}"
      unfolding D(7) stage_del [where sg = sg and g = InTraining and g' = Trained, OF round_beginsD(7) [OF R] i(1,2) stage.distinct(8)] using k(2) i(3,4) by simp
  qed (rule D(4))
  moreover have "actor (ent s a) = ASensor (in_training st ?x)" using modelsD(5) [OF M an] v(1) by simp
  moreover have "\<forall>e. simulateTraining e (in_training st ?x) p = Some (result st ?x)" unfolding i(4) using simulateTraining_result [OF sen(6)] by blast
  ultimately show ?thesis using s' i(1,2,4) an by (intro exI [of _ i] exI [of _ s'] exI [of _ ?c] conjI)
qed

lemma collect_trained:
  assumes R: "round_begins n reg ca l d st c0" and M: "models n reg s c" and C: "collecting n reg ca st c0 t sg gi qi c"
    and i: "i \<in> set (keys (sensors st))" "sg i = Trained" and rc: "receive (mbox (ent s (the (mget reg i)))) = Received m mb"
  shows "\<exists>s' c'. run_receive home_ops e (the (mget reg i)) s = Done s' \<and> models n reg s' c' \<and> collecting n reg ca st c0 t (sg(i := Reported)) gi (qi @ [i]) c'"
proof -
  note df = addresses_differ [OF R] and sen = round_begins_sensor [OF R i(1)] and D = collectingD [OF C] and b = round_beginsD [OF R]
  let ?a = "the (mget reg i)" and ?x = "sensor_of reg c0 i"
  have v: "cact c ?a = ASensor (fst (result st ?x))" "cstk c ?a = [TrainingBehavior]" "cq c ?a = [snd (result st ?x)]"
    using viewD [of c ?a] D(2) [OF i(1)] i(2) by auto
  have m: "m = snd (result st ?x)" using models_popped(2) [OF M sen(2) rc] v(3) by simp
  obtain effs where t: "turn (rng (world s)) e reg m (cact c ?a) (cstk c ?a) = Some (ASensor (reported_state st ?x), effs)"
      "sent effs = [(LocalRef ca, update_msg st ?x)]" "stack_after effs [TrainingBehavior] = []" "goes effs = []" "list_all (local_eff n) effs"
    unfolding m v(1,2) using turn_trained [OF sen(6,7), of n] b(4) by blast
  have fresh: "i \<notin> set (gi @ qi)" unfolding D(5) using i(2) by simp
  have len: "length (gi @ qi) < length (sensors st)"
  proof -
    have "set (gi @ qi) \<subset> set (keys (sensors st))" using fresh i(1) D(5) by blast
    then have "card (set (gi @ qi)) < card (set (keys (sensors st)))" by (intro psubset_card_mono) auto
    then show ?thesis using D(4) b(7) by (metis distinct_card length_map)
  qed
  have room: "\<forall>b<n. length (cq (popped ?a c) b @ inbox b (sent effs)) \<le> DefaultMailboxSize"
  proof (intro allI impI)
    fix a assume "a < n"
    from collecting_room(1) [OF R C this] len b(8) df(4) [OF i(1)] show "length (cq (popped ?a c) a @ inbox a (sent effs)) \<le> DefaultMailboxSize"
      unfolding t(2) by (auto simp: popped_def DefaultMailboxSize_def split: if_splits)
  qed
  let ?c = "after_effs ?a effs (with_actor ?a (ASensor (reported_state st ?x)) (popped ?a c))"
  have "MsgType m \<noteq> MsgStopping" using result_returns [OF sen(6)] m by (auto simp: mkMessage_def)
  from models_turn [OF M sen(2) rc this t(1,5) room] obtain s' where s': "run_receive home_ops e ?a s = Done s'" "models n reg s' ?c" by blast
  have "collecting n reg ca st c0 t (sg(i := Reported)) gi (qi @ [i]) ?c"
  proof (rule collecting_next [OF R C i(1)])
    show "view ?c ?a = stage_view st ?x Reported" unfolding view_after using v t(2,3) df(4) [OF i(1)] by simp
    show "view ?c b = view c b" if "b \<noteq> ?a" "b \<noteq> ca" for b unfolding view_after t(2) using that by (simp add: view_def)
    show "view ?c ca = (ACoordinator ((started st t)\<lparr>pendingUpdates := filed (map (\<lambda>i. update_of st (sensor_of reg c0 i)) gi)\<rparr>), [],
        map (\<lambda>i. update_msg st (sensor_of reg c0 i)) (qi @ [i]))"
      unfolding view_after t(2) using df(4) [OF i(1)] viewD [OF D(1)] by simp
    show "distinct (gi @ qi @ [i])" using D(4) fresh by auto
    show "set (gi @ qi @ [i]) = {j \<in> set (keys (sensors st)). (sg(i := Reported)) j = Reported}" using D(5) i(1) by (auto simp del: set_map)
    show "mset (filter is_training (cgo ?c)) = image_mset (\<lambda>i. (the (mget reg i), SimulateTraining (request st)))
        {#j \<in># mset (keys (sensors st)). (sg(i := Reported)) j = InTraining#}"
      unfolding cgo_after t(4) using stage_same [of sg i InTraining Reported] i(2) D(7) by simp
  qed
  with s' show ?thesis by blast
qed

text \<open>A turn of the coordinator: it files the update, or finishes the round.\<close>

lemma coordinator_update:
  assumes R: "round_begins n reg ca l d st c0" and C: "collecting n reg ca st c0 t sg gi (i # qi) c"
  shows "coord_Receive r e x (update_msg st (sensor_of reg c0 i)) ((started st t)\<lparr>pendingUpdates := filed (map (\<lambda>i. update_of st (sensor_of reg c0 i)) gi)\<rparr>) =
    (let st1 = (started st t)\<lparr>pendingUpdates := filed (map (\<lambda>i. update_of st (sensor_of reg c0 i)) (gi @ [i]))\<rparr>
     in if length (gi @ [i]) < length (sensors st) then HRes st1 [] None else aggregateAndFinalise r e x st1)"
proof (rule coordinator_files [OF _ _ update_carried(1)])
  note D = collectingD [OF C]
  have "set (gi @ i # qi) \<subseteq> set (keys (sensors st))" unfolding D(5) by blast
  then show "sensorID (sensor_of reg c0 j) = j" if "j \<in> set (gi @ [i])" for j
    using that by (intro round_begins_sensor(5) [OF R]) (auto simp del: set_map)
  show "i \<notin> set gi" using D(4) by simp
qed

lemma collect_filed:
  assumes R: "round_begins n reg ca l d st c0" and M: "models n reg s c" and C: "collecting n reg ca st c0 t sg gi (i # qi) c"
    and rc: "receive (mbox (ent s ca)) = Received m mb" and more: "length (gi @ [i]) < length (sensors st)"
  shows "\<exists>s' c'. run_receive home_ops e ca s = Done s' \<and> models n reg s' c' \<and> collecting n reg ca st c0 t sg (gi @ [i]) qi c'"
proof -
  note D = collectingD [OF C] and b = round_beginsD [OF R] and v = viewD [OF D(1)]
  let ?X = "sensor_of reg c0" let ?st1 = "(started st t)\<lparr>pendingUpdates := filed (map (\<lambda>i. update_of st (?X i)) (gi @ [i]))\<rparr>"
  have m: "m = update_msg st (?X i)" using models_popped(2) [OF M b(4) rc] v by simp
  have t: "turn (rng (world s)) e reg m (cact c ca) (cstk c ca) = Some (ACoordinator ?st1, [])"
    using coordinator_update [OF R C, of "rng (world s)" e] v more m by (simp add: turn_def Let_def)
  have room: "\<forall>a<n. length (cq (popped ca c) a @ inbox a (sent [])) \<le> DefaultMailboxSize"
  proof (intro allI impI)
    fix a assume "a < n"
    from collecting_room [OF R C this] b(8) show "length (cq (popped ca c) a @ inbox a (sent [])) \<le> DefaultMailboxSize"
      by (auto simp: popped_def DefaultMailboxSize_def split: if_splits)
  qed
  let ?c = "after_effs ca [] (with_actor ca (ACoordinator ?st1) (popped ca c))"
  have "MsgType m \<noteq> MsgStopping" using m by (simp add: update_msg_def mkMessage_def)
  from models_turn [OF M b(4) rc this t _ room] obtain s' where s': "run_receive home_ops e ca s = Done s'" "models n reg s' ?c" by auto
  have o: "view ?c a = view c a" if "a \<noteq> ca" for a unfolding view_after using that by (simp add: view_def)
  have "collecting n reg ca st c0 t sg (gi @ [i]) qi ?c"
    unfolding collecting_def Let_def
  proof (intro conjI ballI allI impI)
    show "view ?c ca = (ACoordinator ?st1, [], map (\<lambda>i. update_msg st (?X i)) qi)" unfolding view_after using v by simp
    show "view ?c (the (mget reg j)) = stage_view st (?X j) (sg j)" if "j \<in> set (keys (sensors st))" for j
      using o addresses_differ(4) [OF R that] D(2) [OF that] by simp
    show "view ?c a = view c0 a" if "a < n" "a \<noteq> ca \<and> a \<notin> (\<lambda>i. the (mget reg i)) ` set (keys (sensors st))" for a
      using o D(3) that by simp
    show "distinct ((gi @ [i]) @ qi)" "set ((gi @ [i]) @ qi) = {i \<in> set (keys (sensors st)). sg i = Reported}" "length (gi @ [i]) < length (keys (sensors st))"
      using D(4,5) more by simp_all
    show "mset (filter is_training (cgo ?c)) = image_mset (\<lambda>i. (the (mget reg i), SimulateTraining (request st))) {#i \<in># mset (keys (sensors st)). sg i = InTraining#}"
      unfolding cgo_after using D(7) by simp
  qed
  with s' show ?thesis by blast
qed

lemma all_reported:
  assumes R: "round_begins n reg ca l d st c0" and C: "collecting n reg ca st c0 t sg gi (i # qi) c" and last: "\<not> length (gi @ [i]) < length (sensors st)"
  shows "qi = []" "mset (gi @ [i]) = mset (keys (sensors st))" "\<forall>j\<in>set (keys (sensors st)). sg j = Reported"
proof -
  note D = collectingD [OF C] and ds = round_beginsD(7) [OF R]
  have le: "length (gi @ i # qi) \<le> length (sensors st)" using collecting_room(2) [OF R C round_beginsD(4) [OF R]] .
  with last show q: "qi = []" by (cases qi) simp_all
  have "card (set (gi @ [i])) = card (set (keys (sensors st)))" using last le q D(4) ds distinct_card [of "gi @ [i]"] distinct_card [of "keys (sensors st)"] by simp
  moreover have "set (gi @ [i]) \<subseteq> set (keys (sensors st))" using D(5) q by blast
  ultimately have eq: "set (gi @ [i]) = set (keys (sensors st))" by (intro card_subset_eq) auto
  then show "mset (gi @ [i]) = mset (keys (sensors st))" using D(4) q ds by (metis set_eq_iff_mset_eq_distinct)
  show "\<forall>j\<in>set (keys (sensors st)). sg j = Reported" using D(5) eq q by blast
qed

lemma inbox_final:
  assumes R: "round_begins n reg ca l d st c0" and "env_ok e" "look x = mget reg"
  shows "inbox a (final_msgs x e l d st us agg ms (tt, th, tb)) =
      (if a \<in> (\<lambda>i. the (mget reg i)) ` set (keys (sensors st)) then [global_msg st us agg] else []) @
      (if a = l then [mkMessage MsgRoundComplete (Dyn (report st us ms)) ''''] else []) @
      (if a = d then [mkMessage MsgAdjustEnvironment (Dyn (AdjustEnvironmentPayload ''all'' tt th tb)) ''''] else [])"
    "(LocalRef a, m) \<in> set (final_msgs x e l d st us agg ms tg) \<Longrightarrow> a < n"
proof -
  note b = round_beginsD [OF R]
  show "inbox a (final_msgs x e l d st us agg ms (tt, th, tb)) =
      (if a \<in> (\<lambda>i. the (mget reg i)) ` set (keys (sensors st)) then [global_msg st us agg] else []) @
      (if a = l then [mkMessage MsgRoundComplete (Dyn (report st us ms)) ''''] else []) @
      (if a = d then [mkMessage MsgAdjustEnvironment (Dyn (AdjustEnvironmentPayload ''all'' tt th tb)) ''''] else [])"
    unfolding final_msgs_def inbox_simps(3) inbox_sensors [OF R assms(2) b(9) assms(3)] by auto
  assume "(LocalRef a, m) \<in> set (final_msgs x e l d st us agg ms tg)"
  then consider "(LocalRef a, m) \<in> set (addressed x st (global_msg st us agg) (iter e (keys (sensors st))))" | "a = l" | "a = d" unfolding final_msgs_def by auto
  then show "a < n"
  proof cases
    case 1
    then obtain i where "i \<in> set (keys (sensors st))" "mget reg i = Some a" using addressed_local [OF b(9) assms(3) 1] assms(2) by (auto simp del: set_map)
    then show ?thesis using round_begins_sensor(2) [OF R] by force
  qed (use b(13,18) in simp_all)
qed

text \<open>Before the last update is handled every other mailbox is empty.\<close>

lemma last_quiet:
  assumes R: "round_begins n reg ca l d st c0" and C: "collecting n reg ca st c0 t sg gi (i # qi) c" and last: "\<not> length (gi @ [i]) < length (sensors st)" and "a < n"
  shows "cq (popped ca c) a = []"
proof -
  note D = collectingD [OF C] and all = all_reported [OF R C last]
  consider "a = ca" | j where "j \<in> set (keys (sensors st))" "a = the (mget reg j)" | "a \<noteq> ca" "a \<notin> (\<lambda>i. the (mget reg i)) ` set (keys (sensors st))" by blast
  then show ?thesis
  proof cases
    case 1
    then show ?thesis using viewD [OF D(1)] all(1) by (simp add: popped_def)
  next
    case 2
    then have "view c a = stage_view st (sensor_of reg c0 j) Reported" using D(2) all(3) by simp
    then show ?thesis using 2 addresses_differ(4) [OF R] by (simp add: view_def popped_def)
  next
    case 3
    then show ?thesis using D(3) [OF assms(4) 3] round_beginsD(22) [OF R assms(4) 3(1)] by (simp add: view_def popped_def)
  qed
qed

text \<open>The configuration that the last turn leaves is finishing.\<close>

lemma last_finishing:
  assumes R: "round_begins n reg ca l d st c0" and C: "collecting n reg ca st c0 t sg gi (i # qi) c" and last: "\<not> length (gi @ [i]) < length (sensors st)"
    and us: "mset us = mset (map (\<lambda>i. update_of st (sensor_of reg c0 i)) (keys (sensors st)))" "averages us agg" "length agg = length (elems (globalWeights st))"
    and tg: "infer_targets (\<lambda>_. 0) agg = Some (tt, th, tb)" and x: "env_ok e" "look x = mget reg" and go: "cgo c' = cgo c"
    and cv: "\<And>a. a < n \<Longrightarrow> view c' a = (if a = ca then ACoordinator ((started st t)\<lparr>pendingUpdates := filed (map (\<lambda>i. update_of st (sensor_of reg c0 i)) (gi @ [i])), globalWeights := SList agg\<rparr>)
      else cact c a, cstk c a, inbox a (final_msgs x e l d st us agg ms (tt, th, tb)))"
  shows "finishing n reg ca l d st c0 us agg ms c'"
proof -
  note D = collectingD [OF C] and b = round_beginsD [OF R] and sen = round_begins_sensor [OF R] and df = addresses_differ [OF R]
  note v = viewD [OF D(1)] and all = all_reported [OF R C last] and inb = inbox_final(1) [OF R x]
  have o: "view c a = view c0 a" if "a < n" "a \<noteq> ca" "a \<notin> (\<lambda>i. the (mget reg i)) ` set (keys (sensors st))" for a using D(3) that by simp
  have ca: "ca \<notin> (\<lambda>i. the (mget reg i)) ` set (keys (sensors st))" using df(4) by blast
  have lv: "view c' l = (cact c0 l, [], [mkMessage MsgRoundComplete (Dyn (report st us ms)) ''''])"
      "view c' d = (cact c0 d, [], [mkMessage MsgAdjustEnvironment (Dyn (AdjustEnvironmentPayload ''all'' tt th tb)) ''''])"
    using cv [OF b(13)] cv [OF b(18)] o [OF b(13)] o [OF b(18)] b(15,20) df inb by (auto simp: view_def simp del: set_map)
  show ?thesis
    unfolding finishing_def Let_def
  proof (intro conjI ballI allI impI)
    show "\<exists>t gi. mset gi = mset (keys (sensors st)) \<and> view c' ca =
        (ACoordinator ((started st t)\<lparr>pendingUpdates := filed (map (\<lambda>i. update_of st (sensor_of reg c0 i)) gi), globalWeights := SList agg\<rparr>), [], [])"
      using cv [OF b(4)] v all(2) inb df(1,2) ca by (intro exI [of _ t] exI [of _ "gi @ [i]"]) (simp del: set_map)
    show "told st us agg (sensor_of reg c0 j) (view c' (the (mget reg j)))"
      if "j \<in> set (keys (sensors st))" for j
      using cv [OF sen(2) [OF that]] D(2) [OF that] all(3) that df(4) [OF that] inb by (simp add: view_def del: set_map)
    show "closing l d c0 (report st us ms) agg c'" by (rule closing_starts [OF b(14,19) lv tg])
    show "cq c' a = []" if "a < n" "a \<noteq> ca \<and> a \<notin> (\<lambda>i. the (mget reg i)) ` set (keys (sensors st)) \<and> a \<noteq> l \<and> a \<noteq> d" for a
      using cv [OF that(1)] that(2) inb by (simp add: view_def del: set_map)
    have "{#i \<in># mset (keys (sensors st)). sg i = InTraining#} = {#}" using all(3) by force
    then have "filter is_training (cgo c) = []" using D(7) by (simp only: image_mset_empty mset_zero_iff)
    then show "filter is_training (cgo c') = []" unfolding go .
  qed (use us in simp_all)
qed

lemma collect_last:
  assumes R: "round_begins n reg ca l d st c0" and M: "models n reg s c" and C: "collecting n reg ca st c0 t sg gi (i # qi) c"
    and rc: "receive (mbox (ent s ca)) = Received m mb" and last: "\<not> length (gi @ [i]) < length (sensors st)" and e: "env_ok e"
  shows "\<exists>s' c' us agg. run_receive home_ops e ca s = Done s' \<and> models n reg s' c' \<and> finishing n reg ca l d st c0 us agg (elapsed_ms (now e) t) c'"
proof -
  note D = collectingD [OF C] and b = round_beginsD [OF R]
  note v = viewD [OF D(1)] and all = all_reported [OF R C last] and pq = last_quiet [OF R C last]
  let ?st1 = "(started st t)\<lparr>pendingUpdates := filed (map (\<lambda>i. update_of st (sensor_of reg c0 i)) (gi @ [i]))\<rparr>" and ?x = "turn_ctx reg m (cact c ca)"
  have m: "m = update_msg st (sensor_of reg c0 i)" using models_popped(2) [OF M b(4) rc] v by simp
  have x: "look ?x = mget reg" "Self ?x = coordID st" using v by (simp_all add: turn_ctx_def started_def)
  have "distinct (gi @ [i])" using D(4) by simp
  from coordinator_finishes [OF round_begins_parts [OF R] all(2) this e x] obtain effs us agg tt th tb where
    f: "aggregateAndFinalise (rng (world s)) e ?x ?st1 = HRes (?st1\<lparr>globalWeights := SList agg\<rparr>) effs None" "list_all plain_eff effs"
      "sent effs = final_msgs ?x e l d st us agg (elapsed_ms (now e) t) (tt, th, tb)"
      "mset us = mset (map (\<lambda>i. update_of st (sensor_of reg c0 i)) (keys (sensors st)))" "averages us agg" "length agg = length (elems (globalWeights st))"
      "infer_targets (\<lambda>_. 0) agg = Some (tt, th, tb)" by (metis prod_cases3)
  have t: "turn (rng (world s)) e reg m (cact c ca) (cstk c ca) = Some (ACoordinator (?st1\<lparr>globalWeights := SList agg\<rparr>), effs)"
    using coordinator_update [OF R C, of "rng (world s)" e] v last m f(1) by (simp add: turn_def Let_def)
  have lc: "list_all (local_eff n) effs" using inbox_final(2) [OF R e x(1)] f(3) by (intro plain_local [OF f(2)]) auto
  have room: "\<forall>a<n. length (cq (popped ca c) a @ inbox a (sent effs)) \<le> DefaultMailboxSize"
    unfolding f(3) inbox_final(1) [OF R e x(1)] using pq by (simp add: DefaultMailboxSize_def)
  let ?c = "after_effs ca effs (with_actor ca (ACoordinator (?st1\<lparr>globalWeights := SList agg\<rparr>)) (popped ca c))"
  have "MsgType m \<noteq> MsgStopping" using m by (simp add: update_msg_def mkMessage_def)
  from models_turn [OF M b(4) rc this t lc room] obtain s' where s': "run_receive home_ops e ca s = Done s'" "models n reg s' ?c" by blast
  have "finishing n reg ca l d st c0 us agg (elapsed_ms (now e) t) ?c"
  proof (rule last_finishing [OF R C last f(4-7) e x(1)])
    show "cgo ?c = cgo c" using plain_effs(2) [OF f(2)] by (simp add: cgo_after)
    show "view ?c a = (if a = ca then ACoordinator (?st1\<lparr>globalWeights := SList agg\<rparr>) else cact c a, cstk c a,
        inbox a (final_msgs ?x e l d st us agg (elapsed_ms (now e) t) (tt, th, tb)))" if "a < n" for a
      unfolding view_after using pq [OF that] plain_effs(1) [OF f(2)] f(3) by (simp add: popped_def split: if_splits)
  qed
  with s' show ?thesis by blast
qed

subsection \<open>Finishing\<close>

definition finish_work :: "(ActorID, nat) gomap \<Rightarrow> nat \<Rightarrow> nat \<Rightarrow> sensor_factory CoordinatorActor \<Rightarrow> config \<Rightarrow> nat" where
  "finish_work reg l d st c = (\<Sum>i\<in>set (keys (sensors st)). length (cq c (the (mget reg i)))) + closing_work l d c"

lemma finishingD:
  assumes "finishing n reg ca l d st c0 us agg ms c"
  shows "\<exists>t gi. mset gi = mset (keys (sensors st)) \<and> view c ca =
      (ACoordinator ((started st t)\<lparr>pendingUpdates := filed (map (\<lambda>i. update_of st (sensor_of reg c0 i)) gi), globalWeights := SList agg\<rparr>), [], [])"
    "i \<in> set (keys (sensors st)) \<Longrightarrow> told st us agg (sensor_of reg c0 i) (view c (the (mget reg i)))"
    "closing l d c0 (report st us ms) agg c"
    "a < n \<Longrightarrow> a \<noteq> ca \<Longrightarrow> a \<notin> (\<lambda>i. the (mget reg i)) ` set (keys (sensors st)) \<Longrightarrow> a \<noteq> l \<Longrightarrow> a \<noteq> d \<Longrightarrow> cq c a = []"
    "filter is_training (cgo c) = []"
    "mset us = mset (map (\<lambda>i. update_of st (sensor_of reg c0 i)) (keys (sensors st)))" "averages us agg" "length agg = length (elems (globalWeights st))"
  using assms unfolding finishing_def Let_def by (blast, blast, blast, blast, blast, blast, blast, blast)

text \<open>What is the same in two configurations of which one is finishing.\<close>

lemma finishing_change:
  assumes F: "finishing n reg ca l d st c0 us agg ms c" and "\<And>a. a < n \<Longrightarrow> a \<noteq> b \<Longrightarrow> a \<noteq> l \<Longrightarrow> a \<noteq> d \<Longrightarrow> view c' a = view c a" "cgo c' = cgo c"
    and ca: "ca < n" "b \<noteq> ca" "ca \<noteq> l" "ca \<noteq> d"
    and s: "\<And>i. i \<in> set (keys (sensors st)) \<Longrightarrow> told st us agg (sensor_of reg c0 i) (view c' (the (mget reg i)))"
    and cl: "closing l d c0 (report st us ms) agg c'" and b: "b \<in> (\<lambda>i. the (mget reg i)) ` set (keys (sensors st)) \<or> b = l \<or> b = d"
  shows "finishing n reg ca l d st c0 us agg ms c'"
proof -
  note D = finishingD [OF F]
  have "view c' ca = view c ca" using assms(2) ca by simp
  moreover have "cq c' a = []" if "a < n" "a \<noteq> ca" "a \<notin> (\<lambda>i. the (mget reg i)) ` set (keys (sensors st))" "a \<noteq> l" "a \<noteq> d" for a
  proof -
    have "a \<noteq> b" using b that(3-5) by blast
    then show ?thesis using assms(2) [OF that(1)] that(4,5) D(4) [OF that] by (simp add: view_def)
  qed
  ultimately show ?thesis unfolding finishing_def Let_def using s cl D(1,5-8) assms(3) by (intro conjI ballI allI impI) simp_all
qed

lemma finishing_queues:
  assumes R: "round_begins n reg ca l d st c0" and F: "finishing n reg ca l d st c0 us agg ms c" and "a < n"
  shows "length (cq c a) \<le> 5"
proof -
  note D = finishingD [OF F] and len = closingD(3) [OF finishingD(3) [OF F]]
  consider "a = ca" | i where "i \<in> set (keys (sensors st))" "a = the (mget reg i)" | "a = l" | "a = d"
    | "a \<noteq> ca" "a \<notin> (\<lambda>i. the (mget reg i)) ` set (keys (sensors st))" "a \<noteq> l" "a \<noteq> d" by blast
  then show ?thesis
  proof cases
    case 1
    then show ?thesis using D(1) by (auto simp: view_def)
  next
    case 2
    then show ?thesis using D(2) [OF 2(1)] by (auto simp: view_def)
  next
    case 5
    then show ?thesis using D(4) [OF assms(3)] by simp
  qed (use len in auto)
qed

lemma finish_sensor:
  assumes R: "round_begins n reg ca l d st c0" and M: "models n reg s c" and F: "finishing n reg ca l d st c0 us agg ms c"
    and i: "i \<in> set (keys (sensors st))" and rc: "receive (mbox (ent s (the (mget reg i)))) = Received m mb"
  shows "\<exists>s' c'. run_receive home_ops e (the (mget reg i)) s = Done s' \<and> models n reg s' c' \<and> finishing n reg ca l d st c0 us agg ms c' \<and>
    finish_work reg l d st c' < finish_work reg l d st c"
proof -
  note df = addresses_differ [OF R] and sen = round_begins_sensor [OF R i] and D = finishingD [OF F] and b = round_beginsD [OF R]
  let ?a = "the (mget reg i)" and ?x = "sensor_of reg c0 i"
  let ?y = "(reported_state st ?x)\<lparr>weights := SList agg, roundID := next_round st\<rparr>"
  have q: "cq c ?a = m # tl (cq c ?a)" by (rule models_popped(2) [OF M sen(2) rc])
  then have v: "cact c ?a = ASensor (reported_state st ?x)" "cstk c ?a = []" "cq c ?a = [global_msg st us agg]" using D(2) [OF i] by (auto simp: view_def)
  then have m: "m = global_msg st us agg" using q by simp
  have t: "turn (rng (world s)) e reg m (cact c ?a) (cstk c ?a) = Some (ASensor ?y, [])" unfolding m v(1,2) global_msg_def mkMessage_def by (rule turn_global)
  have room: "\<forall>b<n. length (cq (popped ?a c) b @ inbox b (sent [])) \<le> DefaultMailboxSize"
    using finishing_queues [OF R F] by (intro closing_room) auto
  let ?c = "after_effs ?a [] (with_actor ?a (ASensor ?y) (popped ?a c))"
  have "MsgType m \<noteq> MsgStopping" using m by (simp add: global_msg_def mkMessage_def)
  from models_turn [OF M sen(2) rc this t _ room] obtain s' where s': "run_receive home_ops e ?a s = Done s'" "models n reg s' ?c" by auto
  have o: "view ?c a = view c a" if "a \<noteq> ?a" for a unfolding view_after using that by (simp add: view_def)
  have ld: "view ?c l = view c l" "view ?c d = view c d" using o df(4) [OF i] by metis+
  have self: "view ?c ?a = (ASensor ?y, [], [])" unfolding view_after using v by simp
  have "finishing n reg ca l d st c0 us agg ms ?c"
  proof (rule finishing_change [OF F, where b = ?a])
    show "told st us agg (sensor_of reg c0 j) (view ?c (the (mget reg j)))"
      if "j \<in> set (keys (sensors st))" for j
    proof (cases "j = i")
      case False
      then have "the (mget reg j) \<noteq> ?a" using df(5) i that by (auto simp: inj_on_def simp del: set_map)
      then show ?thesis using o D(2) [OF that] by simp
    qed (use self in simp)
    show "?a \<in> (\<lambda>i. the (mget reg i)) ` set (keys (sensors st)) \<or> ?a = l \<or> ?a = d" using i by blast
    show "closing l d c0 (report st us ms) agg ?c" unfolding closing_same(1) [OF ld] by (rule D(3))
    show "cgo ?c = cgo c" by (simp add: cgo_after)
  qed (use o b(4) df(1,2) df(4) [OF i] in blast)+
  moreover have "(\<Sum>j\<in>set (keys (sensors st)). length (cq ?c (the (mget reg j)))) < (\<Sum>j\<in>set (keys (sensors st)). length (cq c (the (mget reg j))))"
  proof (rule sum_strict_mono_ex1)
    have "length (cq ?c a) \<le> length (cq c a)" for a using o [of a] self by (cases "a = ?a") (simp_all add: view_def)
    then show "\<forall>j\<in>set (keys (sensors st)). length (cq ?c (the (mget reg j))) \<le> length (cq c (the (mget reg j)))" by blast
    show "\<exists>j\<in>set (keys (sensors st)). length (cq ?c (the (mget reg j))) < length (cq c (the (mget reg j)))" using i self v(3) by (intro bexI [of _ i]) (simp_all add: view_def)
  qed simp
  then have "finish_work reg l d st ?c < finish_work reg l d st c" unfolding finish_work_def closing_same(2) [OF ld] by simp
  ultimately show ?thesis using s' by blast
qed

lemma finish_office:
  assumes R: "round_begins n reg ca l d st c0" and M: "models n reg s c" and F: "finishing n reg ca l d st c0 us agg ms c"
    and a: "a = l \<or> a = d" and rc: "receive (mbox (ent s a)) = Received m mb"
  shows "\<exists>s' c'. run_receive home_ops e a s = Done s' \<and> models n reg s' c' \<and> finishing n reg ca l d st c0 us agg ms c' \<and>
    finish_work reg l d st c' < finish_work reg l d st c"
proof -
  note df = addresses_differ [OF R] and D = finishingD [OF F] and b = round_beginsD [OF R]
  have q: "\<forall>a<n. length (cq c a) \<le> 5" using finishing_queues [OF R F] by blast
  obtain s' c' where s': "run_receive home_ops e a s = Done s'" "models n reg s' c'" "closing l d c0 (report st us ms) agg c'"
      "\<And>a. a \<noteq> l \<Longrightarrow> a \<noteq> d \<Longrightarrow> view c' a = view c a" "cgo c' = cgo c" "closing_work l d c' < closing_work l d c"
    using a closing_logger [OF M D(3) b(13) df(3) q] closing_device [OF M D(3) b(18,13) df(3) b(12) q] rc by metis
  have sv: "view c' (the (mget reg j)) = view c (the (mget reg j))" if "j \<in> set (keys (sensors st))" for j using s'(4) df(4) [OF that] by blast
  have "finishing n reg ca l d st c0 us agg ms c'"
    by (rule finishing_change [OF F _ s'(5) b(4) _ df(1,2) _ s'(3), where b = l]) (use s'(4) df(1) sv D(2) in \<open>simp_all del: set_map\<close>)
  moreover have "(\<Sum>i\<in>set (keys (sensors st)). length (cq c' (the (mget reg i)))) = (\<Sum>i\<in>set (keys (sensors st)). length (cq c (the (mget reg i))))"
    by (rule sum.cong [OF refl]) (use sv in \<open>simp add: view_def\<close>)
  then have "finish_work reg l d st c' < finish_work reg l d st c" using s'(6) by (simp add: finish_work_def)
  ultimately show ?thesis using s'(1,2) by blast
qed

section \<open>Runs of a round\<close>

definition phase_inv :: "nat \<Rightarrow> (ActorID, nat) gomap \<Rightarrow> nat \<Rightarrow> nat \<Rightarrow> nat \<Rightarrow> sensor_factory CoordinatorActor \<Rightarrow> config \<Rightarrow> nat \<Rightarrow> nat \<Rightarrow> home \<Rightarrow> bool" where
  "phase_inv n reg ca l d st c0 ph w s \<longleftrightarrow>
    ph = 2 \<and> models n reg s c0 \<or>
    ph = 1 \<and> (\<exists>c t sg gi qi. models n reg s c \<and> collecting n reg ca st c0 t sg gi qi c \<and> w = (\<Sum>i\<in>set (keys (sensors st)). stage_work (sg i)) + length qi) \<or>
    ph = 0 \<and> (\<exists>c us agg ms. models n reg s c \<and> finishing n reg ca l d st c0 us agg ms c \<and> w = finish_work reg l d st c)"

lemma phase_invI:
  "models n reg s c0 \<Longrightarrow> phase_inv n reg ca l d st c0 2 w s"
  "models n reg s c \<Longrightarrow> collecting n reg ca st c0 t sg gi qi c \<Longrightarrow> phase_inv n reg ca l d st c0 1 ((\<Sum>i\<in>set (keys (sensors st)). stage_work (sg i)) + length qi) s"
  "models n reg s c \<Longrightarrow> finishing n reg ca l d st c0 us agg ms c \<Longrightarrow> phase_inv n reg ca l d st c0 0 (finish_work reg l d st c) s"
  unfolding phase_inv_def by blast+

lemma phase_inv_models: "phase_inv n reg ca l d st c0 ph w s \<Longrightarrow> \<exists>c. models n reg s c"
  unfolding phase_inv_def by blast

subsection \<open>Steps\<close>

definition smaller :: "nat \<Rightarrow> nat \<Rightarrow> nat \<Rightarrow> nat \<Rightarrow> bool" where
  "smaller ph' w' ph w \<longleftrightarrow> ph' < ph \<or> ph' = ph \<and> w' < w"

text \<open>A turn while the round collects: of the coordinator, of a sensor, of anyone.\<close>

lemma collect_coordinator:
  assumes R: "round_begins n reg ca l d st c0" and M: "models n reg s c" and C: "collecting n reg ca st c0 t sg gi qi c"
    and a: "receive (mbox (ent s ca)) = Received m mb" "env_ok e" and w: "w = (\<Sum>i\<in>set (keys (sensors st)). stage_work (sg i)) + length qi"
  shows "\<exists>s' ph' w'. run_receive home_ops e ca s = Done s' \<and> phase_inv n reg ca l d st c0 ph' w' s' \<and> smaller ph' w' 1 w"
proof -
  have "cq c ca = m # tl (cq c ca)" by (rule models_popped(2) [OF M round_beginsD(4) [OF R] a(1)])
  then obtain i qi' where qi: "qi = i # qi'" using viewD [OF collectingD(1) [OF C]] by (cases qi) auto
  show ?thesis
  proof (cases "length (gi @ [i]) < length (sensors st)")
    case True
    obtain s' c' where "run_receive home_ops e ca s = Done s'" "models n reg s' c'" "collecting n reg ca st c0 t sg (gi @ [i]) qi' c'"
      using collect_filed [OF R M C [unfolded qi] a(1) True, of e] by blast
    moreover from this(2,3) have "phase_inv n reg ca l d st c0 1 ((\<Sum>i\<in>set (keys (sensors st)). stage_work (sg i)) + length qi') s'" by (rule phase_invI(2))
    moreover have "smaller 1 ((\<Sum>i\<in>set (keys (sensors st)). stage_work (sg i)) + length qi') 1 w" using w qi by (simp add: smaller_def)
    ultimately show ?thesis by blast
  next
    case False
    obtain s' c' us agg where "run_receive home_ops e ca s = Done s'" "models n reg s' c'" "finishing n reg ca l d st c0 us agg (elapsed_ms (now e) t) c'"
      using collect_last [OF R M C [unfolded qi] a(1) False a(2)] by blast
    moreover from this(2,3) have "phase_inv n reg ca l d st c0 0 (finish_work reg l d st c') s'" by (rule phase_invI(3))
    moreover have "smaller 0 (finish_work reg l d st c') 1 w" by (simp add: smaller_def)
    ultimately show ?thesis by blast
  qed
qed

lemma collect_sensor:
  assumes R: "round_begins n reg ca l d st c0" and M: "models n reg s c" and C: "collecting n reg ca st c0 t sg gi qi c" and i: "i \<in> set (keys (sensors st))"
    and a: "receive (mbox (ent s (the (mget reg i)))) = Received m mb" and w: "w = (\<Sum>i\<in>set (keys (sensors st)). stage_work (sg i)) + length qi"
  shows "\<exists>s' w'. run_receive home_ops e (the (mget reg i)) s = Done s' \<and> phase_inv n reg ca l d st c0 1 w' s' \<and> smaller 1 w' 1 w"
proof -
  have next_stage: ?thesis if "run_receive home_ops e (the (mget reg i)) s = Done s'" "models n reg s' c'" "collecting n reg ca st c0 t (sg(i := y)) gi qi' c'"
      "stage_work y + length qi' < stage_work (sg i) + length qi" for s' c' y qi'
  proof -
    have "smaller 1 ((\<Sum>j\<in>set (keys (sensors st)). stage_work ((sg(i := y)) j)) + length qi') 1 w"
      using sum_upd [OF i, of stage_work sg y] w that(4) by (simp add: smaller_def del: fun_upd_apply set_map)
    then show ?thesis using that(1) phase_invI(2) [OF that(2,3)] by blast
  qed
  have "cq c (the (mget reg i)) \<noteq> []" using models_popped(2) [OF M round_begins_sensor(2) [OF R i] a] by (metis list.discI)
  then consider "sg i = Asked" | "sg i = Trained" using collectingD(2) [OF C i] by (cases "sg i") (auto simp: view_def)
  then show ?thesis
  proof cases
    case 1
    obtain s' c' where "run_receive home_ops e (the (mget reg i)) s = Done s'" "models n reg s' c'" "collecting n reg ca st c0 t (sg(i := InTraining)) gi qi c'"
      using collect_asked [OF R M C i 1 a, of e] by blast
    then show ?thesis by (rule next_stage) (simp add: 1)
  next
    case 2
    obtain s' c' where "run_receive home_ops e (the (mget reg i)) s = Done s'" "models n reg s' c'" "collecting n reg ca st c0 t (sg(i := Reported)) gi (qi @ [i]) c'"
      using collect_trained [OF R M C i 2 a, of e] by blast
    then show ?thesis by (rule next_stage) (simp add: 2)
  qed
qed

lemma collect_receive:
  assumes R: "round_begins n reg ca l d st c0" and M: "models n reg s c" and C: "collecting n reg ca st c0 t sg gi qi c"
    and a: "a < n" "receive (mbox (ent s a)) = Received m mb" "env_ok e" and w: "w = (\<Sum>i\<in>set (keys (sensors st)). stage_work (sg i)) + length qi"
  shows "\<exists>s' ph' w'. run_receive home_ops e a s = Done s' \<and> phase_inv n reg ca l d st c0 ph' w' s' \<and> smaller ph' w' 1 w"
proof -
  consider "a = ca" | i where "i \<in> set (keys (sensors st))" "a = the (mget reg i)" | "a \<noteq> ca" "a \<notin> (\<lambda>i. the (mget reg i)) ` set (keys (sensors st))" by blast
  then show ?thesis
  proof cases
    case 1
    then show ?thesis using collect_coordinator [OF R M C _ a(3) w] a(2) by blast
  next
    case 2
    then show ?thesis using collect_sensor [OF R M C 2(1) _ w] a(2) by blast
  next
    case 3
    then have "cq c a = []" using collectingD(3) [OF C a(1) 3] round_beginsD(22) [OF R a(1) 3(1)] by (simp add: view_def)
    then show ?thesis using models_popped(2) [OF M a(1,2)] by simp
  qed
qed

lemma finish_receive:
  assumes R: "round_begins n reg ca l d st c0" and M: "models n reg s c" and F: "finishing n reg ca l d st c0 us agg ms c"
    and a: "a < n" "receive (mbox (ent s a)) = Received m mb"
  shows "\<exists>s' w'. run_receive home_ops e a s = Done s' \<and> phase_inv n reg ca l d st c0 0 w' s' \<and> smaller 0 w' 0 (finish_work reg l d st c)"
proof -
  note D = finishingD [OF F]
  have q: "cq c a = m # tl (cq c a)" by (rule models_popped(2) [OF M a])
  have "\<exists>s' c'. run_receive home_ops e a s = Done s' \<and> models n reg s' c' \<and> finishing n reg ca l d st c0 us agg ms c' \<and> finish_work reg l d st c' < finish_work reg l d st c"
  proof -
    consider "a = ca" | i where "i \<in> set (keys (sensors st))" "a = the (mget reg i)" | "a = l" | "a = d"
      | "a \<noteq> ca" "a \<notin> (\<lambda>i. the (mget reg i)) ` set (keys (sensors st))" "a \<noteq> l" "a \<noteq> d" by blast
    then show ?thesis
    proof cases
      case 1
      then show ?thesis using D(1) q by (auto simp: view_def)
    next
      case 2
      then show ?thesis using finish_sensor [OF R M F 2(1), of m mb e] a(2) by simp
    next
      case 3
      then show ?thesis using finish_office [OF R M F _ a(2), of e] by simp
    next
      case 4
      then show ?thesis using finish_office [OF R M F _ a(2), of e] by simp
    next
      case 5
      then show ?thesis using D(4) [OF a(1)] q by simp
    qed
  qed
  then show ?thesis using phase_invI(3) unfolding smaller_def by blast
qed

lemma phase_receive:
  assumes R: "round_begins n reg ca l d st c0" and I: "phase_inv n reg ca l d st c0 ph w s"
    and a: "a < n" "receive (mbox (ent s a)) = Received m mb" "env_ok e"
  shows "\<exists>s' ph' w'. run_receive home_ops e a s = Done s' \<and> phase_inv n reg ca l d st c0 ph' w' s' \<and> smaller ph' w' ph w"
proof -
  consider "ph = 2" "models n reg s c0"
    | c t sg gi qi where "ph = 1" "models n reg s c" "collecting n reg ca st c0 t sg gi qi c" "w = (\<Sum>i\<in>set (keys (sensors st)). stage_work (sg i)) + length qi"
    | c us agg ms where "ph = 0" "models n reg s c" "finishing n reg ca l d st c0 us agg ms c" "w = finish_work reg l d st c"
    using I unfolding phase_inv_def by blast
  then show ?thesis
  proof cases
    case 1
    have "cq c0 a = m # tl (cq c0 a)" by (rule models_popped(2) [OF 1(2) a(1,2)])
    then have "a = ca" using round_beginsD(22) [OF R a(1)] by force
    then obtain s' c' where "run_receive home_ops e a s = Done s'" "models n reg s' c'" "collecting n reg ca st c0 (now e) (\<lambda>_. Asked) [] [] c'"
      using start_turn [OF R 1(2) _ a(3)] a(2) by blast
    moreover from this(2,3) have "\<exists>w'. phase_inv n reg ca l d st c0 1 w' s'" using phase_invI(2) by blast
    ultimately show ?thesis using 1(1) unfolding smaller_def by (metis one_less_numeral_iff semiring_norm(76))
  next
    case 2
    then show ?thesis using collect_receive [OF R 2(2,3) a 2(4)] by simp
  next
    case 3
    then show ?thesis using finish_receive [OF R 3(2,3) a(1,2), of e] by blast
  qed
qed

lemma phase_task:
  assumes R: "round_begins n reg ca l d st c0" and I: "phase_inv n reg ca l d st c0 ph w s"
    and k: "k < length (tasks (world s))" "tasks (world s) ! k = (a, SimulateTraining p)"
  shows "\<exists>x x' msg s' ph' w'. a < n \<and> actor (ent s a) = ASensor x \<and> (\<forall>e. simulateTraining e x p = Some (x', msg)) \<and>
    Tell a msg (set_actor a (ASensor x') (drop_task k s)) = Done s' \<and> phase_inv n reg ca l d st c0 ph' w' s' \<and> smaller ph' w' ph w"
proof -
  have tr: "is_training (tasks (world s) ! k)" using k(2) by (simp add: is_training_def)
  have no: False if "filter is_training (tasks (world s)) = []" using tr k(1) nth_mem [OF k(1)] that unfolding filter_empty_conv by blast
  consider "models n reg s c0"
    | c t sg gi qi where "ph = 1" "models n reg s c" "collecting n reg ca st c0 t sg gi qi c" "w = (\<Sum>i\<in>set (keys (sensors st)). stage_work (sg i)) + length qi"
    | c us agg ms where "models n reg s c" "finishing n reg ca l d st c0 us agg ms c"
    using I unfolding phase_inv_def by blast
  then show ?thesis
  proof cases
    case 1
    then show ?thesis using no modelsD(3) [OF 1] round_beginsD(23) [OF R] by simp
  next
    case 2
    have k': "k < length (cgo c)" "cgo c ! k = (a, SimulateTraining p)" using k modelsD(3) [OF 2(2)] by simp_all
    obtain i s' c' where i: "i \<in> set (keys (sensors st))" "sg i = InTraining" "a < n" "actor (ent s a) = ASensor (in_training st (sensor_of reg c0 i))"
        "\<forall>e. simulateTraining e (in_training st (sensor_of reg c0 i)) p = Some (result st (sensor_of reg c0 i))"
        "Tell a (snd (result st (sensor_of reg c0 i))) (set_actor a (ASensor (fst (result st (sensor_of reg c0 i)))) (drop_task k s)) = Done s'"
        "models n reg s' c'" "collecting n reg ca st c0 t (sg(i := Trained)) gi qi c'"
      using collect_task [OF R 2(2,3) k'] by blast
    from i(7,8) have "phase_inv n reg ca l d st c0 1 ((\<Sum>j\<in>set (keys (sensors st)). stage_work ((sg(i := Trained)) j)) + length qi) s'" by (rule phase_invI(2))
    moreover have "smaller 1 ((\<Sum>j\<in>set (keys (sensors st)). stage_work ((sg(i := Trained)) j)) + length qi) ph w"
      using sum_upd [OF i(1), of stage_work sg Trained] 2(1,4) i(2) by (simp add: smaller_def del: fun_upd_apply set_map)
    moreover have "\<forall>e. simulateTraining e (in_training st (sensor_of reg c0 i)) p = Some (fst (result st (sensor_of reg c0 i)), snd (result st (sensor_of reg c0 i)))"
      using i(5) by simp
    ultimately show ?thesis using i(3,4,6) by blast
  next
    case 3
    then show ?thesis using no modelsD(3) [OF 3(1)] finishingD(5) [OF 3(2)] by simp
  qed
qed

lemma phase_pump:
  assumes "phase_inv n reg ca l d st c0 ph w s" "a < n" "pump_step (mbox (ent s a)) mb"
  shows "phase_inv n reg ca l d st c0 ph w (upd_ent a (\<lambda>en. en\<lparr>mbox := mb\<rparr>) s)"
  using assms(1) models_pump(1) [OF _ assms(2,3)] unfolding phase_inv_def by blast

definition lower :: "home \<Rightarrow> nat \<Rightarrow> nat \<Rightarrow> home \<Rightarrow> nat \<Rightarrow> nat \<Rightarrow> bool" where
  "lower s' ph' w' s ph w \<longleftrightarrow> smaller ph' w' ph w \<or> ph' = ph \<and> w' = w \<and> pumping s' < pumping s"

lemma round_step_lower:
  assumes R: "round_begins n reg ca l d st c0" and I: "phase_inv n reg ca l d st c0 ph w s" and "round_step s s'"
  shows "\<exists>ph' w'. phase_inv n reg ca l d st c0 ph' w' s' \<and> lower s' ph' w' s ph w"
proof -
  obtain c where M: "models n reg s c" using phase_inv_models [OF I] by blast
  from M assms(3) show ?thesis
  proof (cases rule: round_step_cases)
    case (turn a m mb e)
    then show ?thesis using phase_receive [OF R I turn(1-3)] unfolding lower_def by fastforce
  next
    case (pump a mb)
    show ?thesis unfolding pump(3) lower_def using phase_pump [OF I pump(1,2)] models_pump(2) [OF M pump(1,2)] by blast
  next
    case (training k a p x e x' msg)
    obtain y y' msg' s1 ph' w' where t: "actor (ent s a) = ASensor y" "\<forall>e. simulateTraining e y p = Some (y', msg')"
        "Tell a msg' (set_actor a (ASensor y') (drop_task k s)) = Done s1" "phase_inv n reg ca l d st c0 ph' w' s1" "smaller ph' w' ph w"
      using phase_task [OF R I training(1,2)] by blast
    have "y = x" using t(1) training(4) by simp
    then have "y' = x'" "msg' = msg" using t(2) [rule_format, of e] training(5) by simp_all
    then have "s1 = s'" using t(3) training(6) by simp
    then show ?thesis using t(4,5) unfolding lower_def by blast
  qed
qed

subsection \<open>Progress\<close>

text \<open>A message that waits for an actor of the round makes a step possible.\<close>

lemma waiting_step:
  assumes R: "round_begins n reg ca l d st c0" and I: "phase_inv n reg ca l d st c0 ph w s" and M: "models n reg s c" and a: "a < n" "cq c a \<noteq> []"
  shows "\<exists>s'. round_step s s'"
proof -
  let ?e = "\<lparr>now = 0, iter = (\<lambda>ks. ks)\<rparr>"
  have e: "env_ok ?e" by (simp add: env_ok_def)
  have "\<exists>s'. round_step s s'" if "receive (mbox (ent s a)) = Received m mb" for m mb
    using phase_receive [OF R I a(1) that e] turn_possible [OF M a(1) _ e] by blast
  then show ?thesis using waiting_possible [OF M a] by blast
qed

lemma training_step:
  assumes R: "round_begins n reg ca l d st c0" and I: "phase_inv n reg ca l d st c0 ph w s" and M: "models n reg s c"
    and k: "k < length (cgo c)" "cgo c ! k = (a, SimulateTraining p)"
  shows "\<exists>s'. round_step s s'"
proof -
  have k': "k < length (tasks (world s))" "tasks (world s) ! k = (a, SimulateTraining p)" using k modelsD(3) [OF M] by simp_all
  obtain x x' msg s' where "a < n" "actor (ent s a) = ASensor x" "\<forall>e. simulateTraining e x p = Some (x', msg)"
      "Tell a msg (set_actor a (ASensor x') (drop_task k s)) = Done s'"
    using phase_task [OF R I k'] by blast
  then show ?thesis using training_possible [OF M k'] by blast
qed

lemma collecting_progress:
  assumes R: "round_begins n reg ca l d st c0" and M: "models n reg s c" and C: "collecting n reg ca st c0 t sg gi qi c"
  shows "\<exists>s'. round_step s s'"
proof -
  note D = collectingD [OF C] and sen = round_begins_sensor [OF R]
  note I = phase_invI(2) [OF M C, where l = l and d = d]
  show ?thesis
  proof (cases "\<exists>i\<in>set (keys (sensors st)). sg i \<noteq> Reported")
    case True
    then obtain i where i: "i \<in> set (keys (sensors st))" "sg i \<noteq> Reported" by blast
    show ?thesis
    proof (cases "sg i = InTraining")
      case True
      have "i \<in># {#i \<in># mset (keys (sensors st)). sg i = InTraining#}" using i(1) True by (simp only: set_mset_filter set_mset_mset mem_Collect_eq simp_thms)
      then have "(the (mget reg i), SimulateTraining (request st)) \<in># mset (filter is_training (cgo c))" unfolding D(7) set_image_mset by (rule imageI)
      then have "(the (mget reg i), SimulateTraining (request st)) \<in> set (cgo c)" by simp
      then obtain k where "k < length (cgo c)" "cgo c ! k = (the (mget reg i), SimulateTraining (request st))" by (metis in_set_conv_nth)
      then show ?thesis by (rule training_step [OF R I M])
    next
      case False
      then have "cq c (the (mget reg i)) \<noteq> []" using D(2) [OF i(1)] i(2) by (cases "sg i") (auto simp: view_def)
      then show ?thesis by (rule waiting_step [OF R I M sen(2) [OF i(1)]])
    qed
  next
    case False
    then have "set (gi @ qi) = set (keys (sensors st))" unfolding D(5) by blast
    then have "length (gi @ qi) = length (keys (sensors st))" using D(4) round_beginsD(7) [OF R] by (metis distinct_card)
    then have "qi \<noteq> []" using D(6) by auto
    then have "cq c ca \<noteq> []" using viewD [OF D(1)] by simp
    then show ?thesis by (rule waiting_step [OF R I M round_beginsD(4) [OF R]])
  qed
qed

text \<open>The end of the round: no message is left.\<close>

definition round_over :: "nat \<Rightarrow> (ActorID, nat) gomap \<Rightarrow> nat \<Rightarrow> nat \<Rightarrow> nat \<Rightarrow> sensor_factory CoordinatorActor \<Rightarrow> config \<Rightarrow> home \<Rightarrow> bool" where
  "round_over n reg ca l d st c0 s \<longleftrightarrow> (\<exists>us agg ms.
    mset us = mset (map (\<lambda>i. update_of st (sensor_of reg c0 i)) (keys (sensors st))) \<and> averages us agg \<and>
    (\<exists>st'. actor (ent s ca) = ACoordinator st' \<and> roundNo st' = next_round st \<and> globalWeights st' = SList agg) \<and>
    (\<forall>i\<in>set (keys (sensors st)). \<exists>x. actor (ent s (the (mget reg i))) = ASensor x \<and> state x = ''idle'' \<and> roundID x = next_round st \<and> weights x = SList agg) \<and>
    (\<exists>lg. actor (ent s l) = ALogger lg \<and> LastRound lg = Some (report st us ms)) \<and>
    (\<exists>dv tt th tb. actor (ent s d) = ADevice dv \<and> infer_targets (\<lambda>_. 0) agg = Some (tt, th, tb) \<and> GetDeviceValue ''all'' ''temperature'' dv = Some tt \<and>
      GetDeviceValue ''all'' ''humidity'' dv = Some th \<and> GetDeviceValue ''all'' ''light'' dv = Some tb) \<and>
    (\<forall>a<n. phase (ent s a) = Running \<and> contents (mbox (ent s a)) = []))"

lemma finishing_over:
  assumes R: "round_begins n reg ca l d st c0" and M: "models n reg s c" and F: "finishing n reg ca l d st c0 us agg ms c" and E: "\<forall>a<n. cq c a = []"
  shows "round_over n reg ca l d st c0 s"
proof -
  note D = finishingD [OF F] and b = round_beginsD [OF R] and sen = round_begins_sensor [OF R] and act = modelsD(5) [OF M]
  have "\<exists>st'. actor (ent s ca) = ACoordinator st' \<and> roundNo st' = next_round st \<and> globalWeights st' = SList agg"
    using D(1) act [OF b(4)] by (auto simp: view_def started_def)
  moreover have "\<exists>x. actor (ent s (the (mget reg i))) = ASensor x \<and> state x = ''idle'' \<and> roundID x = next_round st \<and> weights x = SList agg"
    if "i \<in> set (keys (sensors st))" for i
    using D(2) [OF that] act [OF sen(2) [OF that]] E sen(2) [OF that] by (auto simp: view_def reported_state_def)
  moreover have "\<exists>lg. actor (ent s l) = ALogger lg \<and> LastRound lg = Some (report st us ms)"
  proof -
    obtain lg lg' where "cact c l = ALogger lg'" "Rounds lg' = Rounds lg @ [report st us ms]" using closingD(1) [OF D(3)] E b(13) by auto
    then show ?thesis using act [OF b(13)] by (intro exI [of _ lg']) (simp add: LastRound_def Rounds_def)
  qed
  moreover have "\<exists>dv tt th tb. actor (ent s d) = ADevice dv \<and> infer_targets (\<lambda>_. 0) agg = Some (tt, th, tb) \<and> GetDeviceValue ''all'' ''temperature'' dv = Some tt \<and>
      GetDeviceValue ''all'' ''humidity'' dv = Some th \<and> GetDeviceValue ''all'' ''light'' dv = Some tb"
    using closingD(4) [OF D(3)] act [OF b(18)] E b(18) by auto
  moreover have "phase (ent s a) = Running \<and> contents (mbox (ent s a)) = []" if "a < n" for a
    using modelsD(4,7) [OF M that] E that by (simp add: ready_def)
  ultimately show ?thesis unfolding round_over_def using D(6,7) by blast
qed

lemma stuck_over:
  assumes R: "round_begins n reg ca l d st c0" and I: "phase_inv n reg ca l d st c0 ph w s" and stuck: "\<nexists>s'. round_step s s'"
  shows "round_over n reg ca l d st c0 s"
proof -
  consider "models n reg s c0" | c t sg gi qi where "models n reg s c" "collecting n reg ca st c0 t sg gi qi c"
    | c us agg ms where "models n reg s c" "finishing n reg ca l d st c0 us agg ms c"
    using I unfolding phase_inv_def by blast
  then show ?thesis
  proof cases
    case 1
    have "cq c0 ca \<noteq> []" using round_beginsD(3) [OF R] by simp
    then show ?thesis using waiting_step [OF R I 1 round_beginsD(4) [OF R]] stuck by blast
  next
    case 2
    then show ?thesis using collecting_progress [OF R] stuck by blast
  next
    case 3
    then show ?thesis using finishing_over [OF R 3] waiting_step [OF R I 3(1)] stuck by blast
  qed
qed

lemma round_steps_inv:
  assumes R: "round_begins n reg ca l d st c0" and "round_step\<^sup>*\<^sup>* s s'" "phase_inv n reg ca l d st c0 ph w s"
  shows "\<exists>ph' w'. phase_inv n reg ca l d st c0 ph' w' s'"
  using assms(2,3)
proof (induction rule: rtranclp_induct)
  case (step s1 s2)
  then show ?case using round_step_lower [OF R _ step.hyps(2)] by blast
qed blast

lemma round_terminates:
  assumes R: "round_begins n reg ca l d st c0" and "phase_inv n reg ca l d st c0 ph w s"
  shows "\<not> (\<exists>f. f 0 = s \<and> (\<forall>k. round_step (f k) (f (Suc k)))) \<and> (\<exists>s'. round_step\<^sup>*\<^sup>* s s' \<and> (\<nexists>s''. round_step s' s''))"
proof (rule measured_ends [where I = "\<lambda>x. phase_inv n reg ca l d st c0 (fst x) (snd x)" and x = "(ph, w)" and m = "\<lambda>x s. (fst x, snd x, pumping s)"
      and R = "less_than <*lex*> less_than <*lex*> less_than"])
  fix x s t assume "phase_inv n reg ca l d st c0 (fst x) (snd x) s" "round_step s t"
  then obtain ph' w' where "phase_inv n reg ca l d st c0 ph' w' t" "lower t ph' w' s (fst x) (snd x)" using round_step_lower [OF R] by blast
  then show "\<exists>y. phase_inv n reg ca l d st c0 (fst y) (snd y) t \<and> ((fst y, snd y, pumping t), fst x, snd x, pumping s) \<in> less_than <*lex*> less_than <*lex*> less_than"
    by (intro exI [of _ "(ph', w')"]) (auto simp: lower_def smaller_def)
qed (use assms(2) in \<open>simp_all add: wf_lex_prod\<close>)

section \<open>Properties\<close>


text \<open>An example: one sensor with one sample, and a message that starts a round.\<close>

definition round_scene :: home where
  "round_scene =
    (let run = (\<lambda>x o1. (new_entry x o1)\<lparr>phase := Running\<rparr>);
         info = \<lparr>infoRoomID = ''kitchen'', infoNumSamples = 1\<rparr>;
         coord = (NewCoordinatorActor ''coordinator'' ''logger'' ''device-ctrl'' 75)\<lparr>sensors := [(''sensor-1'', info)], globalWeights := SList (replicate 75 (FNum 1))\<rparr>;
         ss = [\<lparr>Features = replicate 5 (FNum 1), Target = replicate 3 (FNum 1), RoomID = ''kitchen''\<rparr>];
         en = run (ACoordinator coord) DefaultSpawnOptions
     in \<lparr>heap = [run (ALogger (NewLoggerActor ''logger'')) DefaultSpawnOptions, run (ADevice (NewDeviceControllerActor ''device-ctrl'')) DefaultSpawnOptions,
           en\<lparr>mbox := (mbox en)\<lparr>ch := [mkMessage MsgStartRound (Dyn StartRoundPayload) '''']\<rparr>\<rparr>,
           run (ASensor (NewSensorActor (\<lambda>_. FNum 1) ''sensor-1'' ''kitchen'' ''coordinator'' ss)) supervised],
         actors = [(''logger'', 0), (''device-ctrl'', 1), (''coordinator'', 2), (''sensor-1'', 3)], shut = False, wg = 4, replies = [],
         world = \<lparr>disk = [], io = [], tasks = [], network = [], rng = (\<lambda>_. 0)\<rparr>\<rparr>)"


end
