(* ===== verification/Traffic.thy ===== *)
theory Traffic
  imports ActorSystem
begin

text \<open>
  A second contract for the actors of a system, beside \<open>actor_contract\<close>: what they say to each other. A property of messages that every handler keeps for
  the messages it sends, as long as it only gets such messages, holds for all messages in all mailboxes at all times, and with it a property of the
  actors' states that depends on the messages they get.
\<close>

definition tidy :: "('u message \<Rightarrow> bool) \<Rightarrow> ('a \<Rightarrow> bool) \<Rightarrow> ('w \<Rightarrow> bool) \<Rightarrow> ('a, 'b, 'u, 'w) sys \<Rightarrow> bool" where
  "tidy ok good wok s \<longleftrightarrow> (\<forall>en\<in>set (heap s). (\<forall>m\<in>set (contents (mbox en)). ok m) \<and> good (actor en)) \<and> wok (world s)"

section \<open>Mailboxes\<close>

lemma drop_oldest_loop_contents:
  assumes "drop_oldest_loop mb m = Some mb'"
  shows "set (contents mb') \<subseteq> insert m (set (contents mb))"
proof (rule drop_oldest_loop.raw_induct [where P = "\<lambda>mb m mb'. set (contents mb') \<subseteq> insert m (set (contents mb))", OF _ assms])
  fix loop mb m mb'
  assume IH: "\<And>mb m mb'. loop mb m = Some mb' \<Longrightarrow> set (contents mb') \<subseteq> insert m (set (contents mb))"
    and eq: "(if length (ch mb) < cap mb then Some (mb\<lparr>ch := ch mb @ [m]\<rparr>)
      else case ch mb of [] \<Rightarrow> loop mb m | x # xs \<Rightarrow> loop (mb\<lparr>ch := xs, dropped := dropped mb + 1\<rparr>) m) = Some mb'"
  have "set (contents mb') \<subseteq> insert m (set (contents (mb\<lparr>ch := xs, dropped := dropped mb + 1\<rparr>)))"
    if "\<not> length (ch mb) < cap mb" "ch mb = x # xs" for x xs
    using that eq by (intro IH) simp
  then show "set (contents mb') \<subseteq> insert m (set (contents mb))"
    using eq IH [of mb m mb'] by (fastforce simp: contents_def split: if_splits list.splits)
qed

lemma Enqueue_adds:
  "Enqueue mb m = Sent mb' \<Longrightarrow> set (contents mb') \<subseteq> insert m (set (contents mb))"
  "Enqueue mb m = SendPanic mb' \<Longrightarrow> contents mb' = contents mb"
  by (auto simp: Enqueue_def Let_def contents_def split: if_splits MailboxStrategy.splits option.splits
      dest!: drop_oldest_loop_contents)


section \<open>What every system call keeps\<close>

lemma tidy_upd_ent:
  assumes "tidy ok good wok s" "\<And>en. en \<in> set (heap s) \<Longrightarrow> (\<forall>m\<in>set (contents (mbox en)). ok m) \<and> good (actor en) \<Longrightarrow>
    (\<forall>m\<in>set (contents (mbox (f en))). ok m) \<and> good (actor (f en))"
  shows "tidy ok good wok (upd_ent a f s)"
proof (cases "a < length (heap s)")
  case True
  then have "ent s a \<in> set (heap s)" by simp
  with assms have "(\<forall>m\<in>set (contents (mbox (f (ent s a)))). ok m) \<and> good (actor (f (ent s a)))" by (simp add: tidy_def)
  moreover have "set (heap (upd_ent a f s)) \<subseteq> insert (f (ent s a)) (set (heap s))" by (simp add: upd_ent_def set_update_subset_insert)
  ultimately show ?thesis using assms(1) unfolding tidy_def by auto
next
  case False
  then show ?thesis using assms(1) by (simp add: upd_ent_def list_update_beyond)
qed

lemma tidy_same_entries:
  "tidy ok good wok s \<Longrightarrow> heap s' = heap s \<Longrightarrow> world s' = world s \<Longrightarrow> tidy ok good wok s'"
  by (simp add: tidy_def)

lemma tidy_world: "tidy ok good wok s \<Longrightarrow> (wok (world s) \<Longrightarrow> wok w) \<Longrightarrow> tidy ok good wok (s\<lparr>world := w\<rparr>)"
  by (simp add: tidy_def)

text \<open>A mailbox that has lost messages, or got one that is in order.\<close>

lemma tidy_mbox:
  assumes "tidy ok good wok s" "set (contents mb) \<subseteq> M \<union> set (contents (mbox (ent s a)))" "\<forall>m\<in>M. ok m"
  shows "tidy ok good wok (upd_ent a (\<lambda>en. en\<lparr>mbox := mb\<rparr>) s)"
proof -
  have "tidy ok good wok (upd_ent a (\<lambda>en. if en = ent s a then en\<lparr>mbox := mb\<rparr> else en) s)"
    using assms(2,3) by (intro tidy_upd_ent [OF assms(1)]) auto
  then show ?thesis by (simp add: upd_ent_def)
qed

lemma Tell_tidy:
  assumes "tidy ok good wok s" "ok m" "leaves (Tell a m s) s'"
  shows "tidy ok good wok s'"
proof (cases "Enqueue (mbox (ent s a)) m")
  case (Sent mb)
  then have "s' = upd_ent a (\<lambda>en. en\<lparr>mbox := mb\<rparr>) s" using assms(3) by (simp add: Tell_def)
  then show ?thesis using Enqueue_adds(1) [OF Sent] assms(2) by (simp add: tidy_mbox [OF assms(1), where M = "{m}"])
next
  case (SendPanic mb)
  then have "s' = upd_ent a (\<lambda>en. en\<lparr>mbox := mb\<rparr>) s" using assms(3) by (simp add: Tell_def)
  then show ?thesis using Enqueue_adds(2) [OF SendPanic] by (simp add: tidy_mbox [OF assms(1), where M = "{}"])
qed (use assms(3) in \<open>simp_all add: Tell_def\<close>)

lemma obind_leavesE:
  assumes "leaves (obind out f) s'" "\<And>s1. out = Done s1 \<Longrightarrow> leaves (f s1) s' \<Longrightarrow> P" "\<And>r. out = Panicked r s' \<Longrightarrow> P"
  shows P
  using assms by (cases out) auto

lemma tell_all_tidy:
  assumes "tidy ok good wok s" "ok m" "leaves (tell_all m as s) s'"
  shows "tidy ok good wok s'"
  using assms(1,3)
proof (induction "as" arbitrary: s)
  case (Cons a as)
  from Cons.prems(2) show ?case
    unfolding tell_all.simps
  proof (rule obind_leavesE)
    fix s1
    assume s1: "Tell a m s = Done s1" "leaves (tell_all m as s1) s'"
    then have "tidy ok good wok s1" using Tell_tidy [OF Cons.prems(1) assms(2), of a s1] by simp
    then show ?case using s1(2) by (rule Cons.IH)
  next
    fix r
    assume "Tell a m s = Panicked r s'"
    then show ?case using Tell_tidy [OF Cons.prems(1) assms(2), of a s'] by simp
  qed
qed simp

lemma Spawn_tidy: "tidy ok good wok s \<Longrightarrow> good act \<Longrightarrow> tidy ok good wok (snd (Spawn ops act opts s))"
  by (auto simp: Spawn_def Let_def tidy_def new_entry_def contents_def NewMailbox_def NewUnboundedMailbox_def split: option.splits)

lemma finish_tidy: "tidy ok good wok s \<Longrightarrow> tidy ok good wok (finish p a s)"
  unfolding finish_def by (rule tidy_same_entries [of ok good wok "upd_ent a (\<lambda>en. en\<lparr>phase := p\<rparr>) s"], rule tidy_upd_ent) simp_all

lemma unregister_tidy: "tidy ok good wok s \<Longrightarrow> tidy ok good wok (unregister i s)"
  by (simp add: unregister_def tidy_def)

section \<open>The contract\<close>

locale message_contract =
  fixes ops :: "('a, 'b, 'u, 'w) actor_ops" and ok :: "'u message \<Rightarrow> bool" and good :: "'a \<Rightarrow> bool" and wok :: "'w \<Rightarrow> bool"
  assumes lifecycle_ok: "MsgType m \<in> {MsgStarted, MsgStopping, MsgRestarting, MsgActorFailed} \<Longrightarrow> ok m"
    and OnPreStart_tidy: "tidy ok good wok s \<Longrightarrow> tidy ok good wok (snd (OnPreStart ops e a s))"
    and OnPostStop_tidy: "tidy ok good wok s \<Longrightarrow> tidy ok good wok (OnPostStop ops e a s)"
    and OnPreRestart_tidy: "tidy ok good wok s \<Longrightarrow> tidy ok good wok (OnPreRestart ops e a reason s)"
    and Receive_tidy: "tidy ok good wok s \<Longrightarrow> ok m \<Longrightarrow> a < length (heap s) \<Longrightarrow> leaves (Receive ops e a m s) s' \<Longrightarrow> tidy ok good wok s'"
    and Behave_tidy: "tidy ok good wok s \<Longrightarrow> ok m \<Longrightarrow> a < length (heap s) \<Longrightarrow> leaves (Behave ops b e a m s) s' \<Longrightarrow> tidy ok good wok s'"
begin

lemma run_stop_tidy: "tidy ok good wok s \<Longrightarrow> tidy ok good wok (run_stop ops e a s)"
  unfolding run_stop_def Let_def by (intro finish_tidy unregister_tidy tidy_upd_ent OnPostStop_tidy) simp_all

lemma handleActorFailure_tidy:
  assumes "tidy ok good wok s" "leaves (handleActorFailure ops e a reason s) s'"
  shows "tidy ok good wok s'"
proof -
  let ?s1 = "OnPreRestart ops e a reason s"
  let ?s2 = "upd_ent a (\<lambda>en. en\<lparr>cancelled := True\<rparr>) (unregister (ID ops (actor (ent ?s1 a))) ?s1)"
  have s2: "tidy ok good wok ?s2" by (intro tidy_upd_ent unregister_tidy OnPreRestart_tidy assms(1)) simp_all
  have "tidy ok good wok s'" if "leaves (Tell r (newMessage e MsgActorFailed p '''') ?s2) s'" for r p
    by (rule Tell_tidy [OF s2 lifecycle_ok that]) (simp add: newMessage_def)
  then show ?thesis
    using assms(2) s2 by (auto simp: handleActorFailure_def Let_def split: if_splits sum.splits)
qed

lemma run_fail_tidy:
  assumes "tidy ok good wok s" "leaves (run_fail ops e a reason s) s'"
  shows "tidy ok good wok s'"
  using assms(2) unfolding run_fail_def
  by (rule obind_leavesE) (use handleActorFailure_tidy [OF assms(1), of e a reason] in \<open>auto intro: finish_tidy\<close>)

lemma run_recover_tidy: "tidy ok good wok s \<Longrightarrow> leaves (run_recover ops e a reason s) s' \<Longrightarrow> tidy ok good wok s'"
  unfolding run_recover_def by (rule run_fail_tidy)

lemma run_start_tidy:
  assumes "tidy ok good wok s" "run_start ops e a s = Done s'"
  shows "tidy ok good wok s'"
proof (cases "OnPreStart ops e a s")
  case (Pair err s1)
  have s1: "tidy ok good wok s1" using OnPreStart_tidy [OF assms(1), of e a] Pair by simp
  have t: "tidy ok good wok s2" if "leaves (Tell a (newMessage e MsgStarted NilAny '''') s1) s2" for s2
    by (rule Tell_tidy [OF s1 lifecycle_ok that]) (simp add: newMessage_def)
  show ?thesis
  proof (cases err)
    case (Some r)
    then show ?thesis using assms(2) Pair by (intro run_fail_tidy [OF s1, of e a r]) (simp add: run_start_def)
  next
    case None
    show ?thesis
    proof (cases "Tell a (newMessage e MsgStarted NilAny '''') s1")
      case (Done s2)
      then have "s' = upd_ent a (\<lambda>en. en\<lparr>phase := Running\<rparr>) s2" using assms(2) Pair None by (simp add: run_start_def)
      moreover have "tidy ok good wok s2" by (rule t) (simp add: Done)
      ultimately show ?thesis by (auto intro: tidy_upd_ent)
    next
      case (Panicked r s2)
      have "tidy ok good wok s2" by (rule t) (simp add: Panicked)
      then show ?thesis by (rule run_recover_tidy [of s2 e a r]) (use assms(2) Pair None Panicked in \<open>simp add: run_start_def\<close>)
    qed (use assms(2) Pair None in \<open>simp add: run_start_def\<close>)
  qed
qed

lemma dispatch_tidy:
  assumes "tidy ok good wok s" "ok m" "a < length (heap s)" "leaves (dispatch ops e a m s) s'"
  shows "tidy ok good wok s'"
proof -
  define src where "src = (if Sender m \<noteq> '''' then (case Lookup (Sender m) s of Inr r \<Rightarrow> Some r | Inl _ \<Rightarrow> None) else None)"
  let ?s1 = "upd_ent a (\<lambda>en. en\<lparr>sender := src\<rparr>) s"
  have s1: "tidy ok good wok ?s1" "a < length (heap ?s1)" using assms(1,3) by (auto intro: tidy_upd_ent)
  show ?thesis
  proof (cases "handler_for (behaviorStack (ent ?s1 a)) (MsgType m)")
    case None
    then show ?thesis using assms(4) by (intro Receive_tidy [OF s1(1) assms(2) s1(2), of e]) (simp add: dispatch_def src_def Let_def)
  next
    case (Some b)
    then show ?thesis using assms(4) by (intro Behave_tidy [OF s1(1) assms(2) s1(2), of b e]) (simp add: dispatch_def src_def Let_def)
  qed
qed

lemma run_receive_tidy:
  assumes "tidy ok good wok s" "a < length (heap s)" "run_receive ops e a s = Done s'"
  shows "tidy ok good wok s'"
proof (cases "receive (mbox (ent s a))")
  case (Received m mb)
  note c = receive_contents [OF Received]
  let ?s1 = "upd_ent a (\<lambda>en. en\<lparr>mbox := mb\<rparr>) s"
  have s1: "tidy ok good wok ?s1" using c by (intro tidy_mbox [OF assms(1), where M = "{}"]) auto
  have "ent s a \<in> set (heap s)" using assms(2) by simp
  then have "\<forall>m\<in>set (contents (mbox (ent s a))). ok m" using assms(1) unfolding tidy_def by blast
  then have "ok m" using c by simp
  then have d: "tidy ok good wok s2" if "leaves (dispatch ops e a m ?s1) s2" for s2
    using dispatch_tidy [OF s1] assms(2) that by simp
  show ?thesis
  proof (cases "MsgType m = MsgStopping")
    case True
    then show ?thesis using assms(3) Received run_stop_tidy [OF s1] by (auto simp: run_receive_def Let_def)
  next
    case False
    show ?thesis
    proof (cases "dispatch ops e a m ?s1")
      case (Panicked r s2)
      have "tidy ok good wok s2" by (rule d) (simp add: Panicked)
      then show ?thesis by (rule run_recover_tidy [of s2 e a r]) (use False assms(3) Received Panicked in \<open>simp add: run_receive_def Let_def\<close>)
    qed (use False assms(3) Received d in \<open>simp_all add: run_receive_def Let_def\<close>)
  qed
qed (use assms in \<open>auto simp: run_receive_def intro: run_stop_tidy\<close>)

text \<open>What comes from outside has to be in order as well.\<close>

definition label_ok :: "('a, 'u) slabel \<Rightarrow> bool" where
  "label_ok l \<longleftrightarrow> (case l of LTell a m \<Rightarrow> ok m | LSpawn x \<Rightarrow> good x | _ \<Rightarrow> True)"

lemma step_tidy: "sys_step ops s l s' \<Longrightarrow> label_ok l \<Longrightarrow> tidy ok good wok s \<Longrightarrow> tidy ok good wok s'"
proof (induction rule: sys_step.induct)
  case (pump a s mb)
  show ?case using pump_step_contents [OF pump.hyps(2)] by (intro tidy_mbox [OF pump.prems(2), where M = "{}"]) auto
next
  case (tell a s m s')
  then show ?case using Tell_tidy [of ok good wok s m a s'] by (simp add: label_ok_def)
next
  case (spawn act opts s a s')
  then show ?case using Spawn_tidy [of ok good wok s act ops opts] by (simp add: label_ok_def)
next
  case (shutdown e s s')
  let ?m = "newMessage e MsgStopping NilAny '''' :: 'u message"
  have s1: "tidy ok good wok (s\<lparr>shut := True\<rparr>)" using shutdown.prems(2) by (rule tidy_same_entries) simp_all
  have "ok ?m" by (rule lifecycle_ok) (simp add: newMessage_def)
  then have "tidy ok good wok s'" if "tell_all ?m as (s\<lparr>shut := True\<rparr>) = Done s'" for "as"
    using tell_all_tidy [OF s1, of ?m "as" s'] that by simp
  then show ?case using shutdown.hyps(2) shutdown.prems(2) by (auto simp: Shutdown_def split: if_splits)
qed (auto intro: run_start_tidy run_receive_tidy run_stop_tidy)

end

end
