(* ===== verification/Cluster.thy ===== *)
theory Cluster
  imports Services Traffic
begin

text \<open>
  Several processes with a network between them: the deployment in which the coordinator and every sensor run in a process of their own. A cluster maps the address of a
  process to its actor system. A request that a process has put on the network is delivered to the process at its address, in any order, or it is lost.

  The result about all runs: whatever is trained on, no number that is not finite gets into the federated average.
\<close>

section \<open>The cluster\<close>

type_synonym cluster = "(string, home) gomap"

datatype cluster_label = CLocal string home_label | CDeliver string string TellRequest | CLose string string TellRequest

text \<open>
  What the processes do of themselves. The main goroutines start actors without collected updates, and they send and ask for everything but model updates;
  requests from other processes come from the network only.
\<close>

fun fresh :: "home_actor \<Rightarrow> bool" where
  "fresh (ACoordinator st) = (pendingUpdates st = [])"
| "fresh _ = True"

definition own :: "home_label \<Rightarrow> bool" where
  "own l \<longleftrightarrow> (case l of
     HSys (LTell a m) \<Rightarrow> MsgType m \<noteq> MsgModelUpdate
   | HSys (LSpawn x) \<Rightarrow> fresh x
   | HAsk a m \<Rightarrow> MsgType m \<noteq> MsgModelUpdate
   | HIncoming _ \<Rightarrow> False
   | HIncomingAsk _ \<Rightarrow> False
   | HIncomingStop _ \<Rightarrow> False
   | _ \<Rightarrow> True)"

definition carried :: "(string \<times> TellRequest) list \<Rightarrow> home \<Rightarrow> home" where
  "carried reqs s = s\<lparr>world := (world s)\<lparr>network := reqs\<rparr>\<rparr>"

inductive cluster_step :: "cluster \<Rightarrow> cluster_label \<Rightarrow> cluster \<Rightarrow> bool" where
  here: "mget C a = Some s \<Longrightarrow> home_step s l s' \<Longrightarrow> own l \<Longrightarrow> cluster_step C (CLocal a l) (mput a s' C)"
| deliver: "mget C a = Some s \<Longrightarrow> network (world s) = before @ (b, req) # after \<Longrightarrow> C1 = mput a (carried (before @ after) s) C \<Longrightarrow>
    mget C1 b = Some t \<Longrightarrow> server_Tell init_registry req t = Done t' \<Longrightarrow> cluster_step C (CDeliver a b req) (mput b t' C1)"
| lose: "mget C a = Some s \<Longrightarrow> network (world s) = before @ (b, req) # after \<Longrightarrow>
    cluster_step C (CLose a b req) (mput a (carried (before @ after) s) C)"

section \<open>Updates with finite numbers\<close>

definition finite_update :: "'f payload \<Rightarrow> bool" where
  "finite_update p \<longleftrightarrow> list_all finite_f64 (elems (pWeights p)) \<and> finite_f64 (pLoss p)"

text \<open>A message that is no update, or one whose payload, if the coordinator can read it, has finite numbers.\<close>

definition ok_message :: "'f payload message \<Rightarrow> bool" where
  "ok_message m \<longleftrightarrow> MsgType m = MsgModelUpdate \<longrightarrow> (\<forall>p. castPayload PModelUpdate (Payload m) = Some p \<longrightarrow> finite_update p)"

definition ok_request :: "TellRequest \<Rightarrow> bool" where
  "ok_request req \<longleftrightarrow> ok_message (request_message init_registry req :: home_message)"

text \<open>What the handlers send: an update of the right type, with finite numbers.\<close>

definition fine :: "'f payload message \<Rightarrow> bool" where
  "fine m \<longleftrightarrow> MsgType m = MsgModelUpdate \<longrightarrow> (\<exists>p. Payload m = Dyn p \<and> ptype_of p = Some PModelUpdate \<and> finite_update p)"

fun good_actor :: "home_actor \<Rightarrow> bool" where
  "good_actor (ACoordinator st) = (\<forall>p\<in>snd ` set (pendingUpdates st). finite_update p)"
| "good_actor _ = True"

definition ok_world :: "sensor_factory world \<Rightarrow> bool" where
  "ok_world w \<longleftrightarrow> (\<forall>(b, req)\<in>set (network w). ok_request req)"

section \<open>Lemmas\<close>

subsection \<open>Updates survive the network\<close>

lemma marshal_floats:
  assumes "marshal TFloats (floats w) = Some j"
  shows "unmarshal TFloats j = Some (floats w) \<and> unmarshal TFloats (to_any j) = Some (floats w) \<and> list_all finite_f64 (elems w)"
proof (cases w)
  case (SList ws)
  have "marshal_list TFloat (map VFloat ws) = Some js \<Longrightarrow>
      all_some (map (unmarshal TFloat) js) = Some (map VFloat ws) \<and> map to_any js = js \<and> list_all finite_f64 ws" for js
    by (induction ws arbitrary: js) (auto simp: json_float_def bind_eq_Some_conv split: if_splits)
  then show ?thesis using assms SList by auto
qed (use assms in auto)

text \<open>Whatever becomes of the integers, a document with the weights and the loss of an update is read as an update with these numbers.\<close>

lemma unmarshal_update:
  assumes "unmarshal_payload PModelUpdate (JObj kvs) = Some p"
    and "last_match ''Weights'' kvs = Some j" "unmarshal TFloats j = Some (floats w)" "last_match ''Loss'' kvs = Some (JNum x)"
  shows "pWeights p = w \<and> pLoss p = x"
  using assms floats_VSlice [of w]
  by (auto simp: unmarshal_payload_def of_fields_def bind_eq_Some_conv json_float_def split: goval.splits list.splits option.splits)

lemma marshal_update:
  assumes "ptype_of p = Some PModelUpdate" "marshal_payload p = Some j"
  obtains jw kvs where "j = JObj kvs" "(''Weights'', jw) \<in> set kvs" "(''Loss'', JNum (pLoss p)) \<in> set kvs" "map fst kvs = map fst (fields_of PModelUpdate)"
    "marshal TFloats (floats (pWeights p)) = Some jw" "finite_f64 (pLoss p)"
proof -
  obtain s r w n x where p: "p = ModelUpdatePayload s r w n x" using assms(1) by (cases p) simp_all
  show ?thesis using assms(2) that unfolding p by (auto simp: bind_eq_Some_conv split: if_splits)
qed

lemma last_match_update:
  assumes "map fst kvs = map fst (fields_of PModelUpdate)" "mset kvs' = mset (map (\<lambda>kv. (fst kv, f (snd kv))) kvs)" "(k, j) \<in> set kvs"
  shows "last_match k kvs' = Some (f j)"
proof -
  have "map (\<lambda>kv. fold_name (fst kv)) (map (\<lambda>kv. (fst kv, f (snd kv))) kvs) = map fold_name (map fst (fields_of PModelUpdate))"
    unfolding assms(1) [symmetric] by simp
  then have "distinct (map (\<lambda>kv. fold_name (fst kv)) (map (\<lambda>kv. (fst kv, f (snd kv))) kvs))"
    using wf_fields_of [of PModelUpdate] by (simp only: wf_type.simps map_map comp_def)
  moreover have "(k, f j) \<in> set (map (\<lambda>kv. (fst kv, f (snd kv))) kvs)" using assms(3) by force
  ultimately show ?thesis using assms(2) by (blast intro: last_match_mset)
qed

lemma unmarshal_ptype: "unmarshal_payload PModelUpdate j = Some p \<Longrightarrow> ptype_of p = Some PModelUpdate"
  by (simp add: unmarshal_payload_def of_fields_def split: option.splits goval.splits list.splits) auto

lemma transmitted_update:
  fixes p :: "'f payload" and q :: "'f payload"
  assumes "ptype_of p = Some PModelUpdate" "castPayload PModelUpdate (decodePayload init_registry (marshal_payload p) (payload_type_name p)) = Some q"
  shows "finite_update q"
proof -
  obtain j where j: "marshal_payload p = Some j" using assms(2) by (cases "marshal_payload p") (auto simp: decodePayload_def castPayload_def)
  obtain jw kvs where kvs: "j = JObj kvs" "(''Weights'', jw) \<in> set kvs" "(''Loss'', JNum (pLoss p)) \<in> set kvs" "map fst kvs = map fst (fields_of PModelUpdate)"
      "marshal TFloats (floats (pWeights p)) = Some jw" "finite_f64 (pLoss p)"
    by (rule marshal_update [OF assms(1) j])
  note jw = marshal_floats [OF kvs(5)]
  have reg: "mget init_registry (payload_type_name p) = Some PModelUpdate"
    by (simp only: payload_type_name_ptype [OF assms(1)] mget_init_registry)
  have fin: "finite_update q" if "unmarshal_payload PModelUpdate (JObj kvs') = Some q" "mset kvs' = mset (map (\<lambda>kv. (fst kv, f (snd kv))) kvs)"
      "unmarshal TFloats (f jw) = Some (floats (pWeights p))" "f (JNum (pLoss p)) = JNum (pLoss p)" for kvs' f
    using unmarshal_update [OF that(1) last_match_update [OF kvs(4) that(2) kvs(2)] that(3)] last_match_update [OF kvs(4) that(2) kvs(3)] that(4) jw kvs(6)
    by (simp add: finite_update_def)
  show ?thesis
  proof (cases "unmarshal_payload PModelUpdate (JObj kvs) :: 'f payload option")
    case (Some q')
    then have "ptype_of q' = Some PModelUpdate" by (rule unmarshal_ptype)
    then have "q = q'" using assms(2) j kvs(1) Some reg by (simp add: decodePayload_def castPayload_def)
    then show ?thesis using fin [of kvs "\<lambda>x. x"] Some jw by simp
  next
    case None
    let ?m = "map any_field kvs"
    have "decodePayload init_registry (marshal_payload p) (payload_type_name p) = (Dyn (MapAny ?m) :: 'f payload any)"
      using None j kvs(1) reg by (simp add: decodePayload_def decode_any_def)
    then have "unmarshal_payload PModelUpdate (JObj (sort_key fst ?m)) = Some q"
      using assms(2) by (auto simp: castPayload_def marshal_any_map_def split: if_splits)
    then show ?thesis using jw by (intro fin [of "sort_key fst ?m" to_any]) simp_all
  qed
qed

lemma fine_ok: "fine m \<Longrightarrow> ok_message m"
  by (auto simp: fine_def ok_message_def castPayload_def)

lemma fine_request:
  assumes "fine (m :: home_message)"
  shows "ok_request (marshalTell i m)"
  unfolding ok_request_def ok_message_def
proof (intro impI allI)
  fix p :: "sensor_factory payload"
  assume "MsgType (request_message init_registry (marshalTell i m) :: home_message) = MsgModelUpdate"
    and cast: "castPayload PModelUpdate (Payload (request_message init_registry (marshalTell i m))) = Some p"
  then have "MsgType m = MsgModelUpdate" by (simp add: request_message_def marshalTell_def)
  then obtain q where q: "Payload m = Dyn q" "ptype_of q = Some PModelUpdate" using assms by (auto simp: fine_def)
  then show "finite_update p" using cast by (intro transmitted_update [OF q(2)]) (simp add: request_message_def marshalTell_def)
qed

subsection \<open>What the handlers send\<close>

definition sends_fine :: "('st, 'f) hres \<Rightarrow> bool" where
  "sends_fine h \<longleftrightarrow> (\<forall>(r, m)\<in>set (sent (heffs h)). fine m)"

lemma fine_other: "mt \<noteq> MsgModelUpdate \<Longrightarrow> fine (mkMessage mt p from)"
  by (simp add: fine_def mkMessage_def)



lemma fine_update: "fine (mkMessage MsgModelUpdate (Dyn (ModelUpdatePayload i r (sanitise_weights w) n (sanitise x))) from)"
  by (simp add: fine_def mkMessage_def finite_update_def finite_sanitised sanitise_finite)

lemma sensor_fine: "sends_fine (sensor_Receive c msg st)" "sends_fine (trainingBehavior c msg st)"
  by (auto simp: sends_fine_def sensor_Receive_def trainingBehavior_def handleStartTraining_def handleGlobalModelUpdate_def handleStatusCheck_def
      processSendResults_def Let_def fine_update fine_other split: option.split)

lemma aggregate_fine: "sends_fine (aggregateAndFinalise r e c st)"
  by (auto simp: sends_fine_def aggregateAndFinalise_def Let_def addressed_iff fine_other split: option.splits if_splits)

lemma coord_fine: "sends_fine (coord_Receive r e c msg st)"
proof -
  have "sends_fine (handleModelUpdate r e c msg st)"
    by (simp add: handleModelUpdate_def Let_def aggregate_fine split: option.split) (simp add: sends_fine_def)
  moreover have "sends_fine (handleRegisterSensor msg st)" by (simp add: sends_fine_def handleRegisterSensor_def Let_def split: option.split)
  moreover have "sends_fine (handleRequestStatus c msg st)" by (simp add: sends_fine_def handleRequestStatus_def fine_other split: option.split)
  moreover have "sends_fine (handleStartRound e c st)" by (auto simp: sends_fine_def handleStartRound_def Let_def addressed_iff fine_other)
  ultimately show ?thesis by (simp add: coord_Receive_def) (simp add: sends_fine_def)
qed

lemma logger_fine: "sends_fine (logger_Receive msg st)"
  by (auto simp: sends_fine_def logger_Receive_def logger_persistState_def save_state_def Let_def split: option.splits if_splits)

lemma device_fine: "sends_fine (device_Receive e c msg st)"
  by (auto simp: sends_fine_def device_Receive_def handleAdjustEnvironment_def Let_def fine_other split: option.splits)

lemma evaluator_fine: "sends_fine (evaluator_Receive r c msg st)"
  by (auto simp: sends_fine_def evaluator_Receive_def handleEvaluateModel_def Let_def fine_other split: option.splits if_splits)

text \<open>The coordinator only collects what it has been sent.\<close>

lemma mput_values: "snd ` set (mput k v m) \<subseteq> insert v (snd ` set m)"
  by (induction k v m rule: mput.induct) auto

lemma aggregate_pending: "pendingUpdates (hstate (aggregateAndFinalise r e c st)) = pendingUpdates st"
  by (simp add: aggregate_hstate split: option.split)

lemma call_back_pending: "pendingUpdates (call_back fn i x st) = pendingUpdates st"
  by (cases fn) (simp add: SetSensorRemoteRef_def)

lemma coord_collects:
  assumes "ok_message msg"
  shows "snd ` set (pendingUpdates (hstate (coord_Receive r e c msg st))) \<subseteq> {p. finite_update p} \<union> snd ` set (pendingUpdates st)"
proof (cases "MsgType msg = MsgModelUpdate")
  case False
  then show ?thesis
    by (auto simp: coord_Receive_def handleRegisterSensor_def handleRequestStatus_def handleStartRound_def Let_def call_back_pending split: option.splits)
next
  case True
  then have m: "coord_Receive r e c msg st = handleModelUpdate r e c msg st" by (simp add: coord_Receive_def)
  show ?thesis
  proof (cases "castPayload PModelUpdate (Payload msg)")
    case (Some p)
    then have p: "finite_update p" using assms True by (simp add: ok_message_def)
    let ?m = "mput (pSensorID p) p (pendingUpdates st)"
    have "pendingUpdates (hstate (handleModelUpdate r e c msg st)) \<in> {pendingUpdates st, ?m}"
      using Some by (simp add: handleModelUpdate_def Let_def aggregate_pending)
    moreover have "snd ` set ?m \<subseteq> {p. finite_update p} \<union> snd ` set (pendingUpdates st)"
      using p by (intro subset_trans [OF mput_values]) simp
    ultimately show ?thesis unfolding m by (elim insertE emptyE) simp_all
  qed (simp add: m handleModelUpdate_def)
qed

subsection \<open>The program's actors keep messages in order\<close>

abbreviation in_order :: "home \<Rightarrow> bool" where
  "in_order \<equiv> tidy ok_message good_actor ok_world"

lemma ok_world_same: "network w' = network w \<Longrightarrow> ok_world w' = ok_world w"
  by (simp add: ok_world_def)

lemma ok_other: "MsgType m \<noteq> MsgModelUpdate \<Longrightarrow> ok_message m"
  by (simp add: ok_message_def)

lemma perform1_tidy:
  assumes "in_order s" "\<And>r m. x = ETell r m \<Longrightarrow> fine m" "leaves (perform1 a x s) s'"
  shows "in_order s'"
proof (cases x)
  case (ETell r m)
  then have m: "fine m" using assms(2) by simp
  show ?thesis
  proof (cases r)
    case (LocalRef b)
    then show ?thesis using ETell assms(3) by (intro Tell_tidy [OF assms(1) fine_ok [OF m], of b]) simp
  next
    case (RemoteRef i target)
    then show ?thesis using ETell assms(1,3) fine_request [OF m, of i] by (auto simp: tidy_def ok_world_def)
  qed
next
  case (EReply r m)
  then show ?thesis using assms(1,3) by (auto simp: Reply_def tidy_def split: if_splits)
next
  case (EBecome b)
  then have "s' = upd_ent a (\<lambda>en. en\<lparr>behaviorStack := Become b (behaviorStack en)\<rparr>) s" using assms(3) by simp
  then show ?thesis using tidy_upd_ent [OF assms(1)] by simp
next
  case EUnbecome
  then have "s' = upd_ent a (\<lambda>en. en\<lparr>behaviorStack := Unbecome (behaviorStack en)\<rparr>) s" using assms(3) by simp
  then show ?thesis using tidy_upd_ent [OF assms(1)] by simp
qed (use assms(1,3) in \<open>simp_all add: tidy_def ok_world_def\<close>)

lemma perform_tidy:
  assumes "in_order s" "\<forall>(r, m)\<in>set (sent xs). fine m" "leaves (perform a xs s) s'"
  shows "in_order s'"
  using assms
proof (induction xs arbitrary: s)
  case (Cons x xs)
  have x: "fine m" if "x = ETell r m" for r m using that Cons.prems(2) by simp
  have xs: "\<forall>(r, m)\<in>set (sent xs). fine m" using Cons.prems(2) by (cases x) simp_all
  from Cons.prems(3) show ?case
    unfolding perform.simps
  proof (rule obind_leavesE)
    fix s1
    assume s1: "perform1 a x s = Done s1" "leaves (perform a xs s1) s'"
    then have "in_order s1" using perform1_tidy [OF Cons.prems(1), of x a s1] x by simp
    then show ?case using xs s1(2) by (rule Cons.IH)
  next
    fix r
    assume "perform1 a x s = Panicked r s'"
    then show ?case using perform1_tidy [OF Cons.prems(1), of x a s'] x by simp
  qed
qed simp

lemma run_handler_tidy:
  assumes "in_order s" "good_actor (wrap (hstate h))" "sends_fine h" "leaves (run_handler wrap a h s) s'"
  shows "in_order s'"
proof -
  let ?s = "upd_ent a (\<lambda>en. en\<lparr>actor := wrap (hstate h)\<rparr>) s"
  have s: "in_order ?s" using assms(2) by (intro tidy_upd_ent [OF assms(1)]) simp
  have "leaves (perform a (heffs h) ?s) s'"
    using assms(4) unfolding run_handler_def by (cases "perform a (heffs h) ?s") (auto split: option.splits)
  then show ?thesis using perform_tidy [OF s] assms(3) by (simp add: sends_fine_def)
qed

text \<open>The supervisor sends restart, log, failure and status messages, and builds sensors.\<close>

lemma build_good: "good_actor (build r f)"
  by (cases f) simp

lemma StopActor_tidy: "in_order s \<Longrightarrow> leaves (snd (StopActor e i s)) s' \<Longrightarrow> in_order s'"
  by (auto simp: StopActor_def StopRef_def newMessage_def ok_other split: sum.splits elim!: Tell_tidy [rotated 2])

lemma RestartActor_tidy:
  assumes "in_order s" "good_actor x" "leaves (snd (RestartActor ops e x o1 s)) s'"
  shows "in_order s'"
proof (cases "snd (StopActor e (ID ops x) s)")
  case (Done s1)
  then have "in_order s1" using StopActor_tidy [OF assms(1), of e "ID ops x" s1] by simp
  then have s2: "in_order (snd (Spawn ops x o1 s1))" using assms(2) by (rule Spawn_tidy)
  have "in_order s'" if "leaves (Tell a (newMessage e MsgRestarting NilAny '''') (snd (Spawn ops x o1 s1))) s'" for a
    by (rule Tell_tidy [OF s2 ok_other that]) (simp add: newMessage_def)
  then show ?thesis
    using assms(3) Done s2 by (auto simp: RestartActor_def split: prod.splits sum.splits)
qed (use assms StopActor_tidy [OF assms(1), of e "ID ops x" s'] in \<open>auto simp: RestartActor_def\<close>)

lemma doRestart_tidy:
  assumes "in_order s" "leaves (snd (doRestart ops (build r) e i entry st s)) s'"
  shows "in_order s'"
proof -
  let ?R = "RestartActor ops e (build r (factory entry)) (opts entry) s"
  have R: "in_order s1" if "leaves (snd ?R) s1" for s1 by (rule RestartActor_tidy [OF assms(1) build_good that])
  have "in_order s'" if "snd ?R = Done s1" "leaves (Tell b (restart_log j i) s1) s'" for s1 b j
    using Tell_tidy [OF R ok_other that(2)] that(1) by (simp add: restart_log_def mkMessage_def)
  then show ?thesis using assms(2) R by (auto simp: doRestart_def Let_def split: prod.splits sum.splits outcome.splits if_splits)
qed

lemma doEscalate_tidy:
  assumes "in_order s" "leaves (doEscalate p st s) s'"
  shows "in_order s'"
proof -
  have "in_order s'" if "leaves (Tell b (mkMessage MsgActorFailed (ActorFailed p) '''') s) s'" for b
    by (rule Tell_tidy [OF assms(1) ok_other that]) (simp add: mkMessage_def)
  then show ?thesis using assms by (auto simp: doEscalate_def Let_def split: option.splits if_splits sum.splits)
qed

lemma status_checks_tidy: "in_order s \<Longrightarrow> leaves (status_checks i js s) s' \<Longrightarrow> in_order s'"
proof (induction js arbitrary: s)
  case (Cons j js)
  show ?case
  proof (cases "Lookup j s")
    case (Inr b)
    let ?m = "mkMessage MsgStatusCheck NilAny i"
    have t: "in_order s1" if "leaves (Tell b ?m s) s1" for s1
      by (rule Tell_tidy [OF Cons.prems(1) ok_other that]) (simp add: mkMessage_def)
    have "leaves (obind (Tell b ?m s) (status_checks i js)) s'" using Cons.prems(2) Inr by simp
    then show ?thesis by (rule obind_leavesE) (use t Cons.IH in auto)
  qed (use Cons in simp)
qed simp

lemma sup_Receive_tidy:
  assumes "in_order s" "leaves (snd (snd (sup_Receive ops (build r) e msg st s))) s'"
  shows "in_order s'"
proof -
  note R = doRestart_tidy [OF assms(1), of ops r e] and E = doEscalate_tidy [OF assms(1)]
  have f: "in_order s'" if "leaves (snd (snd (handleFailure ops (build r) e msg st s))) s'"
    using that assms(1) E [where s' = s'] by (auto simp: handleFailure_def Let_def split: any.splits option.splits prod.splits RestartAction.splits if_splits)
      (metis R snd_conv)+
  have d: "in_order s'" if "leaves (snd (handleDelayedRestart ops (build r) e msg st s)) s'"
    using that assms(1) R by (auto simp: handleDelayedRestart_def split: any.splits payload.splits)
  show ?thesis
    using assms f d status_checks_tidy [OF assms(1)] by (auto simp: sup_Receive_def handleHeartbeatTick_def split: if_splits prod.splits)
qed

lemma in_order_ent: "in_order s \<Longrightarrow> a < length (heap s) \<Longrightarrow> good_actor (actor (ent s a))"
  by (simp add: tidy_def)

lemma pre_start_good: "good_actor (pre_start fl d x) = good_actor x"
proof (cases x)
  case (ACoordinator st)
  have "pendingUpdates (coord_OnPreStart fl d st) = pendingUpdates st"
    by (auto simp: coord_OnPreStart_def coord_restore_def split: goval.split list.split intro!: load_state_ID)
  then show ?thesis using ACoordinator by simp
qed simp_all

lemma set_actor_tidy: "in_order s \<Longrightarrow> good_actor x \<Longrightarrow> in_order (set_actor a x s)"
  unfolding set_actor_def by (erule tidy_upd_ent) simp

lemma add_tasks_tidy: "in_order s \<Longrightarrow> in_order (add_tasks a ts s)"
  by (simp add: add_tasks_def tidy_def ok_world_def)

lemma reading_tidy: "in_order s \<Longrightarrow> in_order (reading p s)"
  by (simp add: reading_def tidy_def ok_world_def)

lemma home_Receive_tidy:
  assumes "in_order s" "ok_message msg" "a < length (heap s)" "leaves (home_Receive e a msg s) s'"
  shows "in_order s'"
proof (cases "actor (ent s a)")
  case (ACoordinator st)
  let ?c = "ctx_of (home_ID (actor (ent s a))) a s"
  let ?h = "coord_Receive (rng (world s)) e ?c msg st"
  have "good_actor (ACoordinator st)" using in_order_ent [OF assms(1,3)] ACoordinator by simp
  then have "good_actor (ACoordinator (hstate ?h))" using coord_collects [OF assms(2), of "rng (world s)" e ?c st] unfolding good_actor.simps by blast
  then show ?thesis
    using assms(4) ACoordinator by (intro run_handler_tidy [OF assms(1) _ coord_fine, of ACoordinator]) (auto simp: home_Receive_def Let_def)
next
  case (ASupervisor st)
  let ?R = "sup_Receive id_ops (build (rng (world s))) e msg st s"
  have R: "in_order s1" if "leaves (snd (snd ?R)) s1" for s1 by (rule sup_Receive_tidy [OF assms(1) that])
  obtain st1 gs out where r: "?R = (st1, gs, out)" by (metis prod_cases3)
  have "leaves (obind out (\<lambda>s1. Done (add_tasks a (map SupervisorTask gs) (set_actor a (ASupervisor st1) s1)))) s'"
    using assms(4) ASupervisor r by (simp add: home_Receive_def Let_def)
  then show ?thesis by (rule obind_leavesE) (use R r in \<open>auto intro!: add_tasks_tidy set_actor_tidy\<close>)
next
  case (ASensor st)
  then show ?thesis
    using assms(4) by (intro run_handler_tidy [OF assms(1) _ sensor_fine(1), of ASensor]) (auto simp: home_Receive_def Let_def)
next
  case (ALogger st)
  then show ?thesis
    using assms(4) by (intro run_handler_tidy [OF assms(1) _ logger_fine, of ALogger]) (auto simp: home_Receive_def Let_def)
next
  case (ADevice st)
  then show ?thesis
    using assms(4) by (intro run_handler_tidy [OF assms(1) _ device_fine, of ADevice]) (auto simp: home_Receive_def Let_def)
next
  case (AEvaluator st)
  then show ?thesis
    using assms(4) by (intro run_handler_tidy [OF assms(1) _ evaluator_fine, of AEvaluator]) (auto simp: home_Receive_def Let_def)
qed

lemma home_Behave_tidy:
  assumes "in_order s" "leaves (home_Behave b a msg s) s'"
  shows "in_order s'"
proof (cases "actor (ent s a)")
  case (ASensor st)
  let ?h = "case b of TrainingBehavior \<Rightarrow> trainingBehavior (ctx_of (sensorID st) a s) msg st | SendingResultsBehavior \<Rightarrow> sendingResultsBehavior st"
  have "sends_fine ?h" by (cases b) (simp_all add: sensor_fine(2), simp add: sends_fine_def sendingResultsBehavior_def)
  then show ?thesis
    by (rule run_handler_tidy [OF assms(1), of ASensor _ a, rotated]) (use assms(2) ASensor in \<open>auto simp: home_Behave_def Let_def\<close>)
qed (use assms in \<open>auto simp: home_Behave_def\<close>)

interpretation home_traffic: message_contract home_ops ok_message good_actor ok_world
proof unfold_locales
  show "ok_message m" if "MsgType m \<in> {MsgStarted, MsgStopping, MsgRestarting, MsgActorFailed}" for m :: home_message
    using that by (intro ok_other) auto
  show "in_order (snd (OnPreStart home_ops e a s))" if "in_order s" for s e a
  proof (cases "a < length (heap s)")
    case True
    let ?x = "actor (ent s a)"
    let ?s1 = "reading (persister_of ?x) (set_actor a (pre_start (next_fault (world s)) (disk (world s)) ?x) s)"
    have "in_order ?s1" using that in_order_ent [OF that True] by (intro reading_tidy set_actor_tidy) (simp_all add: pre_start_good)
    then show ?thesis by (auto simp: home_OnPreStart_def Let_def add_tasks_tidy split: home_actor.split)
  next
    case False
    then have "set_actor a x s = s" for x by (simp add: set_actor_def upd_ent_def list_update_beyond)
    then show ?thesis using that by (auto simp: home_OnPreStart_def Let_def add_tasks_tidy reading_tidy split: home_actor.split)
  qed
  show "in_order s'" if "in_order s" "ok_message m" "a < length (heap s)" "leaves (Receive home_ops e a m s) s'" for s s' m e a
    using home_Receive_tidy [OF that(1-3)] that(4) by simp
  show "in_order s'" if "in_order s" "leaves (Behave home_ops b e a m s) s'" for s s' m e a b
    using home_Behave_tidy [OF that(1)] that(2) by simp
qed simp_all

subsection \<open>Steps\<close>

lemma drop_task_tidy: "in_order s \<Longrightarrow> in_order (drop_task k s)"
  by (simp add: drop_task_def tidy_def ok_world_def)

lemma simulateTraining_message: "simulateTraining e st p = Some (st', msg) \<Longrightarrow> MsgType msg = MsgTrainingComplete"
  by (auto simp: simulateTraining_def realTraining_def stubTraining_def Let_def mkMessage_def bind_eq_Some_conv split: if_splits)

lemma Tell_in_order: "in_order s \<Longrightarrow> MsgType m \<noteq> MsgModelUpdate \<Longrightarrow> Tell a m s = Done s' \<Longrightarrow> in_order s'"
  using Tell_tidy [of ok_message good_actor ok_world s m a s'] by (simp add: ok_other)

lemma home_step_tidy: "home_step s l s' \<Longrightarrow> own l \<Longrightarrow> in_order s \<Longrightarrow> in_order s'"
proof (induction rule: home_step.induct)
  case (sys s l s')
  have "home_traffic.label_ok l"
    using sys.prems(1) by (cases l) (auto simp: own_def home_traffic.label_ok_def ok_other elim: fresh.elims)
  then show ?case using sys home_traffic.step_tidy by blast
next
  case (train k s a p st e st' msg s')
  have "in_order (set_actor a (ASensor st') (drop_task k s))" using train.prems(2) by (intro set_actor_tidy drop_task_tidy) simp_all
  then show ?case by (rule Tell_in_order [OF _ _ train.hyps(6)]) (simp add: simulateTraining_message [OF train.hyps(5)])
next
  case (tick k s a d s')
  then show ?case by (intro Tell_in_order [OF tick.prems(2) _ tick.hyps(4)]) (simp add: mkMessage_def)
next
  case (delayed k s a d i f s')
  then show ?case by (intro Tell_in_order [OF drop_task_tidy [OF delayed.prems(2)] _ delayed.hyps(4)]) (simp add: mkMessage_def)
next
  case (ask a s e msg r s')
  have "in_order (s\<lparr>replies := replies s @ [[]]\<rparr>)" using ask.prems(2) by (rule tidy_same_entries) simp_all
  moreover have "Tell a (askMessage e (length (replies s)) msg) (s\<lparr>replies := replies s @ [[]]\<rparr>) = Done s'"
    using ask.hyps(2) by (auto simp: AskSend_def Let_def)
  moreover have "MsgType (askMessage e (length (replies s)) msg) \<noteq> MsgModelUpdate"
    using ask.prems(1) by (simp add: own_def askMessage_def)
  ultimately show ?case by (blast intro: Tell_in_order)
next
  case (draw s g)
  then show ?case by (simp add: tidy_def ok_world_def)
qed (simp_all add: own_def)

definition cluster_ok :: "cluster \<Rightarrow> bool" where
  "cluster_ok C \<longleftrightarrow> (\<forall>a s. mget C a = Some s \<longrightarrow> in_order s \<and> sys_inv home_ops s)"

lemma cluster_ok_mput: "cluster_ok C \<Longrightarrow> in_order s \<Longrightarrow> sys_inv home_ops s \<Longrightarrow> cluster_ok (mput a s C)"
  by (simp add: cluster_ok_def)

lemma carried_ok:
  assumes "in_order s" "sys_inv home_ops s" "set reqs \<subseteq> set (network (world s))"
  shows "in_order (carried reqs s)" "sys_inv home_ops (carried reqs s)"
  using assms(1,3) safe_call_inv [OF safe_call_world assms(2)] by (auto simp: carried_def tidy_def ok_world_def)

lemma server_Tell_tidy:
  assumes "in_order s" "ok_request req" "server_Tell init_registry req s = Done s'"
  shows "in_order s'"
proof (cases "Lookup (ActorId req) s")
  case (Inr b)
  then show ?thesis
    using assms by (intro Tell_tidy [OF assms(1), of "request_message init_registry req" b]) (simp_all add: server_Tell_def ok_request_def)
qed (use assms in \<open>simp add: server_Tell_def\<close>)

lemma cluster_step_ok: "cluster_step C l C' \<Longrightarrow> cluster_ok C \<Longrightarrow> cluster_ok C'"
proof (induction rule: cluster_step.induct)
  case (here C a s l s')
  then have "in_order s" "sys_inv home_ops s" by (simp_all add: cluster_ok_def)
  then show ?case using here home_step_tidy home_step_inv by (blast intro: cluster_ok_mput)
next
  case (deliver C a s before b req after C1 t t')
  have s: "in_order s" "sys_inv home_ops s" using deliver.hyps(1) deliver.prems by (simp_all add: cluster_ok_def)
  have req: "ok_request req" using s(1) deliver.hyps(2) by (simp add: tidy_def ok_world_def)
  have C1: "cluster_ok C1" unfolding deliver.hyps(3) using deliver.prems s deliver.hyps(2) by (intro cluster_ok_mput carried_ok) auto
  then have t: "in_order t" "sys_inv home_ops t" using deliver.hyps(4) by (simp_all add: cluster_ok_def)
  have "leaves (server_Tell init_registry req t) t'" using deliver.hyps(5) by simp
  then have "sys_inv home_ops t'" using t(2) by (blast intro: safe_call_inv server_Tell_safe)
  then show ?case using C1 server_Tell_tidy [OF t(1) req deliver.hyps(5)] by (intro cluster_ok_mput)
next
  case (lose C a s before b req after)
  have s: "in_order s" "sys_inv home_ops s" using lose.hyps(1) lose.prems by (simp_all add: cluster_ok_def)
  show ?case using lose.prems s lose.hyps(2) by (intro cluster_ok_mput carried_ok) auto
qed

lemma cluster_start_ok:
  assumes "\<And>a s. mget C a = Some s \<Longrightarrow> \<exists>w. s = NewActorSystem w \<and> network w = []"
  shows "cluster_ok C"
  unfolding cluster_ok_def
proof (intro allI impI)
  fix a s
  assume "mget C a = Some s"
  then obtain w where "s = NewActorSystem w" "network w = []" using assms by blast
  then show "in_order s \<and> sys_inv home_ops s" using home.NewActorSystem_inv [of w] by (simp add: tidy_def NewActorSystem_def ok_world_def)
qed

section \<open>Properties\<close>

text \<open>
  C5: no number that is not finite gets into the federated average. Several processes start with empty actor systems; their main goroutines spawn what they like and send what they like except for
  model updates; the actors run, crash and are restarted, train on whatever data, and exchange messages directly and over a network that reorders and loses requests. Then in every state of every
  run each update that a coordinator in any of the processes has collected has finite weights and a finite loss; and the registry of every process is exact.
\<close>

theorem only_finite_updates:
  assumes "lrun cluster_step C ls C'" "\<And>a s. mget C a = Some s \<Longrightarrow> \<exists>w. s = NewActorSystem w \<and> network w = []"
    and "mget C' a = Some s"
  shows "sys_inv home_ops s \<and> (\<forall>b<length (heap s). \<forall>st. actor (ent s b) = ACoordinator st \<longrightarrow>
    (\<forall>i p. mget (pendingUpdates st) i = Some p \<longrightarrow> list_all finite_f64 (elems (pWeights p)) \<and> finite_f64 (pLoss p)))"
proof -
  have "cluster_ok C'"
    by (rule lrun_inv [where I = cluster_ok, OF assms(1) cluster_start_ok]) (use assms(2) cluster_step_ok in blast)+
  then have s: "in_order s" "sys_inv home_ops s" using assms(3) by (simp_all add: cluster_ok_def)
  have "finite_update p" if "b < length (heap s)" "actor (ent s b) = ACoordinator st" "mget (pendingUpdates st) i = Some p" for b st i p
    using in_order_ent [OF s(1) that(1)] that(2) map_of_SomeD [OF that(3)] by force
  then show ?thesis using s(2) by (simp add: finite_update_def)
qed

text \<open>
  An example. A single process at the address \<open>c\<close> with a coordinator and a sensor that reaches it through the network; the sensor is told to train, and
  then that it has finished with weights and a loss that are NaNs. \<open>play\<close> executes a list of steps of the process.
\<close>

datatype play_step = PSpawn home_actor | PStart nat | PTell nat home_message | PReceive nat | PDeliver

definition play_env :: go_env where
  "play_env = \<lparr>now = 0, iter = (\<lambda>ks. ks)\<rparr>"

fun play1 :: "play_step \<Rightarrow> home \<Rightarrow> home outcome" where
  "play1 (PSpawn x) s = (case Spawn home_ops x DefaultSpawnOptions s of (Inr _, s') \<Rightarrow> if fresh x then Done s' else Blocked | _ \<Rightarrow> Blocked)"
| "play1 (PStart a) s = (if a < length (heap s) \<and> phase (ent s a) = Spawned then run_start home_ops play_env a s else Blocked)"
| "play1 (PTell a m) s = (if a < length (heap s) \<and> MsgType m \<noteq> MsgModelUpdate then Tell a m s else Blocked)"
| "play1 (PReceive a) s = (if a < length (heap s) \<and> phase (ent s a) = Running then run_receive home_ops play_env a s else Blocked)"
| "play1 PDeliver s = (case network (world s) of
     (b, req) # reqs \<Rightarrow> if b = ''c'' then server_Tell init_registry req (carried reqs s) else Blocked
   | [] \<Rightarrow> Blocked)"

fun play :: "play_step list \<Rightarrow> home \<Rightarrow> home option" where
  "play [] s = Some s"
| "play (x # xs) s = (case play1 x s of Done s' \<Rightarrow> play xs s' | _ \<Rightarrow> None)"

lemma play1_step:
  assumes "play1 x s = Done s'"
  shows "\<exists>l. cluster_step [(''c'', s)] l [(''c'', s')]"
proof -
  have own: "\<exists>l. cluster_step [(''c'', s)] l [(''c'', s')]" if "sys_step home_ops s k s'" "own (HSys k)" for k
    using cluster_step.here [of "[(''c'', s)]" "''c''" s "HSys k" s'] home_step.sys [OF that(1)] that(2) by auto
  have e: "env_ok play_env" by (simp add: play_env_def env_ok_def)
  show ?thesis
  proof (cases x)
    case (PSpawn y)
    then show ?thesis using assms own [of "LSpawn y"] by (auto simp: own_def split: prod.splits sum.splits if_splits intro: sys_step.spawn)
  next
    case (PStart a)
    then show ?thesis using assms e own [of "LStart a"] by (auto simp: own_def split: if_splits intro: sys_step.start)
  next
    case (PTell a m)
    then show ?thesis using assms own [of "LTell a m"] by (auto simp: own_def split: if_splits intro: sys_step.tell)
  next
    case (PReceive a)
    then show ?thesis using assms e own [of "LReceive a"] by (auto simp: own_def split: if_splits intro: sys_step.receive)
  next
    case PDeliver
    then obtain req reqs where r: "network (world s) = (''c'', req) # reqs" "server_Tell init_registry req (carried reqs s) = Done s'"
      using assms by (auto split: list.splits if_splits)
    show ?thesis
      using cluster_step.deliver [of "[(''c'', s)]" "''c''" s "[]" "''c''" req reqs _ "carried reqs s" s'] r by auto
  qed
qed

lemma play_run: "play xs s = Some s' \<Longrightarrow> \<exists>ls. lrun cluster_step [(''c'', s)] ls [(''c'', s')]"
proof (induction xs arbitrary: s)
  case Nil
  then show ?case by (auto intro: lrun.lrun_nil)
next
  case (Cons x xs)
  then obtain s1 where s1: "play1 x s = Done s1" "play xs s1 = Some s'" by (auto split: outcome.splits)
  obtain l where "cluster_step [(''c'', s)] l [(''c'', s1)]" using play1_step [OF s1(1)] by blast
  then show ?case using Cons.IH [OF s1(2)] by (blast intro: lrun_Cons)
qed

definition nan_script :: "play_step list" where
  "nan_script = [PSpawn (ACoordinator (NewCoordinatorActor ''coordinator'' ''logger'' ''device-ctrl'' 75)),
     PSpawn (ASensor (SetCoordinatorRef (RemoteRef ''coordinator'' ''c'') (NewSensorActor (\<lambda>_. 0) ''sensor-1'' ''kitchen'' ''coordinator'' []))),
     PStart 0, PStart 1, PTell 1 (mkMessage MsgStartTraining (Dyn (StartTrainingPayload 0 (SList []) 0 1)) ''''), PReceive 1, PReceive 1,
     PTell 1 (mkMessage MsgTrainingComplete (Dyn (TrainingCompletePayload (SList [FNaN]) FNaN 3)) ''''), PReceive 1, PDeliver, PReceive 0, PReceive 0]"

definition empty_world :: "sensor_factory world" where
  "empty_world = \<lparr>disk = [], io = [], tasks = [], network = [], rng = (\<lambda>_. 0)\<rparr>"

definition collected :: "home \<Rightarrow> (string \<times> f64 list \<times> f64) list" where
  "collected s = (case actor (ent s 0) of ACoordinator st \<Rightarrow> map (\<lambda>(i, p). (i, elems (pWeights p), pLoss p)) (pendingUpdates st) | _ \<Rightarrow> [])"

lemma nan_script_runs: "map_option (\<lambda>s. (length (heap s), collected s)) (play nan_script (NewActorSystem empty_world)) = Some (2, [(''sensor-1'', [0], 0)])"
  by code_simp

theorem only_finite_updates_witness:
  "\<exists>ls s st p. lrun cluster_step [(''c'', NewActorSystem empty_world)] ls [(''c'', s)] \<and> actor (ent s 0) = ACoordinator st \<and>
    pendingUpdates st = [(''sensor-1'', p)] \<and> list_all finite_f64 (elems (pWeights p)) \<and> finite_f64 (pLoss p)"
proof -
  obtain s where s: "play nan_script (NewActorSystem empty_world) = Some s" "length (heap s) = 2" "collected s = [(''sensor-1'', [0], 0)]"
    using nan_script_runs by auto
  obtain ls where run: "lrun cluster_step [(''c'', NewActorSystem empty_world)] ls [(''c'', s)]" using play_run [OF s(1)] by blast
  obtain st where st: "actor (ent s 0) = ACoordinator st" using s(3) by (auto simp: collected_def split: home_actor.splits)
  then obtain p where p: "pendingUpdates st = [(''sensor-1'', p)]" using s(3) by (auto simp: collected_def)
  have "\<exists>w. x = NewActorSystem w \<and> network w = []" if "mget [(''c'', NewActorSystem empty_world)] a = Some x" for a x
    using that by (intro exI [of _ empty_world]) (simp add: empty_world_def split: if_splits)
  then have "\<forall>b<length (heap s). \<forall>st. actor (ent s b) = ACoordinator st \<longrightarrow>
      (\<forall>i p. mget (pendingUpdates st) i = Some p \<longrightarrow> list_all finite_f64 (elems (pWeights p)) \<and> finite_f64 (pLoss p))"
    using only_finite_updates [OF run, of "''c''" s] by auto
  moreover have "0 < length (heap s)" "mget (pendingUpdates st) ''sensor-1'' = Some p" using s(2) p by simp_all
  ultimately have "list_all finite_f64 (elems (pWeights p)) \<and> finite_f64 (pLoss p)" using st by blast
  then show ?thesis using run st p by blast
qed

end
