(* ===== verification/Sites.thy ===== *)
theory Sites
  imports RoundParts Cluster
begin

text \<open>
  A round whose sensors run in processes of their own, seen from one process: what the process of a sensor goes through (\<open>leg\<close>), and what the process of the
  coordinator goes through, with the requests that each has put on the network.
\<close>

section \<open>Messages on the network\<close>

text \<open>What arrives of a message that is sent through a remote reference.\<close>

definition arrives :: "home_message \<Rightarrow> home_message" where
  "arrives m = request_message init_registry (marshalTell '''' m)"

lemma request_message_arrives: "request_message init_registry (marshalTell i m) = arrives m"
  by (simp add: arrives_def request_message_def marshalTell_def)

lemma marshalTell_to: "ActorId (marshalTell i m) = i"
  by (simp add: marshalTell_def)

lemma arrives_payload:
  assumes "json_safe p"
  shows "arrives (Message mt (Dyn p) from time) = Message mt (Dyn p) from (wrap64 time)"
  using decode_registered [OF assms] by (simp add: arrives_def request_message_def marshalTell_def)

lemma arrives_type [simp]: "MsgType (arrives m) = MsgType m"
  by (simp add: arrives_def request_message_def marshalTell_def)

text \<open>A payload that JSON cannot encode arrives empty.\<close>

lemma arrives_nil:
  assumes "marshal_payload p = None"
  shows "Payload (arrives (Message mt (Dyn p) from time)) = NilAny"
  using assms by (simp add: arrives_def request_message_def marshalTell_def decodePayload_def)

section \<open>The process of a sensor\<close>

datatype leg = Requested | Asked | InTraining | Trained | Sending | Reported | Informed | Updated | Missed | Unheard

text \<open>
  On the last two legs the request to the sensor is lost, or its update. The process of the sensor \<open>x\<close>: one actor, nothing else registered. \<open>A0\<close> is the address of the coordinator's process, \<open>gm\<close> the message with the new weights.
\<close>

definition site :: "string \<Rightarrow> home_actor \<times> behavior list \<times> home_message list \<Rightarrow> (string \<times> TellRequest) list \<Rightarrow> (nat \<times> sensor_factory task) list \<Rightarrow> home \<Rightarrow> bool" where
  "site i v net go s \<longleftrightarrow> (\<exists>c. models 1 [(i, 0)] s c \<and> view c 0 = v \<and> network (world s) = net \<and> filter is_training (cgo c) = go)"

definition start_msg :: "sensor_factory CoordinatorActor \<Rightarrow> home_message" where
  "start_msg st = mkMessage MsgStartTraining (Dyn (request st)) (coordID st)"

text \<open>The sensor after the broadcast of the new weights: it takes them if they arrived.\<close>

definition renewed :: "sensor_factory CoordinatorActor \<Rightarrow> home_message \<Rightarrow> SensorActor \<Rightarrow> SensorActor" where
  "renewed st gm x = (hstate (handleGlobalModelUpdate (arrives gm) (reported_state st x) :: (SensorActor, sensor_factory) hres))"

fun leg_view :: "sensor_factory CoordinatorActor \<Rightarrow> home_message \<Rightarrow> SensorActor \<Rightarrow> leg \<Rightarrow> home_actor \<times> behavior list \<times> home_message list" where
  "leg_view st gm x Requested = (ASensor x, [], [])"
| "leg_view st gm x Asked = (ASensor x, [], [arrives (start_msg st)])"
| "leg_view st gm x InTraining = (ASensor (in_training st x), [TrainingBehavior], [])"
| "leg_view st gm x Trained = (ASensor (fst (result st x)), [TrainingBehavior], [snd (result st x)])"
| "leg_view st gm x Sending = (ASensor (reported_state st x), [], [])"
| "leg_view st gm x Reported = (ASensor (reported_state st x), [], [])"
| "leg_view st gm x Informed = (ASensor (reported_state st x), [], [arrives gm])"
| "leg_view st gm x Updated = (ASensor (renewed st gm x), [], [])"
| "leg_view st gm x Missed = (ASensor x, [], [])"
| "leg_view st gm x Unheard = (ASensor (reported_state st x), [], [])"

definition leg_net :: "sensor_factory CoordinatorActor \<Rightarrow> string \<Rightarrow> SensorActor \<Rightarrow> leg \<Rightarrow> (string \<times> TellRequest) list" where
  "leg_net st A0 x g = (if g = Sending then [(A0, marshalTell (coordID st) (update_msg st x))] else [])"

definition leg_go :: "sensor_factory CoordinatorActor \<Rightarrow> leg \<Rightarrow> (nat \<times> sensor_factory task) list" where
  "leg_go st g = (if g = InTraining then [(0, SimulateTraining (request st))] else [])"

definition at_leg :: "sensor_factory CoordinatorActor \<Rightarrow> string \<Rightarrow> home_message \<Rightarrow> SensorActor \<Rightarrow> leg \<Rightarrow> home \<Rightarrow> bool" where
  "at_leg st A0 gm x g s \<longleftrightarrow> site (sensorID x) (leg_view st gm x g) (leg_net st A0 x g) (leg_go st g) s"

lemmas leg_simps = at_leg_def leg_net_def leg_go_def

fun leg_work :: "leg \<Rightarrow> nat" where
  "leg_work Requested = 8"
| "leg_work Asked = 7"
| "leg_work InTraining = 6"
| "leg_work Trained = 5"
| "leg_work Sending = 4"
| "leg_work Reported = 2"
| "leg_work Informed = 1"
| "leg_work _ = 0"

text \<open>The legs that the process moves on by itself.\<close>

fun next_leg :: "leg \<Rightarrow> leg option" where
  "next_leg Asked = Some InTraining"
| "next_leg InTraining = Some Trained"
| "next_leg Trained = Some Sending"
| "next_leg Informed = Some Updated"
| "next_leg _ = None"

text \<open>A sensor that is fit for the round and knows the coordinator at \<open>A0\<close>.\<close>

definition remote_fit :: "sensor_factory CoordinatorActor \<Rightarrow> string \<Rightarrow> SensorActor \<Rightarrow> bool" where
  "remote_fit st A0 x \<longleftrightarrow> sensor_fit st x \<and> coordinatorRef x = Some (RemoteRef (coordID st) A0)"

lemma env_ok_any: "env_ok \<lparr>now = 0, iter = (\<lambda>ks. ks)\<rparr>"
  by (simp add: env_ok_def)

lemma siteD:
  assumes "site i v net go s"
  obtains c where "models 1 [(i, 0)] s c" "view c 0 = v" "network (world s) = net" "filter is_training (cgo c) = go"
  using assms unfolding site_def by (elim exE conjE) (rule that)

lemma siteI: "models 1 [(i, 0)] s c \<Longrightarrow> view c 0 = v \<Longrightarrow> network (world s) = net \<Longrightarrow> filter is_training (cgo c) = go \<Longrightarrow> site i v net go s"
  unfolding site_def by blast

text \<open>A pump changes nothing that is seen of the process.\<close>

lemma site_pump:
  assumes "site i v net go s" "pump_step (mbox (ent s 0)) mb"
  shows "site i v net go (upd_ent 0 (\<lambda>en. en\<lparr>mbox := mb\<rparr>) s)" "pumping (upd_ent 0 (\<lambda>en. en\<lparr>mbox := mb\<rparr>) s) < pumping s"
proof -
  obtain c where c: "models 1 [(i, 0)] s c" "view c 0 = v" "network (world s) = net" "filter is_training (cgo c) = go" by (rule siteD [OF assms(1)])
  show "site i v net go (upd_ent 0 (\<lambda>en. en\<lparr>mbox := mb\<rparr>) s)" using models_pump(1) [OF c(1) _ assms(2)] c(2-4) by (intro siteI) simp_all
  show "pumping (upd_ent 0 (\<lambda>en. en\<lparr>mbox := mb\<rparr>) s) < pumping s" using models_pump(2) [OF c(1) _ assms(2)] by simp
qed

text \<open>A turn of the actor, when one message waits for it.\<close>

lemma site_turn:
  assumes S: "site i (x, stk, [m]) net go s" and rc: "receive (mbox (ent s 0)) = Received m' mb" and "MsgType m \<noteq> MsgStopping"
    and t: "turn (rng (world s)) e [(i, 0)] m x stk = Some (y, effs)" and "list_all (local_eff 1) effs" "\<And>b. inbox b (sent effs) = []"
  shows "\<exists>s'. run_receive home_ops e 0 s = Done s' \<and> site i (y, stack_after effs stk, []) (net @ outbox (sent effs)) (go @ filter is_training (map (Pair 0) (goes effs))) s'"
proof -
  obtain c where c: "models 1 [(i, 0)] s c" "view c 0 = (x, stk, [m])" "network (world s) = net" "filter is_training (cgo c) = go" by (rule siteD [OF S])
  note v = viewD [OF c(2)]
  have m: "m' = m" using models_popped(2) [OF c(1) _ rc] v by simp
  have t': "turn (rng (world s)) e [(i, 0)] m' (cact c 0) (cstk c 0) = Some (y, effs)" using t v m by simp
  have room: "\<forall>b<1. length (cq (popped 0 c) b @ inbox b (sent effs)) \<le> DefaultMailboxSize"
    using v assms(6) by (simp add: popped_def DefaultMailboxSize_def)
  from models_turn [OF c(1) _ rc _ t' assms(5) room] assms(3) m obtain s' where s': "run_receive home_ops e 0 s = Done s'"
      "models 1 [(i, 0)] s' (after_effs 0 effs (with_actor 0 y (popped 0 c)))" "network (world s') = network (world s) @ outbox (sent effs)" by auto
  have "site i (y, stack_after effs stk, []) (net @ outbox (sent effs)) (go @ filter is_training (map (Pair 0) (goes effs))) s'"
    by (rule siteI [OF s'(2)]) (use v assms(6) s'(3) c(3,4) in \<open>simp_all add: view_after cgo_after\<close>)
  with s'(1) show ?thesis by blast
qed

subsection \<open>Turns and training\<close>

lemma turn_renewed:
  assumes "MsgType gm = MsgGlobalModelUpdate"
  shows "turn r e reg (arrives gm) (ASensor (reported_state st x)) [] = Some (ASensor (renewed st gm x), [])"
proof -
  have "handleGlobalModelUpdate (arrives gm) (reported_state st x) = (HRes (renewed st gm x) [] None :: (SensorActor, sensor_factory) hres)"
    by (simp add: renewed_def handleGlobalModelUpdate_def split: option.split)
  then show ?thesis using assms by (simp add: turn_def sensor_handle_def handler_for_def sensor_Receive_def)
qed

lemma turn_start:
  assumes "json_safe (request st)"
  shows "turn r e reg (arrives (start_msg st)) (ASensor x) [] = Some (ASensor (in_training st x), [EBecome TrainingBehavior, EGo (SimulateTraining (request st))])"
  unfolding start_msg_def mkMessage_def arrives_payload [OF assms] by (rule turn_asked)

lemma leg_turn:
  assumes fit: "remote_fit st A0 x" and js: "json_safe (request st)" and gm: "MsgType gm = MsgGlobalModelUpdate"
    and L: "at_leg st A0 gm x g s" and rc: "receive (mbox (ent s 0)) = Received m mb"
  shows "\<exists>g' s'. next_leg g = Some g' \<and> run_receive home_ops e 0 s = Done s' \<and> at_leg st A0 gm x g' s'"
proof -
  have f: "sensor_fit st x" "\<And>reg. home_ref reg x = Some (RemoteRef (coordID st) A0)" using fit by (simp_all add: remote_fit_def home_ref_def)
  have empty: False if e: "site i (y, stk, []) net go s" for i y stk net go
  proof -
    obtain c where c: "models 1 [(i, 0)] s c" "view c 0 = (y, stk, [])" by (rule siteD [OF e])
    then show False using models_popped(2) [OF c(1) _ rc] viewD [OF c(2)] by simp
  qed
  show ?thesis
  proof (cases g)
    case Asked
    then have "site (sensorID x) (ASensor x, [], [arrives (start_msg st)]) [] [] s" using L by (simp add: leg_simps)
    from site_turn [OF this rc _ turn_start [OF js], where e = e] show ?thesis
      using Asked by (auto simp: leg_simps start_msg_def mkMessage_def Become_def is_training_def)
  next
    case Trained
    then have S: "site (sensorID x) (ASensor (fst (result st x)), [TrainingBehavior], [snd (result st x)]) [] [] s" using L by (simp add: leg_simps)
    have ty: "MsgType (snd (result st x)) \<noteq> MsgStopping" using result_returns [OF f(1)] by (auto simp: mkMessage_def)
    obtain effs where t: "turn (rng (world s)) e [(sensorID x, 0)] (snd (result st x)) (ASensor (fst (result st x))) [TrainingBehavior] = Some (ASensor (reported_state st x), effs)"
        "sent effs = [(RemoteRef (coordID st) A0, update_msg st x)]" "stack_after effs [TrainingBehavior] = []" "goes effs = []" "list_all (local_eff 1) effs"
      using turn_trained [OF f(1,2), of 1] by blast
    from site_turn [OF S rc ty t(1,5)] t(2-4) Trained show ?thesis by (auto simp: leg_simps)
  next
    case Informed
    then have "site (sensorID x) (ASensor (reported_state st x), [], [arrives gm]) [] [] s" using L by (simp add: leg_simps)
    from site_turn [OF this rc _ turn_renewed [OF gm], where e = e] gm show ?thesis using Informed by (auto simp: leg_simps)
  qed (use L in \<open>auto simp: leg_simps dest: empty\<close>)
qed

lemma leg_train:
  assumes fit: "sensor_fit st x" and L: "at_leg st A0 gm x g s" and k: "k < length (tasks (world s))" "tasks (world s) ! k = (a, SimulateTraining p)"
  shows "g = InTraining \<and> a = 0 \<and> p = request st \<and> actor (ent s 0) = ASensor (in_training st x) \<and>
    (\<forall>e. simulateTraining e (in_training st x) p = Some (result st x)) \<and>
    (\<exists>s'. Tell 0 (snd (result st x)) (set_actor 0 (ASensor (fst (result st x))) (drop_task k s)) = Done s' \<and> at_leg st A0 gm x Trained s')"
proof -
  obtain c where c: "models 1 [(sensorID x, 0)] s c" "view c 0 = leg_view st gm x g" "network (world s) = leg_net st A0 x g"
      "filter is_training (cgo c) = leg_go st g" using L unfolding at_leg_def by (rule siteD)
  note kc = k [unfolded modelsD(3) [OF c(1)]]
  have tr: "is_training (cgo c ! k)" using kc(2) by (simp add: is_training_def)
  have "cgo c ! k \<in> set (filter is_training (cgo c))" using kc(1) tr by simp
  then have gk: "cgo c ! k \<in> set (leg_go st g)" using c(4) by simp
  then have g: "g = InTraining" by (cases "g = InTraining") (simp_all add: leg_go_def)
  then have v: "view c 0 = (ASensor (in_training st x), [TrainingBehavior], [])" "network (world s) = []" "leg_go st g = [(0, SimulateTraining (request st))]"
    using c(2,3) by (simp_all add: leg_simps)
  have a: "a = 0" "p = request st" using gk kc(2) v(3) by simp_all
  let ?c1 = "with_actor 0 (ASensor (fst (result st x))) (c\<lparr>cgo := take k (cgo c) @ drop (Suc k) (cgo c)\<rparr>)"
  have m1: "models 1 [(sensorID x, 0)] (set_actor 0 (ASensor (fst (result st x))) (drop_task k s)) ?c1"
    unfolding set_actor_def by (rule models_with_actor [OF models_drop_task [OF c(1)]])
  note w = viewD [OF v(1)]
  have "length (cq ?c1 0) < DefaultMailboxSize" using w by (simp add: with_actor_def DefaultMailboxSize_def)
  then obtain s' where s': "Tell 0 (snd (result st x)) (set_actor 0 (ASensor (fst (result st x))) (drop_task k s)) = Done s'"
      "models 1 [(sensorID x, 0)] s' (?c1\<lparr>cq := (cq ?c1)(0 := cq ?c1 0 @ [snd (result st x)])\<rparr>)" "world s' = world (set_actor 0 (ASensor (fst (result st x))) (drop_task k s))"
    using models_Tell [OF m1] by fastforce
  have "mset (filter is_training (take k (cgo c) @ drop (Suc k) (cgo c))) = {#}" using drop_task_mset [OF kc(1), of is_training] tr c(4) v(3) by simp
  then have "filter is_training (take k (cgo c) @ drop (Suc k) (cgo c)) = []" by (simp only: mset_zero_iff)
  then have "at_leg st A0 gm x Trained s'"
    unfolding at_leg_def using s'(2,3) w v(2) by (intro siteI [OF s'(2)]) (simp_all add: leg_simps view_def with_actor_def set_actor_def drop_task_def)
  moreover have "actor (ent s 0) = ASensor (in_training st x)" using modelsD(5) [OF c(1)] w by simp
  ultimately show ?thesis using s'(1) a g simulateTraining_result [OF fit] by blast
qed

text \<open>A step of the process: a pump, or the next leg; and as long as there is a next leg, there is a step.\<close>

lemma leg_step:
  assumes fit: "remote_fit st A0 x" and js: "json_safe (request st)" and gm: "MsgType gm = MsgGlobalModelUpdate"
    and L: "at_leg st A0 gm x g s" and step: "round_step s s'"
  shows "at_leg st A0 gm x g s' \<and> pumping s' < pumping s \<or> (\<exists>g'. next_leg g = Some g' \<and> at_leg st A0 gm x g' s')"
proof -
  note S = L [unfolded at_leg_def]
  obtain c where c: "models 1 [(sensorID x, 0)] s c" by (rule siteD [OF S])
  from c step show ?thesis
  proof (cases rule: round_step_cases)
    case (turn a m mb e)
    then show ?thesis using leg_turn [OF fit js gm L, of m mb e] by auto
  next
    case (pump a mb)
    then have "pump_step (mbox (ent s 0)) mb" "s' = upd_ent 0 (\<lambda>en. en\<lparr>mbox := mb\<rparr>) s" by simp_all
    then show ?thesis using site_pump [OF S] by (simp add: at_leg_def)
  next
    case (training k a p x' e x'' msg)
    then show ?thesis using leg_train [OF _ L training(1,2)] fit by (auto simp: remote_fit_def)
  qed
qed

lemma leg_possible:
  assumes fit: "remote_fit st A0 x" and js: "json_safe (request st)" and gm: "MsgType gm = MsgGlobalModelUpdate"
    and L: "at_leg st A0 gm x g s" and n: "next_leg g = Some g'"
  shows "\<exists>s'. round_step s s'"
proof -
  have f: "sensor_fit st x" using fit by (simp add: remote_fit_def)
  obtain c where c: "models 1 [(sensorID x, 0)] s c" "view c 0 = leg_view st gm x g" "filter is_training (cgo c) = leg_go st g"
    using L unfolding at_leg_def by (rule siteD)
  show ?thesis
  proof (cases "g = InTraining")
    case True
    then have "(0, SimulateTraining (request st)) \<in> set (filter is_training (cgo c))" using c(3) by (simp add: leg_go_def)
    then obtain k where k: "k < length (tasks (world s))" "tasks (world s) ! k = (0, SimulateTraining (request st))"
      using modelsD(3) [OF c(1)] by (auto simp: in_set_conv_nth)
    from leg_train [OF f L this] obtain s' where "actor (ent s 0) = ASensor (in_training st x)" "\<forall>e. simulateTraining e (in_training st x) (request st) = Some (result st x)"
        "Tell 0 (snd (result st x)) (set_actor 0 (ASensor (fst (result st x))) (drop_task k s)) = Done s'" by blast
    then show ?thesis using training_possible [OF c(1) k, of "in_training st x" undefined "fst (result st x)" "snd (result st x)"] by auto
  next
    case False
    then have "cq c 0 \<noteq> []" using n c(2) by (cases g) (simp_all add: view_def)
    then show ?thesis
      using waiting_possible [OF c(1), of 0] leg_turn [OF fit js gm L] turn_possible [OF c(1), of 0] env_ok_any by fastforce
  qed
qed

section \<open>The process of the coordinator\<close>

text \<open>
  What the round starts from: coordinator, logger and device controller run at \<open>ca\<close>, \<open>l\<close> and \<open>d\<close>, the sensor \<open>i\<close> is known at the address \<open>adr i\<close>, and the message that starts
  the round is the only one that waits.
\<close>

definition desk :: "nat \<Rightarrow> (ActorID, nat) gomap \<Rightarrow> nat \<Rightarrow> nat \<Rightarrow> nat \<Rightarrow> sensor_factory CoordinatorActor \<Rightarrow> (string \<Rightarrow> SensorActor) \<Rightarrow> (string \<Rightarrow> string) \<Rightarrow> config \<Rightarrow> bool" where
  "desk n reg ca l d st X adr c \<longleftrightarrow>
    view c ca = (ACoordinator st, [], [mkMessage MsgStartRound (Dyn StartRoundPayload) '''']) \<and> ca < n \<and> mget reg (coordID st) = Some ca \<and>
    crew st X \<and> length (sensors st) \<le> DefaultMailboxSize \<and> (\<forall>i\<in>set (keys (sensors st)). mget (sensorRemoteRefs st) i = Some (RemoteRef i (adr i))) \<and>
    json_safe (request st) \<and> office reg l d st \<and> l < n \<and> (\<exists>lg. cact c l = ALogger lg) \<and> cstk c l = [] \<and> d < n \<and> (\<exists>dv. cact c d = ADevice dv) \<and> cstk c d = [] \<and>
    (\<forall>a<n. a \<noteq> ca \<longrightarrow> cq c a = []) \<and> filter is_training (cgo c) = []"

text \<open>A request for each sensor in \<open>R\<close> is on the network.\<close>

definition posted :: "(string \<Rightarrow> string) \<Rightarrow> home_message \<Rightarrow> string \<Rightarrow> string \<times> TellRequest" where
  "posted adr m i = (adr i, marshalTell i m)"

definition mail :: "(string \<Rightarrow> string) \<Rightarrow> home_message \<Rightarrow> string set \<Rightarrow> home \<Rightarrow> bool" where
  "mail adr m R s \<longleftrightarrow> finite R \<and> mset (network (world s)) = image_mset (posted adr m) (mset_set R)"

text \<open>Collecting, as in \<open>Round\<close>: \<open>gi\<close> are the sensors whose update is filed, \<open>qi\<close> those whose update waits.\<close>

definition gathering :: "nat \<Rightarrow> (ActorID, nat) gomap \<Rightarrow> nat \<Rightarrow> sensor_factory CoordinatorActor \<Rightarrow> (string \<Rightarrow> SensorActor) \<Rightarrow> config \<Rightarrow>
    int \<Rightarrow> string list \<Rightarrow> string list \<Rightarrow> config \<Rightarrow> bool" where
  "gathering n reg ca st X c0 t gi qi c \<longleftrightarrow>
    view c ca = (ACoordinator ((started st t)\<lparr>pendingUpdates := filed (map (\<lambda>i. update_of st (X i)) gi)\<rparr>), [], map (\<lambda>i. arrives (update_msg st (X i))) qi) \<and>
    (\<forall>a<n. a \<noteq> ca \<longrightarrow> view c a = view c0 a) \<and> filter is_training (cgo c) = []"

text \<open>The round is finished here: the coordinator has the new weights, logger and device controller close the round.\<close>

definition wrapped :: "nat \<Rightarrow> (ActorID, nat) gomap \<Rightarrow> nat \<Rightarrow> nat \<Rightarrow> nat \<Rightarrow> sensor_factory CoordinatorActor \<Rightarrow> (string \<Rightarrow> SensorActor) \<Rightarrow> config \<Rightarrow>
    sensor_factory payload list \<Rightarrow> f64 list \<Rightarrow> int \<Rightarrow> config \<Rightarrow> bool" where
  "wrapped n reg ca l d st X c0 us agg ms c \<longleftrightarrow>
    mset us = mset (map (\<lambda>i. update_of st (X i)) (keys (sensors st))) \<and> averages us agg \<and> length agg = length (elems (globalWeights st)) \<and>
    (\<exists>t gi. view c ca = (ACoordinator ((started st t)\<lparr>pendingUpdates := filed (map (\<lambda>i. update_of st (X i)) gi), globalWeights := SList agg\<rparr>), [], [])) \<and>
    closing l d c0 (report st us ms) agg c \<and> (\<forall>a<n. a \<noteq> l \<longrightarrow> a \<noteq> d \<longrightarrow> cq c a = []) \<and> filter is_training (cgo c) = []"

lemma deskD:
  assumes "desk n reg ca l d st X adr c"
  shows "cact c ca = ACoordinator st" "cstk c ca = []" "cq c ca = [mkMessage MsgStartRound (Dyn StartRoundPayload) '''']" "ca < n" "mget reg (coordID st) = Some ca"
    "crew st X" "length (sensors st) \<le> DefaultMailboxSize" "i \<in> set (keys (sensors st)) \<Longrightarrow> mget (sensorRemoteRefs st) i = Some (RemoteRef i (adr i))"
    "json_safe (request st)" "office reg l d st" "l < n" "\<exists>lg. cact c l = ALogger lg" "cstk c l = []" "d < n" "\<exists>dv. cact c d = ADevice dv" "cstk c d = []"
    "a < n \<Longrightarrow> a \<noteq> ca \<Longrightarrow> cq c a = []" "filter is_training (cgo c) = []" "ca \<noteq> l" "ca \<noteq> d" "l \<noteq> d"
  using assms unfolding desk_def view_def by (simp_all del: set_map) auto

lemma models_carried: "models n reg s c \<Longrightarrow> models n reg (carried reqs s) c"
  by (simp add: models_def carried_def)

lemma carried_simps [simp]: "network (world (carried reqs s)) = reqs" "pumping (carried reqs s) = pumping s"
  by (simp_all add: carried_def pumping_def)

lemma mail_taken:
  assumes "mail adr m R s" "network (world s) = before @ (b, req) # after"
  shows "\<exists>i\<in>R. b = adr i \<and> req = marshalTell i m \<and> mail adr m (R - {i}) (carried (before @ after) s)"
proof -
  have f: "finite R" "mset (network (world s)) = image_mset (posted adr m) (mset_set R)" using assms(1) by (simp_all add: mail_def)
  have "(b, req) \<in># mset (network (world s))" unfolding assms(2) by simp
  then obtain i where i: "i \<in> R" "(b, req) = posted adr m i" using f by auto
  have "mset_set R = add_mset i (mset_set (R - {i}))" using mset_set.remove [OF f(1) i(1)] .
  then have "mset (before @ after) = image_mset (posted adr m) (mset_set (R - {i}))" using f(2) i(2) unfolding assms(2) by simp
  then show ?thesis using f(1) i by (auto simp: mail_def posted_def)
qed

lemma mail_empty: "mail adr m {} s \<longleftrightarrow> network (world s) = []"
  by (simp add: mail_def)

lemma mail_waits:
  assumes "mail adr m R s" "i \<in> R"
  shows "\<exists>before after. network (world s) = before @ (adr i, marshalTell i m) # after"
proof -
  have "posted adr m i \<in># mset (network (world s))" using assms by (simp add: mail_def)
  then show ?thesis unfolding posted_def set_mset_mset by (rule split_list)
qed

lemma mail_same: "network (world s') = network (world s) \<Longrightarrow> mail adr m R s' = mail adr m R s"
  by (simp add: mail_def)

subsection \<open>Broadcasts\<close>

lemma addressed_remote:
  assumes "\<forall>i\<in>set is. mget (sensorRemoteRefs st) i = Some (RemoteRef i (adr i))"
  shows "addressed x st m is = map (\<lambda>i. (RemoteRef i (adr i), m)) is"
  using assms by (induction "is") (simp_all add: addressed_def List.map_filter_simps lookupRef_def)

lemma remote_boxes: "inbox a (map (\<lambda>i. (RemoteRef i (adr i), m)) is) = []" "outbox (map (\<lambda>i. (RemoteRef i (adr i), m)) is) = map (posted adr m) is"
  by (induction "is") (simp_all add: posted_def)

lemma mail_broadcast:
  assumes "distinct ids" "env_ok e" "network (world s) = map (posted adr m) (iter e ids)"
  shows "mail adr m (set ids) s"
proof -
  have "mset (iter e ids) = mset_set (set ids)" using assms(1,2) mset_set_set [OF assms(1)] by (simp add: env_ok_def)
  then show ?thesis using assms(3) by (simp add: mail_def)
qed

subsection \<open>Turns\<close>

text \<open>One turn of the coordinator, which sends nothing to itself.\<close>

lemma desk_turn:
  assumes D: "desk n reg ca l d st X adr c0" and M: "models n reg s c0" and net: "network (world s) = []"
    and rc: "receive (mbox (ent s ca)) = Received m mb" and e: "env_ok e"
  shows "\<exists>s' c. run_receive home_ops e ca s = Done s' \<and> models n reg s' c \<and> gathering n reg ca st X c0 (now e) [] [] c \<and>
    mail adr (start_msg st) (set (keys (sensors st))) s'"
proof -
  note b = deskD [OF D]
  have m: "m = mkMessage MsgStartRound (Dyn StartRoundPayload) ''''" using models_popped(2) [OF M b(4) rc] b(3) by simp
  let ?x = "turn_ctx reg m (ACoordinator st)" and ?st = "started st (now e)" and ?ids = "iter e (keys (sensors st))"
  let ?effs = "tell_sensors ?x ?st (start_msg st) ?ids"
  have "handleStartRound e ?x st = HRes ?st ?effs None"
    by (simp add: handleStartRound_def Let_def started_def next_round_def request_def turn_ctx_def tell_sensors_def start_msg_def)
  then have t: "turn (rng (world s)) e reg m (cact c0 ca) (cstk c0 ca) = Some (ACoordinator ?st, ?effs)"
    using b(1,2) m by (simp add: turn_def coord_Receive_def mkMessage_def)
  have "addressed ?x ?st (start_msg st) ?ids = map (\<lambda>i. (RemoteRef i (adr i), start_msg st)) ?ids"
    using b(8) e by (intro addressed_remote) (simp add: started_def del: set_map)
  then have sent: "sent ?effs = map (\<lambda>i. (RemoteRef i (adr i), start_msg st)) ?ids" by simp
  have lc: "list_all (local_eff n) ?effs" by (rule plain_local [OF plain_tell_sensors], unfold sent) auto
  have pq: "cq (popped ca c0) a = []" if "a < n" for a using that b(3,17) by (cases "a = ca") (simp_all add: popped_def)
  have room: "\<forall>a<n. length (cq (popped ca c0) a @ inbox a (sent ?effs)) \<le> DefaultMailboxSize"
    unfolding sent remote_boxes using pq by (simp add: DefaultMailboxSize_def)
  let ?c = "after_effs ca ?effs (with_actor ca (ACoordinator ?st) (popped ca c0))"
  have "MsgType m \<noteq> MsgStopping" using m by (simp add: mkMessage_def)
  from models_turn [OF M b(4) rc this t lc room] obtain s' where s': "run_receive home_ops e ca s = Done s'" "models n reg s' ?c"
      "network (world s') = network (world s) @ outbox (sent ?effs)" by blast
  have "view ?c ca = (ACoordinator ((started st (now e))\<lparr>pendingUpdates := filed (map (\<lambda>i. update_of st (X i)) [])\<rparr>), [], map (\<lambda>i. arrives (update_msg st (X i))) [])"
    unfolding view_after sent remote_boxes using b(2,3) plain_effs(1) [OF plain_tell_sensors] by (simp add: started_def)
  moreover have "view ?c a = view c0 a" if "a \<noteq> ca" for a unfolding view_after sent remote_boxes using that by (simp add: view_def)
  ultimately have "gathering n reg ca st X c0 (now e) [] [] ?c"
    unfolding gathering_def cgo_after using b(18) by (simp add: plain_effs(2) [OF plain_tell_sensors])
  moreover have "mail adr (start_msg st) (set (keys (sensors st))) s'"
    using s'(3) crewD(2) [OF b(6)] net by (intro mail_broadcast [OF _ e]) (simp_all only: sent remote_boxes append_Nil)
  ultimately show ?thesis using s'(1,2) by blast
qed

lemma gatheringD:
  assumes "gathering n reg ca st X c0 t gi qi c"
  shows "cact c ca = ACoordinator ((started st t)\<lparr>pendingUpdates := filed (map (\<lambda>i. update_of st (X i)) gi)\<rparr>)" "cstk c ca = []"
    "cq c ca = map (\<lambda>i. arrives (update_msg st (X i))) qi" "a < n \<Longrightarrow> a \<noteq> ca \<Longrightarrow> view c a = view c0 a" "filter is_training (cgo c) = []"
  using assms unfolding gathering_def view_def by auto

text \<open>The updates arrive as they are sent.\<close>

lemma update_arrives:
  assumes "crew st X" "i \<in> set (keys (sensors st))"
  shows "carries (arrives (update_msg st (X i))) (update_of st (X i))"
proof -
  note c = crewD [OF assms(1)]
  have x: "sensor_fit st (X i)" using c(4) assms(2) .
  have "int (length (trainData (X i))) \<le> (\<Sum>i\<leftarrow>keys (sensors st). int (length (trainData (X i))))"
    using assms(2) by (intro member_le_sum_list) auto
  then have "in_int64 (pNumSamples (update_of st (X i)))" using update_shape(1) [OF x] c(5) by (simp add: in_int64_def)
  then have "json_safe (update_of st (X i))"
    using finite_sanitised sanitise_finite
    by (simp add: json_safe_def update_of_def next_round_def sanitise_weights_def list_all_length)
  then show ?thesis
    by (simp add: update_msg_def mkMessage_def arrives_payload carries_def castPayload_def) (simp add: update_of_def)
qed

lemma gathering_quiet:
  assumes D: "desk n reg ca l d st X adr c0" and G: "gathering n reg ca st X c0 t gi qi c" and "a < n"
  shows "length (cq c a) \<le> (if a = ca then length qi else 0)"
  using gatheringD [OF G] deskD(17) [OF D assms(3)] assms(3) by (cases "a = ca") (simp_all add: view_def)

lemma gathering_turn:
  assumes D: "desk n reg ca l d st X adr c0" and M: "models n reg s c" and G: "gathering n reg ca st X c0 t gi (i # qi) c"
    and ids: "set (gi @ [i]) \<subseteq> set (keys (sensors st))" "i \<notin> set gi" "length qi < DefaultMailboxSize"
    and rc: "receive (mbox (ent s ca)) = Received m mb" and more: "length (gi @ [i]) < length (sensors st)"
  shows "\<exists>s' c'. run_receive home_ops e ca s = Done s' \<and> models n reg s' c' \<and> gathering n reg ca st X c0 t (gi @ [i]) qi c' \<and>
    network (world s') = network (world s)"
proof -
  note b = deskD [OF D] and v = gatheringD [OF G]
  let ?st1 = "(started st t)\<lparr>pendingUpdates := filed (map (\<lambda>i. update_of st (X i)) (gi @ [i]))\<rparr>"
  have i: "i \<in> set (keys (sensors st))" using ids(1) by simp
  have m: "m = arrives (update_msg st (X i))" using models_popped(2) [OF M b(4) rc] v(3) by simp
  have sid: "sensorID (X j) = j" if "j \<in> set (gi @ [i])" for j using crewD(3) [OF b(6), of j] that ids(1) by blast
  have t: "turn (rng (world s)) e reg m (cact c ca) (cstk c ca) = Some (ACoordinator ?st1, [])"
    using coordinator_files [OF sid ids(2) update_arrives [OF b(6) i], of "rng (world s)" e "turn_ctx reg m (cact c ca)" t] v more m
    by (simp add: turn_def Let_def)
  have room: "\<forall>a<n. length (cq (popped ca c) a @ inbox a (sent [])) \<le> DefaultMailboxSize"
  proof (intro allI impI)
    fix a assume "a < n"
    from gathering_quiet [OF D G this] ids(3) show "length (cq (popped ca c) a @ inbox a (sent [])) \<le> DefaultMailboxSize"
      by (auto simp: popped_def split: if_splits)
  qed
  let ?c = "after_effs ca [] (with_actor ca (ACoordinator ?st1) (popped ca c))"
  have "MsgType m \<noteq> MsgStopping" using m by (simp add: update_msg_def mkMessage_def)
  from models_turn [OF M b(4) rc this t _ room] obtain s' where s': "run_receive home_ops e ca s = Done s'" "models n reg s' ?c"
      "network (world s') = network (world s)" by auto
  have "view ?c a = view c a" if "a \<noteq> ca" for a unfolding view_after using that by (simp add: view_def)
  then have "gathering n reg ca st X c0 t (gi @ [i]) qi ?c"
    using v unfolding gathering_def cgo_after by (simp add: view_after)
  with s' show ?thesis by blast
qed

text \<open>The last update finishes the round.\<close>

lemma final_boxes:
  assumes "\<forall>i\<in>set (keys (sensors st)). mget (sensorRemoteRefs st) i = Some (RemoteRef i (adr i))" "env_ok e"
  shows "inbox a (final_msgs x e l d st us agg ms (tt, th, tb)) =
      (if a = l then [mkMessage MsgRoundComplete (Dyn (report st us ms)) ''''] else []) @
      (if a = d then [mkMessage MsgAdjustEnvironment (Dyn (AdjustEnvironmentPayload ''all'' tt th tb)) ''''] else [])"
    "outbox (final_msgs x e l d st us agg ms tg) = map (posted adr (global_msg st us agg)) (iter e (keys (sensors st)))"
    "(LocalRef a, m) \<in> set (final_msgs x e l d st us agg ms tg) \<Longrightarrow> a = l \<or> a = d"
proof -
  have "\<forall>i\<in>set (iter e (keys (sensors st))). mget (sensorRemoteRefs st) i = Some (RemoteRef i (adr i))" using assms by (simp del: set_map)
  note ad = addressed_remote [OF this]
  show "inbox a (final_msgs x e l d st us agg ms (tt, th, tb)) =
      (if a = l then [mkMessage MsgRoundComplete (Dyn (report st us ms)) ''''] else []) @
      (if a = d then [mkMessage MsgAdjustEnvironment (Dyn (AdjustEnvironmentPayload ''all'' tt th tb)) ''''] else [])"
    unfolding final_msgs_def inbox_simps(3) ad remote_boxes(1) by auto
  show "outbox (final_msgs x e l d st us agg ms tg) = map (posted adr (global_msg st us agg)) (iter e (keys (sensors st)))"
    unfolding final_msgs_def outbox_append ad remote_boxes(2) by simp
  show "a = l \<or> a = d" if "(LocalRef a, m) \<in> set (final_msgs x e l d st us agg ms tg)" using that unfolding final_msgs_def ad by auto
qed

lemma wrapped_starts:
  assumes D: "desk n reg ca l d st X adr c0" and us: "mset us = mset (map (\<lambda>i. update_of st (X i)) (keys (sensors st)))" "averages us agg" "length agg = length (elems (globalWeights st))"
    and tg: "infer_targets (\<lambda>_. 0) agg = Some (tt, th, tb)" and go: "filter is_training (cgo c) = []"
    and cv: "\<And>a. a < n \<Longrightarrow> view c a = (if a = ca then ACoordinator ((started st t)\<lparr>pendingUpdates := filed (map (\<lambda>i. update_of st (X i)) gi), globalWeights := SList agg\<rparr>)
      else cact c0 a, if a = ca then [] else cstk c0 a,
      (if a = l then [mkMessage MsgRoundComplete (Dyn (report st us ms)) ''''] else []) @
      (if a = d then [mkMessage MsgAdjustEnvironment (Dyn (AdjustEnvironmentPayload ''all'' tt th tb)) ''''] else []))"
  shows "wrapped n reg ca l d st X c0 us agg ms c"
proof -
  note b = deskD [OF D]
  have "view c l = (cact c0 l, [], [mkMessage MsgRoundComplete (Dyn (report st us ms)) ''''])"
      "view c d = (cact c0 d, [], [mkMessage MsgAdjustEnvironment (Dyn (AdjustEnvironmentPayload ''all'' tt th tb)) ''''])"
    using cv [OF b(11)] cv [OF b(14)] b(13,16,19-21) by auto
  note cl = closing_starts [OF b(12,15) this tg]
  show ?thesis
    unfolding wrapped_def
  proof (intro conjI allI impI)
    show "\<exists>t gi. view c ca = (ACoordinator ((started st t)\<lparr>pendingUpdates := filed (map (\<lambda>i. update_of st (X i)) gi), globalWeights := SList agg\<rparr>), [], [])"
      using cv [OF b(4)] b(19,20) by (intro exI [of _ t] exI [of _ gi]) simp
    show "cq c a = []" if "a < n" "a \<noteq> l" "a \<noteq> d" for a using cv [OF that(1)] that(2,3) by (simp add: view_def)
  qed (use us cl go in simp_all)
qed

lemma gathering_last:
  assumes D: "desk n reg ca l d st X adr c0" and M: "models n reg s c" and G: "gathering n reg ca st X c0 t gi [i] c"
    and ids: "distinct (gi @ [i])" "mset (gi @ [i]) = mset (keys (sensors st))" and net: "network (world s) = []"
    and rc: "receive (mbox (ent s ca)) = Received m mb" and e: "env_ok e"
  shows "\<exists>s' c' us agg ms. run_receive home_ops e ca s = Done s' \<and> models n reg s' c' \<and> wrapped n reg ca l d st X c0 us agg ms c' \<and>
    mail adr (global_msg st us agg) (set (keys (sensors st))) s'"
proof -
  note b = deskD [OF D] and v = gatheringD [OF G]
  let ?st1 = "(started st t)\<lparr>pendingUpdates := filed (map (\<lambda>i. update_of st (X i)) (gi @ [i]))\<rparr>" and ?x = "turn_ctx reg m (cact c ca)"
  have set: "set (gi @ [i]) = set (keys (sensors st))" by (rule mset_eq_setD [OF ids(2)])
  then have i: "i \<in> set (keys (sensors st))" by auto
  have m: "m = arrives (update_msg st (X i))" using models_popped(2) [OF M b(4) rc] v(3) by simp
  have x: "look ?x = mget reg" "Self ?x = coordID st" using v(1) by (simp_all add: turn_ctx_def started_def)
  from coordinator_finishes [OF b(6,10) ids(2,1) e x] obtain effs us agg tt th tb where
    f: "aggregateAndFinalise (rng (world s)) e ?x ?st1 = HRes (?st1\<lparr>globalWeights := SList agg\<rparr>) effs None" "list_all plain_eff effs"
      "sent effs = final_msgs ?x e l d st us agg (elapsed_ms (now e) t) (tt, th, tb)"
      "mset us = mset (map (\<lambda>i. update_of st (X i)) (keys (sensors st)))" "averages us agg" "length agg = length (elems (globalWeights st))"
      "infer_targets (\<lambda>_. 0) agg = Some (tt, th, tb)" by (metis prod_cases3)
  let ?ms = "elapsed_ms (now e) t"
  have "\<forall>i\<in>set (keys (sensors st)). mget (sensorRemoteRefs st) i = Some (RemoteRef i (adr i))" using b(8) by blast
  note bx = final_boxes [OF this e]
  have sid: "sensorID (X j) = j" if "j \<in> set (gi @ [i])" for j using crewD(3) [OF b(6), of j] that set by blast
  have ni: "i \<notin> set gi" using ids(1) by simp
  have "length (gi @ [i]) = length (keys (sensors st))" by (rule mset_eq_length [OF ids(2)])
  then have "\<not> length (gi @ [i]) < length (sensors st)" by simp
  then have t: "turn (rng (world s)) e reg m (cact c ca) (cstk c ca) = Some (ACoordinator (?st1\<lparr>globalWeights := SList agg\<rparr>), effs)"
    using coordinator_files [OF sid ni update_arrives [OF b(6) i], of "rng (world s)" e ?x t] v f(1) m by (simp add: turn_def Let_def)
  have lc: "list_all (local_eff n) effs" using b(11,14) by (intro plain_local [OF f(2)], unfold f(3)) (auto dest!: bx(3))
  have pq: "cq (popped ca c) a = []" if "a < n" for a
    using gathering_quiet [OF D G that] v(3) by (cases "a = ca") (simp_all add: popped_def)
  have room: "\<forall>a<n. length (cq (popped ca c) a @ inbox a (sent effs)) \<le> DefaultMailboxSize"
    unfolding f(3) bx(1) using pq by (simp add: DefaultMailboxSize_def)
  let ?c = "after_effs ca effs (with_actor ca (ACoordinator (?st1\<lparr>globalWeights := SList agg\<rparr>)) (popped ca c))"
  have "MsgType m \<noteq> MsgStopping" using m by (simp add: update_msg_def mkMessage_def)
  from models_turn [OF M b(4) rc this t lc room] obtain s' where s': "run_receive home_ops e ca s = Done s'" "models n reg s' ?c"
      "network (world s') = network (world s) @ outbox (sent effs)" by blast
  have cv: "view ?c a = (if a = ca then ACoordinator (?st1\<lparr>globalWeights := SList agg\<rparr>) else cact c0 a, if a = ca then [] else cstk c0 a, inbox a (sent effs))"
    if "a < n" for a
    unfolding view_after using pq [OF that] plain_effs(1) [OF f(2)] v(2) v(4) [OF that] by (simp add: popped_def view_def split: if_splits)
  have "cgo ?c = cgo c" using plain_effs(2) [OF f(2)] by (simp add: cgo_after)
  then have "wrapped n reg ca l d st X c0 us agg ?ms ?c"
    using f(4-7) v(5) cv unfolding f(3) bx(1) by (intro wrapped_starts [OF D, where t = t and gi = "gi @ [i]"]) simp_all
  moreover have "mail adr (global_msg st us agg) (set (keys (sensors st))) s'"
    using s'(3) crewD(2) [OF b(6)] net unfolding f(3) bx(2) by (intro mail_broadcast [OF _ e]) simp_all
  ultimately show ?thesis using s'(1,2) by blast
qed

lemma wrappedD:
  assumes "wrapped n reg ca l d st X c0 us agg ms c"
  shows "closing l d c0 (report st us ms) agg c" "a < n \<Longrightarrow> a \<noteq> l \<Longrightarrow> a \<noteq> d \<Longrightarrow> cq c a = []" "filter is_training (cgo c) = []"
  using assms unfolding wrapped_def by blast+

lemma wrapped_turn:
  assumes D: "desk n reg ca l d st X adr c0" and M: "models n reg s c" and W: "wrapped n reg ca l d st X c0 us agg ms c"
    and a: "a < n" and rc: "receive (mbox (ent s a)) = Received m mb"
  shows "\<exists>s' c'. run_receive home_ops e a s = Done s' \<and> models n reg s' c' \<and> wrapped n reg ca l d st X c0 us agg ms c' \<and>
    closing_work l d c' < closing_work l d c \<and> network (world s') = network (world s)"
proof -
  note b = deskD [OF D] and v = wrappedD [OF W]
  have q: "cq c a = m # tl (cq c a)" by (rule models_popped(2) [OF M a rc])
  then have ld: "a = l \<or> a = d" using v(2) [OF a] by force
  have q5: "\<forall>a<n. length (cq c a) \<le> 5" using v(2) closingD(3) [OF v(1)] by fastforce
  obtain s' c' where s': "run_receive home_ops e a s = Done s'" "models n reg s' c'" "closing l d c0 (report st us ms) agg c'"
      "\<And>a. a \<noteq> l \<Longrightarrow> a \<noteq> d \<Longrightarrow> view c' a = view c a" "cgo c' = cgo c" "closing_work l d c' < closing_work l d c" "network (world s') = network (world s)"
    using ld closing_logger [OF M v(1) b(11,21) q5] closing_device [OF M v(1) b(14,11,21) officeD(3) [OF b(10)] q5] rc by metis
  have "wrapped n reg ca l d st X c0 us agg ms c'"
    using W s'(3,5) s'(4) [OF b(19,20)] s'(4) unfolding wrapped_def by (simp add: view_def)
  with s' show ?thesis by blast
qed

section \<open>Steps and deliveries\<close>

text \<open>A step of a process without training: a pump that moves on, or a turn.\<close>

lemma quiet_step_cases:
  assumes M: "models n reg s c" and "filter is_training (cgo c) = []" "round_step s s'"
  obtains (pump) "models n reg s' c" "network (world s') = network (world s)" "pumping s' < pumping s"
  | (turn) a m mb e where "a < n" "receive (mbox (ent s a)) = Received m mb" "env_ok e" "run_receive home_ops e a s = Done s'"
  using M assms(3)
proof (cases rule: round_step_cases)
  case (pump a mb)
  then show ?thesis using models_pump [OF M pump(1,2)] that(1) by simp
next
  case (training k a p x e x' msg)
  then have "k < length (cgo c)" "is_training (cgo c ! k)" using modelsD(3) [OF M] by (simp_all add: is_training_def)
  then have "cgo c ! k \<in> set (filter is_training (cgo c))" by simp
  then show ?thesis using assms(2) by simp
qed (rule that(2))

lemma desk_step:
  assumes D: "desk n reg ca l d st X adr c0" and M: "models n reg s c0" and net: "network (world s) = []" and step: "round_step s s'"
  shows "models n reg s' c0 \<and> network (world s') = [] \<and> pumping s' < pumping s \<or>
    (\<exists>t c. models n reg s' c \<and> gathering n reg ca st X c0 t [] [] c \<and> mail adr (start_msg st) (set (keys (sensors st))) s')"
  using M deskD(18) [OF D] step
proof (cases rule: quiet_step_cases)
  case (turn a m mb e)
  have "cq c0 a \<noteq> []" using models_popped(2) [OF M turn(1,2)] by (metis list.discI)
  then have "a = ca" using deskD(17) [OF D turn(1)] by blast
  then show ?thesis using desk_turn [OF D M net _ turn(3), of m mb] turn(2,4) by auto
qed (use net in simp)

text \<open>A turn while the round collects: an update is filed, or the round is finished.\<close>

lemma gathering_receive:
  assumes D: "desk n reg ca l d st X adr c0" and M: "models n reg s c" and G: "gathering n reg ca st X c0 t gi qi c"
    and ids: "set (gi @ qi) \<subseteq> set (keys (sensors st))" "distinct (gi @ qi)" and rc: "receive (mbox (ent s ca)) = Received m mb" and e: "env_ok e"
    and last: "length gi + 1 = length (sensors st) \<longrightarrow> qi \<noteq> [] \<longrightarrow> length qi = 1 \<and> network (world s) = []"
    and len: "length gi < length (sensors st)"
  shows "\<exists>s'. run_receive home_ops e ca s = Done s' \<and>
    ((\<exists>i qi' c'. qi = i # qi' \<and> length (gi @ [i]) < length (sensors st) \<and> models n reg s' c' \<and> gathering n reg ca st X c0 t (gi @ [i]) qi' c' \<and>
      network (world s') = network (world s)) \<or>
    (\<exists>c' us agg ms. models n reg s' c' \<and> wrapped n reg ca l d st X c0 us agg ms c' \<and> mail adr (global_msg st us agg) (set (keys (sensors st))) s' \<and>
      set (gi @ qi) = set (keys (sensors st))))"
proof -
  have "cq c ca \<noteq> []" using models_popped(2) [OF M deskD(4) [OF D] rc] by (metis list.discI)
  then obtain i qi' where qi: "qi = i # qi'" using gatheringD(3) [OF G] by (cases qi) simp_all
  note G' = G [unfolded qi]
  have ds: "distinct (keys (sensors st))" "length (keys (sensors st)) \<le> DefaultMailboxSize" using crewD(2) [OF deskD(6) [OF D]] deskD(7) [OF D] by simp_all
  show ?thesis
  proof (cases "length (gi @ [i]) < length (sensors st)")
    case True
    have "length (gi @ qi) = card (set (gi @ qi))" using ids(2) by (metis distinct_card)
    also have "\<dots> \<le> card (set (keys (sensors st)))" using ids(1) by (intro card_mono) simp_all
    also have "\<dots> \<le> DefaultMailboxSize" using ds(2) card_length order_trans by blast
    finally have "length qi' < DefaultMailboxSize" using qi by simp
    moreover have "set (gi @ [i]) \<subseteq> set (keys (sensors st))" "i \<notin> set gi" using ids qi by auto
    ultimately obtain s1 c' where "run_receive home_ops e ca s = Done s1" "models n reg s1 c'" "gathering n reg ca st X c0 t (gi @ [i]) qi' c'"
        "network (world s1) = network (world s)"
      using gathering_turn [OF D M G' _ _ _ rc True, of e] by blast
    then show ?thesis using True qi by blast
  next
    case False
    then have l: "qi' = []" "network (world s) = []" "length (gi @ [i]) = length (keys (sensors st))" using last len qi by auto
    have "card (set (gi @ [i])) = card (set (keys (sensors st)))" using l(3) ids(2) ds(1) qi l(1) distinct_card [of "gi @ [i]"] distinct_card [of "keys (sensors st)"] by simp
    moreover have "set (gi @ [i]) \<subseteq> set (keys (sensors st))" using ids(1) qi by auto
    ultimately have eq: "set (gi @ [i]) = set (keys (sensors st))" by (intro card_subset_eq) auto
    then have "mset (gi @ [i]) = mset (keys (sensors st))" using ids(2) qi l(1) ds(1) by (metis set_eq_iff_mset_eq_distinct)
    then obtain s1 c' us agg ms where "run_receive home_ops e ca s = Done s1" "models n reg s1 c'" "wrapped n reg ca l d st X c0 us agg ms c'"
        "mail adr (global_msg st us agg) (set (keys (sensors st))) s1"
      using gathering_last [OF D M G' [unfolded l(1)] _ _ l(2) rc e] ids(2) qi l(1) by blast
    then show ?thesis using eq qi l(1) by blast
  qed
qed

lemma gathering_step:
  assumes D: "desk n reg ca l d st X adr c0" and M: "models n reg s c" and G: "gathering n reg ca st X c0 t gi qi c"
    and ids: "set (gi @ qi) \<subseteq> set (keys (sensors st))" "distinct (gi @ qi)" and step: "round_step s s'"
    and last: "length gi + 1 = length (sensors st) \<longrightarrow> qi \<noteq> [] \<longrightarrow> length qi = 1 \<and> network (world s) = []"
    and len: "length gi < length (sensors st)"
  shows "models n reg s' c \<and> network (world s') = network (world s) \<and> pumping s' < pumping s \<or>
    (\<exists>i qi' c'. qi = i # qi' \<and> length (gi @ [i]) < length (sensors st) \<and> models n reg s' c' \<and> gathering n reg ca st X c0 t (gi @ [i]) qi' c' \<and>
      network (world s') = network (world s)) \<or>
    (\<exists>c' us agg ms. models n reg s' c' \<and> wrapped n reg ca l d st X c0 us agg ms c' \<and> mail adr (global_msg st us agg) (set (keys (sensors st))) s' \<and>
      set (gi @ qi) = set (keys (sensors st)))"
  using M gatheringD(5) [OF G] step
proof (cases rule: quiet_step_cases)
  case (turn a m mb e)
  have "cq c a \<noteq> []" using models_popped(2) [OF M turn(1,2)] by (metis list.discI)
  then have a: "a = ca" using gathering_quiet [OF D G turn(1)] by (cases "a = ca") simp_all
  from gathering_receive [OF D M G ids turn(2) [unfolded a] turn(3) last len] show ?thesis using turn(4) a by auto
qed simp

text \<open>As long as a message waits, there is a step.\<close>

lemma gathering_possible:
  assumes D: "desk n reg ca l d st X adr c0" and M: "models n reg s c" and G: "gathering n reg ca st X c0 t gi qi c"
    and ids: "set (gi @ qi) \<subseteq> set (keys (sensors st))" "distinct (gi @ qi)"
    and last: "length gi + 1 = length (sensors st) \<longrightarrow> qi \<noteq> [] \<longrightarrow> length qi = 1 \<and> network (world s) = []"
    and len: "length gi < length (sensors st)" and q: "qi \<noteq> []"
  shows "\<exists>s'. round_step s s'"
proof -
  have "cq c ca \<noteq> []" using gatheringD(3) [OF G] q by simp
  from waiting_possible [OF M deskD(4) [OF D] this] show ?thesis
  proof (elim disjE exE)
    fix m mb assume "receive (mbox (ent s ca)) = Received m mb"
    from gathering_receive [OF D M G ids this env_ok_any last len] show ?thesis
      using turn_possible [OF M deskD(4) [OF D] _ env_ok_any] by blast
  qed blast
qed

lemma desk_possible:
  assumes D: "desk n reg ca l d st X adr c0" and M: "models n reg s c0" and net: "network (world s) = []"
  shows "\<exists>s'. round_step s s'"
proof -
  have "cq c0 ca \<noteq> []" using deskD(3) [OF D] by simp
  from waiting_possible [OF M deskD(4) [OF D] this] show ?thesis
  proof (elim disjE exE)
    fix m mb assume "receive (mbox (ent s ca)) = Received m mb"
    from desk_turn [OF D M net this env_ok_any] show ?thesis using turn_possible [OF M deskD(4) [OF D] _ env_ok_any] by blast
  qed blast
qed

lemma wrapped_step:
  assumes D: "desk n reg ca l d st X adr c0" and M: "models n reg s c" and W: "wrapped n reg ca l d st X c0 us agg ms c" and step: "round_step s s'"
  shows "\<exists>c'. models n reg s' c' \<and> wrapped n reg ca l d st X c0 us agg ms c' \<and> network (world s') = network (world s) \<and>
    (closing_work l d c' < closing_work l d c \<or> c' = c \<and> pumping s' < pumping s)"
  using M wrappedD(3) [OF W] step
proof (cases rule: quiet_step_cases)
  case (turn a m mb e)
  then show ?thesis using wrapped_turn [OF D M W turn(1,2), of e] by auto
qed (use W in blast)

lemma wrapped_possible:
  assumes D: "desk n reg ca l d st X adr c0" and M: "models n reg s c" and W: "wrapped n reg ca l d st X c0 us agg ms c" and a: "a < n" "cq c a \<noteq> []"
  shows "\<exists>s'. round_step s s'"
  using waiting_possible [OF M a]
proof (elim disjE exE)
  fix m mb assume "receive (mbox (ent s a)) = Received m mb"
  from wrapped_turn [OF D M W a(1) this] show ?thesis using turn_possible [OF M a(1) _ env_ok_any] by blast
qed blast

text \<open>A request that arrives.\<close>

lemma models_arrival:
  assumes "models n reg s c" "mget reg i = Some a" "a < n" "length (cq c a) < DefaultMailboxSize"
  shows "\<exists>s'. server_Tell init_registry (marshalTell i m) s = Done s' \<and> models n reg s' (c\<lparr>cq := (cq c)(a := cq c a @ [arrives m])\<rparr>) \<and>
    network (world s') = network (world s)"
proof -
  obtain s' where s': "Tell a (arrives m) s = Done s'" "models n reg s' (c\<lparr>cq := (cq c)(a := cq c a @ [arrives m])\<rparr>)" "world s' = world s"
    using models_Tell [OF assms(1,3,4)] by blast
  have "Lookup i s = Inr a" using modelsD(2) [OF assms(1)] assms(2) by (simp add: Lookup_def)
  then have "server_Tell init_registry (marshalTell i m) s = Done s'"
    using s'(1) unfolding server_Tell_def request_message_arrives marshalTell_to by simp
  moreover have "network (world s') = network (world s)" using s'(3) by simp
  ultimately show ?thesis using s'(2) by (intro exI [of _ s'] conjI)
qed

lemma site_arrival:
  assumes "site i (x, stk, []) net go s"
  shows "\<exists>s'. server_Tell init_registry (marshalTell i m) s = Done s' \<and> site i (x, stk, [arrives m]) net go s'"
proof -
  obtain c where c: "models 1 [(i, 0)] s c" "view c 0 = (x, stk, [])" "network (world s) = net" "filter is_training (cgo c) = go" by (rule siteD [OF assms])
  note v = viewD [OF c(2)]
  have "length (cq c 0) < DefaultMailboxSize" using v by (simp add: DefaultMailboxSize_def)
  then obtain s' where s': "server_Tell init_registry (marshalTell i m) s = Done s'" "models 1 [(i, 0)] s' (c\<lparr>cq := (cq c)(0 := cq c 0 @ [arrives m])\<rparr>)"
      "network (world s') = network (world s)" using models_arrival [OF c(1), of i 0 m] by auto
  have "site i (x, stk, [arrives m]) net go s'" by (rule siteI [OF s'(2)]) (use v c(3,4) s'(3) in \<open>simp_all add: view_def\<close>)
  with s'(1) show ?thesis by blast
qed

lemma gathering_arrival:
  assumes D: "desk n reg ca l d st X adr c0" and M: "models n reg s c" and G: "gathering n reg ca st X c0 t gi qi c" and "length qi < DefaultMailboxSize"
  shows "\<exists>s' c'. server_Tell init_registry (marshalTell (coordID st) (update_msg st (X i))) s = Done s' \<and> models n reg s' c' \<and>
    gathering n reg ca st X c0 t gi (qi @ [i]) c' \<and> network (world s') = network (world s)"
proof -
  note b = deskD [OF D] and v = gatheringD [OF G]
  let ?c = "c\<lparr>cq := (cq c)(ca := cq c ca @ [arrives (update_msg st (X i))])\<rparr>"
  have "length (cq c ca) < DefaultMailboxSize" using v(3) assms(4) by simp
  then obtain s' where s': "server_Tell init_registry (marshalTell (coordID st) (update_msg st (X i))) s = Done s'" "models n reg s' ?c"
      "network (world s') = network (world s)" using models_arrival [OF M b(5,4)] by blast
  have "gathering n reg ca st X c0 t gi (qi @ [i]) ?c" using v unfolding gathering_def by (simp add: view_def)
  with s' show ?thesis by blast
qed

end
