(* ===== verification/ClusterRound.thy ===== *)
theory ClusterRound
  imports Sites
begin

text \<open>
  A whole round whose sensors run in processes of their own, as a run of \<open>cluster_step\<close>: the coordinator, the logger and the device controller in one process, each
  sensor in another, and the network between them, which delivers requests in any order. As in \<open>Round\<close> every step lowers a measure, and as long as the round is not over
  some step is possible.
\<close>

section \<open>Runs\<close>

text \<open>The steps of the processes themselves, and deliveries; no request is lost.\<close>

fun inner :: "cluster \<Rightarrow> cluster_label \<Rightarrow> bool" where
  "inner C (CLocal a lb) = (case mget C a of Some s \<Rightarrow> internal s lb | None \<Rightarrow> False)"
| "inner C (CDeliver a b req) = True"
| "inner C (CLose a b req) = False"

definition dstep :: "cluster \<Rightarrow> cluster \<Rightarrow> bool" where
  "dstep C C' \<longleftrightarrow> (\<exists>lb. inner C lb \<and> cluster_step C lb C')"

lemma dstep_cases:
  assumes "dstep C C'"
  obtains (here) a s s' where "mget C a = Some s" "round_step s s'" "C' = mput a s' C"
  | (deliver) a s before b req after t t' where "mget C a = Some s" "network (world s) = before @ (b, req) # after"
    "mget (mput a (carried (before @ after) s) C) b = Some t" "server_Tell init_registry req t = Done t'"
    "C' = mput b t' (mput a (carried (before @ after) s) C)"
proof -
  obtain lb where lb: "inner C lb" "cluster_step C lb C'" using assms by (auto simp: dstep_def)
  from lb(2,1) show ?thesis
  proof (cases rule: cluster_step.cases)
    case (here a s l s')
    then show ?thesis using lb(1) that(1) [of a s s'] by (auto simp: round_step_def)
  next
    case (deliver a s before b req after C1 t t')
    then show ?thesis using that(2) by blast
  qed (use lb(1) in simp)
qed

lemma internal_own: "internal s lb \<Longrightarrow> own lb"
  by (induction s lb rule: internal.induct) (simp_all add: own_def)

lemma dstep_here: "mget C a = Some s \<Longrightarrow> round_step s s' \<Longrightarrow> dstep C (mput a s' C)"
  unfolding round_step_def dstep_def
  by (elim exE conjE, intro exI conjI) (rule_tac [2] cluster_step.here, auto simp: internal_own)

lemma dstep_deliver:
  assumes "mget C a = Some s" "network (world s) = before @ (b, req) # after" "mget (mput a (carried (before @ after) s) C) b = Some t"
    and "server_Tell init_registry req t = Done t'"
  shows "\<exists>C'. dstep C C'"
  using cluster_step.deliver [OF assms(1,2) refl assms(3,4)] unfolding dstep_def by (intro exI conjI) (rule inner.simps(2) [THEN iffD2, OF TrueI], assumption)

section \<open>The processes\<close>

text \<open>The process at \<open>A0\<close> satisfies \<open>P\<close>, the one of each sensor \<open>i\<close> satisfies \<open>Q i\<close>, and there are no others.\<close>

definition spread :: "string \<Rightarrow> (string \<Rightarrow> string) \<Rightarrow> string list \<Rightarrow> (home \<Rightarrow> bool) \<Rightarrow> (string \<Rightarrow> home \<Rightarrow> bool) \<Rightarrow> cluster \<Rightarrow> bool" where
  "spread A0 adr ids P Q C \<longleftrightarrow> (\<exists>s. mget C A0 = Some s \<and> P s) \<and> (\<forall>i\<in>set ids. \<exists>s. mget C (adr i) = Some s \<and> Q i s) \<and>
    (\<forall>a. mget C a \<noteq> None \<longrightarrow> a = A0 \<or> a \<in> adr ` set ids)"

definition placed :: "string \<Rightarrow> (string \<Rightarrow> string) \<Rightarrow> string list \<Rightarrow> bool" where
  "placed A0 adr ids \<longleftrightarrow> inj_on adr (set ids) \<and> A0 \<notin> adr ` set ids"

definition pumps :: "string \<Rightarrow> (string \<Rightarrow> string) \<Rightarrow> string list \<Rightarrow> cluster \<Rightarrow> nat" where
  "pumps A0 adr ids C = (\<Sum>a\<in>insert A0 (adr ` set ids). pumping (the (mget C a)))"

lemma placedD:
  assumes "placed A0 adr ids" "i \<in> set ids"
  shows "adr i \<noteq> A0" "j \<in> set ids \<Longrightarrow> adr j = adr i \<longleftrightarrow> j = i"
  using assms by (auto simp: placed_def inj_on_def)

lemma spreadD:
  assumes "spread A0 adr ids P Q C"
  shows "mget C A0 = Some s \<Longrightarrow> P s" "i \<in> set ids \<Longrightarrow> mget C (adr i) = Some s \<Longrightarrow> Q i s" "mget C a = Some s \<Longrightarrow> a = A0 \<or> (\<exists>i\<in>set ids. a = adr i)"
  using assms unfolding spread_def by (auto simp: image_iff)

lemma spread_exists:
  assumes "spread A0 adr ids P Q C"
  obtains s where "mget C A0 = Some s" "P s"
  using assms unfolding spread_def by (elim exE conjE) (rule that)

lemma spread_sensor:
  assumes "spread A0 adr ids P Q C" "i \<in> set ids"
  obtains s where "mget C (adr i) = Some s" "Q i s"
  using assms unfolding spread_def by (elim conjE) (drule (1) bspec, elim exE conjE, rule that)

lemma spread_mono:
  assumes "spread A0 adr ids P Q C" "\<And>s. P s \<Longrightarrow> P' s" "\<And>i s. i \<in> set ids \<Longrightarrow> Q i s \<Longrightarrow> Q' i s"
  shows "spread A0 adr ids P' Q' C"
  using assms unfolding spread_def by blast

lemma spread_mput_home:
  assumes "placed A0 adr ids" "spread A0 adr ids P Q C" "P' s'"
  shows "spread A0 adr ids P' Q (mput A0 s' C)"
  unfolding spread_def
proof (intro conjI ballI allI impI)
  show "\<exists>s. mget (mput A0 s' C) A0 = Some s \<and> P' s" using assms(3) by simp
  show "\<exists>s. mget (mput A0 s' C) (adr i) = Some s \<and> Q i s" if i: "i \<in> set ids" for i
  proof -
    obtain s where "mget C (adr i) = Some s" "Q i s" by (rule spread_sensor [OF assms(2) i])
    then show ?thesis using placedD(1) [OF assms(1) i] by simp
  qed
  show "a = A0 \<or> a \<in> adr ` set ids" if "mget (mput A0 s' C) a \<noteq> None" for a
    using that spreadD(3) [OF assms(2), of a] by (cases "a = A0") auto
qed

lemma spread_mput_sensor:
  assumes "placed A0 adr ids" "spread A0 adr ids P Q C" "i \<in> set ids" "Q' i s'"
    and "\<And>s. P s \<Longrightarrow> P' s" "\<And>j s. j \<in> set ids \<Longrightarrow> j \<noteq> i \<Longrightarrow> Q j s \<Longrightarrow> Q' j s"
  shows "spread A0 adr ids P' Q' (mput (adr i) s' C)"
  unfolding spread_def
proof (intro conjI ballI allI impI)
  obtain s where "mget C A0 = Some s" "P s" by (rule spread_exists [OF assms(2)])
  then show "\<exists>s. mget (mput (adr i) s' C) A0 = Some s \<and> P' s" using placedD(1) [OF assms(1,3)] assms(5) by simp
  show "\<exists>s. mget (mput (adr i) s' C) (adr j) = Some s \<and> Q' j s" if j: "j \<in> set ids" for j
  proof (cases "j = i")
    case False
    obtain s where "mget C (adr j) = Some s" "Q j s" by (rule spread_sensor [OF assms(2) j])
    then show ?thesis using placedD(2) [OF assms(1,3) j] False assms(6) [OF j] by simp
  qed (use assms(4) in simp)
  show "a = A0 \<or> a \<in> adr ` set ids" if "mget (mput (adr i) s' C) a \<noteq> None" for a
    using that spreadD(3) [OF assms(2), of a] assms(3) by (cases "a = adr i") auto
qed

lemma pumps_less:
  assumes "mget C a = Some s" "pumping s' < pumping s" "a \<in> insert A0 (adr ` set ids)"
  shows "pumps A0 adr ids (mput a s' C) < pumps A0 adr ids C"
  unfolding pumps_def
proof (rule sum_strict_mono_ex1)
  show "\<forall>b\<in>insert A0 (adr ` set ids). pumping (the (mget (mput a s' C) b)) \<le> pumping (the (mget C b))" using assms(1,2) by auto
  show "\<exists>b\<in>insert A0 (adr ` set ids). pumping (the (mget (mput a s' C) b)) < pumping (the (mget C b))" using assms by (intro bexI [of _ a]) simp_all
qed simp

section \<open>The round\<close>

text \<open>What does not change: the places of the processes, the coordinator's surroundings, the sensors.\<close>

definition setting :: "nat \<Rightarrow> (ActorID, nat) gomap \<Rightarrow> nat \<Rightarrow> nat \<Rightarrow> nat \<Rightarrow> sensor_factory CoordinatorActor \<Rightarrow> (string \<Rightarrow> SensorActor) \<Rightarrow> string \<Rightarrow> (string \<Rightarrow> string) \<Rightarrow> config \<Rightarrow> bool" where
  "setting n reg ca l d st X A0 adr c0 \<longleftrightarrow> desk n reg ca l d st X adr c0 \<and> placed A0 adr (keys (sensors st)) \<and>
    (\<forall>i\<in>set (keys (sensors st)). remote_fit st A0 (X i))"

abbreviation sensors_at :: "sensor_factory CoordinatorActor \<Rightarrow> (string \<Rightarrow> SensorActor) \<Rightarrow> string \<Rightarrow> home_message \<Rightarrow> (string \<Rightarrow> leg) \<Rightarrow> string \<Rightarrow> home \<Rightarrow> bool" where
  "sensors_at st X A0 gm g \<equiv> \<lambda>i. at_leg st A0 gm (X i) (g i)"

definition on_leg :: "sensor_factory CoordinatorActor \<Rightarrow> (string \<Rightarrow> leg) \<Rightarrow> leg \<Rightarrow> string set" where
  "on_leg st g q = {i \<in> set (keys (sensors st)). g i = q}"

text \<open>The three phases. Before the round is finished there are no new weights, and nobody is told about them.\<close>

abbreviation no_weights :: "sensor_factory CoordinatorActor \<Rightarrow> home_message" where
  "no_weights st \<equiv> global_msg st [] []"

definition starting :: "nat \<Rightarrow> (ActorID, nat) gomap \<Rightarrow> sensor_factory CoordinatorActor \<Rightarrow> (string \<Rightarrow> SensorActor) \<Rightarrow> string \<Rightarrow> (string \<Rightarrow> string) \<Rightarrow> config \<Rightarrow> cluster \<Rightarrow> bool" where
  "starting n reg st X A0 adr c0 C \<longleftrightarrow>
    spread A0 adr (keys (sensors st)) (\<lambda>s. models n reg s c0 \<and> network (world s) = []) (sensors_at st X A0 (no_weights st) (\<lambda>_. Requested)) C"

definition collecting_at :: "nat \<Rightarrow> (ActorID, nat) gomap \<Rightarrow> nat \<Rightarrow> sensor_factory CoordinatorActor \<Rightarrow> (string \<Rightarrow> SensorActor) \<Rightarrow> string \<Rightarrow> (string \<Rightarrow> string) \<Rightarrow> config \<Rightarrow>
    int \<Rightarrow> (string \<Rightarrow> leg) \<Rightarrow> string list \<Rightarrow> string list \<Rightarrow> cluster \<Rightarrow> bool" where
  "collecting_at n reg ca st X A0 adr c0 t g gi qi C \<longleftrightarrow>
    spread A0 adr (keys (sensors st))
      (\<lambda>s. (\<exists>c. models n reg s c \<and> gathering n reg ca st X c0 t gi qi c) \<and> mail adr (start_msg st) (on_leg st g Requested) s)
      (sensors_at st X A0 (no_weights st) g) C \<and>
    on_leg st g Informed = {} \<and> on_leg st g Updated = {} \<and> distinct (gi @ qi) \<and> set (gi @ qi) = on_leg st g Reported \<and> length gi < length (sensors st)"

definition finishing_at :: "nat \<Rightarrow> (ActorID, nat) gomap \<Rightarrow> nat \<Rightarrow> nat \<Rightarrow> nat \<Rightarrow> sensor_factory CoordinatorActor \<Rightarrow> (string \<Rightarrow> SensorActor) \<Rightarrow> string \<Rightarrow> (string \<Rightarrow> string) \<Rightarrow> config \<Rightarrow>
    sensor_factory payload list \<Rightarrow> f64 list \<Rightarrow> int \<Rightarrow> (string \<Rightarrow> leg) \<Rightarrow> nat \<Rightarrow> cluster \<Rightarrow> bool" where
  "finishing_at n reg ca l d st X A0 adr c0 us agg ms g k C \<longleftrightarrow>
    spread A0 adr (keys (sensors st))
      (\<lambda>s. (\<exists>c. models n reg s c \<and> wrapped n reg ca l d st X c0 us agg ms c \<and> k = closing_work l d c) \<and> mail adr (global_msg st us agg) (on_leg st g Reported) s)
      (sensors_at st X A0 (global_msg st us agg) g) C \<and>
    set (keys (sensors st)) = on_leg st g Reported \<union> on_leg st g Informed \<union> on_leg st g Updated"

definition leg_sum :: "sensor_factory CoordinatorActor \<Rightarrow> (string \<Rightarrow> leg) \<Rightarrow> nat" where
  "leg_sum st g = (\<Sum>i\<in>set (keys (sensors st)). leg_work (g i))"

text \<open>The sensors whose update never arrives, because a request was lost.\<close>

definition absent :: "sensor_factory CoordinatorActor \<Rightarrow> (string \<Rightarrow> leg) \<Rightarrow> string set" where
  "absent st g = on_leg st g Missed \<union> on_leg st g Unheard"

text \<open>The phase and the work that is left in it, when \<open>M\<close> are the absent sensors.\<close>

definition round_at :: "nat \<Rightarrow> (ActorID, nat) gomap \<Rightarrow> nat \<Rightarrow> nat \<Rightarrow> nat \<Rightarrow> sensor_factory CoordinatorActor \<Rightarrow> (string \<Rightarrow> SensorActor) \<Rightarrow> string \<Rightarrow> (string \<Rightarrow> string) \<Rightarrow> config \<Rightarrow>
    string set \<Rightarrow> nat \<Rightarrow> nat \<Rightarrow> cluster \<Rightarrow> bool" where
  "round_at n reg ca l d st X A0 adr c0 M ph w C \<longleftrightarrow>
    ph = 2 \<and> w = 0 \<and> M = {} \<and> starting n reg st X A0 adr c0 C \<or>
    ph = 1 \<and> (\<exists>t g gi qi. collecting_at n reg ca st X A0 adr c0 t g gi qi C \<and> w = leg_sum st g + length qi \<and> absent st g = M) \<or>
    ph = 0 \<and> M = {} \<and> (\<exists>us agg ms g k. finishing_at n reg ca l d st X A0 adr c0 us agg ms g k C \<and> w = leg_sum st g + k)"

lemma round_atI:
  "starting n reg st X A0 adr c0 C \<Longrightarrow> round_at n reg ca l d st X A0 adr c0 {} 2 0 C"
  "collecting_at n reg ca st X A0 adr c0 t g gi qi C \<Longrightarrow> absent st g = M \<Longrightarrow> round_at n reg ca l d st X A0 adr c0 M 1 (leg_sum st g + length qi) C"
  "finishing_at n reg ca l d st X A0 adr c0 us agg ms g k C \<Longrightarrow> round_at n reg ca l d st X A0 adr c0 {} 0 (leg_sum st g + k) C"
  unfolding round_at_def by blast+

lemma settingD:
  assumes "setting n reg ca l d st X A0 adr c0"
  shows "desk n reg ca l d st X adr c0" "placed A0 adr (keys (sensors st))" "i \<in> set (keys (sensors st)) \<Longrightarrow> remote_fit st A0 (X i)"
    "i \<in> set (keys (sensors st)) \<Longrightarrow> sensorID (X i) = i" "json_safe (request st)" "distinct (keys (sensors st))"
proof -
  show D: "desk n reg ca l d st X adr c0" using assms by (simp add: setting_def)
  note c = crewD [OF deskD(6) [OF D]]
  show "i \<in> set (keys (sensors st)) \<Longrightarrow> sensorID (X i) = i" by (rule c(3))
  show "json_safe (request st)" by (rule deskD(9) [OF D])
  show "distinct (keys (sensors st))" by (rule c(2))
  show "placed A0 adr (keys (sensors st))" "i \<in> set (keys (sensors st)) \<Longrightarrow> remote_fit st A0 (X i)" using assms unfolding setting_def by blast+
qed

lemma global_type: "MsgType (global_msg st us agg) = MsgGlobalModelUpdate"
  by (simp add: global_msg_def mkMessage_def)

lemma leg_sum_upd: "i \<in> set (keys (sensors st)) \<Longrightarrow> leg_sum st (g(i := q)) + leg_work (g i) = leg_sum st g + leg_work q"
  unfolding leg_sum_def by (rule sum_upd)

lemma on_leg_upd:
  assumes "i \<in> set (keys (sensors st))"
  shows "on_leg st (g(i := q)) p = (if p = q then insert i (on_leg st g p) else on_leg st g p - {i})"
  using assms by (auto simp: on_leg_def simp del: set_map)

lemma on_leg_iff: "i \<in> on_leg st g q \<longleftrightarrow> i \<in> set (keys (sensors st)) \<and> g i = q"
  by (simp add: on_leg_def)

lemma off_leg: "on_leg st g q = {} \<Longrightarrow> i \<in> set (keys (sensors st)) \<Longrightarrow> g i \<noteq> q"
  by (auto simp: on_leg_def)

text \<open>A step of the process of a sensor.\<close>

lemma sensor_moves:
  assumes S: "setting n reg ca l d st X A0 adr c0" and C: "spread A0 adr (keys (sensors st)) P (sensors_at st X A0 gm g) C"
    and gm: "MsgType gm = MsgGlobalModelUpdate" and i: "i \<in> set (keys (sensors st))" and s: "mget C (adr i) = Some s" "round_step s s'"
  shows "spread A0 adr (keys (sensors st)) P (sensors_at st X A0 gm g) (mput (adr i) s' C) \<and> pumps A0 adr (keys (sensors st)) (mput (adr i) s' C) < pumps A0 adr (keys (sensors st)) C \<or>
    (\<exists>q. next_leg (g i) = Some q \<and> spread A0 adr (keys (sensors st)) P (sensors_at st X A0 gm (g(i := q))) (mput (adr i) s' C))"
proof -
  note x = settingD [OF S]
  have L: "at_leg st A0 gm (X i) (g i) s" using spreadD(2) [OF C i s(1)] .
  from leg_step [OF x(3) [OF i] x(5) gm L s(2)] show ?thesis
  proof (elim disjE exE conjE)
    assume a: "at_leg st A0 gm (X i) (g i) s'" "pumping s' < pumping s"
    have "spread A0 adr (keys (sensors st)) P (sensors_at st X A0 gm g) (mput (adr i) s' C)" using a(1) by (rule spread_mput_sensor [OF x(2) C i])
    moreover have "pumps A0 adr (keys (sensors st)) (mput (adr i) s' C) < pumps A0 adr (keys (sensors st)) C" using i by (intro pumps_less [OF s(1) a(2)]) (simp del: set_map)
    ultimately show ?thesis by blast
  next
    fix q assume q: "next_leg (g i) = Some q" "at_leg st A0 gm (X i) q s'"
    have "spread A0 adr (keys (sensors st)) P (sensors_at st X A0 gm (g(i := q))) (mput (adr i) s' C)"
      using q(2) by (intro spread_mput_sensor [OF x(2) C i]) simp_all
    then show ?thesis using q(1) by blast
  qed
qed

subsection \<open>Deliveries\<close>

lemma site_carried: "site i v net go s \<Longrightarrow> site i v reqs go (carried reqs s)"
  by (elim siteD, rule siteI [OF models_carried]) (simp_all add: carried_def)

text \<open>From the coordinator to a sensor that waits for the message \<open>m\<close> on leg \<open>q\<close>, and is on leg \<open>q'\<close> when it has it.\<close>

definition takes :: "sensor_factory CoordinatorActor \<Rightarrow> home_message \<Rightarrow> home_message \<Rightarrow> leg \<Rightarrow> leg \<Rightarrow> bool" where
  "takes st gm m q q' \<longleftrightarrow> {q, q'} \<inter> {Sending, InTraining} = {} \<and>
    (\<forall>x. \<exists>y stk. leg_view st gm x q = (y, stk, []) \<and> leg_view st gm x q' = (y, stk, [arrives m]))"

lemma takes_simps: "takes st gm (start_msg st) Requested Asked" "takes st gm gm Reported Informed"
  by (simp_all add: takes_def)

lemma leg_arrival:
  assumes "takes st gm m q q'" "at_leg st A0 gm x q t"
  shows "\<exists>t'. server_Tell init_registry (marshalTell (sensorID x) m) t = Done t' \<and> at_leg st A0 gm x q' t'"
proof -
  obtain y stk where v: "leg_view st gm x q = (y, stk, [])" "leg_view st gm x q' = (y, stk, [arrives m])" using assms(1) unfolding takes_def by blast
  have "q \<noteq> Sending" "q \<noteq> InTraining" "q' \<noteq> Sending" "q' \<noteq> InTraining" using assms(1) by (auto simp: takes_def)
  then have n: "leg_net st A0 x q = []" "leg_go st q = []" "leg_net st A0 x q' = []" "leg_go st q' = []" by (simp_all add: leg_net_def leg_go_def)
  have "site (sensorID x) (y, stk, []) [] [] t" using assms(2) by (simp add: at_leg_def v n)
  from site_arrival [OF this, of m] show ?thesis by (simp add: at_leg_def v n)
qed

lemma home_delivers:
  assumes S: "setting n reg ca l d st X A0 adr c0"
    and C: "spread A0 adr (keys (sensors st)) (\<lambda>s. P s \<and> mail adr m (on_leg st g q) s) (sensors_at st X A0 gm g) C"
    and P: "\<And>s reqs. P s \<Longrightarrow> P (carried reqs s)" and q: "takes st gm m q q'"
    and s: "mget C A0 = Some s" "network (world s) = before @ (b, req) # after"
    and t: "mget (mput A0 (carried (before @ after) s) C) b = Some t" "server_Tell init_registry req t = Done t'"
  shows "\<exists>i. i \<in> on_leg st g q \<and> spread A0 adr (keys (sensors st)) (\<lambda>s. P s \<and> mail adr m (on_leg st g q - {i}) s) (sensors_at st X A0 gm (g(i := q')))
    (mput b t' (mput A0 (carried (before @ after) s) C))"
proof -
  note x = settingD [OF S]
  have ps: "P s" "mail adr m (on_leg st g q) s" using spreadD(1) [OF C s(1)] by blast+
  obtain i where i: "i \<in> on_leg st g q" "b = adr i" "req = marshalTell i m" "mail adr m (on_leg st g q - {i}) (carried (before @ after) s)"
    using mail_taken [OF ps(2) s(2)] by blast
  then have ii: "i \<in> set (keys (sensors st))" "g i = q" by (simp_all add: on_leg_iff del: set_map)
  have C1: "spread A0 adr (keys (sensors st)) (\<lambda>s. P s \<and> mail adr m (on_leg st g q - {i}) s) (sensors_at st X A0 gm g) (mput A0 (carried (before @ after) s) C)"
    using i(4) P [OF ps(1)] by (intro spread_mput_home [OF x(2) C]) simp
  have "at_leg st A0 gm (X i) q t" using spreadD(2) [OF C1 ii(1)] t(1) i(2) ii(2) by blast
  from leg_arrival [OF q this] have "at_leg st A0 gm (X i) q' t'" using t(2) i(3) x(4) [OF ii(1)] by auto
  then show ?thesis using i(1,2) by (intro exI [of _ i] conjI, simp, simp only: i(2), intro spread_mput_sensor [OF x(2) C1 ii(1)]) simp_all
qed

lemma home_can_deliver:
  assumes S: "setting n reg ca l d st X A0 adr c0"
    and C: "spread A0 adr (keys (sensors st)) (\<lambda>s. P s \<and> mail adr m (on_leg st g q) s) (sensors_at st X A0 gm g) C"
    and q: "takes st gm m q q'" and i: "i \<in> on_leg st g q"
  shows "\<exists>C'. dstep C C'"
proof -
  note x = settingD [OF S]
  have ii: "i \<in> set (keys (sensors st))" "g i = q" using i by (simp_all add: on_leg_iff del: set_map)
  obtain s where s: "mget C A0 = Some s" "mail adr m (on_leg st g q) s" by (rule spread_exists [OF C]) blast
  obtain before after where n: "network (world s) = before @ (adr i, marshalTell i m) # after" using mail_waits [OF s(2) i] by blast
  obtain t where t: "mget C (adr i) = Some t" "at_leg st A0 gm (X i) q t" using spread_sensor [OF C ii(1)] ii(2) by blast
  have "mget (mput A0 (carried (before @ after) s) C) (adr i) = Some t" using t(1) placedD(1) [OF x(2) ii(1)] by simp
  moreover obtain t' where "server_Tell init_registry (marshalTell i m) t = Done t'" using leg_arrival [OF q t(2)] x(4) [OF ii(1)] by auto
  ultimately show ?thesis by (rule dstep_deliver [OF s(1) n])
qed

text \<open>From a sensor: only its update, to the coordinator.\<close>

lemma leg_sends:
  assumes "at_leg st A0 gm x q s" "network (world s) = before @ (b, req) # after"
  shows "q = Sending \<and> before @ after = [] \<and> b = A0 \<and> req = marshalTell (coordID st) (update_msg st x) \<and> at_leg st A0 gm x Reported (carried (before @ after) s)"
proof -
  have "network (world s) = leg_net st A0 x q" using assms(1) unfolding at_leg_def by (elim siteD)
  then have n: "leg_net st A0 x q = before @ (b, req) # after" using assms(2) by simp
  then have q: "q = Sending" by (cases "q = Sending") (simp_all add: leg_net_def)
  then have f: "before = []" "after = []" "b = A0" "req = marshalTell (coordID st) (update_msg st x)"
    using n by (cases before; simp add: leg_net_def)+
  have "at_leg st A0 gm x Reported (carried (before @ after) s)" using assms(1) unfolding q f at_leg_def by (simp add: leg_net_def leg_go_def site_carried)
  with q f show ?thesis by simp
qed

lemma sensor_delivers:
  assumes S: "setting n reg ca l d st X A0 adr c0" and C: "spread A0 adr (keys (sensors st)) P (sensors_at st X A0 gm g) C"
    and i: "i \<in> set (keys (sensors st))" and s: "mget C (adr i) = Some s" "network (world s) = before @ (b, req) # after"
  shows "g i = Sending \<and> b = A0 \<and> req = marshalTell (coordID st) (update_msg st (X i)) \<and>
    spread A0 adr (keys (sensors st)) P (sensors_at st X A0 gm (g(i := Reported))) (mput (adr i) (carried (before @ after) s) C)"
proof -
  note x = settingD [OF S] and l = leg_sends [OF spreadD(2) [OF C i s(1)] s(2)]
  then have "at_leg st A0 gm (X i) Reported (carried (before @ after) s)" by blast
  then have "spread A0 adr (keys (sensors st)) P (sensors_at st X A0 gm (g(i := Reported))) (mput (adr i) (carried (before @ after) s) C)"
    by (intro spread_mput_sensor [OF x(2) C i]) simp_all
  with l show ?thesis by blast
qed

subsection \<open>Steps\<close>

definition lowers :: "string \<Rightarrow> (string \<Rightarrow> string) \<Rightarrow> sensor_factory CoordinatorActor \<Rightarrow> cluster \<Rightarrow> nat \<Rightarrow> nat \<Rightarrow> cluster \<Rightarrow> nat \<Rightarrow> nat \<Rightarrow> bool" where
  "lowers A0 adr st C' ph' w' C ph w \<longleftrightarrow> ph' < ph \<or> ph' = ph \<and> (w' < w \<or> w' = w \<and> pumps A0 adr (keys (sensors st)) C' < pumps A0 adr (keys (sensors st)) C)"

text \<open>Before the first turn of the coordinator.\<close>

lemma collecting_starts:
  assumes S: "setting n reg ca l d st X A0 adr c0" and C: "starting n reg st X A0 adr c0 C"
    and g: "models n reg s' c" "gathering n reg ca st X c0 t [] [] c" "mail adr (start_msg st) (set (keys (sensors st))) s'"
  shows "collecting_at n reg ca st X A0 adr c0 t (\<lambda>_. Requested) [] [] (mput A0 s' C)"
proof -
  note x = settingD [OF S]
  have on: "on_leg st (\<lambda>_. Requested) Requested = set (keys (sensors st))" "q \<noteq> Requested \<Longrightarrow> on_leg st (\<lambda>_. Requested) q = {}" for q
    by (auto simp: on_leg_def)
  show ?thesis
    unfolding collecting_at_def on(1)
  proof (intro conjI)
    show "spread A0 adr (keys (sensors st)) (\<lambda>s. (\<exists>c. models n reg s c \<and> gathering n reg ca st X c0 t [] [] c) \<and> mail adr (start_msg st) (set (keys (sensors st))) s)
        (sensors_at st X A0 (no_weights st) (\<lambda>_. Requested)) (mput A0 s' C)"
      using g by (intro spread_mput_home [OF x(2) C [unfolded starting_def]]) blast
  qed (use on(2) crewD(1) [OF deskD(6) [OF x(1)]] in simp_all)
qed

lemma starting_dstep:
  assumes S: "setting n reg ca l d st X A0 adr c0" and C: "starting n reg st X A0 adr c0 C" and step: "dstep C C'"
  shows "\<exists>ph w. round_at n reg ca l d st X A0 adr c0 {} ph w C' \<and> lowers A0 adr st C' ph w C 2 0"
proof -
  note x = settingD [OF S] and sp = C [unfolded starting_def]
  have stays: "?thesis" if "starting n reg st X A0 adr c0 C'" "pumps A0 adr (keys (sensors st)) C' < pumps A0 adr (keys (sensors st)) C"
    using round_atI(1) [OF that(1), of ca l d] that(2) by (auto simp: lowers_def)
  from step show ?thesis
  proof (cases rule: dstep_cases)
    case (here a s s')
    from spreadD(3) [OF sp here(1)] show ?thesis
    proof (elim disjE bexE)
      assume a: "a = A0"
      have s: "models n reg s c0" "network (world s) = []" using spreadD(1) [OF sp here(1) [unfolded a]] by blast+
      from desk_step [OF x(1) s here(2)] show ?thesis
      proof (elim disjE exE conjE)
        assume p: "models n reg s' c0" "network (world s') = []" "pumping s' < pumping s"
        have "starting n reg st X A0 adr c0 C'" unfolding starting_def here(3) a using p(1,2) by (intro spread_mput_home [OF x(2) sp]) simp
        moreover have "pumps A0 adr (keys (sensors st)) C' < pumps A0 adr (keys (sensors st)) C" unfolding here(3) by (rule pumps_less [OF here(1) p(3)]) (simp add: a)
        ultimately show ?thesis by (rule stays)
      next
        fix t c assume g: "models n reg s' c" "gathering n reg ca st X c0 t [] [] c" "mail adr (start_msg st) (set (keys (sensors st))) s'"
        have "collecting_at n reg ca st X A0 adr c0 t (\<lambda>_. Requested) [] [] C'" unfolding here(3) a by (rule collecting_starts [OF S C g])
        moreover have "absent st (\<lambda>_. Requested) = {}" by (simp add: absent_def on_leg_def)
        ultimately have "round_at n reg ca l d st X A0 adr c0 {} 1 (leg_sum st (\<lambda>_. Requested) + length ([] :: string list)) C'" by (rule round_atI(2))
        then show ?thesis
          by (intro exI [of _ 1] exI [of _ "leg_sum st (\<lambda>_. Requested) + length ([] :: string list)"] conjI) (simp_all add: lowers_def)
      qed
    next
      fix i assume i: "i \<in> set (keys (sensors st))" "a = adr i"
      from sensor_moves [OF S sp global_type i(1) here(1) [unfolded i(2)] here(2)] show ?thesis
        unfolding starting_def [symmetric] i(2) [symmetric] here(3) [symmetric] using stays by auto
    qed
  next
    case (deliver a s before b req after t t')
    from spreadD(3) [OF sp deliver(1)] show ?thesis
    proof (elim disjE bexE)
      assume "a = A0"
      then show ?thesis using spreadD(1) [OF sp] deliver(1,2) by auto
    next
      fix i assume "i \<in> set (keys (sensors st))" "a = adr i"
      then show ?thesis using sensor_delivers [OF S sp, of i s before b req after] deliver(1,2) by simp
    qed
  qed
qed

lemma collecting_atD:
  assumes "collecting_at n reg ca st X A0 adr c0 t g gi qi C"
  shows "spread A0 adr (keys (sensors st))
      (\<lambda>s. (\<exists>c. models n reg s c \<and> gathering n reg ca st X c0 t gi qi c) \<and> mail adr (start_msg st) (on_leg st g Requested) s)
      (sensors_at st X A0 (no_weights st) g) C"
    "on_leg st g Informed = {}" "on_leg st g Updated = {}" "distinct (gi @ qi)" "set (gi @ qi) = on_leg st g Reported" "length gi < length (sensors st)"
  using assms unfolding collecting_at_def by blast+

text \<open>When one update is missing and has arrived, nothing else is under way.\<close>

lemma collecting_last:
  assumes S: "setting n reg ca l d st X A0 adr c0" and C: "collecting_at n reg ca st X A0 adr c0 t g gi qi C" and m: "mail adr (start_msg st) (on_leg st g Requested) s"
  shows "length gi + 1 = length (sensors st) \<longrightarrow> qi \<noteq> [] \<longrightarrow> length qi = 1 \<and> network (world s) = []"
proof (intro impI)
  assume that: "length gi + 1 = length (sensors st)" "qi \<noteq> []"
  note x = settingD [OF S] and y = collecting_atD [OF C] and len = length_map [of fst "sensors st"]
  have sub: "set (gi @ qi) \<subseteq> set (keys (sensors st))" unfolding y(5) on_leg_def by blast
  have cd: "length (gi @ qi) = card (set (gi @ qi))" "card (set (keys (sensors st))) = length (sensors st)" using y(4) x(6) len by (metis distinct_card)+
  have "card (set (gi @ qi)) \<le> card (set (keys (sensors st)))" using sub by (intro card_mono) simp_all
  then have "length (gi @ qi) \<le> length (sensors st)" using cd by simp
  then have "length qi \<le> 1" using that(1) by simp
  then have one: "length qi = 1" using that(2) by (simp add: le_Suc_eq)
  then have "card (set (gi @ qi)) = card (set (keys (sensors st)))" using that(1) cd by simp
  then have "set (gi @ qi) = set (keys (sensors st))" using sub by (intro card_subset_eq) simp_all
  then have "g i \<noteq> Requested" if "i \<in> set (keys (sensors st))" for i using that on_leg_iff [of i st g Reported] unfolding y(5) by simp
  then have "on_leg st g Requested = {}" by (auto simp: on_leg_def simp del: set_map)
  then have "network (world s) = []" using m mail_empty by metis
  with one show "length qi = 1 \<and> network (world s) = []" by blast
qed

text \<open>A turn of the coordinator while it collects.\<close>

lemma collecting_home:
  assumes S: "setting n reg ca l d st X A0 adr c0" and C: "collecting_at n reg ca st X A0 adr c0 t g gi qi C"
    and s: "mget C A0 = Some s" "round_step s s'"
  shows "\<exists>ph w. round_at n reg ca l d st X A0 adr c0 (absent st g) ph w (mput A0 s' C) \<and> lowers A0 adr st (mput A0 s' C) ph w C 1 (leg_sum st g + length qi)"
proof -
  note x = settingD [OF S] and y = collecting_atD [OF C]
  obtain c where c: "models n reg s c" "gathering n reg ca st X c0 t gi qi c" "mail adr (start_msg st) (on_leg st g Requested) s"
    using spreadD(1) [OF y(1) s(1)] by blast
  have sub: "set (gi @ qi) \<subseteq> set (keys (sensors st))" unfolding y(5) on_leg_def by blast
  have keep: "collecting_at n reg ca st X A0 adr c0 t g gi' qi' (mput A0 s' C)"
    if "models n reg s' c'" "gathering n reg ca st X c0 t gi' qi' c'" "network (world s') = network (world s)" "gi' @ qi' = gi @ qi" "length gi' < length (sensors st)"
    for c' gi' qi'
    unfolding collecting_at_def
  proof (intro conjI)
    show "spread A0 adr (keys (sensors st))
      (\<lambda>s. (\<exists>c. models n reg s c \<and> gathering n reg ca st X c0 t gi' qi' c) \<and> mail adr (start_msg st) (on_leg st g Requested) s)
      (sensors_at st X A0 (no_weights st) g) (mput A0 s' C)"
      using that(1,2) c(3) mail_same [OF that(3)] by (intro spread_mput_home [OF x(2) y(1)]) blast
  qed (use that(4,5) y in simp_all)
  from gathering_step [OF x(1) c(1,2) sub y(4) s(2) collecting_last [OF S C c(3)] y(6)] show ?thesis
  proof (elim disjE exE conjE)
    assume p: "models n reg s' c" "network (world s') = network (world s)" "pumping s' < pumping s"
    have "pumps A0 adr (keys (sensors st)) (mput A0 s' C) < pumps A0 adr (keys (sensors st)) C" by (rule pumps_less [OF s(1) p(3)]) simp
    then show ?thesis using round_atI(2) [OF keep [OF p(1) c(2) p(2) refl y(6)] refl, of l d] by (auto simp: lowers_def)
  next
    fix i qi' c' assume p: "qi = i # qi'" "length (gi @ [i]) < length (sensors st)" "models n reg s' c'" "gathering n reg ca st X c0 t (gi @ [i]) qi' c'"
      "network (world s') = network (world s)"
    have "(gi @ [i]) @ qi' = gi @ qi" using p(1) by simp
    from round_atI(2) [OF keep [OF p(3,4,5) this p(2)] refl, of l d] show ?thesis using p(1) by (auto simp: lowers_def)
  next
    fix c' us agg ms assume p: "models n reg s' c'" "wrapped n reg ca l d st X c0 us agg ms c'" "mail adr (global_msg st us agg) (set (keys (sensors st))) s'"
      "set (gi @ qi) = set (keys (sensors st))"
    have on: "on_leg st g Reported = set (keys (sensors st))" using p(4) y(5) by simp
    have "at_leg st A0 (global_msg st us agg) (X i) (g i) s" if "i \<in> set (keys (sensors st))" "at_leg st A0 (no_weights st) (X i) (g i) s" for i s
      using that on by (simp add: at_leg_def on_leg_def set_eq_iff) (metis leg_view.simps(6))
    then have "spread A0 adr (keys (sensors st))
      (\<lambda>s. (\<exists>c. models n reg s c \<and> wrapped n reg ca l d st X c0 us agg ms c \<and> closing_work l d c' = closing_work l d c) \<and>
        mail adr (global_msg st us agg) (on_leg st g Reported) s)
      (sensors_at st X A0 (global_msg st us agg) g) (mput A0 s' C)"
      unfolding on using p(1-3) by (intro spread_mput_home [OF x(2)] spread_mono [OF y(1)]) blast+
    then have fin: "finishing_at n reg ca l d st X A0 adr c0 us agg ms g (closing_work l d c') (mput A0 s' C)"
      unfolding finishing_at_def using on y(2,3) by simp
    have "g i = Reported" if "i \<in> set (keys (sensors st))" for i using that on_leg_iff [of i st g Reported] unfolding on by simp
    then have "absent st g = {}" by (auto simp: absent_def on_leg_def simp del: set_map)
    moreover note fin
    ultimately show ?thesis using round_atI(3) [of n reg ca l d st X A0 adr c0 us agg ms g "closing_work l d c'" "mput A0 s' C"] by (auto simp: lowers_def)
  qed
qed

text \<open>A step of a sensor's process, and the deliveries.\<close>

lemma next_legs:
  assumes "next_leg p = Some q"
  shows "leg_work q < leg_work p" "p \<notin> {Requested, Reported}" "q \<notin> {Requested, Reported}" "q \<in> {Informed, Updated} \<longleftrightarrow> p = Informed"
    "{p, q} \<inter> {Missed, Unheard} = {}"
  using assms by (cases p; simp; fail | cases p; auto)+

lemma collecting_sensor:
  assumes S: "setting n reg ca l d st X A0 adr c0" and C: "collecting_at n reg ca st X A0 adr c0 t g gi qi C"
    and i: "i \<in> set (keys (sensors st))" and s: "mget C (adr i) = Some s" "round_step s s'"
  shows "\<exists>ph w. round_at n reg ca l d st X A0 adr c0 (absent st g) ph w (mput (adr i) s' C) \<and> lowers A0 adr st (mput (adr i) s' C) ph w C 1 (leg_sum st g + length qi)"
proof -
  note x = settingD [OF S] and y = collecting_atD [OF C]
  from sensor_moves [OF S y(1) global_type i s] show ?thesis
  proof (elim disjE exE conjE)
    assume p: "spread A0 adr (keys (sensors st))
        (\<lambda>s. (\<exists>c. models n reg s c \<and> gathering n reg ca st X c0 t gi qi c) \<and> mail adr (start_msg st) (on_leg st g Requested) s)
        (sensors_at st X A0 (no_weights st) g) (mput (adr i) s' C)"
      "pumps A0 adr (keys (sensors st)) (mput (adr i) s' C) < pumps A0 adr (keys (sensors st)) C"
    have "collecting_at n reg ca st X A0 adr c0 t g gi qi (mput (adr i) s' C)" unfolding collecting_at_def using p(1) y(2-) by (intro conjI)
    from round_atI(2) [OF this refl] p(2) show ?thesis by (auto simp: lowers_def)
  next
    fix q assume p: "next_leg (g i) = Some q" "spread A0 adr (keys (sensors st))
        (\<lambda>s. (\<exists>c. models n reg s c \<and> gathering n reg ca st X c0 t gi qi c) \<and> mail adr (start_msg st) (on_leg st g Requested) s)
        (sensors_at st X A0 (no_weights st) (g(i := q))) (mput (adr i) s' C)"
    note q = next_legs [OF p(1)]
    have "g i \<noteq> Informed" using y(2) i by (auto simp: on_leg_def simp del: set_map)
    then have q4: "q \<noteq> Informed" "q \<noteq> Updated" using q(4) by auto
    have on: "on_leg st (g(i := q)) r = on_leg st g r" if "r \<in> {Requested, Reported}" for r
      using that q(2,3) by (auto simp: on_leg_def)
    have "collecting_at n reg ca st X A0 adr c0 t (g(i := q)) gi qi (mput (adr i) s' C)"
      unfolding collecting_at_def
    proof (intro conjI)
      show "on_leg st (g(i := q)) Informed = {}" "on_leg st (g(i := q)) Updated = {}" using y(2,3) q4 by (auto simp: on_leg_def)
    qed (use p(2) y(4-) on in simp_all)
    moreover have "absent st (g(i := q)) = absent st g" using q(5) by (auto simp: absent_def on_leg_def)
    ultimately have "round_at n reg ca l d st X A0 adr c0 (absent st g) 1 (leg_sum st (g(i := q)) + length qi) (mput (adr i) s' C)" by (rule round_atI(2))
    then show ?thesis using leg_sum_upd [OF i, of g q] q(1) by (fastforce simp: lowers_def)
  qed
qed

lemma finishing_atD:
  assumes "finishing_at n reg ca l d st X A0 adr c0 us agg ms g k C"
  shows "spread A0 adr (keys (sensors st))
      (\<lambda>s. (\<exists>c. models n reg s c \<and> wrapped n reg ca l d st X c0 us agg ms c \<and> k = closing_work l d c) \<and> mail adr (global_msg st us agg) (on_leg st g Reported) s)
      (sensors_at st X A0 (global_msg st us agg) g) C"
    "set (keys (sensors st)) = on_leg st g Reported \<union> on_leg st g Informed \<union> on_leg st g Updated"
  using assms unfolding finishing_at_def by blast+

lemma collecting_sends:
  assumes S: "setting n reg ca l d st X A0 adr c0" and C: "collecting_at n reg ca st X A0 adr c0 t g gi qi C"
    and s: "mget C A0 = Some s" "network (world s) = before @ (b, req) # after"
    and t: "mget (mput A0 (carried (before @ after) s) C) b = Some t0" "server_Tell init_registry req t0 = Done t'"
  shows "\<exists>ph w. round_at n reg ca l d st X A0 adr c0 (absent st g) ph w (mput b t' (mput A0 (carried (before @ after) s) C)) \<and>
    lowers A0 adr st (mput b t' (mput A0 (carried (before @ after) s) C)) ph w C 1 (leg_sum st g + length qi)"
proof -
  note x = settingD [OF S] and y = collecting_atD [OF C]
  have P: "\<exists>c. models n reg (carried reqs s) c \<and> gathering n reg ca st X c0 t gi qi c" if "\<exists>c. models n reg s c \<and> gathering n reg ca st X c0 t gi qi c" for s reqs
    using that models_carried by blast
  from home_delivers [OF S y(1) P takes_simps(1) s(1) s(2) t] obtain i where
    i: "i \<in> on_leg st g Requested" "spread A0 adr (keys (sensors st))
      (\<lambda>s. (\<exists>c. models n reg s c \<and> gathering n reg ca st X c0 t gi qi c) \<and> mail adr (start_msg st) (on_leg st g Requested - {i}) s)
      (sensors_at st X A0 (no_weights st) (g(i := Asked))) (mput b t' (mput A0 (carried (before @ after) s) C))" by blast
  have ii: "i \<in> set (keys (sensors st))" "g i = Requested" using i(1) by (simp_all add: on_leg_iff del: set_map)
  have "collecting_at n reg ca st X A0 adr c0 t (g(i := Asked)) gi qi (mput b t' (mput A0 (carried (before @ after) s) C))"
    unfolding collecting_at_def using i(2) y(2-6) ii(2) by (simp add: on_leg_upd [OF ii(1)]) (auto simp: on_leg_def)
  moreover have "absent st (g(i := Asked)) = absent st g" using ii(2) by (auto simp: absent_def on_leg_def)
  ultimately have "round_at n reg ca l d st X A0 adr c0 (absent st g) 1 (leg_sum st (g(i := Asked)) + length qi) (mput b t' (mput A0 (carried (before @ after) s) C))" by (rule round_atI(2))
  then show ?thesis using leg_sum_upd [OF ii(1), of g Asked] ii(2) by (fastforce simp: lowers_def)
qed

lemma collecting_receives:
  assumes S: "setting n reg ca l d st X A0 adr c0" and C: "collecting_at n reg ca st X A0 adr c0 t g gi qi C"
    and i: "i \<in> set (keys (sensors st))"
    and s: "mget C (adr i) = Some s" "network (world s) = before @ (b, req) # after"
    and t: "mget (mput (adr i) (carried (before @ after) s) C) b = Some t0" "server_Tell init_registry req t0 = Done t'"
  shows "\<exists>ph w. round_at n reg ca l d st X A0 adr c0 (absent st g) ph w (mput b t' (mput (adr i) (carried (before @ after) s) C)) \<and>
    lowers A0 adr st (mput b t' (mput (adr i) (carried (before @ after) s) C)) ph w C 1 (leg_sum st g + length qi)"
proof -
  note x = settingD [OF S] and y = collecting_atD [OF C]
  note dv = sensor_delivers [OF S y(1) i s(1) s(2)]
  let ?C1 = "mput (adr i) (carried (before @ after) s) C"
  have C1: "spread A0 adr (keys (sensors st))
      (\<lambda>s. (\<exists>c. models n reg s c \<and> gathering n reg ca st X c0 t gi qi c) \<and> mail adr (start_msg st) (on_leg st g Requested) s)
      (sensors_at st X A0 (no_weights st) (g(i := Reported))) ?C1" using dv by blast
  have b: "b = A0" "req = marshalTell (coordID st) (update_msg st (X i))" "g i = Sending" using dv by blast+
  have t1: "mget ?C1 A0 = Some t0" using t(1) b(1) by simp
  obtain c where c: "models n reg t0 c" "gathering n reg ca st X c0 t gi qi c" "mail adr (start_msg st) (on_leg st g Requested) t0"
    using spreadD(1) [OF C1 t1] by blast
  have on: "on_leg st g Requested - {i} = on_leg st g Requested" using b(3) by (auto simp: on_leg_def)
  have ni: "i \<notin> set (gi @ qi)" unfolding y(5) on_leg_iff using b(3) by simp
  then have ni': "i \<notin> set gi" "i \<notin> set qi" by simp_all
  have "set (i # gi @ qi) \<subseteq> set (keys (sensors st))" using i y(5) by (auto simp: on_leg_def simp del: set_map)
  then have "card (set (i # gi @ qi)) \<le> card (set (keys (sensors st)))" by (intro card_mono) simp_all
  moreover have "card (set (i # gi @ qi)) = Suc (length (gi @ qi))" using y(4) ni distinct_card [of "i # gi @ qi"] by simp
  moreover have "card (set (keys (sensors st))) \<le> DefaultMailboxSize" using card_length [of "keys (sensors st)"] deskD(7) [OF x(1)] by simp
  ultimately have "length qi < DefaultMailboxSize" by simp
  from gathering_arrival [OF x(1) c(1,2) this, of i] obtain c' where c': "models n reg t' c'" "gathering n reg ca st X c0 t gi (qi @ [i]) c'"
      "network (world t') = network (world t0)" using t(2) b(2) by auto
  have "spread A0 adr (keys (sensors st))
      (\<lambda>s. (\<exists>c. models n reg s c \<and> gathering n reg ca st X c0 t gi (qi @ [i]) c) \<and> mail adr (start_msg st) (on_leg st g Requested) s)
      (sensors_at st X A0 (no_weights st) (g(i := Reported))) (mput A0 t' ?C1)"
    using c'(1,2) c(3) mail_same [OF c'(3)] by (intro spread_mput_home [OF x(2) C1]) blast
  then have "collecting_at n reg ca st X A0 adr c0 t (g(i := Reported)) gi (qi @ [i]) (mput A0 t' ?C1)"
    unfolding collecting_at_def using y(2-6) ni' on by (simp add: on_leg_upd [OF i])
  moreover have "absent st (g(i := Reported)) = absent st g" using b(3) by (auto simp: absent_def on_leg_def)
  ultimately have "round_at n reg ca l d st X A0 adr c0 (absent st g) 1 (leg_sum st (g(i := Reported)) + length (qi @ [i])) (mput A0 t' ?C1)" by (rule round_atI(2))
  then show ?thesis using leg_sum_upd [OF i, of g Reported] b(1,3) by (fastforce simp: lowers_def)
qed

text \<open>While the round is finished.\<close>

lemma finishing_legs:
  assumes "finishing_at n reg ca l d st X A0 adr c0 us agg ms g k C" "i \<in> set (keys (sensors st))"
  shows "g i \<in> {Reported, Informed, Updated}"
proof -
  have "i \<in> on_leg st g Reported \<union> on_leg st g Informed \<union> on_leg st g Updated" using assms(2) unfolding finishing_atD(2) [OF assms(1)] .
  then show ?thesis by (elim UnE) (simp_all add: on_leg_iff)
qed

lemma finishing_home:
  assumes S: "setting n reg ca l d st X A0 adr c0" and C: "finishing_at n reg ca l d st X A0 adr c0 us agg ms g k C"
    and s: "mget C A0 = Some s" "round_step s s'"
  shows "\<exists>w. round_at n reg ca l d st X A0 adr c0 {} 0 w (mput A0 s' C) \<and> lowers A0 adr st (mput A0 s' C) 0 w C 0 (leg_sum st g + k)"
proof -
  note x = settingD [OF S] and y = finishing_atD [OF C]
  let ?P = "\<lambda>k s. \<exists>c. models n reg s c \<and> wrapped n reg ca l d st X c0 us agg ms c \<and> k = closing_work l d c"
  obtain c where c: "models n reg s c" "wrapped n reg ca l d st X c0 us agg ms c" "k = closing_work l d c" "mail adr (global_msg st us agg) (on_leg st g Reported) s"
    using spreadD(1) [OF y(1) s(1)] by blast
  obtain c' where c': "models n reg s' c'" "wrapped n reg ca l d st X c0 us agg ms c'" "network (world s') = network (world s)"
      "closing_work l d c' < closing_work l d c \<or> c' = c \<and> pumping s' < pumping s" using wrapped_step [OF x(1) c(1,2) s(2)] by blast
  have "spread A0 adr (keys (sensors st)) (\<lambda>s. ?P (closing_work l d c') s \<and> mail adr (global_msg st us agg) (on_leg st g Reported) s)
      (sensors_at st X A0 (global_msg st us agg) g) (mput A0 s' C)"
    using c'(1,2) c(4) mail_same [OF c'(3)] by (intro spread_mput_home [OF x(2) y(1)]) blast
  then have "finishing_at n reg ca l d st X A0 adr c0 us agg ms g (closing_work l d c') (mput A0 s' C)" unfolding finishing_at_def using y(2) by blast
  moreover have "pumping s' < pumping s \<Longrightarrow> pumps A0 adr (keys (sensors st)) (mput A0 s' C) < pumps A0 adr (keys (sensors st)) C"
    by (rule pumps_less [OF s(1)]) simp_all
  ultimately show ?thesis using round_atI(3) c'(4) c(3) by (fastforce simp: lowers_def)
qed

lemma finishing_sensor:
  assumes S: "setting n reg ca l d st X A0 adr c0" and C: "finishing_at n reg ca l d st X A0 adr c0 us agg ms g k C"
    and i: "i \<in> set (keys (sensors st))" and s: "mget C (adr i) = Some s" "round_step s s'"
  shows "\<exists>w. round_at n reg ca l d st X A0 adr c0 {} 0 w (mput (adr i) s' C) \<and> lowers A0 adr st (mput (adr i) s' C) 0 w C 0 (leg_sum st g + k)"
proof -
  note x = settingD [OF S] and y = finishing_atD [OF C]
  note ids = finishing_legs [OF C]
  let ?P = "\<lambda>k s. \<exists>c. models n reg s c \<and> wrapped n reg ca l d st X c0 us agg ms c \<and> k = closing_work l d c"
  from sensor_moves [OF S y(1) global_type i s] show ?thesis
  proof (elim disjE exE conjE)
    assume p: "spread A0 adr (keys (sensors st)) (\<lambda>s. ?P k s \<and> mail adr (global_msg st us agg) (on_leg st g Reported) s)
        (sensors_at st X A0 (global_msg st us agg) g) (mput (adr i) s' C)" "pumps A0 adr (keys (sensors st)) (mput (adr i) s' C) < pumps A0 adr (keys (sensors st)) C"
    then have "finishing_at n reg ca l d st X A0 adr c0 us agg ms g k (mput (adr i) s' C)" unfolding finishing_at_def using y(2) by blast
    from round_atI(3) [OF this] p(2) show ?thesis by (auto simp: lowers_def)
  next
    fix q assume p: "next_leg (g i) = Some q" "spread A0 adr (keys (sensors st)) (\<lambda>s. ?P k s \<and> mail adr (global_msg st us agg) (on_leg st g Reported) s)
        (sensors_at st X A0 (global_msg st us agg) (g(i := q))) (mput (adr i) s' C)"
    then have q: "g i = Informed" "q = Updated" using ids [OF i] by auto
    then have "on_leg st (g(i := q)) Reported = on_leg st g Reported" by (auto simp: on_leg_def)
    moreover have "set (keys (sensors st)) = on_leg st (g(i := q)) Reported \<union> on_leg st (g(i := q)) Informed \<union> on_leg st (g(i := q)) Updated"
      using ids q(2) by (auto simp: on_leg_def simp del: set_map)
    ultimately have "finishing_at n reg ca l d st X A0 adr c0 us agg ms (g(i := q)) k (mput (adr i) s' C)" unfolding finishing_at_def using p(2) by simp
    from round_atI(3) [OF this] leg_sum_upd [OF i, of g q] q show ?thesis by (fastforce simp: lowers_def)
  qed
qed

lemma finishing_sends:
  assumes S: "setting n reg ca l d st X A0 adr c0" and C: "finishing_at n reg ca l d st X A0 adr c0 us agg ms g k C"
    and s: "mget C A0 = Some s" "network (world s) = before @ (b, req) # after"
    and t: "mget (mput A0 (carried (before @ after) s) C) b = Some t0" "server_Tell init_registry req t0 = Done t'"
  shows "\<exists>w. round_at n reg ca l d st X A0 adr c0 {} 0 w (mput b t' (mput A0 (carried (before @ after) s) C)) \<and> lowers A0 adr st (mput b t' (mput A0 (carried (before @ after) s) C)) 0 w C 0 (leg_sum st g + k)"
proof -
  note x = settingD [OF S] and y = finishing_atD [OF C]
  note ids = finishing_legs [OF C]
  let ?P = "\<lambda>k s. \<exists>c. models n reg s c \<and> wrapped n reg ca l d st X c0 us agg ms c \<and> k = closing_work l d c"
  have P: "?P k (carried reqs s)" if "?P k s" for s reqs using that models_carried by blast
  from home_delivers [OF S y(1) P takes_simps(2) s t] obtain i where
    i: "i \<in> on_leg st g Reported" "spread A0 adr (keys (sensors st)) (\<lambda>s. ?P k s \<and> mail adr (global_msg st us agg) (on_leg st g Reported - {i}) s)
      (sensors_at st X A0 (global_msg st us agg) (g(i := Informed))) (mput b t' (mput A0 (carried (before @ after) s) C))" by blast
  have ii: "i \<in> set (keys (sensors st))" "g i = Reported" using i(1) by (simp_all add: on_leg_iff del: set_map)
  have "set (keys (sensors st)) = on_leg st (g(i := Informed)) Reported \<union> on_leg st (g(i := Informed)) Informed \<union> on_leg st (g(i := Informed)) Updated"
    using ids by (auto simp: on_leg_def simp del: set_map)
  then have "finishing_at n reg ca l d st X A0 adr c0 us agg ms (g(i := Informed)) k (mput b t' (mput A0 (carried (before @ after) s) C))"
    unfolding finishing_at_def using i(2) by (simp add: on_leg_upd [OF ii(1), of _ _ Reported])
  from round_atI(3) [OF this] leg_sum_upd [OF ii(1), of g Informed] ii(2) show ?thesis by (fastforce simp: lowers_def)
qed

lemma finishing_dstep:
  assumes S: "setting n reg ca l d st X A0 adr c0" and C: "finishing_at n reg ca l d st X A0 adr c0 us agg ms g k C" and step: "dstep C C'"
  shows "\<exists>w. round_at n reg ca l d st X A0 adr c0 {} 0 w C' \<and> lowers A0 adr st C' 0 w C 0 (leg_sum st g + k)"
proof -
  note x = settingD [OF S] and y = finishing_atD [OF C]
  from step show ?thesis
  proof (cases rule: dstep_cases)
    case (here a s s')
    from spreadD(3) [OF y(1) here(1)] show ?thesis
      using finishing_home [OF S C] finishing_sensor [OF S C] here by (elim disjE bexE) simp_all
  next
    case (deliver a s before b req after t t')
    from spreadD(3) [OF y(1) deliver(1)] show ?thesis
    proof (elim disjE bexE)
      assume "a = A0"
      then show ?thesis using finishing_sends [OF S C] deliver by simp
    next
      fix i assume i: "i \<in> set (keys (sensors st))" "a = adr i"
      then have "g i = Sending" using sensor_delivers [OF S y(1) i(1) deliver(1) [unfolded i(2)] deliver(2)] by blast
      then show ?thesis using finishing_legs [OF C i(1)] by simp
    qed
  qed
qed

lemma round_dstep:
  assumes S: "setting n reg ca l d st X A0 adr c0" and I: "round_at n reg ca l d st X A0 adr c0 M ph w C" and step: "dstep C C'"
  shows "\<exists>ph' w'. round_at n reg ca l d st X A0 adr c0 M ph' w' C' \<and> lowers A0 adr st C' ph' w' C ph w"
proof -
  consider "ph = 2" "w = 0" "M = {}" "starting n reg st X A0 adr c0 C"
    | t g gi qi where "ph = 1" "collecting_at n reg ca st X A0 adr c0 t g gi qi C" "w = leg_sum st g + length qi" "absent st g = M"
    | us agg ms g k where "ph = 0" "finishing_at n reg ca l d st X A0 adr c0 us agg ms g k C" "w = leg_sum st g + k" "M = {}"
    using I unfolding round_at_def by blast
  then show ?thesis
  proof cases
    case 1
    then show ?thesis using starting_dstep [OF S 1(4) step] by simp
  next
    case 2
    from step show ?thesis
    proof (cases rule: dstep_cases)
      case (here a s s')
      from spreadD(3) [OF collecting_atD(1) [OF 2(2)] here(1)] show ?thesis
        using collecting_home [OF S 2(2)] collecting_sensor [OF S 2(2)] here 2(1,3,4) by (elim disjE bexE) simp_all
    next
      case (deliver a s before b req after t t')
      from spreadD(3) [OF collecting_atD(1) [OF 2(2)] deliver(1)] show ?thesis
        using collecting_sends [OF S 2(2)] collecting_receives [OF S 2(2)] deliver 2(1,3,4) by (elim disjE bexE) simp_all
    qed
  next
    case 3
    then show ?thesis using finishing_dstep [OF S 3(2) step] by blast
  qed
qed

section \<open>Progress\<close>

lemma sensor_possible:
  assumes S: "setting n reg ca l d st X A0 adr c0" and C: "spread A0 adr (keys (sensors st)) P (sensors_at st X A0 gm g) C"
    and gm: "MsgType gm = MsgGlobalModelUpdate" and i: "i \<in> set (keys (sensors st))" "next_leg (g i) \<noteq> None"
  shows "\<exists>C'. dstep C C'"
proof -
  note x = settingD [OF S]
  obtain s where s: "mget C (adr i) = Some s" "at_leg st A0 gm (X i) (g i) s" by (rule spread_sensor [OF C i(1)])
  obtain q where "next_leg (g i) = Some q" using i(2) by blast
  from leg_possible [OF x(3) [OF i(1)] x(5) gm s(2) this] show ?thesis using dstep_here [OF s(1)] by blast
qed

lemma home_possible: "mget C A0 = Some s \<Longrightarrow> \<exists>s'. round_step s s' \<Longrightarrow> \<exists>C'. dstep C C'"
  using dstep_here by blast

lemma collecting_at_progress:
  assumes S: "setting n reg ca l d st X A0 adr c0" and C: "collecting_at n reg ca st X A0 adr c0 t g gi qi C" and A: "absent st g = {}"
  shows "\<exists>C'. dstep C C'"
proof -
  note x = settingD [OF S] and y = collecting_atD [OF C]
  obtain s where s: "mget C A0 = Some s" "(\<exists>c. models n reg s c \<and> gathering n reg ca st X c0 t gi qi c) \<and> mail adr (start_msg st) (on_leg st g Requested) s"
    by (rule spread_exists [OF y(1)])
  then obtain c where c: "models n reg s c" "gathering n reg ca st X c0 t gi qi c" by blast
  have sub: "set (gi @ qi) \<subseteq> set (keys (sensors st))" unfolding y(5) on_leg_def by blast
  have A: "on_leg st g Missed = {}" "on_leg st g Unheard = {}" using A by (simp_all add: absent_def)
  consider i where "i \<in> on_leg st g Requested" | i where "i \<in> set (keys (sensors st))" "next_leg (g i) \<noteq> None"
    | i where "i \<in> set (keys (sensors st))" "g i = Sending" | "\<And>i. i \<in> set (keys (sensors st)) \<Longrightarrow> i \<in> on_leg st g Reported"
  proof -
    have "g i = Requested \<or> next_leg (g i) \<noteq> None \<or> g i = Sending \<or> g i = Reported" if "i \<in> set (keys (sensors st))" for i
      using off_leg [OF y(2) that] off_leg [OF y(3) that] off_leg [OF A(1) that] off_leg [OF A(2) that] by (cases "g i") simp_all
    then show ?thesis using that on_leg_iff by metis
  qed
  then show ?thesis
  proof cases
    case 1
    then show ?thesis by (rule home_can_deliver [OF S y(1) takes_simps(1)])
  next
    case 2
    then show ?thesis by (rule sensor_possible [OF S y(1) global_type])
  next
    case 3
    obtain r where r: "mget C (adr i) = Some r" "at_leg st A0 (no_weights st) (X i) (g i) r" by (rule spread_sensor [OF y(1) 3(1)])
    then have n: "network (world r) = [] @ (A0, marshalTell (coordID st) (update_msg st (X i))) # []"
      using 3(2) by (auto simp: at_leg_def leg_net_def elim: siteD)
    have "i \<notin> set (gi @ qi)" unfolding y(5) on_leg_iff using 3(2) by simp
    then have "distinct (i # gi @ qi)" "set (i # gi @ qi) \<subseteq> set (keys (sensors st))" using y(4) sub 3(1) by simp_all
    then have "length (i # gi @ qi) \<le> card (set (keys (sensors st)))" by (metis card_mono distinct_card finite_set)
    moreover have "card (set (keys (sensors st))) \<le> DefaultMailboxSize" using card_length [of "keys (sensors st)"] deskD(7) [OF x(1)] by simp
    ultimately have "length qi < DefaultMailboxSize" by simp
    from gathering_arrival [OF x(1) c this, of i] obtain s' where "server_Tell init_registry (marshalTell (coordID st) (update_msg st (X i))) s = Done s'" by blast
    moreover have "mget (mput (adr i) (carried ([] @ []) r) C) A0 = Some s" using s(1) placedD(1) [OF x(2) 3(1)] by simp
    ultimately show ?thesis using dstep_deliver [OF r(1) n] by blast
  next
    case 4
    then have "set (gi @ qi) = set (keys (sensors st))" using sub unfolding y(5) by blast
    then have "length (gi @ qi) = length (keys (sensors st))" using y(4) x(6) by (metis distinct_card)
    then have "qi \<noteq> []" using y(6) by auto
    from gathering_possible [OF x(1) c sub y(4) collecting_last [OF S C] y(6) this] s show ?thesis using home_possible by blast
  qed
qed

section \<open>The end of the round\<close>

text \<open>
  The round is over: coordinator, logger and device controller as in \<open>Round\<close>; every sensor is idle, with the new weights if they are finite numbers, and otherwise with those that it
  trained from; no message is left anywhere.
\<close>

definition cluster_over :: "string \<Rightarrow> (string \<Rightarrow> string) \<Rightarrow> nat \<Rightarrow> nat \<Rightarrow> nat \<Rightarrow> sensor_factory CoordinatorActor \<Rightarrow> (string \<Rightarrow> SensorActor) \<Rightarrow> cluster \<Rightarrow> bool" where
  "cluster_over A0 adr ca l d st X C \<longleftrightarrow> (\<exists>us agg ms s.
    mset us = mset (map (\<lambda>i. update_of st (X i)) (keys (sensors st))) \<and> averages us agg \<and> mget C A0 = Some s \<and>
    (\<exists>st'. actor (ent s ca) = ACoordinator st' \<and> roundNo st' = next_round st \<and> globalWeights st' = SList agg) \<and>
    (\<exists>lg. actor (ent s l) = ALogger lg \<and> LastRound lg = Some (report st us ms)) \<and>
    (\<exists>dv tt th tb. actor (ent s d) = ADevice dv \<and> infer_targets (\<lambda>_. 0) agg = Some (tt, th, tb) \<and> GetDeviceValue ''all'' ''temperature'' dv = Some tt \<and>
      GetDeviceValue ''all'' ''humidity'' dv = Some th \<and> GetDeviceValue ''all'' ''light'' dv = Some tb) \<and>
    (\<forall>a<length (heap s). phase (ent s a) = Running \<and> contents (mbox (ent s a)) = []) \<and> network (world s) = [] \<and>
    (\<forall>i\<in>set (keys (sensors st)). \<exists>r x. mget C (adr i) = Some r \<and> actor (ent r 0) = ASensor x \<and> phase (ent r 0) = Running \<and> state x = ''idle'' \<and>
      weights x = (if list_all finite_f64 agg \<and> finite_f64 (avg_loss (sum_samples (map pNumSamples us)) us) then SList agg else globalWeights st) \<and>
      contents (mbox (ent r 0)) = [] \<and> network (world r) = []))"

text \<open>The sensor takes the weights that arrive.\<close>

lemma renewed_weights:
  assumes "sensor_fit st x"
  shows "state (renewed st (global_msg st us agg) x) = ''idle'' \<and>
    weights (renewed st (global_msg st us agg) x) = (if list_all finite_f64 agg \<and> finite_f64 (avg_loss (sum_samples (map pNumSamples us)) us) then SList agg else globalWeights st)"
proof -
  let ?loss = "avg_loss (sum_samples (map pNumSamples us)) us"
  let ?p = "GlobalModelUpdatePayload (next_round st) (SList agg) ?loss :: sensor_factory payload"
  have w: "weights (reported_state st x) = globalWeights st" "state (reported_state st x) = ''idle''"
    using result_returns [OF assms] by (auto simp: reported_state_def in_training_def)
  show ?thesis
  proof (cases "list_all finite_f64 agg \<and> finite_f64 ?loss")
    case True
    then have "json_safe ?p" by (simp add: json_safe_def next_round_def list_all_length)
    then have "Payload (arrives (global_msg st us agg)) = Dyn ?p" by (simp add: global_msg_def mkMessage_def arrives_payload)
    then show ?thesis using True w by (simp add: renewed_def handleGlobalModelUpdate_def castPayload_def)
  next
    case False
    have "marshal_list TFloat (map VFloat ws) = None" if "\<not> list_all finite_f64 ws" for ws
      using that by (induction ws) (auto simp: bind_eq_None_conv)
    then have "marshal_payload ?p = None" using False by (auto simp: bind_eq_None_conv)
    then have "castPayload PGlobalModelUpdate (Payload (arrives (global_msg st us agg))) = None"
      by (simp add: global_msg_def mkMessage_def arrives_nil castPayload_def)
    then show ?thesis using False w by (auto simp: renewed_def handleGlobalModelUpdate_def)
  qed
qed

lemma finishing_at_over:
  assumes S: "setting n reg ca l d st X A0 adr c0" and C: "finishing_at n reg ca l d st X A0 adr c0 us agg ms g k C" and stuck: "\<nexists>C'. dstep C C'"
  shows "cluster_over A0 adr ca l d st X C"
proof -
  note x = settingD [OF S] and y = finishing_atD [OF C] and b = deskD [OF settingD(1) [OF S]]
  have "on_leg st g Reported = {}" using home_can_deliver [OF S y(1) takes_simps(2)] stuck by blast
  moreover have "on_leg st g Informed = {}"
    using sensor_possible [OF S y(1) global_type] stuck on_leg_iff by (metis equals0I next_leg.simps(4) option.distinct(1))
  ultimately have up: "g i = Updated" if "i \<in> set (keys (sensors st))" for i using that y(2) on_leg_iff by blast
  obtain s where s: "mget C A0 = Some s" "(\<exists>c. models n reg s c \<and> wrapped n reg ca l d st X c0 us agg ms c \<and> k = closing_work l d c) \<and> mail adr (global_msg st us agg) (on_leg st g Reported) s"
    by (rule spread_exists [OF y(1)])
  then obtain c where c: "models n reg s c" "wrapped n reg ca l d st X c0 us agg ms c" by blast
  have net: "network (world s) = []" using s(2) \<open>on_leg st g Reported = {}\<close> mail_empty by metis
  note act = modelsD(5) [OF c(1)] and cl = wrappedD(1) [OF c(2)]
  have E: "cq c a = []" if "a < n" for a using wrapped_possible [OF x(1) c that] home_possible [OF s(1)] stuck by blast
  have us: "mset us = mset (map (\<lambda>i. update_of st (X i)) (keys (sensors st)))" "averages us agg"
    "\<exists>st'. cact c ca = ACoordinator st' \<and> roundNo st' = next_round st \<and> globalWeights st' = SList agg"
    using c(2) by (auto simp: wrapped_def view_def started_def)
  have "\<exists>lg. actor (ent s l) = ALogger lg \<and> LastRound lg = Some (report st us ms)"
  proof -
    obtain lg lg' where "cact c l = ALogger lg'" "Rounds lg' = Rounds lg @ [report st us ms]" using closingD(1) [OF cl] E b(11) by auto
    then show ?thesis using act [OF b(11)] by (intro exI [of _ lg']) (simp add: LastRound_def Rounds_def)
  qed
  moreover have "\<exists>dv tt th tb. actor (ent s d) = ADevice dv \<and> infer_targets (\<lambda>_. 0) agg = Some (tt, th, tb) \<and> GetDeviceValue ''all'' ''temperature'' dv = Some tt \<and>
      GetDeviceValue ''all'' ''humidity'' dv = Some th \<and> GetDeviceValue ''all'' ''light'' dv = Some tb"
    using closingD(4) [OF cl] act [OF b(14)] E b(14) by auto
  moreover have "phase (ent s a) = Running \<and> contents (mbox (ent s a)) = []" if "a < length (heap s)" for a
    using modelsD(1,4,7) [OF c(1)] E that by (simp add: ready_def)
  moreover have "\<exists>st'. actor (ent s ca) = ACoordinator st' \<and> roundNo st' = next_round st \<and> globalWeights st' = SList agg" using us(3) act [OF b(4)] by simp
  moreover have "\<exists>r x. mget C (adr i) = Some r \<and> actor (ent r 0) = ASensor x \<and> phase (ent r 0) = Running \<and> state x = ''idle'' \<and>
      weights x = (if list_all finite_f64 agg \<and> finite_f64 (avg_loss (sum_samples (map pNumSamples us)) us) then SList agg else globalWeights st) \<and>
      contents (mbox (ent r 0)) = [] \<and> network (world r) = []" if i: "i \<in> set (keys (sensors st))" for i
  proof -
    obtain r where r: "mget C (adr i) = Some r" "at_leg st A0 (global_msg st us agg) (X i) (g i) r" by (rule spread_sensor [OF y(1) i])
    then have "site (sensorID (X i)) (ASensor (renewed st (global_msg st us agg) (X i)), [], []) [] [] r" using up [OF i] by (simp add: leg_simps)
    then obtain c' where c': "models 1 [(sensorID (X i), 0)] r c'" "view c' 0 = (ASensor (renewed st (global_msg st us agg) (X i)), [], [])" "network (world r) = []"
      by (rule siteD)
    have "actor (ent r 0) = ASensor (renewed st (global_msg st us agg) (X i))" "phase (ent r 0) = Running" "contents (mbox (ent r 0)) = []"
      using modelsD(4,5,7) [OF c'(1), of 0] viewD [OF c'(2)] by (simp_all add: ready_def)
    moreover have "sensor_fit st (X i)" using x(3) [OF i] by (simp add: remote_fit_def)
    ultimately show ?thesis using r(1) c'(3) renewed_weights [of st "X i" us agg] by blast
  qed
  ultimately show ?thesis unfolding cluster_over_def using us(1,2) s(1) net by blast
qed

lemma stuck_cluster_over:
  assumes S: "setting n reg ca l d st X A0 adr c0" and I: "round_at n reg ca l d st X A0 adr c0 {} ph w C" and stuck: "\<nexists>C'. dstep C C'"
  shows "cluster_over A0 adr ca l d st X C"
proof -
  consider "starting n reg st X A0 adr c0 C"
    | t g gi qi where "collecting_at n reg ca st X A0 adr c0 t g gi qi C" "absent st g = {}" | us agg ms g k where "finishing_at n reg ca l d st X A0 adr c0 us agg ms g k C"
    using I unfolding round_at_def by blast
  then show ?thesis
  proof cases
    case 1
    obtain s where s: "mget C A0 = Some s" "models n reg s c0 \<and> network (world s) = []" using 1 unfolding starting_def by (rule spread_exists)
    then show ?thesis using desk_possible [OF settingD(1) [OF S]] home_possible [OF s(1)] stuck by blast
  qed (use collecting_at_progress [OF S] finishing_at_over [OF S _ stuck] stuck in blast)+
qed

section \<open>Termination\<close>

lemma round_dsteps:
  assumes S: "setting n reg ca l d st X A0 adr c0" and "dstep\<^sup>*\<^sup>* C C'" "round_at n reg ca l d st X A0 adr c0 M ph w C"
  shows "\<exists>ph' w'. round_at n reg ca l d st X A0 adr c0 M ph' w' C'"
  using assms(2,3)
proof (induction rule: rtranclp_induct)
  case (step C1 C2)
  then show ?case using round_dstep [OF S _ step.hyps(2)] by blast
qed blast

lemma round_ends:
  assumes S: "setting n reg ca l d st X A0 adr c0" and "round_at n reg ca l d st X A0 adr c0 M ph w C"
  shows "\<not> (\<exists>f. f 0 = C \<and> (\<forall>k. dstep (f k) (f (Suc k)))) \<and> (\<exists>C'. dstep\<^sup>*\<^sup>* C C' \<and> (\<nexists>C''. dstep C' C''))"
proof (rule measured_ends [where I = "\<lambda>x. round_at n reg ca l d st X A0 adr c0 M (fst x) (snd x)" and x = "(ph, w)"
      and m = "\<lambda>x C. (fst x, snd x, pumps A0 adr (keys (sensors st)) C)" and R = "less_than <*lex*> less_than <*lex*> less_than"])
  fix x C C' assume "round_at n reg ca l d st X A0 adr c0 M (fst x) (snd x) C" "dstep C C'"
  then obtain ph' w' where "round_at n reg ca l d st X A0 adr c0 M ph' w' C'" "lowers A0 adr st C' ph' w' C (fst x) (snd x)"
    using round_dstep [OF S] by blast
  then show "\<exists>y. round_at n reg ca l d st X A0 adr c0 M (fst y) (snd y) C' \<and>
      ((fst y, snd y, pumps A0 adr (keys (sensors st)) C'), fst x, snd x, pumps A0 adr (keys (sensors st)) C) \<in> less_than <*lex*> less_than <*lex*> less_than"
    by (intro exI [of _ "(ph', w')"]) (auto simp: lowers_def)
qed (use assms(2) in \<open>simp_all add: wf_lex_prod\<close>)

section \<open>Properties\<close>

text \<open>
  What a cluster starts a round from: in the coordinator's process the state of \<open>desk\<close>; in each sensor's process the sensor alone, idle and with nothing to do; no request
  under way.
\<close>

definition cluster_begins :: "string \<Rightarrow> (string \<Rightarrow> string) \<Rightarrow> nat \<Rightarrow> nat \<Rightarrow> nat \<Rightarrow> sensor_factory CoordinatorActor \<Rightarrow> (string \<Rightarrow> SensorActor) \<Rightarrow> cluster \<Rightarrow> bool" where
  "cluster_begins A0 adr ca l d st X C \<longleftrightarrow> placed A0 adr (keys (sensors st)) \<and>
    spread A0 adr (keys (sensors st))
      (\<lambda>s. all_running s \<and> network (world s) = [] \<and> desk (length (heap s)) (actors s) ca l d st X adr (config_of s))
      (\<lambda>i s. remote_fit st A0 (X i) \<and> all_running s \<and> length (heap s) = 1 \<and> actors s = [(i, 0)] \<and> actor (ent s 0) = ASensor (X i) \<and>
        behaviorStack (ent s 0) = [] \<and> contents (mbox (ent s 0)) = [] \<and> network (world s) = [] \<and> filter is_training (tasks (world s)) = []) C"

lemma cluster_begins_at:
  assumes B: "cluster_begins A0 adr ca l d st X C" and s: "mget C A0 = Some s"
  shows "setting (length (heap s)) (actors s) ca l d st X A0 adr (config_of s)" "round_at (length (heap s)) (actors s) ca l d st X A0 adr (config_of s) {} 2 0 C"
proof -
  have pl: "placed A0 adr (keys (sensors st))" and sp: "spread A0 adr (keys (sensors st))
      (\<lambda>s. all_running s \<and> network (world s) = [] \<and> desk (length (heap s)) (actors s) ca l d st X adr (config_of s))
      (\<lambda>i s. remote_fit st A0 (X i) \<and> all_running s \<and> length (heap s) = 1 \<and> actors s = [(i, 0)] \<and> actor (ent s 0) = ASensor (X i) \<and>
        behaviorStack (ent s 0) = [] \<and> contents (mbox (ent s 0)) = [] \<and> network (world s) = [] \<and> filter is_training (tasks (world s)) = []) C"
    using B by (simp_all add: cluster_begins_def del: set_map)
  note h = spreadD(1) [OF sp s]
  have "remote_fit st A0 (X i)" if i: "i \<in> set (keys (sensors st))" for i using spread_sensor [OF sp i] by blast
  then show S: "setting (length (heap s)) (actors s) ca l d st X A0 adr (config_of s)" unfolding setting_def using h pl by blast
  have "starting (length (heap s)) (actors s) st X A0 adr (config_of s) C"
    unfolding starting_def spread_def
  proof (intro conjI ballI allI impI)
    show "\<exists>r. mget C A0 = Some r \<and> models (length (heap s)) (actors s) r (config_of s) \<and> network (world r) = []" using s h models_config_of by blast
    show "\<exists>r. mget C (adr i) = Some r \<and> at_leg st A0 (no_weights st) (X i) Requested r" if i: "i \<in> set (keys (sensors st))" for i
    proof -
      obtain r where r: "mget C (adr i) = Some r" "remote_fit st A0 (X i) \<and> all_running r \<and> length (heap r) = 1 \<and> actors r = [(i, 0)] \<and> actor (ent r 0) = ASensor (X i) \<and>
          behaviorStack (ent r 0) = [] \<and> contents (mbox (ent r 0)) = [] \<and> network (world r) = [] \<and> filter is_training (tasks (world r)) = []"
        by (rule spread_sensor [OF sp i])
      then have "models 1 [(i, 0)] r (config_of r)" using models_config_of [of r] by simp
      then have "site i (ASensor (X i), [], []) [] [] r" by (rule siteI) (use r(2) in \<open>simp_all add: view_def config_of_def\<close>)
      then show ?thesis using r(1) settingD(4) [OF S i] by (simp add: leg_simps)
    qed
    show "a = A0 \<or> a \<in> adr ` set (keys (sensors st))" if "mget C a \<noteq> None" for a using that spreadD(3) [OF sp] by blast
  qed
  then show "round_at (length (heap s)) (actors s) ca l d st X A0 adr (config_of s) {} 2 0 C" by (rule round_atI(1))
qed

text \<open>
  C4: a round over several processes always completes. Start from a cluster with the coordinator, the logger and the device controller in one process and each registered sensor alone in a
  process of its own, all running, where a \<^verbatim>\<open>StartRound\<close> message waits for the coordinator and nothing else is under way; the sensors are idle and have data and a network
  of the right size, and the global weights, which have to go through JSON, are finite. Then, however the processes interleave and in whatever order the network delivers the requests, as long as it
  loses none, the cluster does not run forever, and when nothing is left to do the round is over: the global weights are the federated average of the updates that the sensors trained, each exactly once; the
  log has the report of the round and the devices have the targets of the new model; every sensor is idle again, and has the new weights if they are finite; if they are not, JSON cannot
  encode them, the message arrives without a payload and the sensor keeps the weights that it trained from. No message is left in any mailbox or on the network, and no actor has failed.
\<close>

theorem distributed_round_completes:
  assumes "cluster_begins A0 adr ca l d st X C"
  shows "\<not> (\<exists>f. f 0 = C \<and> (\<forall>k. dstep (f k) (f (Suc k)))) \<and> (\<exists>C'. dstep\<^sup>*\<^sup>* C C' \<and> (\<nexists>C''. dstep C' C'')) \<and>
    (\<forall>C'. dstep\<^sup>*\<^sup>* C C' \<longrightarrow> (\<nexists>C''. dstep C' C'') \<longrightarrow> cluster_over A0 adr ca l d st X C')"
proof -
  obtain s where "mget C A0 = Some s" using assms unfolding cluster_begins_def by (elim conjE spread_exists)
  note B = cluster_begins_at [OF assms this]
  have "cluster_over A0 adr ca l d st X C'" if "dstep\<^sup>*\<^sup>* C C'" "\<nexists>C''. dstep C' C''" for C'
    using round_dsteps [OF B(1) that(1) B(2)] stuck_cluster_over [OF B(1) _ that(2)] by blast
  then show ?thesis using round_ends [OF B] by blast
qed

text \<open>An example: the coordinator's process, and one sensor with one sample in another.\<close>

definition scene_coordinator :: "sensor_factory CoordinatorActor" where
  "scene_coordinator = (SetTrainingConfig 5 (FNum (1 / 128)) (NewCoordinatorActor ''coordinator'' ''logger'' ''device-ctrl'' 75))
     \<lparr>sensors := [(''sensor-1'', \<lparr>infoRoomID = ''kitchen'', infoNumSamples = 1\<rparr>)], sensorRemoteRefs := [(''sensor-1'', RemoteRef ''sensor-1'' ''kitchen:50052'')],
      globalWeights := SList (replicate 75 (FNum 1))\<rparr>"

definition scene_sensor :: SensorActor where
  "scene_sensor = (NewSensorActor (\<lambda>_. FNum 1) ''sensor-1'' ''kitchen'' ''coordinator'' [\<lparr>Features = replicate 5 (FNum 1), Target = replicate 3 (FNum 1), RoomID = ''kitchen''\<rparr>])
     \<lparr>coordinatorRef := Some (RemoteRef ''coordinator'' ''coordinator:50051'')\<rparr>"

definition scene_process :: "(ActorID \<times> home_actor \<times> home_message list) list \<Rightarrow> home" where
  "scene_process xs =
    \<lparr>heap = map (\<lambda>(i, x, ms). let en = new_entry x DefaultSpawnOptions in en\<lparr>phase := Running, mbox := (mbox en)\<lparr>ch := ms\<rparr>\<rparr>) xs,
     actors = zip (map fst xs) [0..<length xs], shut = False, wg = length xs, replies = [],
     world = \<lparr>disk = [], io = [], tasks = [], network = [], rng = (\<lambda>_. 0)\<rparr>\<rparr>"

definition scene_cluster :: cluster where
  "scene_cluster =
    [(''coordinator:50051'', scene_process [(''logger'', ALogger (NewLoggerActor ''logger''), []), (''device-ctrl'', ADevice (NewDeviceControllerActor ''device-ctrl''), []),
       (''coordinator'', ACoordinator scene_coordinator, [mkMessage MsgStartRound (Dyn StartRoundPayload) ''''])]),
     (''kitchen:50052'', scene_process [(''sensor-1'', ASensor scene_sensor, [])])]"

lemma scene_process_simps:
  "length (heap (scene_process xs)) = length xs" "actors (scene_process xs) = zip (map fst xs) [0..<length xs]"
  "network (world (scene_process xs)) = []" "tasks (world (scene_process xs)) = []"
  "a < length xs \<Longrightarrow> actor (ent (scene_process xs) a) = fst (snd (xs ! a)) \<and> behaviorStack (ent (scene_process xs) a) = [] \<and>
    contents (mbox (ent (scene_process xs) a)) = snd (snd (xs ! a)) \<and> phase (ent (scene_process xs) a) = Running"
  by (simp_all add: scene_process_def new_entry_def DefaultSpawnOptions_def NewMailbox_def NewUnboundedMailbox_def contents_def Let_def split: prod.split)

lemma scene_process_running: "\<forall>x\<in>set xs. length (snd (snd x)) \<le> 1 \<Longrightarrow> all_running (scene_process xs)"
  unfolding all_running_def scene_process_simps(1)
proof (intro allI impI)
  fix a assume x: "\<forall>x\<in>set xs. length (snd (snd x)) \<le> 1" "a < length xs"
  then have "length (snd (snd (xs ! a))) \<le> 1" by (meson nth_mem)
  moreover obtain i y ms where "xs ! a = (i, y, ms)" by (cases "xs ! a")
  ultimately show "phase (ent (scene_process xs) a) = Running \<and> ready (contents (mbox (ent (scene_process xs) a))) (mbox (ent (scene_process xs) a))"
    using x(2) by (simp add: scene_process_def new_entry_def DefaultSpawnOptions_def NewMailbox_def NewUnboundedMailbox_def contents_def Let_def ready_def
        mailbox_inv_def DefaultMailboxSize_def split: prod.split)
qed

lemma scene_parts:
  "coordID scene_coordinator = ''coordinator''" "keys (sensors scene_coordinator) = [''sensor-1'']" "length (sensors scene_coordinator) = 1" "sensors scene_coordinator \<noteq> []"
  "mget (sensorRemoteRefs scene_coordinator) ''sensor-1'' = Some (RemoteRef ''sensor-1'' ''kitchen:50052'')"
  "loggerRef scene_coordinator = ''logger''" "deviceRef scene_coordinator = ''device-ctrl''" "globalWeights scene_coordinator = SList (replicate 75 (FNum 1))"
  "roundNo scene_coordinator = 0" "sensorID scene_sensor = ''sensor-1''" "length (trainData scene_sensor) = 1"
  "json_safe (request scene_coordinator)" "remote_fit scene_coordinator ''coordinator:50051'' scene_sensor"
proof -
  show "json_safe (request scene_coordinator)"
    by (simp add: json_safe_def request_def next_round_def scene_coordinator_def NewCoordinatorActor_def SetTrainingConfig_def finite_f64_def in_int64_def list_all_iff)
  have "sensor_fit scene_coordinator scene_sensor"
    by (simp add: sensor_fit_def scene_sensor_def NewSensorActor_def scene_coordinator_def NewCoordinatorActor_def SetTrainingConfig_def wf_NewMLP fits_def)
      (simp add: NumWeights_def NewMLP_def Let_def)
  then show "remote_fit scene_coordinator ''coordinator:50051'' scene_sensor"
    by (simp add: remote_fit_def) (simp add: scene_sensor_def NewSensorActor_def scene_coordinator_def NewCoordinatorActor_def SetTrainingConfig_def)
qed (simp_all add: scene_coordinator_def scene_sensor_def NewCoordinatorActor_def SetTrainingConfig_def NewSensorActor_def)

lemma scene_begins: "cluster_begins ''coordinator:50051'' (\<lambda>_. ''kitchen:50052'') 2 0 1 scene_coordinator (\<lambda>_. scene_sensor) scene_cluster"
proof -
  let ?home = "[(''logger'', ALogger (NewLoggerActor ''logger''), []), (''device-ctrl'', ADevice (NewDeviceControllerActor ''device-ctrl''), []),
      (''coordinator'', ACoordinator scene_coordinator, [mkMessage MsgStartRound (Dyn StartRoundPayload) ''''])] :: (ActorID \<times> home_actor \<times> home_message list) list"
  let ?site = "[(''sensor-1'', ASensor scene_sensor, [])] :: (ActorID \<times> home_actor \<times> home_message list) list"
  have run: "all_running (scene_process ?home)" "all_running (scene_process ?site)" by (rule scene_process_running, simp)+
  have reg: "actors (scene_process ?home) = [(''logger'', 0), (''device-ctrl'', 1), (''coordinator'', 2)]" "actors (scene_process ?site) = [(''sensor-1'', 0)]"
    by (simp_all add: scene_process_simps(2) upt_rec)
  have less3: "a < 3 \<longleftrightarrow> a = 0 \<or> a = 1 \<or> a = 2" for a :: nat by auto
  have e: "actor (ent (scene_process ?home) a) = fst (snd (?home ! a)) \<and> behaviorStack (ent (scene_process ?home) a) = [] \<and>
      contents (mbox (ent (scene_process ?home) a)) = snd (snd (?home ! a))" if "a < 3" for a
    using scene_process_simps(5) [of a ?home] that by simp
  have crew: "crew scene_coordinator (\<lambda>_. scene_sensor)"
    using scene_parts(2,4,10,11,13) by (simp add: crew_def remote_fit_def)
  have office: "office (actors (scene_process ?home)) 0 1 scene_coordinator" unfolding reg office_def using scene_parts(6-8) by simp
  have "desk 3 (actors (scene_process ?home)) 2 0 1 scene_coordinator (\<lambda>_. scene_sensor) (\<lambda>_. ''kitchen:50052'') (config_of (scene_process ?home))"
    unfolding desk_def using crew office scene_parts(1,2,3,5,12) e [of 0] e [of 1] e [of 2]
    by (simp add: view_def config_of_def reg less3 DefaultMailboxSize_def scene_process_simps(4))
  moreover have len: "length (heap (scene_process ?home)) = 3" by (simp add: scene_process_simps(1))
  ultimately have "desk (length (heap (scene_process ?home))) (actors (scene_process ?home)) 2 0 1 scene_coordinator (\<lambda>_. scene_sensor) (\<lambda>_. ''kitchen:50052'') (config_of (scene_process ?home))"
    by (simp only: len)
  then show ?thesis
    unfolding cluster_begins_def placed_def spread_def scene_parts(2) scene_cluster_def
    using run scene_parts(13) scene_process_simps(5) [of 0 ?site] by (simp add: scene_process_simps(1,3,4) reg)
qed

theorem distributed_round_completes_witness:
  "\<exists>C' s lg rd. dstep\<^sup>*\<^sup>* scene_cluster C' \<and> mget C' ''coordinator:50051'' = Some s \<and> actor (ent s 0) = ALogger lg \<and> LastRound lg = Some rd \<and> pRoundID rd = 1"
proof -
  note T = distributed_round_completes [OF scene_begins]
  obtain C' where C': "dstep\<^sup>*\<^sup>* scene_cluster C'" "\<nexists>C''. dstep C' C''" using T by blast
  then have "cluster_over ''coordinator:50051'' (\<lambda>_. ''kitchen:50052'') 2 0 1 scene_coordinator (\<lambda>_. scene_sensor) C'" using T by blast
  then obtain us ms s lg where "mget C' ''coordinator:50051'' = Some s" "actor (ent s 0) = ALogger lg" "LastRound lg = Some (report scene_coordinator us ms)"
    unfolding cluster_over_def by blast
  moreover have "pRoundID (report scene_coordinator us ms) = 1" by (simp add: report_def next_round_def scene_parts(9) in_int64_def)
  ultimately show ?thesis using C'(1) by blast
qed

end
