(* ===== verification/Loss.thy ===== *)
theory Loss
  imports ClusterRound
begin

text \<open>
  What becomes of a round over several processes when the network loses a request of it. The coordinator has no timer, and a remote send reports no
  error: the round stays open.
\<close>

section \<open>A lost request\<close>

text \<open>The round \<open>st\<close> started is not finished: the old weights are in place and the logger at \<open>l\<close> has no report.\<close>

definition stalled :: "string \<Rightarrow> nat \<Rightarrow> nat \<Rightarrow> sensor_factory CoordinatorActor \<Rightarrow> home_actor \<Rightarrow> cluster \<Rightarrow> bool" where
  "stalled A0 ca l st lg C \<longleftrightarrow> (\<exists>s st'. mget C A0 = Some s \<and> actor (ent s ca) = ACoordinator st' \<and> roundNo st' = next_round st \<and>
    globalWeights st' = globalWeights st \<and> length (pendingUpdates st') < length (sensors st) \<and> actor (ent s l) = lg)"

lemma lost_cases:
  assumes "cluster_step C (CLose a b req) C'"
  obtains s before after where "mget C a = Some s" "network (world s) = before @ (b, req) # after" "C' = mput a (carried (before @ after) s) C"
  using assms by (cases rule: cluster_step.cases) (rule that)

text \<open>While the round collects, a request to a sensor is lost, or the update of one.\<close>

lemma lost_request:
  assumes S: "setting n reg ca l d st X A0 adr c0" and C: "collecting_at n reg ca st X A0 adr c0 t g gi qi C" and A: "absent st g = {}"
    and s: "mget C A0 = Some s" "network (world s) = before @ (b, req) # after"
  shows "\<exists>i g'. i \<in> absent st g' \<and> collecting_at n reg ca st X A0 adr c0 t g' gi qi (mput A0 (carried (before @ after) s) C)"
proof -
  note x = settingD [OF S] and y = collecting_atD [OF C]
  obtain c where c: "models n reg s c" "gathering n reg ca st X c0 t gi qi c" "mail adr (start_msg st) (on_leg st g Requested) s"
    using spreadD(1) [OF y(1) s(1)] by blast
  obtain i where i: "i \<in> on_leg st g Requested" "mail adr (start_msg st) (on_leg st g Requested - {i}) (carried (before @ after) s)"
    using mail_taken [OF c(3) s(2)] by blast
  have ii: "i \<in> set (keys (sensors st))" "g i = Requested" using i(1) by (simp_all add: on_leg_iff del: set_map)
  have "at_leg st A0 (no_weights st) (X j) ((g(i := Missed)) j) r" if "at_leg st A0 (no_weights st) (X j) (g j) r" for j r
    using that ii(2) by (cases "j = i") (simp_all add: leg_simps)
  then have sp: "spread A0 adr (keys (sensors st)) (\<lambda>s. (\<exists>c. models n reg s c \<and> gathering n reg ca st X c0 t gi qi c) \<and> mail adr (start_msg st) (on_leg st g Requested - {i}) s)
      (sensors_at st X A0 (no_weights st) (g(i := Missed))) (mput A0 (carried (before @ after) s) C)"
    using models_carried [OF c(1)] c(2) i(2) by (intro spread_mput_home [OF x(2)] spread_mono [OF y(1)]) blast+
  have "collecting_at n reg ca st X A0 adr c0 t (g(i := Missed)) gi qi (mput A0 (carried (before @ after) s) C)"
    unfolding collecting_at_def using sp y(2-6) ii(2) by (simp add: on_leg_upd [OF ii(1)]) (auto simp: on_leg_def)
  moreover have "i \<in> absent st (g(i := Missed))" using ii(1) by (simp add: absent_def on_leg_iff del: set_map)
  ultimately show ?thesis by blast
qed

lemma lost_update:
  assumes S: "setting n reg ca l d st X A0 adr c0" and C: "collecting_at n reg ca st X A0 adr c0 t g gi qi C"
    and i: "i \<in> set (keys (sensors st))" and s: "mget C (adr i) = Some s" "network (world s) = before @ (b, req) # after"
  shows "\<exists>j g'. j \<in> absent st g' \<and> collecting_at n reg ca st X A0 adr c0 t g' gi qi (mput (adr i) (carried (before @ after) s) C)"
proof -
  note x = settingD [OF S] and y = collecting_atD [OF C] and lg = leg_sends [OF spreadD(2) [OF y(1) i s(1)] s(2)]
  have "at_leg st A0 (no_weights st) (X i) Reported (carried (before @ after) s)" using lg by blast
  then have "at_leg st A0 (no_weights st) (X i) Unheard (carried (before @ after) s)" by (simp add: leg_simps)
  then have sp: "spread A0 adr (keys (sensors st)) (\<lambda>s. (\<exists>c. models n reg s c \<and> gathering n reg ca st X c0 t gi qi c) \<and> mail adr (start_msg st) (on_leg st g Requested) s)
      (sensors_at st X A0 (no_weights st) (g(i := Unheard))) (mput (adr i) (carried (before @ after) s) C)"
    by (intro spread_mput_sensor [OF x(2) y(1) i]) simp_all
  have gi: "g i = Sending" using lg by blast
  then have "on_leg st (g(i := Unheard)) q = on_leg st g q" if "q \<in> {Requested, Reported, Informed, Updated}" for q using that by (auto simp: on_leg_def)
  then have "collecting_at n reg ca st X A0 adr c0 t (g(i := Unheard)) gi qi (mput (adr i) (carried (before @ after) s) C)"
    unfolding collecting_at_def using sp y(2-6) by simp
  moreover have "i \<in> absent st (g(i := Unheard))" using i by (simp add: absent_def on_leg_iff del: set_map)
  ultimately show ?thesis by blast
qed

lemma loss_absent:
  assumes S: "setting n reg ca l d st X A0 adr c0" and I: "round_at n reg ca l d st X A0 adr c0 {} ph w C" and lose: "cluster_step C (CLose a b req) C'"
    and ty: "reqMsgType req \<noteq> MsgGlobalModelUpdate"
  shows "\<exists>M w'. M \<noteq> {} \<and> round_at n reg ca l d st X A0 adr c0 M 1 w' C'"
proof -
  obtain s before after where s: "mget C a = Some s" "network (world s) = before @ (b, req) # after" "C' = mput a (carried (before @ after) s) C"
    by (rule lost_cases [OF lose])
  consider "starting n reg st X A0 adr c0 C"
    | t g gi qi where "collecting_at n reg ca st X A0 adr c0 t g gi qi C" "absent st g = {}" | us agg ms g k where "finishing_at n reg ca l d st X A0 adr c0 us agg ms g k C"
    using I unfolding round_at_def by blast
  then show ?thesis
  proof cases
    case 1
    note sp = 1 [unfolded starting_def]
    from spreadD(3) [OF sp s(1)] show ?thesis
    proof (elim disjE bexE)
      assume "a = A0"
      then show ?thesis using spreadD(1) [OF sp] s(1,2) by auto
    next
      fix i assume "i \<in> set (keys (sensors st))" "a = adr i"
      then show ?thesis using leg_sends [OF spreadD(2) [OF sp, of i s], of before b req after] s(1,2) by simp
    qed
  next
    case 2
    from spreadD(3) [OF collecting_atD(1) [OF 2(1)] s(1)] have "\<exists>i g'. i \<in> absent st g' \<and> collecting_at n reg ca st X A0 adr c0 t g' gi qi C'"
    proof (elim disjE bexE)
      assume "a = A0"
      then show ?thesis using lost_request [OF S 2] s by simp
    next
      fix i assume i: "i \<in> set (keys (sensors st))" "a = adr i"
      from lost_update [OF S 2(1) i(1) s(1) [unfolded i(2)] s(2)] show ?thesis unfolding s(3) i(2) .
    qed
    then obtain i g' where n: "i \<in> absent st g'" "collecting_at n reg ca st X A0 adr c0 t g' gi qi C'" by blast
    have "absent st g' \<noteq> {}" using n(1) by blast
    then show ?thesis using round_atI(2) [OF n(2) refl, of l d] by (intro exI conjI)
  next
    case 3
    note y = finishing_atD [OF 3]
    from spreadD(3) [OF y(1) s(1)] show ?thesis
    proof (elim disjE bexE)
      assume a: "a = A0"
      have "mail adr (global_msg st us agg) (on_leg st g Reported) s" using spreadD(1) [OF y(1)] s(1) a by blast
      then obtain i where "req = marshalTell i (global_msg st us agg)" using mail_taken s(2) by blast
      then show ?thesis using ty by (simp add: marshalTell_def global_type)
    next
      fix i assume i: "i \<in> set (keys (sensors st))" "a = adr i"
      then show ?thesis using leg_sends [OF spreadD(2) [OF y(1) i(1)] s(2)] s(1) finishing_legs [OF 3 i(1)] by auto
    qed
  qed
qed

text \<open>With an absent sensor the coordinator goes on collecting.\<close>

lemma absent_stalled:
  assumes S: "setting n reg ca l d st X A0 adr c0" and I: "round_at n reg ca l d st X A0 adr c0 M ph w C" and M: "M \<noteq> {}"
  shows "stalled A0 ca l st (cact c0 l) C"
proof -
  obtain t g gi qi where c: "collecting_at n reg ca st X A0 adr c0 t g gi qi C" using I M unfolding round_at_def by blast
  note y = collecting_atD [OF c] and b = deskD [OF settingD(1) [OF S]]
  obtain s where s: "mget C A0 = Some s" "(\<exists>c. models n reg s c \<and> gathering n reg ca st X c0 t gi qi c) \<and> mail adr (start_msg st) (on_leg st g Requested) s"
    by (rule spread_exists [OF y(1)])
  then obtain c where c: "models n reg s c" "gathering n reg ca st X c0 t gi qi c" by blast
  let ?st = "(started st t)\<lparr>pendingUpdates := filed (map (\<lambda>i. update_of st (X i)) gi)\<rparr>"
  have "actor (ent s ca) = ACoordinator ?st" using modelsD(5) [OF c(1) b(4)] gatheringD(1) [OF c(2)] by simp
  moreover have "actor (ent s l) = cact c0 l" using modelsD(5) [OF c(1) b(11)] gatheringD(4) [OF c(2) b(11)] b(19) by (simp add: view_def)
  ultimately show ?thesis unfolding stalled_def using s(1) y(6) by (intro exI [of _ s] exI [of _ ?st]) (simp add: started_def filed_def)
qed

section \<open>Properties\<close>

text \<open>
  C22: a lost request stalls the round. If the network loses a request to train, or the update of a sensor, anywhere in the run of a round over several processes,
  then whatever happens afterwards, as far as the program acts of itself, the round is never finished: the coordinator is in the new round with the old weights and with fewer updates than
  sensors, and the logger has what it had. The other sensors still train and report, and then nothing moves any more: the actors have no timeout and do not ask again; only the next \<^verbatim>\<open>StartRound\<close>, which drops what was
  collected, starts anew.
\<close>

theorem lost_request_stalls_round:
  assumes "cluster_begins A0 adr ca l d st X C" "dstep\<^sup>*\<^sup>* C C1" "cluster_step C1 (CLose a b req) C2" "reqMsgType req \<noteq> MsgGlobalModelUpdate"
  shows "\<not> (\<exists>f. f 0 = C2 \<and> (\<forall>k. dstep (f k) (f (Suc k)))) \<and> (\<exists>C'. dstep\<^sup>*\<^sup>* C2 C' \<and> (\<nexists>C''. dstep C' C'')) \<and>
    (\<forall>C'. dstep\<^sup>*\<^sup>* C2 C' \<longrightarrow> stalled A0 ca l st (actor (ent (the (mget C A0)) l)) C')"
proof -
  obtain s where s: "mget C A0 = Some s" using assms(1) unfolding cluster_begins_def by (elim conjE spread_exists)
  note B = cluster_begins_at [OF assms(1) s]
  obtain ph w where "round_at (length (heap s)) (actors s) ca l d st X A0 adr (config_of s) {} ph w C1" using round_dsteps [OF B(1) assms(2) B(2)] by blast
  then obtain M w' where M: "M \<noteq> {}" "round_at (length (heap s)) (actors s) ca l d st X A0 adr (config_of s) M 1 w' C2"
    using loss_absent [OF B(1) _ assms(3,4)] by blast
  have "stalled A0 ca l st (cact (config_of s) l) C'" if "dstep\<^sup>*\<^sup>* C2 C'" for C'
    using round_dsteps [OF B(1) that M(2)] absent_stalled [OF B(1) _ M(1)] by blast
  then show ?thesis using round_ends [OF B(1) M(2)] s by (simp add: config_of_def)
qed

theorem lost_request_stalls_round_witness:
  "\<exists>C1 C2 C' s st. dstep scene_cluster C1 \<and> (\<exists>req. cluster_step C1 (CLose ''coordinator:50051'' ''kitchen:50052'' req) C2) \<and> dstep\<^sup>*\<^sup>* C2 C' \<and> (\<nexists>C''. dstep C' C'') \<and>
    mget C' ''coordinator:50051'' = Some s \<and> actor (ent s 2) = ACoordinator st \<and> pendingUpdates st = [] \<and> globalWeights st = SList (replicate 75 (FNum 1))"
proof -
  let ?A0 = "''coordinator:50051''" and ?X = "\<lambda>_ :: string. scene_sensor" and ?adr = "\<lambda>_ :: string. ''kitchen:50052''" and ?C = scene_cluster and ?st = scene_coordinator
  obtain s where s: "mget ?C ?A0 = Some s" "receive (mbox (ent s 2)) \<noteq> WouldBlock" "network (world s) = []" "all_running s"
    using scene_begins by (auto simp: cluster_begins_def spread_def) (auto simp: scene_cluster_def scene_process_def receive_def new_entry_def)
  note B = cluster_begins_at [OF scene_begins s(1)]
  note D = settingD(1) [OF B(1)] and M = models_config_of [OF s(4)]
  have "receive (mbox (ent s 2)) \<noteq> ChanClosed" using ready_not_closed modelsD(7) [OF M deskD(4) [OF D]] by blast
  then obtain m mb where rc: "receive (mbox (ent s 2)) = Received m mb" using s(2) by (cases "receive (mbox (ent s 2))") auto
  obtain s' where s': "run_receive home_ops \<lparr>now = 0, iter = (\<lambda>ks. ks)\<rparr> 2 s = Done s'" "mail ?adr (start_msg ?st) (set (keys (sensors ?st))) s'"
    using desk_turn [OF D M s(3) rc env_ok_any] by blast
  let ?C1 = "mput ?A0 s' ?C"
  have st1: "dstep ?C ?C1" using dstep_here [OF s(1) turn_possible [OF M deskD(4) [OF D] s'(1) env_ok_any]] .
  have "''sensor-1'' \<in> set (keys (sensors ?st))" by (simp add: scene_parts(2) del: set_map)
  from mail_waits [OF s'(2) this] obtain before after where n: "network (world s') = before @ (''kitchen:50052'', marshalTell ''sensor-1'' (start_msg ?st)) # after" by blast
  let ?C2 = "mput ?A0 (carried (before @ after) s') ?C1"
  have "mget ?C1 ?A0 = Some s'" by simp
  from cluster_step.lose [OF this n] have ls: "cluster_step ?C1 (CLose ?A0 ''kitchen:50052'' (marshalTell ''sensor-1'' (start_msg ?st))) ?C2" .
  have ty: "reqMsgType (marshalTell ''sensor-1'' (start_msg ?st)) \<noteq> MsgGlobalModelUpdate" by (simp add: marshalTell_def start_msg_def mkMessage_def)
  note T = lost_request_stalls_round [OF scene_begins r_into_rtranclp [of dstep, OF st1] ls ty]
  obtain C' where C': "dstep\<^sup>*\<^sup>* ?C2 C'" "\<nexists>C''. dstep C' C''" using T by blast
  then have "stalled ?A0 2 0 ?st (actor (ent (the (mget ?C ?A0)) 0)) C'" using T by blast
  then obtain r st' where "mget C' ?A0 = Some r" "actor (ent r 2) = ACoordinator st'" "pendingUpdates st' = []" "globalWeights st' = globalWeights ?st"
    by (auto simp: stalled_def scene_parts(3))
  then show ?thesis using st1 ls C' scene_parts(8) by metis
qed

end
