(* ===== verification/Spec2Isabelle.thy ===== *)
theory Spec2Isabelle
  imports Mlp_Gradient CoordinatorService SensorService DemoReport Round Loss
begin

text \<open>
  A verification of Agenti: an actor framework in Go, and a smart home on top of it in which sensor actors train a neural network by federated
  learning.

  \<^bold>\<open>The program.\<close> An actor system keeps a registry of actors; each has a mailbox and a goroutine that handles one message after the other. An actor
  that panics is taken out of the registry and reported to its supervisor, which restarts it from a factory as its strategy says. Actors of
  other processes are reached through remote references that marshal messages. In the smart home a coordinator starts rounds: it sends the global
  weights to the sensors, each trains its network on its own data in a background goroutine and sends the weights back, and the coordinator
  averages them, logs the round and tells a device controller the environment that the new model prescribes. An evaluator measures the
  model. Sensors, coordinator, logger and device controller save their state in files and load it when they start. The demo runs all actors in one process; the
  services run the coordinator and each sensor in a process of its own.

  \<^bold>\<open>How the theories correspond to the code\<close> (paths under \<^verbatim>\<open>src/\<close>; definitions have the names of the Go functions, with a prefix where two actors
  share a method name, as in \<open>sensor_Receive\<close>):

  \<^item> \<open>Prelude\<close>: what the models share. Go maps as association lists with distinct keys, the order of iteration and the clock as an explicit
    environment \<open>go_env\<close>, 64-bit wrap-around, indexing that may panic, counted loops, labelled runs of step relations.
  \<^item> \<open>GoFloat\<close>: \<^verbatim>\<open>float64\<close> with its rounding, infinities, NaN and signed zeros. Functions that are proved for all number types (network, averaging) are
    polymorphic and used both at \<open>f64\<close> and at the reals.
  \<^item> \<open>Mailbox\<close> (\<^verbatim>\<open>actor-framework/mailbox.go\<close>), \<open>Actor\<close> (\<^verbatim>\<open>actor.go\<close>, \<^verbatim>\<open>context.go\<close>), \<open>ActorSystem\<close> (\<^verbatim>\<open>system.go\<close>): the
    framework. The system is a record with a heap of entries; \<open>run_start\<close>, \<open>run_receive\<close>, \<open>run_stop\<close> are what a goroutine does between two waits and
    \<open>sys_step\<close> interleaves them. The locale \<open>actor_contract\<close> is what the framework expects of an implementation of the \<^verbatim>\<open>Actor\<close> interface.
  \<^item> \<open>Strategy\<close>, \<open>Supervisor\<close> (\<^verbatim>\<open>supervision/\<close>): restart strategies, failure tracker, all handlers of the supervisor; its goroutines are values that
    send their message in a later step.
  \<^item> \<open>Json\<close>, \<open>Messages\<close> (\<^verbatim>\<open>smart-home/actors/messages.go\<close>, \<^verbatim>\<open>payload.go\<close>, \<^verbatim>\<open>remote_registry.go\<close>), \<open>Remote\<close>
    (serialisation and handlers of \<^verbatim>\<open>remote/remote_ref.go\<close> and \<^verbatim>\<open>server.go\<close>), \<open>Client\<close> (their connections and the listener), \<open>Persister\<close> (\<^verbatim>\<open>persistence/persister.go\<close>): typed payloads, what \<^verbatim>\<open>encoding/json\<close> does to them,
    the transport, and files on a disk on which every call may fail.
  \<^item> \<open>Dataset\<close> (\<^verbatim>\<open>data/dataset.go\<close>), \<open>Mlp\<close>, \<open>Mlp_Gradient\<close> (\<^verbatim>\<open>model/mlp.go\<close>), \<open>Fed_Avg\<close> (\<^verbatim>\<open>model/fedavg.go\<close>), \<open>Metrics\<close>
    (\<^verbatim>\<open>evaluation/metrics.go\<close>), \<open>Svg\<close> (\<^verbatim>\<open>evaluation/svg.go\<close>): the numerical part. Random draws are arguments. \<open>Fmt\<close> has the verbs of \<^verbatim>\<open>fmt\<close> and the functions of
    \<^verbatim>\<open>strings\<close> and \<^verbatim>\<open>strconv\<close> that the program uses; \<open>Report\<close> is the text that \<^verbatim>\<open>metrics.go\<close> prints, \<open>SvgText\<close> the file that \<^verbatim>\<open>svg.go\<close> writes, byte for byte.
  \<^item> \<open>Effects\<close>: what a handler of a smart-home actor can do. A handler returns its new state, its effects in program order and the panic that ended
    it, if any; \<open>run_handler\<close> performs them on the actor system. \<open>Durable\<close>: the protocol by which four of the actors save and load their state, as a
    locale.
  \<^item> \<open>Sensor\<close>, \<open>Coordinator\<close>, \<open>Logger\<close>, \<open>DeviceController\<close>, \<open>Evaluator\<close> (the files of \<^verbatim>\<open>smart-home/actors\<close>): one theory per actor, each with
    all its handlers.
  \<^item> \<open>SmartHome\<close>: all actors in one system with their background goroutines and requests from other processes (\<open>home_step\<close>). \<open>Demo\<close>
    (\<^verbatim>\<open>cmd/demo/main.go\<close>), \<open>DemoReport\<close> (its end), \<open>Services\<close> (what the services have in common), \<open>CoordinatorService\<close>
    (\<^verbatim>\<open>cmd/coordinator-service/main.go\<close>) and \<open>SensorService\<close> (\<^verbatim>\<open>cmd/sensor-service/main.go\<close>): what the main goroutines do.
  \<^item> \<open>Turns\<close>, \<open>RoundParts\<close>, \<open>Round\<close>: a whole round as runs of the program. \<open>Turns\<close> abstracts a state to the actors, their mailboxes as plain queues, the
    goroutines and the requests to other processes, and says what a turn does to that; \<open>RoundParts\<close> has the turns of a round, \<open>Round\<close> its invariant.
  \<^item> \<open>Traffic\<close>, \<open>Cluster\<close>: several processes with a network between them that reorders and loses requests (\<open>cluster_step\<close>). \<open>Traffic\<close> has the locale \<open>message_contract\<close>: a
    property of messages that all handlers keep holds of all messages in all mailboxes. \<open>Sites\<close>, \<open>ClusterRound\<close>: a whole round over several processes, first from the side of one
    process, then as runs of the cluster; \<open>Loss\<close>: the same when a request is lost.

  \<^bold>\<open>Interfaces.\<close> Mailboxes interpret the queue locales of \<open>Mailbox\<close>. \<open>home_ops\<close>, the dispatch to the handlers of the six actors, interprets
  \<open>actor_contract\<close> (\<open>home\<close>) and \<open>message_contract\<close> (\<open>home_traffic\<close>); the reachability results about the whole program rest on them. The sensor, the coordinator, the logger and the device
  controller interpret \<open>durable\<close>.

  \<^bold>\<open>What is shown.\<close>
  \<^item> Learning: over the reals a training step is a step of gradient descent on the squared error; the average is the mean weighted by samples; in \<^verbatim>\<open>float64\<close>
    generated data lie in the unit interval, errors are not negative, targets are in their physical range.
  \<^item> Rounds: whatever the interleaving, a round of local sensors ends, with the average of all updates installed everywhere, one entry in the log and the devices set; so does a round
    whose sensors run in processes of their own, in whatever order the network delivers, where the sensors get the new weights if these are finite, but not when the network
    loses one of its requests; its
    parts in more detail: collecting and finishing a round; the state machine of the sensor; every finished training ends in one update; the
    training goroutine returns; the invariant of the coordinator; a sensor of another process joins; an evaluation is answered, and gives the same result as
    the fallback of the main program.
  \<^item> Processes: in all runs of several processes only updates with finite numbers are collected, and every registry is exact.
  \<^item> Messages: FIFO order, no loss in unbounded mailboxes, bounds and counters of bounded ones, progress of the pump; remote sends and requests equal local ones; payloads
    survive every route; a remote reference keeps to the protocol of one connection.
  \<^item> Faults: a crash is contained and reported, the supervisor restarts the actor under its ID, the new instance goes on from the saved state;
    saving is atomic; the registry is exact in every reachable state; shutdown can finish. What the strategies decide, with overflow.
  \<^item> Programs: the start of the demo and of the services, the loops of their main goroutines; the chart, whose printed points lie inside its axes; the
    convergence table, which shows all results without loss.
  \<^item> Errors: where the code panics or gives up, the theorems say so (too few weights, a repeated room, an actor that is still registered, a later run of the
    demo).

  \<^bold>\<open>Bounds and fuel.\<close> No definition uses fuel. Loops are recursion on their data, \<open>for_upto\<close> on their bound, or lists of observations (polls until a
  deadline). The retry loop of a full \<open>DropOldest\<close> mailbox is a partial function, where \<^const>\<open>None\<close> is that it never returns; the lemmas say that this
  happens exactly for a mailbox without capacity. Integers are
  \<^typ>\<open>int\<close> with \<open>wrap64\<close> where Go wraps; mailbox counters are 64-bit words.

  \<^bold>\<open>Granularity.\<close> A handler call is one step: the framework runs one handler of an actor at a time, and handlers share no memory except through the
  registry, the mailboxes and the files. A handler that would block on a full channel is not scheduled until it can run through. A training goroutine
  works on the network of its sensor, which no handler touches while it runs, and is one step as well. The main goroutine of the demo calls accessors of
  actors; these are protected by mutexes in the code and read the state between two handlers.

  \<^bold>\<open>Not modelled.\<close> Logging, and the progress messages of the main programs. Reading of wall-clock time is a value of the environment. gRPC with its generated stubs: what dialling,
  listening and a remote call return are arguments, and a request that was sent either arrives or does not. The YAML decoder and \<^verbatim>\<open>strconv.ParseFloat\<close> are parameters of the programs
  (\<open>Fmt\<close> has the latter only for the notation that \<^verbatim>\<open>fmt\<close> prints). \<^verbatim>\<open>NewPersister\<close> creates a directory.

  \<^bold>\<open>Limits.\<close> The start of the demo is one run of its main goroutine, the other goroutines begin after it. A round has either local sensors or sensors of other processes, not both.
\<close>

end
